(* ===== verification/Prelude.thy ===== *)
theory Prelude imports Main "HOL-Library.Signed_Division" begin

text \<open>
  What every component shares: the C integer types of the sources as wrap-around functions on
  \<open>int\<close>, arithmetic shifts, C's truncating division, array reads and writes as list
  operations, sample-by-sample filters (\<open>scan\<close>) and the two generic interfaces (a
  stream filter with an invariant, a machine whose operations keep an invariant).

  Conventions. An \<open>int16_t\<close>, \<open>int32_t\<close> or \<open>int\<close> is an \<open>int\<close>; a \<open>size_t\<close> is a
  \<open>nat\<close>; a conversion to a narrower type, and every sum or product of \<open>int\<close>s that the type may
  not hold, is written with \<open>s16\<close>, \<open>s32\<close>, \<open>u16\<close> or \<open>u32\<close>. C leaves signed overflow undefined;
  the model wraps (as the ARM and x86 targets do), and the range lemmas say where no wrap happens.
\<close>

section \<open>Machine integers\<close>

unbundle bit_operations_syntax

named_theorems cwrap \<open>wrap-around functions that vanish\<close>
named_theorems crange \<open>ranges of machine integers\<close>

definition s16 :: "int \<Rightarrow> int" where
  "s16 x = (x + 32768) mod 65536 - 32768"

definition s32 :: "int \<Rightarrow> int" where
  "s32 x = (x + 2147483648) mod 4294967296 - 2147483648"

definition u16 :: "int \<Rightarrow> int" where
  "u16 x = x mod 65536"

definition u32 :: "int \<Rightarrow> int" where
  "u32 x = x mod 4294967296"

definition is16 :: "int \<Rightarrow> bool" where
  "is16 x \<longleftrightarrow> - 32768 \<le> x \<and> x \<le> 32767"

definition is32 :: "int \<Rightarrow> bool" where
  "is32 x \<longleftrightarrow> - 2147483648 \<le> x \<and> x \<le> 2147483647"

definition isu32 :: "int \<Rightarrow> bool" where
  "isu32 x \<longleftrightarrow> 0 \<le> x \<and> x \<le> 4294967295"

text \<open>\<open>x >> n\<close> on a signed value (arithmetic) and on a non-negative one.\<close>

definition sar :: "int \<Rightarrow> nat \<Rightarrow> int" where
  "sar x n = x div 2 ^ n"

text \<open>\<open>x << n\<close> kept in 32 bits, signed and unsigned.\<close>

definition shl32 :: "int \<Rightarrow> nat \<Rightarrow> int" where
  "shl32 x n = s32 (x * 2 ^ n)"

definition shlu32 :: "int \<Rightarrow> nat \<Rightarrow> int" where
  "shlu32 x n = u32 (x * 2 ^ n)"

lemma s16_id [simp, cwrap]: "is16 x \<Longrightarrow> s16 x = x"
  by (simp add: is16_def s16_def)

lemma s32_id [simp, cwrap]: "is32 x \<Longrightarrow> s32 x = x"
  by (simp add: is32_def s32_def)

lemma u32_id [simp, cwrap]: "isu32 x \<Longrightarrow> u32 x = x"
  by (simp add: isu32_def u32_def)

lemma is16_s16 [simp, crange]: "is16 (s16 x)"
  using pos_mod_bound [of 65536 "x + 32768"] pos_mod_sign [of 65536 "x + 32768"]
  by (simp add: is16_def s16_def)

lemma is32_s32 [simp, crange]: "is32 (s32 x)"
  using pos_mod_bound [of 4294967296 "x + 2147483648"] pos_mod_sign [of 4294967296 "x + 2147483648"]
  by (simp add: is32_def s32_def)

lemma isu32_u32 [simp, crange]: "isu32 (u32 x)"
  using pos_mod_bound [of 4294967296 x] pos_mod_sign [of 4294967296 x]
  by (simp add: isu32_def u32_def)

lemma is32_is16 [crange]: "is16 x \<Longrightarrow> is32 x"
  by (simp add: is16_def is32_def)

lemma s16_eqI: "- 32768 \<le> x \<Longrightarrow> x \<le> 32767 \<Longrightarrow> s16 x = x"
  by (rule s16_id) (simp add: is16_def)

lemma s32_eqI: "- 2147483648 \<le> x \<Longrightarrow> x \<le> 2147483647 \<Longrightarrow> s32 x = x"
  by (rule s32_id) (simp add: is32_def)

text \<open>Two values with the same residue convert to the same machine integer.\<close>

lemma s16_cong: "x mod 65536 = y mod 65536 \<Longrightarrow> s16 x = s16 y"
  unfolding s16_def by (metis mod_add_left_eq)

lemma s32_cong: "x mod 4294967296 = y mod 4294967296 \<Longrightarrow> s32 x = s32 y"
  unfolding s32_def by (metis mod_add_left_eq)

lemma s16_mod: "s16 x mod 65536 = x mod 65536"
  unfolding s16_def by (metis add_diff_cancel_right' mod_diff_left_eq)

lemma s32_mod: "s32 x mod 4294967296 = x mod 4294967296"
  unfolding s32_def by (metis add_diff_cancel_right' mod_diff_left_eq)

lemma s32_mod16: "s32 x mod 65536 = x mod 65536"
proof -
  have "s32 x mod 4294967296 mod 65536 = x mod 4294967296 mod 65536"
    by (simp only: s32_mod)
  then show ?thesis by (simp add: mod_mod_cancel)
qed

lemma s16_idem: "s16 (s16 x) = s16 x"
  by simp

lemma s16_s32 [simp]: "s16 (s32 x) = s16 x"
  by (rule s16_cong) (rule s32_mod16)

lemma s16_u32 [simp]: "s16 (u32 x) = s16 x"
  by (rule s16_cong) (simp add: u32_def mod_mod_cancel)

lemma s32_u32 [simp]: "s32 (u32 x) = s32 x"
  by (rule s32_cong) (simp add: u32_def)

lemma u32_s32 [simp]: "u32 (s32 x) = u32 x"
  by (simp add: u32_def s32_mod)

lemma s32_add_s32 [simp]: "s32 (s32 x + y) = s32 (x + y)" "s32 (x + s32 y) = s32 (x + y)"
  by (rule s32_cong, metis mod_add_left_eq s32_mod) (rule s32_cong, metis mod_add_right_eq s32_mod)

lemma s32_diff_s32 [simp]: "s32 (s32 x - y) = s32 (x - y)" "s32 (x - s32 y) = s32 (x - y)"
  by (rule s32_cong, metis mod_diff_left_eq s32_mod) (rule s32_cong, metis mod_diff_right_eq s32_mod)

lemma s16_add_s16 [simp]: "s16 (s16 x + y) = s16 (x + y)" "s16 (x + s16 y) = s16 (x + y)"
  by (rule s16_cong, metis mod_add_left_eq s16_mod) (rule s16_cong, metis mod_add_right_eq s16_mod)

lemma s16_diff_s16 [simp]: "s16 (s16 x - y) = s16 (x - y)" "s16 (x - s16 y) = s16 (x - y)"
  by (rule s16_cong, metis mod_diff_left_eq s16_mod) (rule s16_cong, metis mod_diff_right_eq s16_mod)

lemma s16_zero [simp]: "s16 0 = 0" and s32_zero [simp]: "s32 0 = 0"
  by (simp_all add: s16_def s32_def)

subsection \<open>Shifts\<close>

lemma sar_0 [simp]: "sar x 0 = x"
  by (simp add: sar_def)

lemma sar_zero [simp]: "sar 0 n = 0"
  by (simp add: sar_def)

lemma sar_mono: "x \<le> y \<Longrightarrow> sar x n \<le> sar y n"
  by (simp add: sar_def zdiv_mono1)

lemma sar_nonneg [crange]: "0 \<le> x \<Longrightarrow> 0 \<le> sar x n"
  by (simp add: sar_def pos_imp_zdiv_nonneg_iff)

lemma sar_neg: "x < 0 \<Longrightarrow> sar x n < 0"
  by (simp add: sar_def div_neg_pos_less0)

lemma sar_le_self: "0 \<le> x \<Longrightarrow> sar x n \<le> x"
  using zdiv_mono2 [of x 1 "2 ^ n"] by (simp add: sar_def)

lemma sar_ge_self: "x \<le> 0 \<Longrightarrow> x \<le> sar x n"
  using zdiv_mono2_neg [of x 1 "2 ^ n"] by (cases "x = 0") (simp_all add: sar_def)

lemma sar_less_iff: "sar x n < y \<longleftrightarrow> x < y * 2 ^ n"
proof
  assume "sar x n < y"
  then have "x div 2 ^ n + 1 \<le> y"
    by (simp add: sar_def)
  then have "(x div 2 ^ n + 1) * 2 ^ n \<le> y * 2 ^ n"
    by (rule mult_right_mono) simp
  moreover have "x < (x div 2 ^ n + 1) * 2 ^ n"
  proof -
    have "x = x div 2 ^ n * 2 ^ n + x mod 2 ^ n" by (rule div_mult_mod_eq [symmetric])
    moreover have "x mod 2 ^ n < 2 ^ n" by simp
    moreover have "(x div 2 ^ n + 1) * 2 ^ n = x div 2 ^ n * 2 ^ n + 2 ^ n"
      by (simp only: distrib_right mult_1)
    ultimately show ?thesis by linarith
  qed
  ultimately show "x < y * 2 ^ n" by linarith
next
  assume lt: "x < y * 2 ^ n"
  show "sar x n < y"
  proof (rule ccontr)
    assume "\<not> sar x n < y"
    then have "y * 2 ^ n \<le> (x div 2 ^ n) * 2 ^ n" by (simp add: sar_def)
    also have "\<dots> \<le> x"
    proof -
      have "x = x div 2 ^ n * 2 ^ n + x mod 2 ^ n" by (rule div_mult_mod_eq [symmetric])
      moreover have "0 \<le> x mod 2 ^ n" by simp
      ultimately show ?thesis by linarith
    qed
    finally show False using lt by simp
  qed
qed

lemma int_div_lt:
  fixes a b c :: int
  assumes "0 < b" "a < c * b"
  shows "a div b < c"
proof (rule ccontr)
  assume "\<not> a div b < c"
  then have "c * b \<le> a div b * b" using assms(1) by (intro mult_right_mono) simp_all
  moreover have "a = a div b * b + a mod b" by (rule div_mult_mod_eq [symmetric])
  moreover have "0 \<le> a mod b" using assms(1) by simp
  ultimately show False using assms(2) by linarith
qed

lemma sar_ge_iff: "y \<le> sar x n \<longleftrightarrow> y * 2 ^ n \<le> x"
  using sar_less_iff [of x n y] by linarith

lemma sar_between:
  assumes "- m \<le> x" "x \<le> M" "0 \<le> m" "0 \<le> M"
  shows "- m \<le> sar x n" "sar x n \<le> M"
  using assms sar_ge_self [of x n] sar_le_self [of x n] sar_nonneg [of x n] sar_neg [of x n]
  by (cases "0 \<le> x"; simp)+

lemma is16_sar [crange]: "is16 x \<Longrightarrow> is16 (sar x n)"
  using sar_between [of 32768 x 32767 n] by (simp add: is16_def)

lemma is32_sar [crange]: "is32 x \<Longrightarrow> is32 (sar x n)"
  using sar_between [of 2147483648 x 2147483647 n] by (simp add: is32_def)

text \<open>The top half of a 32-bit value fits 16 bits: \<open>(int16_t)(x >> 16)\<close> keeps the value.\<close>

lemma is16_sar16 [crange]: "is32 x \<Longrightarrow> is16 (sar x 16)"
  by (auto simp: is16_def is32_def sar_def)

subsection \<open>Masks\<close>

text \<open>Testing the high bits of a value against a mask compares it with a power of two.\<close>

lemma and_push_mask_eq:
  fixes a :: int
  shows "a AND push_bit k (mask m) = push_bit k (take_bit m (drop_bit k a))"
  by (rule bit_eqI) (auto simp: bit_and_iff bit_push_bit_iff bit_mask_iff bit_take_bit_iff bit_drop_bit_eq)

lemma high_mask_clear:
  fixes a :: int
  assumes "0 \<le> a" "a < 2 ^ (k + m)"
  shows "a AND push_bit k (mask m) = 0 \<longleftrightarrow> a < 2 ^ k"
proof -
  have "drop_bit k a < 2 ^ m"
    using assms sar_less_iff [of a k "2 ^ m"]
    by (simp add: drop_bit_eq_div sar_def power_add mult.commute)
  moreover have "0 \<le> drop_bit k a"
    using assms by (simp add: drop_bit_eq_div pos_imp_zdiv_nonneg_iff)
  ultimately have "take_bit m (drop_bit k a) = drop_bit k a"
    by (simp add: take_bit_int_eq_self)
  then have "a AND push_bit k (mask m) = push_bit k (drop_bit k a)"
    using and_push_mask_eq [of a k m] by (simp only:)
  then have "a AND push_bit k (mask m) = 0 \<longleftrightarrow> drop_bit k a = 0"
    by (simp only: push_bit_eq_0_iff)
  also have "\<dots> \<longleftrightarrow> a < 2 ^ k"
    using assms(1) sar_less_iff [of a k 1] sar_nonneg [of a k]
    by (auto simp: drop_bit_eq_div sar_def)
  finally show ?thesis .
qed

section \<open>Lists as arrays\<close>

text \<open>\<open>memcpy\<close> of \<open>xs\<close> over an array from index \<open>off\<close> on.\<close>

definition overwrite :: "'a list \<Rightarrow> nat \<Rightarrow> 'a list \<Rightarrow> 'a list" where
  "overwrite d off xs = take off d @ xs @ drop (off + length xs) d"

lemma length_overwrite [simp]:
  "off + length xs \<le> length d \<Longrightarrow> length (overwrite d off xs) = length d"
  by (simp add: overwrite_def)

lemma take_overwrite [simp]: "off \<le> length d \<Longrightarrow> take off (overwrite d off xs) = take off d"
  by (simp add: overwrite_def)

lemma drop_overwrite [simp]:
  "off + length xs \<le> length d \<Longrightarrow> drop (off + length xs) (overwrite d off xs) = drop (off + length xs) d"
  by (simp add: overwrite_def)

text \<open>Elements at even and at odd positions (\<open>in[i << 1]\<close>, \<open>in[(i << 1) + 1]\<close>).\<close>

fun evens :: "'a list \<Rightarrow> 'a list" where
  "evens [] = []"
| "evens [x] = []"
| "evens (x # y # zs) = x # evens zs"

fun odds :: "'a list \<Rightarrow> 'a list" where
  "odds [] = []"
| "odds [x] = []"
| "odds (x # y # zs) = y # odds zs"

fun interleave :: "'a list \<Rightarrow> 'a list \<Rightarrow> 'a list" where
  "interleave (x # xs) (y # ys) = x # y # interleave xs ys"
| "interleave _ _ = []"

lemma length_evens [simp]: "length (evens xs) = length xs div 2"
  by (induction xs rule: evens.induct) simp_all

lemma length_odds [simp]: "length (odds xs) = length xs div 2"
  by (induction xs rule: odds.induct) simp_all

lemma length_interleave [simp]:
  "length (interleave xs ys) = 2 * min (length xs) (length ys)"
  by (induction xs ys rule: interleave.induct) simp_all

lemma set_evens: "set (evens xs) \<subseteq> set xs"
  by (induction xs rule: evens.induct) auto

lemma set_odds: "set (odds xs) \<subseteq> set xs"
  by (induction xs rule: odds.induct) auto

lemma set_interleave: "set (interleave xs ys) \<subseteq> set xs \<union> set ys"
  by (induction xs ys rule: interleave.induct) auto

lemma evens_append: "even (length xs) \<Longrightarrow> evens (xs @ ys) = evens xs @ evens ys"
  by (induction xs rule: evens.induct) simp_all

lemma odds_append: "even (length xs) \<Longrightarrow> odds (xs @ ys) = odds xs @ odds ys"
  by (induction xs rule: odds.induct) simp_all

lemma interleave_append:
  "length xs = length ys \<Longrightarrow> interleave (xs @ us) (ys @ vs) = interleave xs ys @ interleave us vs"
  by (induction xs ys rule: list_induct2) simp_all

section \<open>Sample-by-sample filters\<close>

text \<open>
  \<open>scan f s xs\<close> runs a loop \<open>for (i = 0; i < n; i++) out[i] = f(&state, in[i])\<close>: the final
  state and the list of outputs.
\<close>

fun scan :: "('s \<Rightarrow> 'a \<Rightarrow> 's \<times> 'b) \<Rightarrow> 's \<Rightarrow> 'a list \<Rightarrow> 's \<times> 'b list" where
  "scan f s [] = (s, [])"
| "scan f s (x # xs) =
     (let (s1, y) = f s x; (s2, ys) = scan f s1 xs in (s2, y # ys))"

declare scan.simps(2) [simp del]

lemma scan_Cons [simp]:
  "scan f s (x # xs) =
     (fst (scan f (fst (f s x)) xs), snd (f s x) # snd (scan f (fst (f s x)) xs))"
  by (simp add: scan.simps(2) split_beta)

lemma length_scan [simp]: "length (snd (scan f s xs)) = length xs"
  by (induction xs arbitrary: s) simp_all

lemma scan_append:
  "scan f s (xs @ ys) =
     (let (s1, us) = scan f s xs; (s2, vs) = scan f s1 ys in (s2, us @ vs))"
  by (induction xs arbitrary: s) (auto simp: Let_def split: prod.splits)

lemma fst_scan_append: "fst (scan f s (xs @ ys)) = fst (scan f (fst (scan f s xs)) ys)"
  and snd_scan_append:
    "snd (scan f s (xs @ ys)) = snd (scan f s xs) @ snd (scan f (fst (scan f s xs)) ys)"
  by (simp_all add: scan_append split_beta)

text \<open>
  The interface of a filter whose state stays well formed and whose outputs stay in range. Every
  filter of the signal-processing library is an interpretation.
\<close>

locale stream_filter =
  fixes step :: "'s \<Rightarrow> 'a \<Rightarrow> 's \<times> 'b"
    and inv :: "'s \<Rightarrow> bool"
    and good_in :: "'a \<Rightarrow> bool"
    and good_out :: "'b \<Rightarrow> bool"
  assumes step_inv: "inv s \<Longrightarrow> good_in x \<Longrightarrow> inv (fst (step s x))"
    and step_out: "inv s \<Longrightarrow> good_in x \<Longrightarrow> good_out (snd (step s x))"
begin

lemma run_inv: "inv s \<Longrightarrow> \<forall>x\<in>set xs. good_in x \<Longrightarrow> inv (fst (scan step s xs))"
  by (induction xs arbitrary: s) (auto simp: split_beta step_inv)

lemma run_out:
  "inv s \<Longrightarrow> \<forall>x\<in>set xs. good_in x \<Longrightarrow> y \<in> set (snd (scan step s xs)) \<Longrightarrow> good_out y"
proof (induction xs arbitrary: s)
  case Nil
  then show ?case by simp
next
  case (Cons x xs)
  then have "inv (fst (step s x))" and "good_out (snd (step s x))"
    by (simp_all add: step_inv step_out)
  with Cons.IH [of "fst (step s x)"] Cons.prems show ?case by auto
qed

end

text \<open>
  The interface of a component driven by events: an invariant that every enabled event keeps.
  Reachability is the closure of the initial states under enabled events.
\<close>

locale event_machine =
  fixes step :: "'s \<Rightarrow> 'e \<Rightarrow> 's"
    and inv :: "'s \<Rightarrow> bool"
    and enabled :: "'e \<Rightarrow> bool"
  assumes keeps: "inv s \<Longrightarrow> enabled e \<Longrightarrow> inv (step s e)"
begin

lemma run_keeps: "inv s \<Longrightarrow> \<forall>e\<in>set es. enabled e \<Longrightarrow> inv (foldl step s es)"
  by (induction es arbitrary: s) (auto simp: keeps)

end

end
