(* ===== verification/SplInl.thy ===== *)
theory SplInl imports Prelude begin

text \<open>
  The scalar fixed-point primitives: \<open>signal_processing/include/spl_inl.h\<close> (saturation,
  normalisation, bit sizes), \<open>division_operations.c\<close> and \<open>spl_sqrt_floor.c\<close>.
  A shift count or a number of bits is a \<open>nat\<close>.
\<close>

section \<open>Saturating arithmetic\<close>

definition WebRtcSpl_SatW32ToW16 :: "int \<Rightarrow> int" where
  "WebRtcSpl_SatW32ToW16 value32 =
     (let out16 = s16 value32
      in if value32 > 32767 then 32767
         else if value32 < - 32768 then - 32768
         else out16)"

definition WebRtcSpl_AddSatW32 :: "int \<Rightarrow> int \<Rightarrow> int" where
  "WebRtcSpl_AddSatW32 l_var1 l_var2 =
     (let l_sum = s32 (l_var1 + l_var2)
      in if l_var1 < 0
         then (if l_var2 < 0 \<and> l_sum \<ge> 0 then - 2147483648 else l_sum)
         else (if l_var2 > 0 \<and> l_sum < 0 then 2147483647 else l_sum))"

definition WebRtcSpl_SubSatW32 :: "int \<Rightarrow> int \<Rightarrow> int" where
  "WebRtcSpl_SubSatW32 l_var1 l_var2 =
     (let l_diff = s32 (l_var1 - l_var2)
      in if l_var1 < 0
         then (if l_var2 > 0 \<and> l_diff > 0 then - 2147483648 else l_diff)
         else (if l_var2 < 0 \<and> l_diff < 0 then 2147483647 else l_diff))"

definition WebRtcSpl_AddSatW16 :: "int \<Rightarrow> int \<Rightarrow> int" where
  "WebRtcSpl_AddSatW16 a b = WebRtcSpl_SatW32ToW16 (a + b)"

definition WebRtcSpl_SubSatW16 :: "int \<Rightarrow> int \<Rightarrow> int" where
  "WebRtcSpl_SubSatW16 var1 var2 = WebRtcSpl_SatW32ToW16 (var1 - var2)"

text \<open>The abstract contract: clamp to an interval.\<close>

definition clamp :: "int \<Rightarrow> int \<Rightarrow> int \<Rightarrow> int" where
  "clamp lo hi x = max lo (min hi x)"

lemma SatW32ToW16_clamp: "WebRtcSpl_SatW32ToW16 x = clamp (- 32768) 32767 x"
  by (auto simp: WebRtcSpl_SatW32ToW16_def clamp_def is16_def)

lemma is16_SatW32ToW16 [simp, crange]: "is16 (WebRtcSpl_SatW32ToW16 x)"
  by (auto simp: SatW32ToW16_clamp clamp_def is16_def)

text \<open>One wrap of an out-of-range sum or difference.\<close>

lemma s32_wrap_high: "2147483647 < x \<Longrightarrow> x \<le> 6442450943 \<Longrightarrow> s32 x = x - 4294967296"
  by (rule trans [OF s32_cong [of x "x - 4294967296"]]) (simp_all add: is32_def)

lemma s32_wrap_low: "x < - 2147483648 \<Longrightarrow> - 6442450944 \<le> x \<Longrightarrow> s32 x = x + 4294967296"
  by (rule trans [OF s32_cong [of x "x + 4294967296"]]) (simp_all add: is32_def)

lemma AddSatW32_clamp:
  assumes "is32 a" "is32 b"
  shows "WebRtcSpl_AddSatW32 a b = clamp (- 2147483648) 2147483647 (a + b)"
proof -
  consider "a + b < - 2147483648" | "2147483647 < a + b" | "is32 (a + b)"
    by (fastforce simp: is32_def)
  then show ?thesis
    using assms
    by cases (auto simp: WebRtcSpl_AddSatW32_def clamp_def is32_def s32_wrap_high s32_wrap_low Let_def)
qed

lemma SubSatW32_clamp:
  assumes "is32 a" "is32 b"
  shows "WebRtcSpl_SubSatW32 a b = clamp (- 2147483648) 2147483647 (a - b)"
proof -
  consider "a - b < - 2147483648" | "2147483647 < a - b" | "is32 (a - b)"
    by (fastforce simp: is32_def)
  then show ?thesis
    using assms
    by cases (auto simp: WebRtcSpl_SubSatW32_def clamp_def is32_def s32_wrap_high s32_wrap_low Let_def)
qed

section \<open>Bit sizes and normalisation\<close>

definition WebRtcSpl_GetSizeInBits :: "int \<Rightarrow> nat" where
  "WebRtcSpl_GetSizeInBits n =
     (let bits = (if 0xFFFF0000 AND n \<noteq> 0 then 16 else 0);
          bits = (if 0x0000FF00 AND sar n bits \<noteq> 0 then bits + 8 else bits);
          bits = (if 0x000000F0 AND sar n bits \<noteq> 0 then bits + 4 else bits);
          bits = (if 0x0000000C AND sar n bits \<noteq> 0 then bits + 2 else bits);
          bits = (if 0x00000002 AND sar n bits \<noteq> 0 then bits + 1 else bits)
      in if 0x00000001 AND sar n bits \<noteq> 0 then bits + 1 else bits)"

definition WebRtcSpl_NormW32 :: "int \<Rightarrow> nat" where
  "WebRtcSpl_NormW32 a0 =
     (if a0 = 0 then 0
      else let a = (if a0 < 0 then NOT a0 else a0);
               zeros = (if 0xFFFF8000 AND a = 0 then 16 else 0);
               zeros = (if 0xFF800000 AND shl32 a zeros = 0 then zeros + 8 else zeros);
               zeros = (if 0xF8000000 AND shl32 a zeros = 0 then zeros + 4 else zeros);
               zeros = (if 0xE0000000 AND shl32 a zeros = 0 then zeros + 2 else zeros)
           in if 0xC0000000 AND shl32 a zeros = 0 then zeros + 1 else zeros)"

definition WebRtcSpl_NormU32 :: "int \<Rightarrow> nat" where
  "WebRtcSpl_NormU32 a =
     (if a = 0 then 0
      else let zeros = (if 0xFFFF0000 AND a = 0 then 16 else 0);
               zeros = (if 0xFF000000 AND shlu32 a zeros = 0 then zeros + 8 else zeros);
               zeros = (if 0xF0000000 AND shlu32 a zeros = 0 then zeros + 4 else zeros);
               zeros = (if 0xC0000000 AND shlu32 a zeros = 0 then zeros + 2 else zeros)
           in if 0x80000000 AND shlu32 a zeros = 0 then zeros + 1 else zeros)"

definition WebRtcSpl_NormW16 :: "int \<Rightarrow> nat" where
  "WebRtcSpl_NormW16 a0 =
     (if a0 = 0 then 0
      else let a = (if a0 < 0 then s16 (NOT a0) else a0);
               zeros = (if 0xFF80 AND a = 0 then 8 else 0);
               zeros = (if 0xF800 AND shl32 a zeros = 0 then zeros + 4 else zeros);
               zeros = (if 0xE000 AND shl32 a zeros = 0 then zeros + 2 else zeros)
           in if 0xC000 AND shl32 a zeros = 0 then zeros + 1 else zeros)"

definition WebRtc_MulAccumW16 :: "int \<Rightarrow> int \<Rightarrow> int \<Rightarrow> int" where
  "WebRtc_MulAccumW16 a b c = s32 (a * b + c)"

text \<open>
  One halving step of the bit-size search: the mask tests the upper \<open>h\<close> of \<open>2h\<close> candidate bits.
\<close>

lemma size_step:
  fixes n :: int
  assumes n: "0 \<le> n" "n < 2 ^ (b + 2 * h)" and b: "b = 0 \<or> 2 ^ b \<le> n"
    and c: "c = push_bit h (mask h)"
    and b': "b' = (if c AND sar n b \<noteq> 0 then b + h else b)"
  shows "n < 2 ^ (b' + h)" and "b' = 0 \<or> 2 ^ b' \<le> n"
proof -
  have lt: "sar n b < 2 ^ (h + h)"
    using n(2) by (simp add: sar_less_iff power_add [symmetric] mult_2 add_ac)
  have "c AND sar n b = 0 \<longleftrightarrow> sar n b < 2 ^ h"
    using high_mask_clear [OF sar_nonneg [OF n(1)] lt] c by (simp add: and.commute)
  then have iff: "c AND sar n b \<noteq> 0 \<longleftrightarrow> 2 ^ (b + h) \<le> n"
    by (auto simp: sar_less_iff power_add mult_ac not_less)
  show "n < 2 ^ (b' + h)" using n(2) iff b' by (auto simp: mult_2 add.assoc)
  show "b' = 0 \<or> 2 ^ b' \<le> n" using b iff b' by auto
qed

lemma size_masks:
  "(0xFFFF0000 :: int) = push_bit 16 (mask 16)" "(0x0000FF00 :: int) = push_bit 8 (mask 8)"
  "(0x000000F0 :: int) = push_bit 4 (mask 4)" "(0x0000000C :: int) = push_bit 2 (mask 2)"
  "(0x00000002 :: int) = push_bit 1 (mask 1)"
  by (simp_all add: mask_eq_exp_minus_1 push_bit_eq_mult)

theorem GetSizeInBits_least:
  assumes "isu32 n"
  shows "n < 2 ^ WebRtcSpl_GetSizeInBits n"
    and "WebRtcSpl_GetSizeInBits n = 0 \<or> 2 ^ (WebRtcSpl_GetSizeInBits n - 1) \<le> n"
proof -
  have n: "0 \<le> n" "n < 4294967296" using assms by (simp_all add: isu32_def)
  define b0 :: nat where "b0 = (if 0xFFFF0000 AND n \<noteq> 0 then 16 else 0)"
  define b1 where "b1 = (if 0x0000FF00 AND sar n b0 \<noteq> 0 then b0 + 8 else b0)"
  define b2 where "b2 = (if 0x000000F0 AND sar n b1 \<noteq> 0 then b1 + 4 else b1)"
  define b3 where "b3 = (if 0x0000000C AND sar n b2 \<noteq> 0 then b2 + 2 else b2)"
  define b4 where "b4 = (if 0x00000002 AND sar n b3 \<noteq> 0 then b3 + 1 else b3)"
  have def: "WebRtcSpl_GetSizeInBits n = (if 0x00000001 AND sar n b4 \<noteq> 0 then b4 + 1 else b4)"
    by (simp add: WebRtcSpl_GetSizeInBits_def Let_def b0_def b1_def b2_def b3_def b4_def)
  have b0': "b0 = (if 0xFFFF0000 AND sar n 0 \<noteq> 0 then 0 + 16 else 0)" by (simp add: b0_def)
  note 0 = size_step [OF n(1) _ _ size_masks(1) b0', simplified, OF n(2)]
  note 1 = size_step [OF n(1) _ 0(2) size_masks(2) b1_def, simplified, OF 0(1)]
  note 2 = size_step [OF n(1) _ 1(2) size_masks(3) b2_def, simplified, OF 1(1)]
  note 3 = size_step [OF n(1) _ 2(2) size_masks(4) b3_def, simplified, OF 2(1)]
  note 4 = size_step [OF n(1) _ 3(2) size_masks(5) b4_def, simplified, OF 3(1)]
  have one: "1 AND sar n b4 \<noteq> 0 \<longleftrightarrow> 2 ^ b4 \<le> n"
  proof -
    have "0 \<le> sar n b4" "sar n b4 < 2"
      using n(1) 4(1) by (simp_all add: sar_nonneg sar_less_iff)
    then have "sar n b4 = 0 \<or> sar n b4 = 1" by auto
    then show ?thesis using sar_ge_iff [of 1 n b4] by auto
  qed
  show "n < 2 ^ WebRtcSpl_GetSizeInBits n" using def one 4(1) by auto
  show "WebRtcSpl_GetSizeInBits n = 0 \<or> 2 ^ (WebRtcSpl_GetSizeInBits n - 1) \<le> n"
    using def one 4(2) by (auto intro: order_trans [rotated])
qed

text \<open>
  One halving step of the normalisation search: shift by \<open>h\<close> if the top \<open>h\<close> of \<open>W\<close> bits are clear.
\<close>

lemma norm_step:
  fixes a :: int
  assumes a: "2 ^ (W - 2 * h) \<le> a * 2 ^ z" "a * 2 ^ z < 2 ^ W" "2 * h \<le> W" "0 \<le> a"
    and c: "c = push_bit (W - h) (mask m)" "h \<le> m"
    and z': "z' = (if c AND a * 2 ^ z = 0 then z + h else z)"
  shows "2 ^ (W - h) \<le> a * 2 ^ z'" and "a * 2 ^ z' < 2 ^ W"
proof -
  have nn: "0 \<le> a * 2 ^ z" using a(4) by simp
  have W: "(2 :: int) ^ W = 2 ^ (W - h) * 2 ^ h" using a(3) by (simp add: power_add [symmetric])
  have "(2 :: int) ^ W \<le> 2 ^ (W - h + m)" using c(2) by (intro power_increasing) simp_all
  with a(2) have "a * 2 ^ z < 2 ^ (W - h + m)" by linarith
  from high_mask_clear [OF nn this] have clear: "c AND a * 2 ^ z = 0 \<longleftrightarrow> a * 2 ^ z < 2 ^ (W - h)"
    by (simp only: c(1) and.commute)
  have "(2 :: int) ^ (W - h) = 2 ^ (W - 2 * h) * 2 ^ h"
    using a(3) by (simp add: power_add [symmetric])
  then have up: "2 ^ (W - h) \<le> a * 2 ^ z * 2 ^ h"
    using mult_right_mono [OF a(1), of "2 ^ h"] by simp
  show "2 ^ (W - h) \<le> a * 2 ^ z'"
    using z' clear up by (auto simp: power_add mult.assoc)
  show "a * 2 ^ z' < 2 ^ W"
    using z' clear a(2) W by (auto simp: power_add mult.assoc [symmetric])
qed

lemma shl32_small: "0 \<le> a * 2 ^ z \<Longrightarrow> a * 2 ^ z < 2147483648 \<Longrightarrow> shl32 a z = a * 2 ^ z"
  by (simp add: shl32_def is32_def)

lemma shlu32_small: "0 \<le> a * 2 ^ z \<Longrightarrow> a * 2 ^ z < 4294967296 \<Longrightarrow> shlu32 a z = a * 2 ^ z"
  by (simp add: shlu32_def isu32_def)

lemma norm_masks:
  "(0xFFFF8000 :: int) = push_bit 15 (mask 17)" "(0xFF800000 :: int) = push_bit (31 - 8) (mask 9)"
  "(0xF8000000 :: int) = push_bit (31 - 4) (mask 5)" "(0xE0000000 :: int) = push_bit (31 - 2) (mask 3)"
  "(0xC0000000 :: int) = push_bit (31 - 1) (mask 2)"
  "(0xFFFF0000 :: int) = push_bit (32 - 16) (mask 16)" "(0xFF000000 :: int) = push_bit (32 - 8) (mask 8)"
  "(0xF0000000 :: int) = push_bit (32 - 4) (mask 4)" "(0xC0000000 :: int) = push_bit (32 - 2) (mask 2)"
  "(0x80000000 :: int) = push_bit (32 - 1) (mask 1)"
  by (simp_all add: mask_eq_exp_minus_1 push_bit_eq_mult)

definition norm31 :: "int \<Rightarrow> nat" where
  "norm31 a =
     (let zeros = (if 0xFFFF8000 AND a = 0 then 16 else 0);
          zeros = (if 0xFF800000 AND shl32 a zeros = 0 then zeros + 8 else zeros);
          zeros = (if 0xF8000000 AND shl32 a zeros = 0 then zeros + 4 else zeros);
          zeros = (if 0xE0000000 AND shl32 a zeros = 0 then zeros + 2 else zeros)
      in if 0xC0000000 AND shl32 a zeros = 0 then zeros + 1 else zeros)"

lemma NormW32_norm31:
  "WebRtcSpl_NormW32 a = (if a = 0 then 0 else norm31 (if a < 0 then NOT a else a))"
  by (simp add: WebRtcSpl_NormW32_def norm31_def Let_def)

lemma norm31_top:
  assumes "0 < a" "a < 2147483648"
  shows "2 ^ 30 \<le> a * 2 ^ norm31 a" and "a * 2 ^ norm31 a < 2 ^ 31"
proof -
  have a: "0 \<le> a" using assms(1) by simp
  define z0 :: nat where "z0 = (if 0xFFFF8000 AND a = 0 then 16 else 0)"
  define z1 where "z1 = (if 0xFF800000 AND a * 2 ^ z0 = 0 then z0 + 8 else z0)"
  define z2 where "z2 = (if 0xF8000000 AND a * 2 ^ z1 = 0 then z1 + 4 else z1)"
  define z3 where "z3 = (if 0xE0000000 AND a * 2 ^ z2 = 0 then z2 + 2 else z2)"
  define z4 where "z4 = (if 0xC0000000 AND a * 2 ^ z3 = 0 then z3 + 1 else z3)"
  have "0xFFFF8000 AND a = 0 \<longleftrightarrow> a < 2 ^ 15"
    using high_mask_clear [of a 15 17] assms norm_masks(1) by (simp add: and.commute)
  then have 0: "2 ^ (31 - 2 * 8) \<le> a * 2 ^ z0" "a * 2 ^ z0 < 2 ^ 31"
    using assms by (auto simp: z0_def)
  note 1 = norm_step [OF 0 _ a norm_masks(2) _ z1_def, simplified]
  note 2 = norm_step [OF _ _ _ a norm_masks(3) _ z2_def, simplified, OF 1]
  note 3 = norm_step [OF _ _ _ a norm_masks(4) _ z3_def, simplified, OF 2]
  note 4 = norm_step [OF _ _ _ a norm_masks(5) _ z4_def, simplified, OF 3]
  have s: "shl32 a z0 = a * 2 ^ z0" "shl32 a z1 = a * 2 ^ z1" "shl32 a z2 = a * 2 ^ z2"
    "shl32 a z3 = a * 2 ^ z3"
    using 0 1 2 3 a by (simp_all add: shl32_small)
  have "norm31 a = z4"
    by (simp only: norm31_def Let_def z0_def [symmetric] s z1_def [symmetric] z2_def [symmetric]
        z3_def [symmetric] z4_def [symmetric])
  with 4 show "2 ^ 30 \<le> a * 2 ^ norm31 a" and "a * 2 ^ norm31 a < 2 ^ 31" by simp_all
qed

lemma norm31_zero [simp]: "norm31 0 = 31"
  by (simp add: norm31_def shl32_def)

lemma norm31_lt:
  assumes "0 < a" "a < 2147483648" shows "norm31 a < 31"
proof (rule ccontr)
  assume "\<not> norm31 a < 31"
  then have "(2 :: int) ^ 31 \<le> 2 ^ norm31 a" by (intro power_increasing) simp_all
  also have "\<dots> \<le> a * 2 ^ norm31 a" using assms(1) by simp
  finally show False using norm31_top(2) [OF assms] by simp
qed

text \<open>\<open>WebRtcSpl_NormW32\<close> is the number of left shifts that fit: one more overflows.\<close>

lemma NormW32_le: "is32 a \<Longrightarrow> WebRtcSpl_NormW32 a \<le> 31"
  using norm31_lt [of a] norm31_lt [of "NOT a"]
  by (cases "NOT a = 0") (auto simp: NormW32_norm31 is32_def not_int_def)

lemma NormW32_pos:
  assumes "0 < a" "a < 2147483648"
  shows "2 ^ 30 \<le> a * 2 ^ WebRtcSpl_NormW32 a" and "a * 2 ^ WebRtcSpl_NormW32 a < 2 ^ 31"
  using norm31_top [OF assms] assms by (simp_all add: NormW32_norm31)

lemma NormW32_neg:
  assumes "a < 0" "- 2147483648 \<le> a"
  shows "- (2 ^ 31) \<le> a * 2 ^ WebRtcSpl_NormW32 a" and "a * 2 ^ WebRtcSpl_NormW32 a < - (2 ^ 30)"
proof -
  define b where "b = - a - 1"
  have b: "0 \<le> b" "b < 2147483648" "NOT a = b" using assms by (simp_all add: b_def not_int_def)
  have N: "WebRtcSpl_NormW32 a = norm31 b" using assms b by (simp add: NormW32_norm31)
  have "- (2 ^ 31) \<le> a * 2 ^ norm31 b \<and> a * 2 ^ norm31 b < - (2 ^ 30)"
  proof (cases "b = 0")
    case True
    then show ?thesis using b_def by simp
  next
    case False
    then have pos: "0 < b" using b by simp
    have split: "(2 :: int) ^ 31 = 2 ^ (31 - norm31 b) * 2 ^ norm31 b"
      using norm31_lt [OF pos b(2)] by (simp add: power_add [symmetric])
    have "b * 2 ^ norm31 b < 2 ^ (31 - norm31 b) * 2 ^ norm31 b"
      using norm31_top(2) [OF pos b(2)] split by simp
    then have "b < 2 ^ (31 - norm31 b)" by simp
    then have "(b + 1) * 2 ^ norm31 b \<le> 2 ^ (31 - norm31 b) * 2 ^ norm31 b"
      by (intro mult_right_mono) simp_all
    then have "(b + 1) * 2 ^ norm31 b \<le> 2 ^ 31" by (simp only: split)
    moreover have "a * 2 ^ norm31 b = - ((b + 1) * 2 ^ norm31 b)" by (simp add: b_def)
    moreover have "2 ^ 30 < (b + 1) * 2 ^ norm31 b"
      using norm31_top(1) [OF pos b(2)] by (simp add: distrib_right) (smt (verit) zero_less_power)
    ultimately show ?thesis by simp
  qed
  with N show "- (2 ^ 31) \<le> a * 2 ^ WebRtcSpl_NormW32 a"
    and "a * 2 ^ WebRtcSpl_NormW32 a < - (2 ^ 30)" by simp_all
qed

lemma NormU32_top:
  assumes "0 < a" "a < 4294967296"
  shows "2 ^ 31 \<le> a * 2 ^ WebRtcSpl_NormU32 a" and "a * 2 ^ WebRtcSpl_NormU32 a < 2 ^ 32"
proof -
  have a: "0 \<le> a" using assms(1) by simp
  define z0 :: nat where "z0 = (if 0xFFFF0000 AND a * 2 ^ 0 = 0 then 0 + 16 else 0)"
  define z1 where "z1 = (if 0xFF000000 AND a * 2 ^ z0 = 0 then z0 + 8 else z0)"
  define z2 where "z2 = (if 0xF0000000 AND a * 2 ^ z1 = 0 then z1 + 4 else z1)"
  define z3 where "z3 = (if 0xC0000000 AND a * 2 ^ z2 = 0 then z2 + 2 else z2)"
  define z4 where "z4 = (if 0x80000000 AND a * 2 ^ z3 = 0 then z3 + 1 else z3)"
  have s: "2 ^ (32 - 2 * 16) \<le> a * 2 ^ 0" "a * 2 ^ 0 < 2 ^ 32" using assms by simp_all
  note 0 = norm_step [OF s _ a norm_masks(6) _ z0_def, simplified]
  note 1 = norm_step [OF _ _ _ a norm_masks(7) _ z1_def, simplified, OF 0]
  note 2 = norm_step [OF _ _ _ a norm_masks(8) _ z2_def, simplified, OF 1]
  note 3 = norm_step [OF _ _ _ a norm_masks(9) _ z3_def, simplified, OF 2]
  note 4 = norm_step [OF _ _ _ a norm_masks(10) _ z4_def, simplified, OF 3]
  have z0: "z0 = (if 0xFFFF0000 AND a = 0 then 16 else 0)" by (simp add: z0_def)
  have u: "shlu32 a z0 = a * 2 ^ z0" "shlu32 a z1 = a * 2 ^ z1" "shlu32 a z2 = a * 2 ^ z2"
    "shlu32 a z3 = a * 2 ^ z3"
    using 0 1 2 3 a by (simp_all add: shlu32_small)
  have nz: "(a = 0) = False" using assms(1) by simp
  have "WebRtcSpl_NormU32 a = z4"
    by (simp only: WebRtcSpl_NormU32_def Let_def nz if_False z0 [symmetric] u z1_def [symmetric]
        z2_def [symmetric] z3_def [symmetric] z4_def [symmetric])
  with 4 show "2 ^ 31 \<le> a * 2 ^ WebRtcSpl_NormU32 a" and "a * 2 ^ WebRtcSpl_NormU32 a < 2 ^ 32"
    by simp_all
qed

section \<open>Divisions\<close>

definition WebRtcSpl_DivU32U16 :: "int \<Rightarrow> int \<Rightarrow> int" where
  "WebRtcSpl_DivU32U16 num den = (if den \<noteq> 0 then num div den else 0xFFFFFFFF)"

definition WebRtcSpl_DivW32W16 :: "int \<Rightarrow> int \<Rightarrow> int" where
  "WebRtcSpl_DivW32W16 num den = (if den \<noteq> 0 then s32 (num sdiv den) else 0x7FFFFFFF)"

definition WebRtcSpl_DivW32W16ResW16 :: "int \<Rightarrow> int \<Rightarrow> int" where
  "WebRtcSpl_DivW32W16ResW16 num den = (if den \<noteq> 0 then s16 (num sdiv den) else 0x7FFF)"

fun div_q31_loop :: "nat \<Rightarrow> int \<Rightarrow> int \<Rightarrow> int \<Rightarrow> int" where
  "div_q31_loop 0 L_num L_den d = d"
| "div_q31_loop (Suc k) L_num L_den d =
     (let d = shl32 d 1; L_num = shl32 L_num 1
      in if L_num \<ge> L_den
         then div_q31_loop k (s32 (L_num - L_den)) L_den (s32 (d + 1))
         else div_q31_loop k L_num L_den d)"

definition WebRtcSpl_DivResultInQ31 :: "int \<Rightarrow> int \<Rightarrow> int" where
  "WebRtcSpl_DivResultInQ31 num den =
     (if num = 0 then 0
      else let L_num = (if num < 0 then s32 (- num) else num);
               L_den = (if den < 0 then s32 (- den) else den);
               d = div_q31_loop 31 L_num L_den 0
           in if (num < 0) \<noteq> (den < 0) then s32 (- d) else d)"

definition WebRtcSpl_DivW32HiLow :: "int \<Rightarrow> int \<Rightarrow> int \<Rightarrow> int" where
  "WebRtcSpl_DivW32HiLow num den_hi den_low =
     (let approx = s16 (WebRtcSpl_DivW32W16 0x1FFFFFFF den_hi);
          tmpW32 = s32 (shl32 (den_hi * approx) 1 + shl32 (sar (den_low * approx) 15) 1);
          tmpW32 = s32 (0x7fffffff - tmpW32);
          tmp_hi = s16 (sar tmpW32 16);
          tmp_low = s16 (sar (s32 (tmpW32 - shl32 tmp_hi 16)) 1);
          tmpW32 = shl32 (s32 (tmp_hi * approx + sar (tmp_low * approx) 15)) 1;
          tmp_hi = s16 (sar tmpW32 16);
          tmp_low = s16 (sar (s32 (tmpW32 - shl32 tmp_hi 16)) 1);
          num_hi = s16 (sar num 16);
          num_low = s16 (sar (s32 (num - shl32 num_hi 16)) 1);
          tmpW32 = s32 (num_hi * tmp_hi + sar (num_hi * tmp_low) 15 + sar (num_low * tmp_hi) 15)
      in shl32 tmpW32 3)"

lemma sdiv_range:
  fixes a b :: int
  assumes "b \<noteq> 0"
  shows "\<bar>a sdiv b\<bar> \<le> \<bar>a\<bar>"
proof -
  have "\<bar>a\<bar> div \<bar>b\<bar> \<le> \<bar>a\<bar>"
    using assms zdiv_mono2 [of "\<bar>a\<bar>" 1 "\<bar>b\<bar>"] by simp
  moreover have "0 \<le> \<bar>a\<bar> div \<bar>b\<bar>"
    using assms by (simp add: pos_imp_zdiv_nonneg_iff)
  ultimately show ?thesis
    by (auto simp: signed_divide_int_def abs_mult sgn_if)
qed

lemma sdiv_pos: "0 \<le> a \<Longrightarrow> 0 < b \<Longrightarrow> a sdiv b = (a :: int) div b"
  by (cases "a = 0") (simp_all add: signed_divide_int_def sgn_if)

text \<open>The only quotient that does not fit is \<open>INT32_MIN / -1\<close>.\<close>

lemma DivW32W16_exact:
  assumes "is32 num" "den \<noteq> 0" "\<not> (num = - 2147483648 \<and> den = - 1)"
  shows "WebRtcSpl_DivW32W16 num den = num sdiv den"
proof -
  have "is32 (num sdiv den)"
  proof (cases "num = - 2147483648 \<and> 0 < den \<or> num \<noteq> - 2147483648")
    case True
    then have "\<bar>num\<bar> \<le> 2147483647 \<or> (num = - 2147483648 \<and> 0 < den)"
      using assms(1) by (auto simp: is32_def)
    moreover have "0 < den \<Longrightarrow> (- 2147483648) sdiv den \<le> 0"
      by (simp add: signed_divide_int_def sgn_if pos_imp_zdiv_nonneg_iff)
    ultimately show ?thesis
      using sdiv_range [OF assms(2), of num] by (auto simp: is32_def)
  next
    case False
    then have d: "den < - 1" and n: "num = - 2147483648" using assms(2,3) by auto
    have "2147483648 div \<bar>den\<bar> \<le> 2147483648 div 2"
      using d by (intro zdiv_mono2) simp_all
    then show ?thesis
      using d n by (simp add: is32_def signed_divide_int_def sgn_if)
        (smt (verit) div_int_pos_iff)
  qed
  then show ?thesis using assms(2) by (simp add: WebRtcSpl_DivW32W16_def)
qed

lemma DivW32W16_pos:
  assumes "0 \<le> num" "num \<le> 2147483647" "0 < den"
  shows "WebRtcSpl_DivW32W16 num den = num div den"
  using DivW32W16_exact [of num den] assms by (simp add: is32_def sdiv_pos)

lemma div_q31_loop_quot:
  assumes "0 \<le> n" "n < D" "D \<le> 2 ^ 30" "0 \<le> d" "(d + 1) * 2 ^ k \<le> 2 ^ 31"
  shows "div_q31_loop k n D d = d * 2 ^ k + n * 2 ^ k div D"
  using assms
proof (induction k arbitrary: n d)
  case 0
  then show ?case by (simp add: div_pos_pos_trivial)
next
  case (Suc k)
  have p: "(1 :: int) \<le> 2 ^ k" by simp
  have big: "(d + 1) * 2 * 2 ^ k \<le> 2 ^ 31" using Suc.prems(5) by (simp only: power_Suc mult.assoc)
  moreover have "(d + 1) * 2 * 1 \<le> (d + 1) * 2 * 2 ^ k"
    using Suc.prems(4) p by (intro mult_left_mono) simp_all
  ultimately have "2 * d + 2 \<le> 2 ^ 31" by simp
  then have D: "shl32 d (Suc 0) = 2 * d" "s32 (2 * d + 1) = 2 * d + 1"
    using Suc.prems(4) by (simp_all add: shl32_def is32_def)
  have N: "shl32 n (Suc 0) = 2 * n" "s32 (2 * n - D) = 2 * n - D"
    using Suc.prems(1-3) by (simp_all add: shl32_def is32_def)
  have b2: "(2 * d + 1 + 1) * 2 ^ k \<le> 2 ^ 31"
    using big by (simp only: distrib_right distrib_left mult_2 mult_2_right)
  have b1: "(2 * d + 1) * 2 ^ k \<le> 2 ^ 31"
    by (rule order_trans [OF mult_right_mono b2]) simp_all
  note b = b1 b2
  show ?case
  proof (cases "2 * n \<ge> D")
    case True
    then have IH: "div_q31_loop k (2 * n - D) D (2 * d + 1) = (2 * d + 1) * 2 ^ k + (2 * n - D) * 2 ^ k div D"
      using Suc.prems b by (intro Suc.IH) simp_all
    have "2 * n * 2 ^ k div D = ((2 * n - D) * 2 ^ k + D * 2 ^ k) div D"
      by (simp add: algebra_simps)
    also have "\<dots> = (2 * n - D) * 2 ^ k div D + 2 ^ k"
      using Suc.prems(1,2) by simp
    finally have "n * 2 ^ Suc k div D = (2 * n - D) * 2 ^ k div D + 2 ^ k"
      by (simp add: mult_ac)
    moreover have "div_q31_loop (Suc k) n D d = div_q31_loop k (2 * n - D) D (2 * d + 1)"
      using True by (simp add: Let_def D N)
    ultimately show ?thesis using IH by (simp add: algebra_simps)
  next
    case False
    then have "div_q31_loop k (2 * n) D (2 * d) = (2 * d) * 2 ^ k + (2 * n) * 2 ^ k div D"
      using Suc.prems b by (intro Suc.IH) simp_all
    then show ?thesis using False D N by (simp add: Let_def mult_ac)
  qed
qed

lemma DivResultInQ31_quot:
  assumes "\<bar>num\<bar> < \<bar>den\<bar>" "\<bar>den\<bar> \<le> 2 ^ 30"
  shows "WebRtcSpl_DivResultInQ31 num den = (num * 2 ^ 31) sdiv den"
proof (cases "num = 0")
  case True
  then show ?thesis by (simp add: WebRtcSpl_DivResultInQ31_def signed_divide_int_def)
next
  case False
  have q: "div_q31_loop 31 \<bar>num\<bar> \<bar>den\<bar> 0 = \<bar>num\<bar> * 2 ^ 31 div \<bar>den\<bar>"
    using div_q31_loop_quot [of "\<bar>num\<bar>" "\<bar>den\<bar>" 0 31] assms by simp
  have "\<bar>num\<bar> * 2 ^ 31 < 2 ^ 31 * \<bar>den\<bar>" using assms(1) by simp
  then have lt: "\<bar>num\<bar> * 2 ^ 31 div \<bar>den\<bar> < 2 ^ 31"
    using assms(1) by (intro int_div_lt) simp_all
  have ge: "0 \<le> \<bar>num\<bar> * 2 ^ 31 div \<bar>den\<bar>" using assms(1) by (simp add: pos_imp_zdiv_nonneg_iff)
  have neg: "s32 (- x) = - x" if "\<bar>x\<bar> \<le> 1073741824" for x
    using that by (intro s32_eqI) linarith+
  have "s32 (- num) = - num" "s32 (- den) = - den"
    using assms by (simp_all add: neg)
  then show ?thesis
    using False q lt ge assms(1)
    by (auto simp: WebRtcSpl_DivResultInQ31_def Let_def signed_divide_int_def sgn_if abs_mult is32_def
        split: if_splits)
qed

section \<open>Integer square root\<close>

definition sqrt_iter :: "nat \<Rightarrow> int \<times> int \<Rightarrow> int \<times> int" where
  "sqrt_iter N = (\<lambda>(root, value).
     let try1 = s32 (root + shl32 1 N)
     in if value \<ge> shl32 try1 N
        then (root OR shl32 2 N, s32 (value - shl32 try1 N))
        else (root, value))"

definition WebRtcSpl_SqrtFloor :: "int \<Rightarrow> int" where
  "WebRtcSpl_SqrtFloor value =
     sar (fst (fold sqrt_iter [15, 14, 13, 12, 11, 10, 9, 8, 7, 6, 5, 4, 3, 2, 1, 0] (0, value))) 1"

text \<open>
  The loop invariant before the iterations below bit \<open>N\<close>: the root found so far, \<open>r = root / 2\<close>, is a
  multiple of \<open>2 ^ N\<close>, what is left of the value is \<open>v - r\<^sup>2\<close>, and \<open>v < (r + 2 ^ N)\<^sup>2\<close>.
\<close>

definition sqrt_inv :: "nat \<Rightarrow> int \<Rightarrow> int \<times> int \<Rightarrow> bool" where
  "sqrt_inv N v = (\<lambda>(root, value).
     \<exists>r. root = 2 * r \<and> 2 ^ N dvd r \<and> 0 \<le> r \<and> value = v - r * r \<and> r * r \<le> v \<and> v < (r + 2 ^ N) * (r + 2 ^ N))"

lemma or_power_dvd:
  fixes a :: int
  assumes "2 ^ Suc n dvd a"
  shows "a OR 2 ^ n = a + 2 ^ n"
proof -
  have "\<not> bit a n" using assms by (auto simp: bit_iff_odd elim!: dvdE)
  then show ?thesis by (simp add: set_bit_eq_or [of n a, simplified, symmetric] set_bit_eq)
qed

lemma sqrt_iter_inv:
  assumes "sqrt_inv (Suc N) v (root, value)" "v < 2 ^ 31" "N \<le> 15"
  shows "sqrt_inv N v (sqrt_iter N (root, value))"
proof -
  obtain r where r: "root = 2 * r" "2 ^ Suc N dvd r" "0 \<le> r" "value = v - r * r" "r * r \<le> v"
    "v < (r + 2 ^ Suc N) * (r + 2 ^ Suc N)"
    using assms(1) by (auto simp: sqrt_inv_def)
  let ?M = "2 ^ N :: int"
  have M: "1 \<le> ?M" "?M \<le> 32768"
    using assms(3) power_increasing [of N 15 "2 :: int"] by simp_all
  have rub: "r < 46341"
  proof (rule ccontr)
    assume "\<not> r < 46341"
    then have "46341 * 46341 \<le> r * r" by (intro mult_mono) simp_all
    with r(5) assms(2) show False by simp
  qed
  have try1: "s32 (root + shl32 1 N) = 2 * r + ?M" and two: "shl32 2 N = 2 ^ Suc N"
  proof -
    have "s32 ?M = ?M" by (rule s32_eqI) (use M in linarith)+
    moreover have "s32 (2 * r + ?M) = 2 * r + ?M" by (rule s32_eqI) (use M r(3) rub in linarith)+
    moreover have "s32 (2 * ?M) = 2 * ?M" by (rule s32_eqI) (use M in linarith)+
    ultimately show "s32 (root + shl32 1 N) = 2 * r + ?M" and "shl32 2 N = 2 ^ Suc N"
      using r(1) by (simp_all add: shl32_def)
  qed
  have sq: "(2 * r + ?M) * ?M = (r + ?M) * (r + ?M) - r * r" by (simp add: algebra_simps)
  have "(2 * r + ?M) * ?M < 2 ^ 31"
  proof (cases "N = 15")
    case True
    have "r = 0"
    proof (rule ccontr)
      assume "r \<noteq> 0"
      then have "2 ^ 16 \<le> r" using r(2,3) True zdvd_imp_le [of "2 ^ 16" r] by simp
      with rub show False by simp
    qed
    then show ?thesis using True by simp
  next
    case False
    then have "?M \<le> 2 ^ 14" using assms(3) by (intro power_increasing) simp_all
    then have "(2 * r + ?M) * ?M \<le> (2 * 46341 + 2 ^ 14) * 2 ^ 14"
      using rub r(3) by (intro mult_mono) simp_all
    then show ?thesis by simp
  qed
  moreover have "0 \<le> (2 * r + ?M) * ?M" using r(3) by simp
  ultimately have shift: "shl32 (2 * r + ?M) N = (2 * r + ?M) * ?M"
    by (intro shl32_small) simp_all
  show ?thesis
  proof (cases "value \<ge> (2 * r + ?M) * ?M")
    case True
    have "2 ^ Suc (Suc N) dvd root" using r(1) mult_dvd_mono [OF dvd_refl [of 2] r(2)] by simp
    then have "root OR 2 ^ Suc N = root + 2 ^ Suc N" by (rule or_power_dvd)
    moreover have "is32 (value - (2 * r + ?M) * ?M)"
    proof -
      have "0 \<le> r * r" by simp
      moreover have "v \<le> 2147483647" using assms(2) by simp
      ultimately show ?thesis
        unfolding is32_def using True r(4) \<open>0 \<le> (2 * r + ?M) * ?M\<close> by (intro conjI; linarith)
    qed
    ultimately have step: "sqrt_iter N (root, value) = (2 * (r + ?M), value - (2 * r + ?M) * ?M)"
      using True try1 shift two r(1) by (simp add: sqrt_iter_def Let_def)
    have "2 ^ N dvd r" using r(2) by (meson dvd_trans le_SucI le_imp_power_dvd order_refl)
    moreover have "v < (r + ?M + ?M) * (r + ?M + ?M)" using r(6) by (simp add: algebra_simps)
    ultimately show ?thesis
      unfolding step sqrt_inv_def using True r(3,4) sq
      by (auto intro!: exI [of _ "r + ?M"])
  next
    case False
    then have step: "sqrt_iter N (root, value) = (root, value)"
      using try1 shift by (simp add: sqrt_iter_def Let_def)
    have "2 ^ N dvd r" using r(2) by (meson dvd_trans le_SucI le_imp_power_dvd order_refl)
    then show ?thesis
      unfolding step sqrt_inv_def using False r(1,3,4,5) sq by auto
  qed
qed

lemma sqrt_iter_inv':
  assumes "sqrt_inv (Suc N) v s" "v < 2 ^ 31" "N \<le> 15"
  shows "sqrt_inv N v (sqrt_iter N s)"
  using sqrt_iter_inv [of N v "fst s" "snd s"] assms by simp

lemma SqrtFloor_floor:
  assumes "0 \<le> v" "v < 2 ^ 31"
  shows "0 \<le> WebRtcSpl_SqrtFloor v"
    and "WebRtcSpl_SqrtFloor v * WebRtcSpl_SqrtFloor v \<le> v"
    and "v < (WebRtcSpl_SqrtFloor v + 1) * (WebRtcSpl_SqrtFloor v + 1)"
proof -
  let ?s = "fold sqrt_iter [15, 14, 13, 12, 11, 10, 9, 8, 7, 6, 5, 4, 3, 2, 1, 0] (0, v)"
  have step: "\<And>N M s. sqrt_inv M v s \<Longrightarrow> M = Suc N \<Longrightarrow> N \<le> 15 \<Longrightarrow> sqrt_inv N v (sqrt_iter N s)"
    using sqrt_iter_inv' assms(2) by blast
  have "sqrt_inv 16 v (0, v)" using assms by (auto simp: sqrt_inv_def)
  then have "sqrt_inv 0 v ?s"
    by (simp only: fold_simps) (rule step, (rule step)+; simp?)
  then obtain r where r: "fst ?s = 2 * r" "0 \<le> r" "r * r \<le> v" "v < (r + 1) * (r + 1)"
    unfolding sqrt_inv_def by (auto simp del: fold_simps)
  then have "WebRtcSpl_SqrtFloor v = r" by (simp add: WebRtcSpl_SqrtFloor_def sar_def del: fold_simps)
  with r show "0 \<le> WebRtcSpl_SqrtFloor v"
    and "WebRtcSpl_SqrtFloor v * WebRtcSpl_SqrtFloor v \<le> v"
    and "v < (WebRtcSpl_SqrtFloor v + 1) * (WebRtcSpl_SqrtFloor v + 1)" by simp_all
qed

lemma sqrt_iter_neg: "v < 0 \<Longrightarrow> N \<le> 15 \<Longrightarrow> sqrt_iter N (0, v) = (0, v)"
proof -
  assume v: "v < 0" and N: "N \<le> 15"
  have M: "(1 :: int) \<le> 2 ^ N" "(2 :: int) ^ N \<le> 32768"
    using N power_increasing [of N 15 "2 :: int"] by simp_all
  then have "(2 :: int) ^ N * 2 ^ N \<le> 32768 * 32768" by (intro mult_mono) simp_all
  moreover have "(1 :: int) * 1 \<le> 2 ^ N * 2 ^ N" using M by (intro mult_mono) simp_all
  ultimately have "s32 (2 ^ N * 2 ^ N) = 2 ^ N * 2 ^ N" by (intro s32_eqI) linarith+
  moreover have "s32 (2 ^ N) = 2 ^ N" by (rule s32_eqI) (use M in linarith)+
  ultimately have "shl32 (s32 (0 + shl32 1 N)) N = 2 ^ N * 2 ^ N"
    by (simp add: shl32_def)
  moreover have "\<not> (2 :: int) ^ N * 2 ^ N \<le> v"
    using v zero_le_mult_iff [of "2 ^ N" "2 ^ N :: int"] by (simp add: not_le less_le_trans)
  ultimately show ?thesis by (simp add: sqrt_iter_def Let_def)
qed

lemma SqrtFloor_neg: "v < 0 \<Longrightarrow> WebRtcSpl_SqrtFloor v = 0"
  by (simp add: WebRtcSpl_SqrtFloor_def sqrt_iter_neg)

end
