(* ===== verification/SplVector.thy ===== *)
theory SplVector imports SplInl begin

text \<open>
  The vector primitives of \<open>signal_processing/\<close>: extrema (\<open>min_max_operations.c\<close>), copies
  (\<open>copy_set_operations.c\<close>), scaling (\<open>vector_scaling_operations.c\<close>,
  \<open>ilbc_specific_functions.c\<close>), energies and correlations (\<open>get_scaling_square.c\<close>, \<open>energy.c\<close>,
  \<open>dot_product_with_scale.c\<close>, \<open>cross_correlation.c\<close>, \<open>auto_correlation.c\<close>), FIR and AR filters
  (\<open>downsample_fast.c\<close>, \<open>filter_ma_fast_q12.c\<close>, \<open>filter_ar_fast_q12.c\<close>) and the pseudo-random
  generator (\<open>randomization_functions.c\<close>).

  A vector argument with its length is a list. A pointer into a longer buffer that the code reads
  behind (\<open>in_ptr[i - j]\<close>) is a function from \<open>int\<close> offsets to values.
\<close>

section \<open>Extrema\<close>

definition WebRtcSpl_MaxAbsValueW16C :: "int list \<Rightarrow> int" where
  "WebRtcSpl_MaxAbsValueW16C vector =
     (let maximum = foldl (\<lambda>maximum x. let absolute = \<bar>x\<bar>
                                       in if absolute > maximum then absolute else maximum) 0 vector
      in s16 (if maximum > 32767 then 32767 else maximum))"

definition WebRtcSpl_MaxAbsValueW32C :: "int list \<Rightarrow> int" where
  "WebRtcSpl_MaxAbsValueW32C vector =
     (let maximum = foldl (\<lambda>maximum x. let absolute = u32 (s32 \<bar>x\<bar>)
                                       in if absolute > maximum then absolute else maximum) 0 vector
      in s32 (if maximum < 2147483647 then maximum else 2147483647))"

definition WebRtcSpl_MaxValueW16C :: "int list \<Rightarrow> int" where
  "WebRtcSpl_MaxValueW16C vector =
     foldl (\<lambda>maximum x. if x > maximum then x else maximum) (- 32768) vector"

definition WebRtcSpl_MaxValueW32C :: "int list \<Rightarrow> int" where
  "WebRtcSpl_MaxValueW32C vector =
     foldl (\<lambda>maximum x. if x > maximum then x else maximum) (- 2147483648) vector"

definition WebRtcSpl_MinValueW16C :: "int list \<Rightarrow> int" where
  "WebRtcSpl_MinValueW16C vector =
     foldl (\<lambda>minimum x. if x < minimum then x else minimum) 32767 vector"

definition WebRtcSpl_MinValueW32C :: "int list \<Rightarrow> int" where
  "WebRtcSpl_MinValueW32C vector =
     foldl (\<lambda>minimum x. if x < minimum then x else minimum) 2147483647 vector"

definition WebRtcSpl_MaxAbsIndexW16 :: "int list \<Rightarrow> nat" where
  "WebRtcSpl_MaxAbsIndexW16 vector =
     fst (foldl (\<lambda>(index, maximum) (i, x). let absolute = \<bar>x\<bar>
                  in if absolute > maximum then (i, absolute) else (index, maximum))
            (0, 0) (enumerate 0 vector))"

definition WebRtcSpl_MaxIndexW16 :: "int list \<Rightarrow> nat" where
  "WebRtcSpl_MaxIndexW16 vector =
     fst (foldl (\<lambda>(index, maximum) (i, x). if x > maximum then (i, x) else (index, maximum))
            (0, - 32768) (enumerate 0 vector))"

definition WebRtcSpl_MaxIndexW32 :: "int list \<Rightarrow> nat" where
  "WebRtcSpl_MaxIndexW32 vector =
     fst (foldl (\<lambda>(index, maximum) (i, x). if x > maximum then (i, x) else (index, maximum))
            (0, - 2147483648) (enumerate 0 vector))"

definition WebRtcSpl_MinIndexW16 :: "int list \<Rightarrow> nat" where
  "WebRtcSpl_MinIndexW16 vector =
     fst (foldl (\<lambda>(index, minimum) (i, x). if x < minimum then (i, x) else (index, minimum))
            (0, 32767) (enumerate 0 vector))"

definition WebRtcSpl_MinIndexW32 :: "int list \<Rightarrow> nat" where
  "WebRtcSpl_MinIndexW32 vector =
     fst (foldl (\<lambda>(index, minimum) (i, x). if x < minimum then (i, x) else (index, minimum))
            (0, 2147483647) (enumerate 0 vector))"

section \<open>Copying and setting\<close>

text \<open>The array is the memory from \<open>ptr\<close> on; what lies behind the first \<open>length\<close> stays.\<close>

definition WebRtcSpl_MemSetW16 :: "int list \<Rightarrow> int \<Rightarrow> nat \<Rightarrow> int list" where
  "WebRtcSpl_MemSetW16 arr set_value len = foldl (\<lambda>a j. a[j := set_value]) arr [0..<len]"

definition WebRtcSpl_MemSetW32 :: "int list \<Rightarrow> int \<Rightarrow> nat \<Rightarrow> int list" where
  "WebRtcSpl_MemSetW32 arr set_value len = foldl (\<lambda>a j. a[j := set_value]) arr [0..<len]"

text \<open>\<open>dest\<close> points at element \<open>d\<close> of its array and is decremented after each write.\<close>

definition WebRtcSpl_MemCpyReversedOrder :: "int list \<Rightarrow> nat \<Rightarrow> int list \<Rightarrow> nat \<Rightarrow> int list" where
  "WebRtcSpl_MemCpyReversedOrder dest d source len =
     foldl (\<lambda>a j. a[d - j := source ! j]) dest [0..<len]"

definition WebRtcSpl_CopyFromEndW16 :: "int list \<Rightarrow> nat \<Rightarrow> nat \<Rightarrow> int list \<Rightarrow> int list" where
  "WebRtcSpl_CopyFromEndW16 vector_in len samples vector_out =
     overwrite vector_out 0 (take samples (drop (len - samples) vector_in))"

definition WebRtcSpl_ZerosArrayW16 :: "int list \<Rightarrow> nat \<Rightarrow> int list" where
  "WebRtcSpl_ZerosArrayW16 vector len = WebRtcSpl_MemSetW16 vector 0 len"

definition WebRtcSpl_ZerosArrayW32 :: "int list \<Rightarrow> nat \<Rightarrow> int list" where
  "WebRtcSpl_ZerosArrayW32 vector len = WebRtcSpl_MemSetW32 vector 0 len"

section \<open>Scaling\<close>

definition WebRtcSpl_VectorBitShiftW16 :: "int list \<Rightarrow> int \<Rightarrow> int list" where
  "WebRtcSpl_VectorBitShiftW16 ins right_shifts =
     (if right_shifts > 0 then map (\<lambda>x. s16 (sar x (nat right_shifts))) ins
      else map (\<lambda>x. s16 (shl32 x (nat (- right_shifts)))) ins)"

definition WebRtcSpl_VectorBitShiftW32 :: "int list \<Rightarrow> int \<Rightarrow> int list" where
  "WebRtcSpl_VectorBitShiftW32 in_vector right_shifts =
     (if right_shifts > 0 then map (\<lambda>x. sar x (nat right_shifts)) in_vector
      else map (\<lambda>x. shl32 x (nat (- right_shifts))) in_vector)"

definition WebRtcSpl_VectorBitShiftW32ToW16 :: "int list \<Rightarrow> int \<Rightarrow> int list" where
  "WebRtcSpl_VectorBitShiftW32ToW16 ins right_shifts =
     (if right_shifts \<ge> 0
      then map (\<lambda>x. WebRtcSpl_SatW32ToW16 (sar x (nat right_shifts))) ins
      else let left_shifts = nat (- right_shifts)
           in map (\<lambda>x. WebRtcSpl_SatW32ToW16 (shl32 x left_shifts)) ins)"

definition WebRtcSpl_ScaleVector :: "int list \<Rightarrow> int \<Rightarrow> nat \<Rightarrow> int list" where
  "WebRtcSpl_ScaleVector in_vector gain right_shifts =
     map (\<lambda>x. s16 (sar (x * gain) right_shifts)) in_vector"

definition WebRtcSpl_ScaleVectorWithSat :: "int list \<Rightarrow> int \<Rightarrow> nat \<Rightarrow> int list" where
  "WebRtcSpl_ScaleVectorWithSat in_vector gain right_shifts =
     map (\<lambda>x. WebRtcSpl_SatW32ToW16 (sar (x * gain) right_shifts)) in_vector"

definition WebRtcSpl_ScaleAndAddVectors ::
  "int list \<Rightarrow> int \<Rightarrow> nat \<Rightarrow> int list \<Rightarrow> int \<Rightarrow> nat \<Rightarrow> int list" where
  "WebRtcSpl_ScaleAndAddVectors in1 gain1 shift1 in2 gain2 shift2 =
     map2 (\<lambda>x y. s16 (s16 (sar (gain1 * x) shift1) + s16 (sar (gain2 * y) shift2))) in1 in2"

text \<open>A \<open>None\<close> vector is a null pointer; the first component is the return code.\<close>

definition WebRtcSpl_ScaleAndAddVectorsWithRoundC ::
  "int list option \<Rightarrow> int \<Rightarrow> int list option \<Rightarrow> int \<Rightarrow> int \<Rightarrow> int list option \<Rightarrow> nat
     \<Rightarrow> int \<times> int list option" where
  "WebRtcSpl_ScaleAndAddVectorsWithRoundC in_vector1 scale1 in_vector2 scale2 right_shifts out_vector len =
     (case (in_vector1, in_vector2, out_vector) of
        (Some v1, Some v2, Some out) \<Rightarrow>
          if len = 0 \<or> right_shifts < 0 then (- 1, out_vector)
          else let rs = nat right_shifts; round_value = sar (shl32 1 rs) 1
               in (0, Some (overwrite out 0
                     (map2 (\<lambda>x y. s16 (sar (s32 (x * scale1 + y * scale2 + round_value)) rs))
                        (take len v1) (take len v2))))
      | _ \<Rightarrow> (- 1, out_vector))"

text \<open>\<open>win\<close> is read backwards from element \<open>w\<close>.\<close>

definition WebRtcSpl_ReverseOrderMultArrayElements ::
  "int list \<Rightarrow> int list \<Rightarrow> nat \<Rightarrow> nat \<Rightarrow> nat \<Rightarrow> int list" where
  "WebRtcSpl_ReverseOrderMultArrayElements ins win w vector_length right_shifts =
     map (\<lambda>i. s16 (sar (ins ! i * win ! (w - i)) right_shifts)) [0..<vector_length]"

definition WebRtcSpl_ElementwiseVectorMult :: "int list \<Rightarrow> int list \<Rightarrow> nat \<Rightarrow> int list" where
  "WebRtcSpl_ElementwiseVectorMult ins win right_shifts =
     map2 (\<lambda>x w. s16 (sar (x * w) right_shifts)) ins win"

definition WebRtcSpl_AddVectorsAndShift :: "int list \<Rightarrow> int list \<Rightarrow> nat \<Rightarrow> int list" where
  "WebRtcSpl_AddVectorsAndShift in1 in2 right_shifts =
     map2 (\<lambda>x y. s16 (sar (x + y) right_shifts)) in1 in2"

definition WebRtcSpl_AddAffineVectorToVector ::
  "int list \<Rightarrow> int list \<Rightarrow> int \<Rightarrow> int \<Rightarrow> nat \<Rightarrow> int list" where
  "WebRtcSpl_AddAffineVectorToVector out ins gain add_constant right_shifts =
     map2 (\<lambda>z x. s16 (z + s16 (sar (s32 (x * gain + add_constant)) right_shifts))) out ins"

definition WebRtcSpl_AffineTransformVector :: "int list \<Rightarrow> int \<Rightarrow> int \<Rightarrow> nat \<Rightarrow> int list" where
  "WebRtcSpl_AffineTransformVector ins gain add_constant right_shifts =
     map (\<lambda>x. s16 (sar (s32 (x * gain + add_constant)) right_shifts)) ins"

section \<open>Energies and correlations\<close>

definition WebRtcSpl_GetScalingSquare :: "int list \<Rightarrow> nat \<Rightarrow> nat" where
  "WebRtcSpl_GetScalingSquare in_vector ntimes =
     (let nbits = WebRtcSpl_GetSizeInBits (u32 (int ntimes));
          smax = foldl (\<lambda>smax x. let sabs = s16 (if x > 0 then x else - x)
                                 in if sabs > smax then sabs else smax) (- 1) in_vector;
          t = WebRtcSpl_NormW32 (s32 (smax * smax))
      in if smax = 0 then 0 else if t > nbits then 0 else nbits - t)"

text \<open>The energy and the scale factor it is given in.\<close>

definition WebRtcSpl_Energy :: "int list \<Rightarrow> int \<times> nat" where
  "WebRtcSpl_Energy vector =
     (let scaling = WebRtcSpl_GetScalingSquare vector (length vector)
      in (foldl (\<lambda>en x. s32 (en + sar (x * x) scaling)) 0 vector, scaling))"

text \<open>The products of two 16-bit samples fit 32 bits; the running sum may wrap.\<close>

fun dot_unrolled :: "int list \<Rightarrow> int list \<Rightarrow> nat \<Rightarrow> int \<Rightarrow> int" where
  "dot_unrolled (a0 # a1 # a2 # a3 # as) (b0 # b1 # b2 # b3 # bs) scaling acc =
     (let acc = s32 (acc + sar (a0 * b0) scaling);
          acc = s32 (acc + sar (a1 * b1) scaling);
          acc = s32 (acc + sar (a2 * b2) scaling);
          acc = s32 (acc + sar (a3 * b3) scaling)
      in dot_unrolled as bs scaling acc)"
| "dot_unrolled as bs scaling acc =
     foldl (\<lambda>acc (a, b). s32 (acc + sar (a * b) scaling)) acc (zip as bs)"

definition WebRtcSpl_DotProductWithScale :: "int list \<Rightarrow> int list \<Rightarrow> nat \<Rightarrow> nat \<Rightarrow> int" where
  "WebRtcSpl_DotProductWithScale vector1 vector2 len scaling =
     dot_unrolled (take len vector1) (take len vector2) scaling 0"

text \<open>\<open>seq2\<close> points at element \<open>base\<close> of its buffer and moves by \<open>step_seq2\<close> per output.\<close>

definition WebRtcSpl_CrossCorrelationC ::
  "int list \<Rightarrow> (int \<Rightarrow> int) \<Rightarrow> nat \<Rightarrow> nat \<Rightarrow> nat \<Rightarrow> int \<Rightarrow> int list" where
  "WebRtcSpl_CrossCorrelationC seq1 seq2 dim_seq dim_cross_correlation right_shifts step_seq2 =
     map (\<lambda>i. foldl (\<lambda>corr j. s32 (corr + sar (seq1 ! j * seq2 (int i * step_seq2 + int j)) right_shifts))
                0 [0..<dim_seq])
       [0..<dim_cross_correlation]"

definition WebRtcSpl_AutoCorrelation :: "int list \<Rightarrow> nat \<Rightarrow> int list \<times> nat" where
  "WebRtcSpl_AutoCorrelation in_vector order =
     (let smax = WebRtcSpl_MaxAbsValueW16C in_vector;
          scaling = (if smax = 0 then 0
                     else let nbits = WebRtcSpl_GetSizeInBits (u32 (int (length in_vector)));
                              t = WebRtcSpl_NormW32 (s32 (smax * smax))
                          in if t > nbits then 0 else nbits - t)
      in (map (\<lambda>i. dot_unrolled in_vector (drop i in_vector) scaling 0) [0..<order + 1], scaling))"

section \<open>Filters over a window\<close>

text \<open>
  \<open>None\<close>: the output loop does not end (\<open>factor = 0\<close>). Otherwise the return code and the outputs.
\<close>

definition WebRtcSpl_DownsampleFastC ::
  "(int \<Rightarrow> int) \<Rightarrow> nat \<Rightarrow> nat \<Rightarrow> int list \<Rightarrow> nat \<Rightarrow> nat \<Rightarrow> (int \<times> int list) option" where
  "WebRtcSpl_DownsampleFastC data_in data_in_length data_out_length coefficients factor delay =
     (let endpos = delay + factor * (data_out_length - 1) + 1
      in if data_out_length = 0 \<or> length coefficients = 0 \<or> data_in_length < endpos then Some (- 1, [])
         else if factor = 0 then None
         else Some (0, map (\<lambda>i. let out_s32 = foldl (\<lambda>out j. s32 (out + coefficients ! j * data_in (int i - int j)))
                                               2048 [0..<length coefficients]
                                in WebRtcSpl_SatW32ToW16 (sar out_s32 12))
                         (map (\<lambda>k. delay + k * factor) [0..<data_out_length])))"

definition WEBRTC_SPL_SAT :: "int \<Rightarrow> int \<Rightarrow> int \<Rightarrow> int" where
  "WEBRTC_SPL_SAT a b c = (if b > a then a else if b < c then c else b)"

definition WebRtcSpl_FilterMAFastQ12 :: "(int \<Rightarrow> int) \<Rightarrow> int list \<Rightarrow> nat \<Rightarrow> int list" where
  "WebRtcSpl_FilterMAFastQ12 in_ptr B len =
     map (\<lambda>i. let o1 = foldl (\<lambda>acc j. s32 (acc + B ! j * in_ptr (int i - int j))) 0 [0..<length B];
                  o2 = WEBRTC_SPL_SAT 134215679 o1 (- 134217728)
              in s16 (sar (o2 + 2048) 12))
       [0..<len]"

text \<open>The outputs feed back: \<open>data_out\<close> is the memory around the output pointer.\<close>

definition WebRtcSpl_FilterARFastQ12 ::
  "int list \<Rightarrow> (int \<Rightarrow> int) \<Rightarrow> int list \<Rightarrow> nat \<Rightarrow> (int \<Rightarrow> int)" where
  "WebRtcSpl_FilterARFastQ12 data_in data_out coefficients data_length =
     foldl (\<lambda>mem i.
       let acc = foldl (\<lambda>acc j. s32 (acc + coefficients ! j * mem (int i - int j))) 0
                   (rev [1..<length coefficients]);
           output = s32 (coefficients ! 0 * data_in ! i - acc);
           output = WEBRTC_SPL_SAT 134215679 output (- 134217728)
       in mem(int i := s16 (sar (output + 2048) 12)))
       data_out [0..<data_length]"

section \<open>Pseudo-random numbers\<close>

definition kMaxSeedUsed :: int where "kMaxSeedUsed = 0x80000000"

definition kRandNTable :: "int list" where
  "kRandNTable = [
    9178, - 7260, 40, 10189, 4894, - 3531, - 13779, 14764, - 4008, - 8884,
    - 8990, 1008, 7368, 5184, 3251, - 5817, - 9786, 5963, 1770, 8066,
    - 7135, 10772, - 2298, 1361, 6484, 2241, - 8633, 792, 199, - 3344,
    6553, - 10079, - 15040, 95, 11608, - 12469, 14161, - 4176, 2476, 6403,
    13685, - 16005, 6646, 2239, 10916, - 3004, - 602, - 3141, 2142, 14144,
    - 5829, 5305, 8209, 4713, 2697, - 5112, 16092, - 1210, - 2891, - 6631,
    - 5360, - 11878, - 6781, - 2739, - 6392, 536, 10923, 10872, 5059, - 4748,
    - 7770, 5477, 38, - 1025, - 2892, 1638, 6304, 14375, - 11028, 1553,
    - 1565, 10762, - 393, 4040, 5257, 12310, 6554, - 4799, 4899, - 6354,
    1603, - 1048, - 2220, 8247, - 186, - 8944, - 12004, 2332, 4801, - 4933,
    6371, 131, 8614, - 5927, - 8287, - 22760, 4033, - 15162, 3385, 3246,
    3153, - 5250, 3766, 784, 6494, - 62, 3531, - 1582, 15572, 662,
    - 3952, - 330, - 3196, 669, 7236, - 2678, - 6569, 23319, - 8645, - 741,
    14830, - 15976, 4903, 315, - 11342, 10311, 1858, - 7777, 2145, 5436,
    5677, - 113, - 10033, 826, - 1353, 17210, 7768, 986, - 1471, 8291,
    - 4982, 8207, - 14911, - 6255, - 2449, - 11881, - 7059, - 11703, - 4338, 8025,
    7538, - 2823, - 12490, 9470, - 1613, - 2529, - 10092, - 7807, 9480, 6970,
    - 12844, 5123, 3532, 4816, 4803, - 8455, - 5045, 14032, - 4378, - 1643,
    5756, - 11041, - 2732, - 16618, - 6430, - 18375, - 3320, 6098, 5131, - 4269,
    - 8840, 2482, - 7048, 1547, - 21890, - 6505, - 7414, - 424, - 11722, 7955,
    1653, - 17299, 1823, 473, - 9232, 3337, 1111, 873, 4018, - 8982,
    9889, 3531, - 11763, - 3799, 7373, - 4539, 3231, 7054, - 8537, 7616,
    6244, 16635, 447, - 2915, 13967, 705, - 2669, - 1520, - 1771, - 16188,
    5956, 5117, 6371, - 9936, - 1448, 2480, 5128, 7550, - 8130, 5236,
    8213, - 6443, 7707, - 1950, - 13811, 7218, 7031, - 3883, 67, 5731,
    - 2874, 13480, - 3743, 9298, - 3280, 3552, - 4425, - 18, - 3785, - 9988,
    - 5357, 5477, - 11794, 2117, 1416, - 9935, 3376, 802, - 5079, - 8243,
    12652, 66, 3653, - 2368, 6781, - 21895, - 7227, 2487, 7839, - 385,
    6646, - 7016, - 4658, 5531, - 1705, 834, 129, 3694, - 1343, 2238,
    - 22640, - 6417, - 11139, 11301, - 2945, - 3494, - 5626, 185, - 3615, - 2041,
    - 7972, - 3106, - 60, - 23497, - 1566, 17064, 3519, 2518, 304, - 6805,
    - 10269, 2105, 1936, - 426, - 736, - 8122, - 1467, 4238, - 6939, - 13309,
    360, 7402, - 7970, 12576, 3287, 12194, - 6289, - 16006, 9171, 4042,
    - 9193, 9123, - 2512, 6388, - 4734, - 8739, 1028, - 5406, - 1696, 5889,
    - 666, - 4736, 4971, 3565, 9362, - 6292, 3876, - 3652, - 19666, 7523,
    - 4061, 391, - 11773, 7502, - 3763, 4929, - 9478, 13278, 2805, 4496,
    7814, 16419, 12455, - 14773, 2127, - 2746, 3763, 4847, 3698, 6978,
    4751, - 6957, - 3581, - 45, 6252, 1513, - 4797, - 7925, 11270, 16188,
    - 2359, - 5269, 9376, - 10777, 7262, 20031, - 6515, - 2208, - 5353, 8085,
    - 1341, - 1303, 7333, 5576, 3625, 5763, - 7931, 9833, - 3371, - 10305,
    6534, - 13539, - 9971, 997, 8464, - 4064, - 1495, 1857, 13624, 5458,
    9490, - 11086, - 4524, 12022, - 550, - 198, 408, - 8455, - 7068, 10289,
    9712, - 3366, 9028, - 7621, - 5243, 2362, 6909, 4672, - 4933, - 1799,
    4709, - 4563, - 62, - 566, 1624, - 7010, 14730, - 17791, - 3697, - 2344,
    - 1741, 7099, - 9509, - 6855, - 1989, 3495, - 2289, 2031, 12784, 891,
    14189, - 3963, - 5683, 421, - 12575, 1724, - 12682, - 5970, - 8169, 3143,
    - 1824, - 5488, - 5130, 8536, 12799, 794, 5738, 3459, - 11689, - 258,
    - 3738, - 3775, - 8742, 2333, 8312, - 9383, 10331, 13119, 8398, 10644,
    - 19433, - 6446, - 16277, - 11793, 16284, 9345, 15222, 15834, 2009, - 7349,
    130, - 14547, 338, - 5998, 3337, 21492, 2406, 7703, - 951, 11196,
    - 564, 3406, 2217, 4806, 2374, - 5797, 11839, 8940, - 11874, 18213,
    2855, 10492]"

definition IncreaseSeed :: "int \<Rightarrow> int" where
  "IncreaseSeed seed = u32 (u32 (seed * 69069 + 1) AND (kMaxSeedUsed - 1))"

text \<open>Each generator returns its value and the new seed.\<close>

definition WebRtcSpl_RandU :: "int \<Rightarrow> int \<times> int" where
  "WebRtcSpl_RandU seed = (let s = IncreaseSeed seed in (s16 (sar s 16), s))"

definition WebRtcSpl_RandN :: "int \<Rightarrow> int \<times> int" where
  "WebRtcSpl_RandN seed = (let s = IncreaseSeed seed in (kRandNTable ! nat (sar s 23), s))"

fun WebRtcSpl_RandUArray :: "nat \<Rightarrow> int \<Rightarrow> int list \<times> int" where
  "WebRtcSpl_RandUArray 0 seed = ([], seed)"
| "WebRtcSpl_RandUArray (Suc n) seed =
     (let (x, s) = WebRtcSpl_RandU seed; (xs, s') = WebRtcSpl_RandUArray n s in (x # xs, s'))"

section \<open>Extrema: the loops compute the extrema\<close>

lemma foldl_max_eq:
  "foldl (\<lambda>m x. let a = f x in if a > m then a else m) m0 xs = Max (insert m0 (f ` set xs))"
  for f :: "'a \<Rightarrow> int"
proof (induction xs arbitrary: m0)
  case Nil
  then show ?case by simp
next
  case (Cons x xs)
  have "foldl (\<lambda>m x. let a = f x in if a > m then a else m) m0 (x # xs) =
      foldl (\<lambda>m x. let a = f x in if a > m then a else m) (max m0 (f x)) xs"
    by (simp add: Let_def max_def)
  also have "\<dots> = Max (insert (max m0 (f x)) (f ` set xs))" by (rule Cons.IH)
  also have "\<dots> = Max (insert m0 (f ` set (x # xs)))"
    by (cases "xs = []") (simp_all add: max.assoc [symmetric] max.commute)
  finally show ?case .
qed

lemma MaxAbsValueW16C_Max:
  assumes "xs \<noteq> []" "\<forall>x\<in>set xs. is16 x"
  shows "WebRtcSpl_MaxAbsValueW16C xs = min 32767 (Max (abs ` set xs))"
proof -
  have ge: "0 \<le> Max (abs ` set xs)"
  proof -
    from assms(1) obtain x where "x \<in> set xs" by (cases xs) auto
    then have "\<bar>x\<bar> \<le> Max (abs ` set xs)" by (intro Max_ge) simp_all
    then show ?thesis by simp
  qed
  then have "Max (insert 0 (abs ` set xs)) = Max (abs ` set xs)"
    using assms(1) by simp
  then show ?thesis
    using ge foldl_max_eq [of abs 0 xs]
    by (simp add: WebRtcSpl_MaxAbsValueW16C_def Let_def is16_def min_def)
qed

lemma MaxValueW16C_Max: "WebRtcSpl_MaxValueW16C xs = Max (insert (- 32768) (set xs))"
  using foldl_max_eq [of "\<lambda>x. x" "- 32768" xs] by (simp add: WebRtcSpl_MaxValueW16C_def Let_def)

lemma MaxValueW32C_Max: "WebRtcSpl_MaxValueW32C xs = Max (insert (- 2147483648) (set xs))"
  using foldl_max_eq [of "\<lambda>x. x" "- 2147483648" xs] by (simp add: WebRtcSpl_MaxValueW32C_def Let_def)

text \<open>
  The index loops: with a score \<open>f\<close>, the loop keeps the first position of the best score, or \<open>0\<close>
  while no score beats the start value.
\<close>

lemma foldl_best_index:
  fixes f :: "'a \<Rightarrow> int"
  defines "step \<equiv> \<lambda>(index, best) (i, x). if f x > best then (i, f x) else (index, best)"
  shows "foldl step (k, b) (enumerate n xs) = (i, m) \<Longrightarrow>
    (i = k \<and> m = b \<and> (\<forall>x\<in>set xs. f x \<le> b)) \<or>
    (\<exists>j < length xs. i = n + j \<and> m = f (xs ! j) \<and> b < m \<and> (\<forall>x\<in>set xs. f x \<le> m) \<and>
       (\<forall>j' < j. f (xs ! j') < m))"
proof (induction xs arbitrary: n k b)
  case Nil
  then show ?case by simp
next
  case (Cons x xs)
  let ?k = "if f x > b then n else k" and ?b = "if f x > b then f x else b"
  have "foldl step (?k, ?b) (enumerate (Suc n) xs) = (i, m)"
    using Cons.prems by (auto simp: step_def split: if_splits)
  then consider "i = ?k" "m = ?b" "\<forall>x\<in>set xs. f x \<le> ?b"
    | j where "j < length xs" "i = Suc n + j" "m = f (xs ! j)" "?b < m" "\<forall>x\<in>set xs. f x \<le> m"
        "\<forall>j' < j. f (xs ! j') < m"
    using Cons.IH by blast
  then show ?case
  proof cases
    case 1
    then show ?thesis
      by (cases "f x > b") (auto intro!: exI [of _ 0])
  next
    case (2 j)
    then have "b < m" "f x < m" by (auto split: if_splits)
    moreover have "\<forall>j' < Suc j. f ((x # xs) ! j') < m"
      using 2 \<open>f x < m\<close> by (auto simp: less_Suc_eq_0_disj)
    ultimately show ?thesis
      using 2 by (intro disjI2 exI [of _ "Suc j"]) auto
  qed
qed

lemma foldl_best_first:
  fixes f :: "int \<Rightarrow> int"
  assumes "xs \<noteq> []" "\<forall>x\<in>set xs. b \<le> f x"
    and "i = fst (foldl (\<lambda>(index, best) (i, x). if f x > best then (i, f x) else (index, best))
           (0, b) (enumerate 0 xs))"
  shows "i < length xs" "\<forall>x\<in>set xs. f x \<le> f (xs ! i)" "\<forall>j < i. f (xs ! j) < f (xs ! i)"
proof -
  let ?r = "foldl (\<lambda>(index, best) (i, x). if f x > best then (i, f x) else (index, best))
      (0, b) (enumerate 0 xs)"
  obtain m where "?r = (i, m)"
    using assms(3) by (cases ?r) simp
  from foldl_best_index [OF this] have "i < length xs \<and> (\<forall>x\<in>set xs. f x \<le> f (xs ! i)) \<and> (\<forall>j < i. f (xs ! j) < f (xs ! i))"
  proof
    assume *: "i = 0 \<and> m = b \<and> (\<forall>x\<in>set xs. f x \<le> b)"
    have "f (xs ! 0) = b" using * assms(1,2) by (simp add: order_antisym)
    then show ?thesis using * assms(1) by simp
  qed auto
  then show "i < length xs" "\<forall>x\<in>set xs. f x \<le> f (xs ! i)" "\<forall>j < i. f (xs ! j) < f (xs ! i)"
    by simp_all
qed

lemma MaxAbsIndexW16_first:
  assumes "xs \<noteq> []" "i = WebRtcSpl_MaxAbsIndexW16 xs"
  shows "i < length xs" "\<forall>x\<in>set xs. \<bar>x\<bar> \<le> \<bar>xs ! i\<bar>" "\<forall>j < i. \<bar>xs ! j\<bar> < \<bar>xs ! i\<bar>"
  using foldl_best_first [of xs 0 abs i] assms by (simp_all add: WebRtcSpl_MaxAbsIndexW16_def Let_def)

lemma MaxIndexW16_first:
  assumes "xs \<noteq> []" "\<forall>x\<in>set xs. is16 x" "i = WebRtcSpl_MaxIndexW16 xs"
  shows "i < length xs" "\<forall>x\<in>set xs. x \<le> xs ! i" "\<forall>j < i. xs ! j < xs ! i"
  using foldl_best_first [of xs "- 32768" "\<lambda>x. x" i] assms
  by (simp_all add: WebRtcSpl_MaxIndexW16_def is16_def)

section \<open>The unrolled inner product\<close>

lemma dot_unrolled_foldl:
  "dot_unrolled as bs scaling acc =
     foldl (\<lambda>acc (a, b). s32 (acc + sar (a * b) scaling)) acc (zip as bs)"
  by (induction as bs scaling acc rule: dot_unrolled.induct) (simp_all add: Let_def add.assoc)

lemma foldl_s32_sum:
  "foldl (\<lambda>acc p. s32 (acc + f p)) (s32 s) ps = s32 (s + (\<Sum>p\<leftarrow>ps. f p))"
proof (induction ps arbitrary: s)
  case Nil
  then show ?case by simp
next
  case (Cons p ps)
  from Cons.IH [of "s + f p"] show ?case by (simp add: add.assoc)
qed

lemma dot_unrolled_sum:
  "dot_unrolled as bs scaling 0 = s32 (\<Sum>(a, b)\<leftarrow>zip as bs. sar (a * b) scaling)"
  using foldl_s32_sum [of "\<lambda>(a, b). sar (a * b) scaling" 0 "zip as bs"]
  by (simp add: dot_unrolled_foldl case_prod_unfold)

section \<open>The seed of the generator is permuted\<close>

lemma IncreaseSeed_mod: "IncreaseSeed seed = (seed * 69069 + 1) mod 2147483648"
proof -
  have m: "kMaxSeedUsed - 1 = mask 31" by (simp add: kMaxSeedUsed_def mask_eq_exp_minus_1)
  have "u32 x AND (kMaxSeedUsed - 1) = x mod 2147483648" for x
    unfolding m take_bit_eq_mask [symmetric] take_bit_eq_mod u32_def by (simp add: mod_mod_cancel)
  moreover have "u32 (x mod 2147483648) = x mod 2147483648" for x
    using pos_mod_bound [of 2147483648 x] pos_mod_sign [of 2147483648 x]
    by (intro u32_id) (simp add: isu32_def)
  ultimately show ?thesis by (simp add: IncreaseSeed_def)
qed

lemma IncreaseSeed_range: "0 \<le> IncreaseSeed seed" "IncreaseSeed seed < 2147483648"
  by (simp_all add: IncreaseSeed_mod)

lemma IncreaseSeed_inj:
  assumes "0 \<le> a" "a < 2147483648" "0 \<le> b" "b < 2147483648" "IncreaseSeed a = IncreaseSeed b"
  shows "a = b"
proof -
  have "(2147483648 :: int) dvd (a * 69069 + 1) - (b * 69069 + 1)"
    using assms(5) by (simp add: IncreaseSeed_mod mod_eq_dvd_iff)
  moreover have "(a * 69069 + 1) - (b * 69069 + 1) = (a - b) * 69069" by simp
  ultimately have dvd: "(2147483648 :: int) dvd (a - b) * 69069" by (simp only:)
  have "coprime ((2 :: int) ^ 31) 69069" unfolding coprime_power_left_iff by simp
  then have "coprime (2147483648 :: int) 69069" by simp
  then have "(2147483648 :: int) dvd a - b" using dvd coprime_dvd_mult_left_iff by blast
  then show ?thesis
    using assms(1-4) zdvd_imp_le [of 2147483648 "\<bar>a - b\<bar>"] by (cases "a = b") auto
qed

lemma RandU_range:
  "0 \<le> fst (WebRtcSpl_RandU seed)" "fst (WebRtcSpl_RandU seed) \<le> 32767"
proof -
  have "sar (IncreaseSeed seed) 16 < 32768" "0 \<le> sar (IncreaseSeed seed) 16"
    using IncreaseSeed_range [of seed] by (simp_all add: sar_less_iff sar_nonneg)
  then show "0 \<le> fst (WebRtcSpl_RandU seed)" "fst (WebRtcSpl_RandU seed) \<le> 32767"
    by (simp_all add: WebRtcSpl_RandU_def Let_def s16_eqI)
qed

lemma RandN_lower_half: "nat (sar (IncreaseSeed seed) 23) < 256"
proof -
  have "sar (IncreaseSeed seed) 23 < 256" using IncreaseSeed_range [of seed] by (simp add: sar_less_iff)
  then show ?thesis by simp
qed

section \<open>The energy fits its scaling\<close>

lemma sum_list_le_length:
  "\<forall>y\<in>set ys. y \<le> M \<Longrightarrow> sum_list ys \<le> int (length ys) * M"
  by (induction ys) (auto simp: algebra_simps)

lemma scaled_sum_nonneg: "\<forall>y\<in>set ys. 0 \<le> y \<Longrightarrow> 0 \<le> (\<Sum>y\<leftarrow>ys. sar y k)"
  by (induction ys) (simp_all add: sar_nonneg)

lemma scaled_sum_le: "(\<Sum>y\<leftarrow>ys. sar y k) * 2 ^ k \<le> sum_list ys"
proof (induction ys)
  case Nil
  then show ?case by simp
next
  case (Cons y ys)
  have "sar y k * 2 ^ k \<le> y" using sar_ge_iff [of "sar y k" y k] by simp
  with Cons show ?case by (simp add: distrib_right)
qed

lemma scaled_sum_fits:
  assumes y: "\<forall>y\<in>set ys. y \<le> M" and M: "0 < M" "M * 2 ^ t \<le> 2 ^ 31"
    and b: "int (length ys) < 2 ^ b" "b \<le> k + t"
  shows "(\<Sum>y\<leftarrow>ys. sar y k) < 2 ^ 31"
proof -
  have "(\<Sum>y\<leftarrow>ys. sar y k) * 2 ^ k \<le> int (length ys) * M"
    using scaled_sum_le [of k ys] sum_list_le_length [OF y] by linarith
  also have "\<dots> < 2 ^ b * M" using b(1) M(1) by simp
  also have "\<dots> \<le> 2 ^ (k + t) * M"
    using b(2) M(1) by (intro mult_right_mono power_increasing) simp_all
  also have "\<dots> = M * 2 ^ t * 2 ^ k" by (simp add: power_add mult_ac)
  also have "\<dots> \<le> 2 ^ 31 * 2 ^ k" using M(2) by (intro mult_right_mono) simp_all
  finally show ?thesis by simp
qed

text \<open>
  The shift both scaled routines compute from the largest magnitude \<open>m\<close> of \<open>n\<close> samples: with it
  the sum of the shifted squares fits 31 bits.
\<close>

lemma scaled_squares_fit:
  assumes m: "0 < m" "m * m < 2147483648" and sq: "\<forall>x\<in>set xs. x * x \<le> M"
    and M: "0 < M" "M * 2 ^ WebRtcSpl_NormW32 (m * m) \<le> 2 ^ 31"
    and n: "length xs < 2 ^ 32"
    and k: "k = (if WebRtcSpl_NormW32 (m * m) > WebRtcSpl_GetSizeInBits (u32 (int (length xs))) then 0
                 else WebRtcSpl_GetSizeInBits (u32 (int (length xs))) - WebRtcSpl_NormW32 (m * m))"
  shows "0 \<le> (\<Sum>x\<leftarrow>xs. sar (x * x) k)" "(\<Sum>x\<leftarrow>xs. sar (x * x) k) < 2 ^ 31"
proof -
  have u: "u32 (int (length xs)) = int (length xs)" using n by (intro u32_id) (simp add: isu32_def)
  have "int (length xs) < 2 ^ WebRtcSpl_GetSizeInBits (u32 (int (length xs)))"
    using GetSizeInBits_least(1) [of "int (length xs)"] n u by (simp add: isu32_def)
  then have "(\<Sum>y\<leftarrow>map (\<lambda>x. x * x) xs. sar y k) < 2 ^ 31"
    using sq M k by (intro scaled_sum_fits [where M = M and t = "WebRtcSpl_NormW32 (m * m)"]) auto
  then show "(\<Sum>x\<leftarrow>xs. sar (x * x) k) < 2 ^ 31" by (simp add: comp_def)
  show "0 \<le> (\<Sum>x\<leftarrow>xs. sar (x * x) k)"
    using scaled_sum_nonneg [of "map (\<lambda>x. x * x) xs" k] by (simp add: comp_def)
qed

lemma silent_energy:
  assumes "xs = [] \<or> Max (abs ` set xs) = 0"
  shows "(\<Sum>x\<leftarrow>xs. sar (x * x) k) = (0 :: int)"
proof -
  have "sar (x * x) k = 0" if "x \<in> set xs" for x
  proof -
    have "\<bar>x\<bar> \<le> Max (abs ` set xs)" using that by (intro Max_ge) simp_all
    also have "\<dots> = 0" using assms that by auto
    finally show ?thesis by simp
  qed
  then have "(\<Sum>x\<leftarrow>xs. sar (x * x) k) = (\<Sum>x\<leftarrow>xs. 0)" by (intro arg_cong [of _ _ sum_list] map_cong) simp_all
  then show ?thesis by (simp add: sum_list_triv)
qed

lemma abs_square_le: "\<bar>x\<bar> \<le> m \<Longrightarrow> x * x \<le> m * (m :: int)"
  using mult_mono [of "\<bar>x\<bar>" m "\<bar>x\<bar>" m] by simp

lemma square_lt_31: "0 \<le> m \<Longrightarrow> m \<le> 32768 \<Longrightarrow> m * m \<le> (1073741824 :: int)"
  using mult_mono [of m 32768 m 32768] by simp

lemma GetScalingSquare_max:
  assumes "xs \<noteq> []" "\<forall>x\<in>set xs. is16 x \<and> x \<noteq> - 32768"
  defines "m \<equiv> Max (abs ` set xs)"
  shows "WebRtcSpl_GetScalingSquare xs n =
    (if m = 0 then 0
     else if WebRtcSpl_NormW32 (m * m) > WebRtcSpl_GetSizeInBits (u32 (int n)) then 0
     else WebRtcSpl_GetSizeInBits (u32 (int n)) - WebRtcSpl_NormW32 (m * m))"
    and "0 \<le> m" "m \<le> 32767"
proof -
  have sabs: "s16 (if x > 0 then x else - x) = \<bar>x\<bar>" if "x \<in> set xs" for x
    using assms(2) that by (auto simp: is16_def s16_eqI)
  have "foldl (\<lambda>smax x. let sabs = s16 (if x > 0 then x else - x) in if sabs > smax then sabs else smax)
      (- 1) xs = foldl (\<lambda>smax x. let sabs = \<bar>x\<bar> in if sabs > smax then sabs else smax) (- 1) xs"
    by (rule foldl_cong) (simp_all add: sabs)
  also have "\<dots> = Max (insert (- 1) (abs ` set xs))" by (rule foldl_max_eq)
  also have "\<dots> = m"
  proof -
    from assms(1) obtain x where "x \<in> set xs" by (cases xs) auto
    then have "\<bar>x\<bar> \<le> m" unfolding m_def by (intro Max_ge) simp_all
    then show ?thesis using assms(1) by (simp add: m_def)
  qed
  finally have fold: "foldl (\<lambda>smax x. let sabs = s16 (if x > 0 then x else - x) in if sabs > smax then sabs else smax)
      (- 1) xs = m" .
  have "m \<in> abs ` set xs" unfolding m_def using assms(1) by (intro Max_in) simp_all
  then show m: "0 \<le> m" "m \<le> 32767" using assms(2) by (auto simp: is16_def)
  then have "s32 (m * m) = m * m"
    using square_lt_31 [of m] by (intro s32_eqI) (simp_all add: order_trans [of _ 0])
  then show "WebRtcSpl_GetScalingSquare xs n =
    (if m = 0 then 0
     else if WebRtcSpl_NormW32 (m * m) > WebRtcSpl_GetSizeInBits (u32 (int n)) then 0
     else WebRtcSpl_GetSizeInBits (u32 (int n)) - WebRtcSpl_NormW32 (m * m))"
    unfolding WebRtcSpl_GetScalingSquare_def fold by (simp add: Let_def)
qed

lemma Energy_s32:
  "WebRtcSpl_Energy xs =
     (s32 (\<Sum>x\<leftarrow>xs. sar (x * x) (WebRtcSpl_GetScalingSquare xs (length xs))), WebRtcSpl_GetScalingSquare xs (length xs))"
  using foldl_s32_sum [of "\<lambda>x. sar (x * x) (WebRtcSpl_GetScalingSquare xs (length xs))" 0 xs]
  by (simp add: WebRtcSpl_Energy_def Let_def)

lemma Energy_sum:
  assumes "\<forall>x\<in>set xs. is16 x \<and> x \<noteq> - 32768" "length xs < 2 ^ 32"
  defines "k \<equiv> WebRtcSpl_GetScalingSquare xs (length xs)"
  shows "WebRtcSpl_Energy xs = (\<Sum>x\<leftarrow>xs. sar (x * x) k, k)"
    and "0 \<le> (\<Sum>x\<leftarrow>xs. sar (x * x) k)" "(\<Sum>x\<leftarrow>xs. sar (x * x) k) < 2 ^ 31"
proof -
  let ?E = "\<Sum>x\<leftarrow>xs. sar (x * x) k" and ?m = "Max (abs ` set xs)"
  have "0 \<le> ?E \<and> ?E < 2 ^ 31"
  proof (cases "xs = [] \<or> ?m = 0")
    case True
    then show ?thesis by (simp only: silent_energy) simp
  next
    case False
    then have ne: "xs \<noteq> []" by simp
    note mx = GetScalingSquare_max [OF ne assms(1)]
    have "?m \<noteq> 0" using False by simp
    then have m: "0 < ?m" "?m * ?m < 2147483648" using mx(2,3) square_lt_31 [of ?m] by linarith+
    have sq: "\<forall>x\<in>set xs. x * x \<le> ?m * ?m" by (intro ballI abs_square_le Max_ge) simp_all
    have "0 < ?m * ?m" using m(1) by simp
    moreover have "?m * ?m * 2 ^ WebRtcSpl_NormW32 (?m * ?m) \<le> 2 ^ 31"
      using NormW32_pos(2) [of "?m * ?m"] m calculation by simp
    ultimately show ?thesis
      using scaled_squares_fit [OF m sq _ _ assms(2), of k] mx(1) [of "length xs"] m(1)
      by (simp add: k_def)
  qed
  then show "0 \<le> ?E" "?E < 2 ^ 31" by simp_all
  then show "WebRtcSpl_Energy xs = (?E, k)"
    by (simp add: Energy_s32 k_def is32_def)
qed

text \<open>Two samples at the bottom of the range: no magnitude is seen and the energy wraps.\<close>

lemma Energy_wraps: "WebRtcSpl_Energy [- 32768, - 32768] = (- 2147483648, 0)"
  by code_simp

text \<open>The autocorrelation clips the magnitude instead, so its zero lag never wraps.\<close>

lemma AutoCorrelation_zero_lag:
  fixes xs :: "int list" and order :: nat
  assumes "\<forall>x\<in>set xs. is16 x" "length xs < 2 ^ 32"
  defines "k \<equiv> snd (WebRtcSpl_AutoCorrelation xs order)"
  shows "fst (WebRtcSpl_AutoCorrelation xs order) ! 0 = (\<Sum>x\<leftarrow>xs. sar (x * x) k)"
    and "0 \<le> (\<Sum>x\<leftarrow>xs. sar (x * x) k)" "(\<Sum>x\<leftarrow>xs. sar (x * x) k) < 2 ^ 31"
proof -
  let ?E = "\<Sum>x\<leftarrow>xs. sar (x * x) k" and ?m = "Max (abs ` set xs)"
  let ?c = "WebRtcSpl_MaxAbsValueW16C xs"
  have "0 \<le> ?E \<and> ?E < 2 ^ 31"
  proof (cases "xs = [] \<or> ?m = 0")
    case True
    then show ?thesis by (simp only: silent_energy) simp
  next
    case False
    then have ne: "xs \<noteq> []" by simp
    have "?m \<in> abs ` set xs" using ne by (intro Max_in) simp_all
    then obtain x where x: "?m = \<bar>x\<bar>" "x \<in> set xs" by (rule imageE)
    have "?m \<noteq> 0" using False by simp
    moreover have "is16 x" using x(2) assms(1) by simp
    ultimately have m: "0 < ?m" "?m \<le> 32768" using x(1) unfolding is16_def by linarith+
    have c: "?c = min 32767 ?m" by (rule MaxAbsValueW16C_Max [OF ne assms(1)])
    then have c01: "0 < ?c" "?c \<le> 32767" using m by linarith+
    then have c0: "0 < ?c" "?c \<le> 32767" "?c * ?c < 2147483648"
      using square_lt_31 [of ?c] by linarith+
    then have s: "s32 (?c * ?c) = ?c * ?c"
      by (intro s32_eqI) (simp_all add: order_trans [of _ 0])
    have sq: "\<forall>x\<in>set xs. x * x \<le> ?m * ?m" by (intro ballI abs_square_le Max_ge) simp_all
    have pos: "0 < ?c * ?c" "0 < ?m * ?m" using c0 m by simp_all
    have fit: "?m * ?m * 2 ^ WebRtcSpl_NormW32 (?c * ?c) \<le> 2 ^ 31"
    proof (cases "?m = 32768")
      case True
      then have "?c = 32767" using c by simp
      moreover have "WebRtcSpl_NormW32 1073676289 = 1" by code_simp
      ultimately show ?thesis using True by simp
    next
      case False
      then have "?c = ?m" using c m(2) by simp
      then show ?thesis using NormW32_pos(2) [OF pos(1) c0(3)] by simp
    qed
    have "k = (if WebRtcSpl_NormW32 (?c * ?c) > WebRtcSpl_GetSizeInBits (u32 (int (length xs))) then 0
           else WebRtcSpl_GetSizeInBits (u32 (int (length xs))) - WebRtcSpl_NormW32 (?c * ?c))"
      using c0(1) by (simp add: k_def WebRtcSpl_AutoCorrelation_def Let_def s)
    from scaled_squares_fit [OF c0(1,3) sq pos(2) fit assms(2) this]
    show ?thesis by simp
  qed
  then show E: "0 \<le> ?E" "?E < 2 ^ 31" by simp_all
  have "zip xs xs = map (\<lambda>x. (x, x)) xs" by (induction xs) simp_all
  then have "dot_unrolled xs xs k 0 = s32 ?E"
    by (simp add: dot_unrolled_sum comp_def)
  then show "fst (WebRtcSpl_AutoCorrelation xs order) ! 0 = ?E"
    using E by (simp add: k_def WebRtcSpl_AutoCorrelation_def Let_def is32_def del: upt_Suc)
qed

end
