(* ===== verification/SplResample.thy ===== *)
theory SplResample imports SplVector begin

text \<open>
  The resamplers of \<open>signal_processing/\<close>: the polyphase allpass filters of
  \<open>resample_by_2_internal.c\<close>, the 22-bit variants of \<open>resample_by_2.c\<close>, the fractional filters of
  \<open>resample_fractional.c\<close> and the frame resamplers of \<open>resample_48khz.c\<close>.

  The state array of a polyphase filter is cut into its branches: \<open>state[0..3]\<close> is the record of the
  lower allpass section, \<open>state[4..7]\<close> of the upper one (\<open>state[8..11]\<close>, \<open>state[12..15]\<close> of the second
  pair in the low-pass filters). Each of the code's loops over one branch is a \<open>scan\<close>. The length
  argument is the length of the input list; an interleaved output array is built by \<open>interleave\<close>.
\<close>

section \<open>The allpass section\<close>

record allpass =
  ap0 :: int
  ap1 :: int
  ap2 :: int
  ap3 :: int

definition allpass_zero :: allpass where
  "allpass_zero = \<lparr>ap0 = 0, ap1 = 0, ap2 = 0, ap3 = 0\<rparr>"

definition kResampleAllpass :: "int list list" where
  "kResampleAllpass = [[821, 6110, 12382], [3050, 9368, 15063]]"

definition upper :: "int list" where "upper = kResampleAllpass ! 0"
definition lower :: "int list" where "lower = kResampleAllpass ! 1"

text \<open>\<open>diff = diff >> 14; if (diff < 0) diff += 1;\<close>: scale down and truncate.\<close>

definition scale_trunc :: "int \<Rightarrow> int" where
  "scale_trunc d = (let diff = sar d 14 in if diff < 0 then diff + 1 else diff)"

definition allpass_step :: "int list \<Rightarrow> allpass \<Rightarrow> int \<Rightarrow> allpass \<times> int" where
  "allpass_step coef st tmp0 =
     (let diff = s32 (tmp0 - ap1 st);
          diff = sar (s32 (diff + 8192)) 14;
          tmp1 = s32 (ap0 st + diff * coef ! 0);
          diff = scale_trunc (s32 (tmp1 - ap2 st));
          tmp2 = s32 (ap1 st + diff * coef ! 1);
          diff = scale_trunc (s32 (tmp2 - ap3 st));
          st3 = s32 (ap2 st + diff * coef ! 2)
      in (\<lparr>ap0 = tmp0, ap1 = tmp1, ap2 = tmp2, ap3 = st3\<rparr>, st3))"

text \<open>\<open>((int32_t)in[i] << 15) + (1 << 14)\<close>\<close>

definition to_q15 :: "int \<Rightarrow> int" where
  "to_q15 x = s32 (shl32 x 15 + 16384)"

text \<open>The two explicit comparisons before \<open>(int16_t)tmp\<close>.\<close>

definition sat_store :: "int \<Rightarrow> int" where
  "sat_store tmp =
     (let tmp = (if tmp > 32767 then 32767 else tmp);
          tmp = (if tmp < - 32768 then - 32768 else tmp)
      in s16 tmp)"

record two_phase =
  lower_br :: allpass
  upper_br :: allpass

definition two_phase_zero :: two_phase where
  "two_phase_zero = \<lparr>lower_br = allpass_zero, upper_br = allpass_zero\<rparr>"

record four_phase =
  lo1 :: allpass
  up1 :: allpass
  lo2 :: allpass
  up2 :: allpass

definition four_phase_zero :: four_phase where
  "four_phase_zero = \<lparr>lo1 = allpass_zero, up1 = allpass_zero, lo2 = allpass_zero, up2 = allpass_zero\<rparr>"

section \<open>Decimators and interpolators by two\<close>

text \<open>
  The input array is overwritten with the halved branch outputs, then combined two outputs at a time.
  The definition models even numbers of outputs, those of all callers (inputs of 320 and 160 samples): for
  an odd number the code reads two elements behind the input and writes one behind the output.
\<close>

definition WebRtcSpl_DownBy2IntToShort :: "int list \<Rightarrow> two_phase \<Rightarrow> two_phase \<times> int list" where
  "WebRtcSpl_DownBy2IntToShort ins st =
     (let (l, ys) = scan (allpass_step lower) (lower_br st) (evens ins);
          ys = map (\<lambda>y. sar y 1) ys;
          (u, zs) = scan (allpass_step upper) (upper_br st) (odds ins);
          zs = map (\<lambda>z. sar z 1) zs
      in (\<lparr>lower_br = l, upper_br = u\<rparr>, map2 (\<lambda>y z. sat_store (sar (s32 (y + z)) 15)) ys zs))"

definition WebRtcSpl_DownBy2ShortToInt :: "int list \<Rightarrow> two_phase \<Rightarrow> two_phase \<times> int list" where
  "WebRtcSpl_DownBy2ShortToInt ins st =
     (let (l, ys) = scan (allpass_step lower) (lower_br st) (map to_q15 (evens ins));
          ys = map (\<lambda>y. sar y 1) ys;
          (u, zs) = scan (allpass_step upper) (upper_br st) (map to_q15 (odds ins))
      in (\<lparr>lower_br = l, upper_br = u\<rparr>, map2 (\<lambda>y z. s32 (y + sar z 1)) ys zs))"

definition WebRtcSpl_UpBy2ShortToInt :: "int list \<Rightarrow> two_phase \<Rightarrow> two_phase \<times> int list" where
  "WebRtcSpl_UpBy2ShortToInt ins st =
     (let (u, zs) = scan (allpass_step upper) (upper_br st) (map to_q15 ins);
          (l, ys) = scan (allpass_step lower) (lower_br st) (map to_q15 ins)
      in (\<lparr>lower_br = l, upper_br = u\<rparr>, interleave (map (\<lambda>z. sar z 15) zs) (map (\<lambda>y. sar y 15) ys)))"

definition WebRtcSpl_UpBy2IntToInt :: "int list \<Rightarrow> two_phase \<Rightarrow> two_phase \<times> int list" where
  "WebRtcSpl_UpBy2IntToInt ins st =
     (let (u, zs) = scan (allpass_step upper) (upper_br st) ins;
          (l, ys) = scan (allpass_step lower) (lower_br st) ins
      in (\<lparr>lower_br = l, upper_br = u\<rparr>, interleave zs ys))"

definition WebRtcSpl_UpBy2IntToShort :: "int list \<Rightarrow> two_phase \<Rightarrow> two_phase \<times> int list" where
  "WebRtcSpl_UpBy2IntToShort ins st =
     (let (u, zs) = scan (allpass_step upper) (upper_br st) ins;
          (l, ys) = scan (allpass_step lower) (lower_br st) ins
      in (\<lparr>lower_br = l, upper_br = u\<rparr>,
          interleave (map (\<lambda>z. sat_store (sar z 15)) zs) (map (\<lambda>y. sat_store (sar y 15)) ys)))"

section \<open>Low-pass filters\<close>

text \<open>
  The odd input samples enter the first lower section one pair late: the delay element is
  \<open>state[12]\<close>, the last input of the second upper section.
\<close>

definition delayed :: "int \<Rightarrow> int list \<Rightarrow> int list" where
  "delayed d xs = take (length xs) (d # xs)"

definition lowpass_by2 :: "int list \<Rightarrow> four_phase \<Rightarrow> four_phase \<times> int list" where
  "lowpass_by2 ins st =
     (let (l1, ys) = scan (allpass_step lower) (lo1 st) (delayed (ap0 (up2 st)) (odds ins));
          ys = map (\<lambda>y. sar y 1) ys;
          (u1, zs) = scan (allpass_step upper) (up1 st) (evens ins);
          even_out = map2 (\<lambda>y z. sar (s32 (y + sar z 1)) 15) ys zs;
          (l2, ys) = scan (allpass_step lower) (lo2 st) (evens ins);
          ys = map (\<lambda>y. sar y 1) ys;
          (u2, zs) = scan (allpass_step upper) (up2 st) (odds ins);
          odd_out = map2 (\<lambda>y z. sar (s32 (y + sar z 1)) 15) ys zs
      in (\<lparr>lo1 = l1, up1 = u1, lo2 = l2, up2 = u2\<rparr>, interleave even_out odd_out))"

definition WebRtcSpl_LPBy2ShortToInt :: "int list \<Rightarrow> four_phase \<Rightarrow> four_phase \<times> int list" where
  "WebRtcSpl_LPBy2ShortToInt ins st = lowpass_by2 (map to_q15 ins) st"

definition WebRtcSpl_LPBy2IntToInt :: "int list \<Rightarrow> four_phase \<Rightarrow> four_phase \<times> int list" where
  "WebRtcSpl_LPBy2IntToInt ins st = lowpass_by2 ins st"

section \<open>The 22-bit allpass filters\<close>

text \<open>\<open>WEBRTC_SPL_SCALEDIFF32(A, B, C)\<close>: a 16-bit unsigned coefficient times a 32-bit value, added.\<close>

definition WEBRTC_SPL_SCALEDIFF32 :: "int \<Rightarrow> int \<Rightarrow> int \<Rightarrow> int" where
  "WEBRTC_SPL_SCALEDIFF32 A B C =
     s32 (C + sar B 16 * A + (u32 ((B AND 0xFFFF) * A) div 65536))"

definition kResampleAllpass1 :: "int list" where "kResampleAllpass1 = [3284, 24441, 49528]"
definition kResampleAllpass2 :: "int list" where "kResampleAllpass2 = [12199, 37471, 60255]"

definition allpass22_step :: "int list \<Rightarrow> allpass \<Rightarrow> int \<Rightarrow> allpass \<times> int" where
  "allpass22_step coef st in32 =
     (let diff = s32 (in32 - ap1 st);
          tmp1 = WEBRTC_SPL_SCALEDIFF32 (coef ! 0) diff (ap0 st);
          diff = s32 (tmp1 - ap2 st);
          tmp2 = WEBRTC_SPL_SCALEDIFF32 (coef ! 1) diff (ap1 st);
          diff = s32 (tmp2 - ap3 st);
          st3 = WEBRTC_SPL_SCALEDIFF32 (coef ! 2) diff (ap2 st)
      in (\<lparr>ap0 = in32, ap1 = tmp1, ap2 = tmp2, ap3 = st3\<rparr>, st3))"

fun WebRtcSpl_DownsampleBy2 :: "int list \<Rightarrow> two_phase \<Rightarrow> two_phase \<times> int list" where
  "WebRtcSpl_DownsampleBy2 (a # b # ins) st =
     (let (l, state3) = allpass22_step kResampleAllpass2 (lower_br st) (shl32 a 10);
          (u, state7) = allpass22_step kResampleAllpass1 (upper_br st) (shl32 b 10);
          out32 = sar (s32 (state3 + state7 + 1024)) 11;
          (st', outs) = WebRtcSpl_DownsampleBy2 ins \<lparr>lower_br = l, upper_br = u\<rparr>
      in (st', WebRtcSpl_SatW32ToW16 out32 # outs))"
| "WebRtcSpl_DownsampleBy2 _ st = (st, [])"

fun WebRtcSpl_UpsampleBy2 :: "int list \<Rightarrow> two_phase \<Rightarrow> two_phase \<times> int list" where
  "WebRtcSpl_UpsampleBy2 (a # ins) st =
     (let (l, state3) = allpass22_step kResampleAllpass1 (lower_br st) (shl32 a 10);
          (u, state7) = allpass22_step kResampleAllpass2 (upper_br st) (shl32 a 10);
          (st', outs) = WebRtcSpl_UpsampleBy2 ins \<lparr>lower_br = l, upper_br = u\<rparr>
      in (st', WebRtcSpl_SatW32ToW16 (sar (s32 (state3 + 512)) 10)
             # WebRtcSpl_SatW32ToW16 (sar (s32 (state7 + 512)) 10) # outs))"
| "WebRtcSpl_UpsampleBy2 [] st = (st, [])"

section \<open>Fractional resamplers\<close>

definition kCoefficients48To32 :: "int list list" where
  "kCoefficients48To32 =
     [[778, - 2050, 1087, 23285, 12903, - 3783, 441, 222],
      [222, 441, - 3783, 12903, 23285, 1087, - 2050, 778]]"

definition kCoefficients32To24 :: "int list list" where
  "kCoefficients32To24 =
     [[767, - 2362, 2434, 24406, 10620, - 3838, 721, 90],
      [386, - 381, - 2646, 19062, 19062, - 2646, - 381, 386],
      [90, 721, - 3838, 10620, 24406, 2434, - 2362, 767]]"

definition kCoefficients44To32 :: "int list list" where
  "kCoefficients44To32 =
     [[117, - 669, 2245, - 6183, 26267, 13529, - 3245, 845, - 138],
      [- 101, 612, - 2283, 8532, 29790, - 5138, 1789, - 524, 91],
      [50, - 292, 1016, - 3064, 32010, 3933, - 1147, 315, - 53],
      [- 156, 974, - 3863, 18603, 21691, - 6246, 2353, - 712, 126]]"

text \<open>\<open>tmp += coef[k] * In[k]\<close> over one row of coefficients.\<close>

definition fir_acc :: "int \<Rightarrow> int list \<Rightarrow> int list \<Rightarrow> int" where
  "fir_acc tmp coefs ins = foldl (\<lambda>tmp (c, x). s32 (tmp + c * x)) tmp (zip coefs ins)"

text \<open>
  \<open>In\<close> and \<open>Out\<close> point into the same scratch memory \<open>mem\<close> (the frame resamplers call them with
  \<open>Out\<close> below \<open>In\<close>, so that outputs overwrite inputs already used): \<open>i\<close> and \<open>p\<close> are their indices.
\<close>

fun WebRtcSpl_Resample48khzTo32khz :: "int list \<Rightarrow> nat \<Rightarrow> nat \<Rightarrow> nat \<Rightarrow> int list" where
  "WebRtcSpl_Resample48khzTo32khz mem i p 0 = mem"
| "WebRtcSpl_Resample48khzTo32khz mem i p (Suc K) =
     (let mem = mem[p := fir_acc 16384 (kCoefficients48To32 ! 0) (drop i mem)];
          mem = mem[p + 1 := fir_acc 16384 (kCoefficients48To32 ! 1) (drop (i + 1) mem)]
      in WebRtcSpl_Resample48khzTo32khz mem (i + 3) (p + 2) K)"

fun WebRtcSpl_Resample32khzTo24khz :: "int list \<Rightarrow> nat \<Rightarrow> nat \<Rightarrow> nat \<Rightarrow> int list" where
  "WebRtcSpl_Resample32khzTo24khz mem i p 0 = mem"
| "WebRtcSpl_Resample32khzTo24khz mem i p (Suc K) =
     (let mem = mem[p := fir_acc 16384 (kCoefficients32To24 ! 0) (drop i mem)];
          mem = mem[p + 1 := fir_acc 16384 (kCoefficients32To24 ! 1) (drop (i + 1) mem)];
          mem = mem[p + 2 := fir_acc 16384 (kCoefficients32To24 ! 2) (drop (i + 2) mem)]
      in WebRtcSpl_Resample32khzTo24khz mem (i + 4) (p + 3) K)"

text \<open>\<open>in2\<close> is read backwards: \<open>in2[-k]\<close> is the \<open>k\<close>-th element of the second list.\<close>

definition WebRtcSpl_ResampDotProduct :: "int list \<Rightarrow> int list \<Rightarrow> int list \<Rightarrow> int \<times> int" where
  "WebRtcSpl_ResampDotProduct in1 in2 coef_ptr =
     (fir_acc 16384 (take 9 coef_ptr) in1, fir_acc 16384 (take 9 coef_ptr) in2)"

text \<open>Here the caller passes separate arrays.\<close>

fun WebRtcSpl_Resample44khzTo32khz :: "int list \<Rightarrow> nat \<Rightarrow> int list" where
  "WebRtcSpl_Resample44khzTo32khz In 0 = []"
| "WebRtcSpl_Resample44khzTo32khz In (Suc K) =
     (let out0 = s32 (shl32 (In ! 3) 15 + 16384);
          out4 = fir_acc 16384 (kCoefficients44To32 ! 3) (drop 5 In);
          (out1, out7) = WebRtcSpl_ResampDotProduct In (rev (take 18 In)) (kCoefficients44To32 ! 0);
          (out2, out6) = WebRtcSpl_ResampDotProduct (drop 2 In) (rev (take 16 In)) (kCoefficients44To32 ! 1);
          (out3, out5) = WebRtcSpl_ResampDotProduct (drop 3 In) (rev (take 15 In)) (kCoefficients44To32 ! 2)
      in [out0, out1, out2, out3, out4, out5, out6, out7] @ WebRtcSpl_Resample44khzTo32khz (drop 11 In) K)"

section \<open>Frame resamplers\<close>

record State48khzTo16khz =
  S_48_48 :: four_phase
  S_48_32 :: "int list"
  S_32_16 :: two_phase

record State16khzTo48khz =
  S_16_32 :: two_phase
  S_32_24 :: "int list"
  up_24_48 :: two_phase

record State48khzTo8khz =
  S_48_24 :: two_phase
  S_24_24 :: four_phase
  S_24_16 :: "int list"
  S_16_8 :: two_phase

record State8khzTo48khz =
  S_8_16 :: two_phase
  S_16_12 :: "int list"
  S_12_24 :: two_phase
  S_24_48 :: two_phase

text \<open>
  The scratch memory \<open>tmpmem\<close> is threaded through: its contents at entry never reach the outputs,
  which a lemma below shows. Frames longer than the fixed size are read up to that size.
\<close>

definition WebRtcSpl_Resample48khzTo16khz ::
  "int list \<Rightarrow> State48khzTo16khz \<Rightarrow> int list \<Rightarrow> int list \<times> State48khzTo16khz \<times> int list" where
  "WebRtcSpl_Resample48khzTo16khz ins state tmpmem =
     (let (s1, lp) = WebRtcSpl_LPBy2ShortToInt (take 480 ins) (S_48_48 state);
          tmpmem = overwrite tmpmem 16 lp;
          tmpmem = overwrite tmpmem 8 (take 8 (S_48_32 state));
          s2 = take 8 (drop 488 tmpmem);
          tmpmem = WebRtcSpl_Resample48khzTo32khz tmpmem 8 0 160;
          (s3, outs) = WebRtcSpl_DownBy2IntToShort (take 320 tmpmem) (S_32_16 state)
      in (outs, \<lparr>S_48_48 = s1, S_48_32 = s2, S_32_16 = s3\<rparr>, tmpmem))"

definition WebRtcSpl_ResetResample48khzTo16khz :: "State48khzTo16khz" where
  "WebRtcSpl_ResetResample48khzTo16khz =
     \<lparr>S_48_48 = four_phase_zero, S_48_32 = replicate 8 0, S_32_16 = two_phase_zero\<rparr>"

definition WebRtcSpl_Resample16khzTo48khz ::
  "int list \<Rightarrow> State16khzTo48khz \<Rightarrow> int list \<Rightarrow> int list \<times> State16khzTo48khz \<times> int list" where
  "WebRtcSpl_Resample16khzTo48khz ins state tmpmem =
     (let (s1, ys) = WebRtcSpl_UpBy2ShortToInt (take 160 ins) (S_16_32 state);
          tmpmem = overwrite tmpmem 16 ys;
          tmpmem = overwrite tmpmem 8 (take 8 (S_32_24 state));
          s2 = take 8 (drop 328 tmpmem);
          tmpmem = WebRtcSpl_Resample32khzTo24khz tmpmem 8 0 80;
          (s3, outs) = WebRtcSpl_UpBy2IntToShort (take 240 tmpmem) (up_24_48 state)
      in (outs, \<lparr>S_16_32 = s1, S_32_24 = s2, up_24_48 = s3\<rparr>, tmpmem))"

definition WebRtcSpl_ResetResample16khzTo48khz :: "State16khzTo48khz" where
  "WebRtcSpl_ResetResample16khzTo48khz =
     \<lparr>S_16_32 = two_phase_zero, S_32_24 = replicate 8 0, up_24_48 = two_phase_zero\<rparr>"

definition WebRtcSpl_Resample48khzTo8khz ::
  "int list \<Rightarrow> State48khzTo8khz \<Rightarrow> int list \<Rightarrow> int list \<times> State48khzTo8khz \<times> int list" where
  "WebRtcSpl_Resample48khzTo8khz ins state tmpmem =
     (let (s1, ys) = WebRtcSpl_DownBy2ShortToInt (take 480 ins) (S_48_24 state);
          tmpmem = overwrite tmpmem 256 ys;
          (s2, lp) = WebRtcSpl_LPBy2IntToInt (take 240 (drop 256 tmpmem)) (S_24_24 state);
          tmpmem = overwrite tmpmem 16 lp;
          tmpmem = overwrite tmpmem 8 (take 8 (S_24_16 state));
          s3 = take 8 (drop 248 tmpmem);
          tmpmem = WebRtcSpl_Resample48khzTo32khz tmpmem 8 0 80;
          (s4, outs) = WebRtcSpl_DownBy2IntToShort (take 160 tmpmem) (S_16_8 state)
      in (outs, \<lparr>S_48_24 = s1, S_24_24 = s2, S_24_16 = s3, S_16_8 = s4\<rparr>, tmpmem))"

definition WebRtcSpl_ResetResample48khzTo8khz :: "State48khzTo8khz" where
  "WebRtcSpl_ResetResample48khzTo8khz =
     \<lparr>S_48_24 = two_phase_zero, S_24_24 = four_phase_zero, S_24_16 = replicate 8 0, S_16_8 = two_phase_zero\<rparr>"

definition WebRtcSpl_Resample8khzTo48khz ::
  "int list \<Rightarrow> State8khzTo48khz \<Rightarrow> int list \<Rightarrow> int list \<times> State8khzTo48khz \<times> int list" where
  "WebRtcSpl_Resample8khzTo48khz ins state tmpmem =
     (let (s1, ys) = WebRtcSpl_UpBy2ShortToInt (take 80 ins) (S_8_16 state);
          tmpmem = overwrite tmpmem 264 ys;
          tmpmem = overwrite tmpmem 256 (take 8 (S_16_12 state));
          s2 = take 8 (drop 416 tmpmem);
          tmpmem = WebRtcSpl_Resample32khzTo24khz tmpmem 256 240 40;
          (s3, zs) = WebRtcSpl_UpBy2IntToInt (take 120 (drop 240 tmpmem)) (S_12_24 state);
          tmpmem = overwrite tmpmem 0 zs;
          (s4, outs) = WebRtcSpl_UpBy2IntToShort (take 240 tmpmem) (S_24_48 state)
      in (outs, \<lparr>S_8_16 = s1, S_16_12 = s2, S_12_24 = s3, S_24_48 = s4\<rparr>, tmpmem))"

definition WebRtcSpl_ResetResample8khzTo48khz :: "State8khzTo48khz" where
  "WebRtcSpl_ResetResample8khzTo48khz =
     \<lparr>S_8_16 = two_phase_zero, S_16_12 = replicate 8 0, S_12_24 = two_phase_zero, S_24_48 = two_phase_zero\<rparr>"

section \<open>The polyphase filters: lengths, ranges, frames\<close>

lemma sat_store_clamp: "sat_store x = clamp (- 32768) 32767 x"
  by (auto simp: sat_store_def Let_def clamp_def is16_def)

lemma is16_sat_store [simp, crange]: "is16 (sat_store x)"
  by (auto simp: sat_store_clamp clamp_def is16_def)

lemma is32_allpass_step [simp, crange]: "is32 (snd (allpass_step coef st x))"
  by (simp add: allpass_step_def Let_def)

lemma ap0_allpass_step [simp]: "ap0 (fst (allpass_step coef st x)) = x"
  by (simp add: allpass_step_def Let_def)

text \<open>After a run the first tap holds the last input: it doubles as the delay of the low-pass filters.\<close>

lemma ap0_scan_allpass: "ap0 (fst (scan (allpass_step coef) st xs)) = last (ap0 st # xs)"
  by (induction xs arbitrary: st) simp_all

lemmas polyphase_defs =
  WebRtcSpl_DownBy2IntToShort_def WebRtcSpl_DownBy2ShortToInt_def WebRtcSpl_UpBy2ShortToInt_def
  WebRtcSpl_UpBy2IntToInt_def WebRtcSpl_UpBy2IntToShort_def lowpass_by2_def
  WebRtcSpl_LPBy2ShortToInt_def WebRtcSpl_LPBy2IntToInt_def

lemma length_delayed [simp]: "length (delayed d xs) = length xs"
  by (simp add: delayed_def)

lemma polyphase_lengths [simp]:
  "length (snd (WebRtcSpl_DownBy2IntToShort ins st2)) = length ins div 2"
  "length (snd (WebRtcSpl_DownBy2ShortToInt ins st2)) = length ins div 2"
  "length (snd (WebRtcSpl_UpBy2ShortToInt ins st2)) = 2 * length ins"
  "length (snd (WebRtcSpl_UpBy2IntToInt ins st2)) = 2 * length ins"
  "length (snd (WebRtcSpl_UpBy2IntToShort ins st2)) = 2 * length ins"
  "length (snd (WebRtcSpl_LPBy2ShortToInt ins st4)) = 2 * (length ins div 2)"
  "length (snd (WebRtcSpl_LPBy2IntToInt ins st4)) = 2 * (length ins div 2)"
  by (simp_all add: polyphase_defs split_beta Let_def)

lemma DownBy2IntToShort_is16: "\<forall>y\<in>set (snd (WebRtcSpl_DownBy2IntToShort ins st)). is16 y"
  by (auto simp: polyphase_defs split_beta Let_def)

lemma UpBy2IntToShort_is16: "\<forall>y\<in>set (snd (WebRtcSpl_UpBy2IntToShort ins st)). is16 y"
proof -
  have "set (snd (WebRtcSpl_UpBy2IntToShort ins st)) \<subseteq> range sat_store"
    using set_interleave by (fastforce simp: polyphase_defs split_beta Let_def)
  then show ?thesis by auto
qed

text \<open>A long signal may be cut into frames of even length: the filters continue where they stopped.\<close>

lemma delayed_append: "delayed d (xs @ ys) = delayed d xs @ delayed (last (d # xs)) ys"
proof (induction xs arbitrary: d)
  case Nil
  then show ?case by (simp add: delayed_def)
next
  case (Cons x xs)
  have "delayed d ((x # xs) @ ys) = d # delayed x (xs @ ys)" by (simp add: delayed_def)
  also have "\<dots> = delayed d (x # xs) @ delayed (last (d # x # xs)) ys"
    using Cons [of x] by (simp add: delayed_def)
  finally show ?case .
qed

lemmas scan_append_simps = fst_scan_append snd_scan_append evens_append odds_append
  interleave_append delayed_append ap0_scan_allpass split_beta Let_def

definition framewise :: "('a list \<Rightarrow> 's \<Rightarrow> 's \<times> 'b list) \<Rightarrow> bool" where
  "framewise f \<longleftrightarrow> (\<forall>xs ys st. even (length xs) \<longrightarrow>
     f (xs @ ys) st = (fst (f ys (fst (f xs st))), snd (f xs st) @ snd (f ys (fst (f xs st)))))"

lemma framewise_lowpass_by2: "framewise lowpass_by2"
  by (simp add: framewise_def lowpass_by2_def scan_append_simps)

lemma polyphase_framewise:
  "framewise WebRtcSpl_DownBy2ShortToInt"
  "framewise WebRtcSpl_UpBy2ShortToInt" "framewise WebRtcSpl_UpBy2IntToInt"
  "framewise WebRtcSpl_UpBy2IntToShort"
  "framewise WebRtcSpl_LPBy2ShortToInt" "framewise WebRtcSpl_LPBy2IntToInt"
  using framewise_lowpass_by2
  by (simp_all add: framewise_def WebRtcSpl_DownBy2ShortToInt_def
      WebRtcSpl_UpBy2ShortToInt_def WebRtcSpl_UpBy2IntToInt_def WebRtcSpl_UpBy2IntToShort_def
      WebRtcSpl_LPBy2ShortToInt_def WebRtcSpl_LPBy2IntToInt_def scan_append_simps)

section \<open>The fractional resamplers work in place\<close>

lemma overwrite_Cons:
  "p < length d \<Longrightarrow> overwrite (d[p := x]) (Suc p) xs = overwrite d p (x # xs)"
  by (simp add: overwrite_def take_Suc_conv_app_nth)

lemma overwrite_Nil [simp]: "overwrite d p [] = d"
  by (simp add: overwrite_def)

text \<open>The reference: read a separate input, produce a fresh output.\<close>

fun fir48to32 :: "int list \<Rightarrow> nat \<Rightarrow> int list" where
  "fir48to32 In 0 = []"
| "fir48to32 In (Suc K) =
     fir_acc 16384 (kCoefficients48To32 ! 0) In # fir_acc 16384 (kCoefficients48To32 ! 1) (drop 1 In)
       # fir48to32 (drop 3 In) K"

fun fir32to24 :: "int list \<Rightarrow> nat \<Rightarrow> int list" where
  "fir32to24 In 0 = []"
| "fir32to24 In (Suc K) =
     fir_acc 16384 (kCoefficients32To24 ! 0) In # fir_acc 16384 (kCoefficients32To24 ! 1) (drop 1 In)
       # fir_acc 16384 (kCoefficients32To24 ! 2) (drop 2 In) # fir32to24 (drop 4 In) K"

lemma length_fir48to32 [simp]: "length (fir48to32 In K) = 2 * K"
  by (induction In K rule: fir48to32.induct) simp_all

lemma length_fir32to24 [simp]: "length (fir32to24 In K) = 3 * K"
  by (induction In K rule: fir32to24.induct) simp_all

lemma Resample48khzTo32khz_in_place:
  assumes "p \<le> i" "p + 2 * K \<le> length mem"
  shows "WebRtcSpl_Resample48khzTo32khz mem i p K = overwrite mem p (fir48to32 (drop i mem) K)"
  using assms
proof (induction K arbitrary: mem i p)
  case 0
  then show ?case by simp
next
  case (Suc K)
  let ?a = "fir_acc 16384 (kCoefficients48To32 ! 0) (drop i mem)"
  let ?b = "fir_acc 16384 (kCoefficients48To32 ! 1) (drop (i + 1) mem)"
  let ?mem = "mem[p := ?a, p + 1 := ?b]"
  have "WebRtcSpl_Resample48khzTo32khz mem i p (Suc K) = WebRtcSpl_Resample48khzTo32khz ?mem (i + 3) (p + 2) K"
    using Suc.prems by (simp add: Let_def)
  also have "\<dots> = overwrite ?mem (p + 2) (fir48to32 (drop (i + 3) mem) K)"
    using Suc.prems Suc.IH [of "p + 2" "i + 3" ?mem] by simp
  also have "\<dots> = overwrite mem p (?a # ?b # fir48to32 (drop (i + 3) mem) K)"
    using Suc.prems overwrite_Cons [of p mem ?a] overwrite_Cons [of "p + 1" "mem[p := ?a]" ?b] by simp
  finally show ?case by (simp add: add.commute)
qed

lemma Resample32khzTo24khz_in_place:
  assumes "p \<le> i" "p + 3 * K \<le> length mem"
  shows "WebRtcSpl_Resample32khzTo24khz mem i p K = overwrite mem p (fir32to24 (drop i mem) K)"
  using assms
proof (induction K arbitrary: mem i p)
  case 0
  then show ?case by simp
next
  case (Suc K)
  let ?a = "fir_acc 16384 (kCoefficients32To24 ! 0) (drop i mem)"
  let ?b = "fir_acc 16384 (kCoefficients32To24 ! 1) (drop (i + 1) mem)"
  let ?c = "fir_acc 16384 (kCoefficients32To24 ! 2) (drop (i + 2) mem)"
  let ?mem = "mem[p := ?a, p + 1 := ?b, p + 2 := ?c]"
  have "WebRtcSpl_Resample32khzTo24khz mem i p (Suc K) = WebRtcSpl_Resample32khzTo24khz ?mem (i + 4) (p + 3) K"
    using Suc.prems by (simp add: Let_def)
  also have "\<dots> = overwrite ?mem (p + 3) (fir32to24 (drop (i + 4) mem) K)"
    using Suc.prems Suc.IH [of "p + 3" "i + 4" ?mem] by simp
  also have "\<dots> = overwrite mem p (?a # ?b # ?c # fir32to24 (drop (i + 4) mem) K)"
    using Suc.prems overwrite_Cons [of p mem ?a] overwrite_Cons [of "p + 1" "mem[p := ?a]" ?b]
      overwrite_Cons [of "p + 2" "mem[p := ?a, p + 1 := ?b]" ?c] by (simp add: eval_nat_numeral)
  finally show ?case by (simp add: add.commute)
qed

lemma length_Resample44khzTo32khz [simp]: "length (WebRtcSpl_Resample44khzTo32khz In K) = 8 * K"
  by (induction K arbitrary: In) (simp_all add: Let_def split_beta)

section \<open>The frame resamplers\<close>

lemma length_Resample48khzTo32khz [simp]:
  "length (WebRtcSpl_Resample48khzTo32khz mem i p K) = length mem"
  by (induction mem i p K rule: WebRtcSpl_Resample48khzTo32khz.induct) (simp_all add: Let_def)

lemma length_Resample32khzTo24khz [simp]:
  "length (WebRtcSpl_Resample32khzTo24khz mem i p K) = length mem"
  by (induction mem i p K rule: WebRtcSpl_Resample32khzTo24khz.induct) (simp_all add: Let_def)

text \<open>What each promises: a pipeline on separate buffers, with the last 8 samples as delay line.\<close>

definition spec48to16 :: "int list \<Rightarrow> State48khzTo16khz \<Rightarrow> int list \<times> State48khzTo16khz" where
  "spec48to16 ins state =
     (let (s1, lp) = WebRtcSpl_LPBy2ShortToInt (take 480 ins) (S_48_48 state);
          (s3, outs) = WebRtcSpl_DownBy2IntToShort (fir48to32 (S_48_32 state @ lp) 160) (S_32_16 state)
      in (outs, \<lparr>S_48_48 = s1, S_48_32 = drop 472 lp, S_32_16 = s3\<rparr>))"

definition spec48to8 :: "int list \<Rightarrow> State48khzTo8khz \<Rightarrow> int list \<times> State48khzTo8khz" where
  "spec48to8 ins state =
     (let (s1, ys) = WebRtcSpl_DownBy2ShortToInt (take 480 ins) (S_48_24 state);
          (s2, lp) = WebRtcSpl_LPBy2IntToInt ys (S_24_24 state);
          (s4, outs) = WebRtcSpl_DownBy2IntToShort (fir48to32 (S_24_16 state @ lp) 80) (S_16_8 state)
      in (outs, \<lparr>S_48_24 = s1, S_24_24 = s2, S_24_16 = drop 232 lp, S_16_8 = s4\<rparr>))"

text \<open>A delay line and a fresh block laid out one after the other in the scratch memory.\<close>

lemma drop_overwrite_line:
  assumes "length line = 8" "off2 = off + 8" "off2 + length ys \<le> length mem"
  shows "drop off (overwrite (overwrite mem off2 ys) off line) = line @ ys @ drop (off2 + length ys) mem"
  using assms by (simp add: overwrite_def)

text \<open>The fractional filters read no further than their taps, so what follows the block is ignored.\<close>

lemma fir_acc_append: "length cs \<le> length xs \<Longrightarrow> fir_acc t cs (xs @ ys) = fir_acc t cs xs"
  by (simp add: fir_acc_def zip_append2)

lemma fir48to32_append:
  "3 * K + 6 \<le> length xs \<Longrightarrow> fir48to32 (xs @ ys) K = fir48to32 xs K"
  by (induction K arbitrary: xs) (simp_all add: fir_acc_append kCoefficients48To32_def drop_append [symmetric])

lemma fir32to24_append:
  "4 * K + 6 \<le> length xs \<Longrightarrow> fir32to24 (xs @ ys) K = fir32to24 xs K"
  by (induction K arbitrary: xs) (simp_all add: fir_acc_append kCoefficients32To24_def)

lemma take_overwrite_zero: "length xs = n \<Longrightarrow> take n (overwrite d 0 xs) = xs"
  by (simp add: overwrite_def)

text \<open>
  One in-place fractional stage of a frame resampler: with the delay line in front of the fresh block,
  the outputs are those of the reference on the line and the block, and the new line is the block's end.
\<close>

lemma stage_48to32:
  assumes "length line = 8" "8 + length ys + 8 \<le> length mem" "3 * K = length ys" "8 \<le> length ys"
  defines "mem' \<equiv> overwrite (overwrite mem 16 ys) 8 line"
  shows "take (2 * K) (WebRtcSpl_Resample48khzTo32khz mem' 8 0 K) = fir48to32 (line @ ys) K"
    and "take 8 (drop (8 + length ys) mem') = drop (length ys - 8) ys"
proof -
  have "drop 8 mem' = line @ ys @ drop (16 + length ys) mem"
    unfolding mem'_def using drop_overwrite_line [of line 16 8 ys mem] assms(1,2) by simp
  then have d: "drop 8 mem' = (line @ ys) @ drop (16 + length ys) mem" by simp
  have "length mem' = length mem" unfolding mem'_def using assms(1,2) by simp
  then have "WebRtcSpl_Resample48khzTo32khz mem' 8 0 K = overwrite mem' 0 (fir48to32 (drop 8 mem') K)"
    using assms(2,3) by (intro Resample48khzTo32khz_in_place) simp_all
  also have "fir48to32 (drop 8 mem') K = fir48to32 (line @ ys) K"
    unfolding d using assms(1,3) by (intro fir48to32_append) simp
  finally show "take (2 * K) (WebRtcSpl_Resample48khzTo32khz mem' 8 0 K) = fir48to32 (line @ ys) K"
    by (simp only: take_overwrite_zero length_fir48to32)
  have "drop (8 + length ys) mem' = drop (length ys) (drop 8 mem')" by (simp add: add.commute)
  then show "take 8 (drop (8 + length ys) mem') = drop (length ys - 8) ys"
    unfolding d using assms(1,4) by simp
qed

lemma stage_32to24:
  assumes "length line = 8" "off + 16 + length ys \<le> length mem" "4 * K = length ys" "8 \<le> length ys"
    and p: "p \<le> off + 8"
  defines "mem' \<equiv> overwrite (overwrite mem (off + 16) ys) (off + 8) line"
  shows "take (3 * K) (drop p (WebRtcSpl_Resample32khzTo24khz mem' (off + 8) p K)) = fir32to24 (line @ ys) K"
    and "take 8 (drop (off + 8 + length ys) mem') = drop (length ys - 8) ys"
proof -
  have "drop (off + 8) mem' = line @ ys @ drop (off + 16 + length ys) mem"
    unfolding mem'_def using drop_overwrite_line [of line "off + 16" "off + 8" ys mem] assms(1,2) by simp
  then have d: "drop (off + 8) mem' = (line @ ys) @ drop (off + 16 + length ys) mem" by simp
  have len: "length mem' = length mem" unfolding mem'_def using assms(1,2) by simp
  then have "WebRtcSpl_Resample32khzTo24khz mem' (off + 8) p K = overwrite mem' p (fir32to24 (drop (off + 8) mem') K)"
    using assms(2,3) p by (intro Resample32khzTo24khz_in_place) simp_all
  also have "fir32to24 (drop (off + 8) mem') K = fir32to24 (line @ ys) K"
    unfolding d using assms(1,3) by (intro fir32to24_append) simp
  finally have r: "WebRtcSpl_Resample32khzTo24khz mem' (off + 8) p K = overwrite mem' p (fir32to24 (line @ ys) K)" .
  then show "take (3 * K) (drop p (WebRtcSpl_Resample32khzTo24khz mem' (off + 8) p K)) = fir32to24 (line @ ys) K"
    using len assms(2,3) p by (simp add: overwrite_def)
  have "drop (off + 8 + length ys) mem' = drop (length ys) (drop (off + 8) mem')" by (simp add: add_ac)
  then show "take 8 (drop (off + 8 + length ys) mem') = drop (length ys - 8) ys"
    unfolding d using assms(1,4) by simp
qed

lemma Resample48khzTo16khz_spec:
  assumes "480 \<le> length ins" "length (S_48_32 state) = 8" "496 \<le> length tmpmem"
  shows "\<exists>mem. length mem = length tmpmem \<and> WebRtcSpl_Resample48khzTo16khz ins state tmpmem =
    (fst (spec48to16 ins state), snd (spec48to16 ins state), mem)"
proof -
  obtain s1 lp where lp: "WebRtcSpl_LPBy2ShortToInt (take 480 ins) (S_48_48 state) = (s1, lp)"
    by (cases "WebRtcSpl_LPBy2ShortToInt (take 480 ins) (S_48_48 state)")
  have len: "length lp = 480"
    using polyphase_lengths(6) [of "take 480 ins" "S_48_48 state"] lp assms(1) by simp
  note st = stage_48to32 [of "S_48_32 state" lp tmpmem 160]
  have "take 320 (WebRtcSpl_Resample48khzTo32khz (overwrite (overwrite tmpmem 16 lp) 8 (S_48_32 state)) 8 0 160)
      = fir48to32 (S_48_32 state @ lp) 160"
    and "take 8 (drop 488 (overwrite (overwrite tmpmem 16 lp) 8 (S_48_32 state))) = drop 472 lp"
    using st assms(2,3) len by simp_all
  then show ?thesis
    using lp assms(2,3) len
    by (simp add: WebRtcSpl_Resample48khzTo16khz_def spec48to16_def Let_def split_beta)
qed

lemma Resample48khzTo8khz_spec:
  assumes "480 \<le> length ins" "length (S_24_16 state) = 8" "496 \<le> length tmpmem"
  shows "\<exists>mem. length mem = length tmpmem \<and> WebRtcSpl_Resample48khzTo8khz ins state tmpmem =
    (fst (spec48to8 ins state), snd (spec48to8 ins state), mem)"
proof -
  obtain s1 ys where ys: "WebRtcSpl_DownBy2ShortToInt (take 480 ins) (S_48_24 state) = (s1, ys)"
    by (cases "WebRtcSpl_DownBy2ShortToInt (take 480 ins) (S_48_24 state)")
  have len: "length ys = 240"
    using polyphase_lengths(2) [of "take 480 ins" "S_48_24 state"] ys assms(1) by simp
  let ?mem = "overwrite tmpmem 256 ys"
  have mem: "take 240 (drop 256 ?mem) = ys" "length ?mem = length tmpmem"
    using len assms(3) by (simp_all add: overwrite_def)
  obtain s2 lp where lp: "WebRtcSpl_LPBy2IntToInt ys (S_24_24 state) = (s2, lp)"
    by (cases "WebRtcSpl_LPBy2IntToInt ys (S_24_24 state)")
  have len2: "length lp = 240"
    using polyphase_lengths(7) [of ys "S_24_24 state"] lp len by simp
  have "take 160 (WebRtcSpl_Resample48khzTo32khz (overwrite (overwrite ?mem 16 lp) 8 (S_24_16 state)) 8 0 80)
      = fir48to32 (S_24_16 state @ lp) 80"
    and "take 8 (drop 248 (overwrite (overwrite ?mem 16 lp) 8 (S_24_16 state))) = drop 232 lp"
    using stage_48to32 [of "S_24_16 state" lp ?mem 80] assms(2,3) mem(2) len2 by simp_all
  then show ?thesis
    using ys lp assms(2,3) mem len len2
    by (simp add: WebRtcSpl_Resample48khzTo8khz_def spec48to8_def Let_def split_beta)
qed

definition spec16to48 :: "int list \<Rightarrow> State16khzTo48khz \<Rightarrow> int list \<times> State16khzTo48khz" where
  "spec16to48 ins state =
     (let (s1, ys) = WebRtcSpl_UpBy2ShortToInt (take 160 ins) (S_16_32 state);
          (s3, outs) = WebRtcSpl_UpBy2IntToShort (fir32to24 (S_32_24 state @ ys) 80) (up_24_48 state)
      in (outs, \<lparr>S_16_32 = s1, S_32_24 = drop 312 ys, up_24_48 = s3\<rparr>))"

definition spec8to48 :: "int list \<Rightarrow> State8khzTo48khz \<Rightarrow> int list \<times> State8khzTo48khz" where
  "spec8to48 ins state =
     (let (s1, ys) = WebRtcSpl_UpBy2ShortToInt (take 80 ins) (S_8_16 state);
          (s3, zs) = WebRtcSpl_UpBy2IntToInt (fir32to24 (S_16_12 state @ ys) 40) (S_12_24 state);
          (s4, outs) = WebRtcSpl_UpBy2IntToShort zs (S_24_48 state)
      in (outs, \<lparr>S_8_16 = s1, S_16_12 = drop 152 ys, S_12_24 = s3, S_24_48 = s4\<rparr>))"

lemma Resample16khzTo48khz_spec:
  assumes "160 \<le> length ins" "length (S_32_24 state) = 8" "336 \<le> length tmpmem"
  shows "\<exists>mem. length mem = length tmpmem \<and> WebRtcSpl_Resample16khzTo48khz ins state tmpmem =
    (fst (spec16to48 ins state), snd (spec16to48 ins state), mem)"
proof -
  obtain s1 ys where ys: "WebRtcSpl_UpBy2ShortToInt (take 160 ins) (S_16_32 state) = (s1, ys)"
    by (cases "WebRtcSpl_UpBy2ShortToInt (take 160 ins) (S_16_32 state)")
  have len: "length ys = 320"
    using polyphase_lengths(3) [of "take 160 ins" "S_16_32 state"] ys assms(1) by simp
  have "take 240 (WebRtcSpl_Resample32khzTo24khz (overwrite (overwrite tmpmem 16 ys) 8 (S_32_24 state)) 8 0 80)
      = fir32to24 (S_32_24 state @ ys) 80"
    and "take 8 (drop 328 (overwrite (overwrite tmpmem 16 ys) 8 (S_32_24 state))) = drop 312 ys"
    using stage_32to24 [of "S_32_24 state" 0 ys tmpmem 80 0] assms(2,3) len by simp_all
  then show ?thesis
    using ys assms(2,3) len
    by (simp add: WebRtcSpl_Resample16khzTo48khz_def spec16to48_def Let_def split_beta)
qed

lemma Resample8khzTo48khz_spec:
  assumes "80 \<le> length ins" "length (S_16_12 state) = 8" "424 \<le> length tmpmem"
  shows "\<exists>mem. length mem = length tmpmem \<and> WebRtcSpl_Resample8khzTo48khz ins state tmpmem =
    (fst (spec8to48 ins state), snd (spec8to48 ins state), mem)"
proof -
  obtain s1 ys where ys: "WebRtcSpl_UpBy2ShortToInt (take 80 ins) (S_8_16 state) = (s1, ys)"
    by (cases "WebRtcSpl_UpBy2ShortToInt (take 80 ins) (S_8_16 state)")
  have len: "length ys = 160"
    using polyphase_lengths(3) [of "take 80 ins" "S_8_16 state"] ys assms(1) by simp
  let ?mem = "WebRtcSpl_Resample32khzTo24khz (overwrite (overwrite tmpmem 264 ys) 256 (S_16_12 state)) 256 240 40"
  note st = stage_32to24 [of "S_16_12 state" 248 ys tmpmem 40 240]
  have fir: "take 120 (drop 240 ?mem) = fir32to24 (S_16_12 state @ ys) 40"
    and line: "take 8 (drop 416 (overwrite (overwrite tmpmem 264 ys) 256 (S_16_12 state))) = drop 152 ys"
    using st assms(2,3) len by simp_all
  obtain s3 zs where zs: "WebRtcSpl_UpBy2IntToInt (fir32to24 (S_16_12 state @ ys) 40) (S_12_24 state) = (s3, zs)"
    by (cases "WebRtcSpl_UpBy2IntToInt (fir32to24 (S_16_12 state @ ys) 40) (S_12_24 state)")
  have len2: "length zs = 240"
    using polyphase_lengths(4) [of "fir32to24 (S_16_12 state @ ys) 40" "S_12_24 state"] zs by simp
  show ?thesis
    using ys zs fir line len len2 assms(2,3)
    by (simp add: WebRtcSpl_Resample8khzTo48khz_def spec8to48_def take_overwrite_zero Let_def split_beta)
qed

section \<open>Frame resamplers as stream filters\<close>

text \<open>Frame after frame: a delay line of 8 samples is kept, every output frame is full and in range.\<close>

definition frame16 :: "nat \<Rightarrow> int list \<Rightarrow> bool" where
  "frame16 n ys \<longleftrightarrow> length ys = n \<and> (\<forall>y\<in>set ys. is16 y)"

definition run48to16 :: "State48khzTo16khz \<times> int list \<Rightarrow> int list \<Rightarrow> (State48khzTo16khz \<times> int list) \<times> int list" where
  "run48to16 = (\<lambda>(state, tmpmem) ins.
     let (outs, state, tmpmem) = WebRtcSpl_Resample48khzTo16khz ins state tmpmem in ((state, tmpmem), outs))"

definition run48to8 :: "State48khzTo8khz \<times> int list \<Rightarrow> int list \<Rightarrow> (State48khzTo8khz \<times> int list) \<times> int list" where
  "run48to8 = (\<lambda>(state, tmpmem) ins.
     let (outs, state, tmpmem) = WebRtcSpl_Resample48khzTo8khz ins state tmpmem in ((state, tmpmem), outs))"

interpretation down_48_16: stream_filter
  run48to16 "\<lambda>(state, tmpmem). length (S_48_32 state) = 8 \<and> 496 \<le> length tmpmem"
  "\<lambda>ins. length ins = 480" "frame16 160"
proof unfold_locales
  fix s :: "State48khzTo16khz \<times> int list" and x :: "int list"
  assume s: "case s of (state, tmpmem) \<Rightarrow> length (S_48_32 state) = 8 \<and> 496 \<le> length tmpmem"
    and x: "length x = 480"
  obtain state tmpmem where st: "s = (state, tmpmem)" by (cases s)
  obtain mem where mem: "length mem = length tmpmem" "WebRtcSpl_Resample48khzTo16khz x state tmpmem =
      (fst (spec48to16 x state), snd (spec48to16 x state), mem)"
    using Resample48khzTo16khz_spec [of x state tmpmem] s x st by auto
  show "case fst (run48to16 s x) of (state, tmpmem) \<Rightarrow> length (S_48_32 state) = 8 \<and> 496 \<le> length tmpmem"
    using mem s x st by (simp add: run48to16_def spec48to16_def Let_def split_beta)
  show "frame16 160 (snd (run48to16 s x))"
    using mem st x DownBy2IntToShort_is16
    by (simp add: run48to16_def spec48to16_def frame16_def Let_def split_beta)
qed

interpretation down_48_8: stream_filter
  run48to8 "\<lambda>(state, tmpmem). length (S_24_16 state) = 8 \<and> 496 \<le> length tmpmem"
  "\<lambda>ins. length ins = 480" "frame16 80"
proof unfold_locales
  fix s :: "State48khzTo8khz \<times> int list" and x :: "int list"
  assume s: "case s of (state, tmpmem) \<Rightarrow> length (S_24_16 state) = 8 \<and> 496 \<le> length tmpmem"
    and x: "length x = 480"
  obtain state tmpmem where st: "s = (state, tmpmem)" by (cases s)
  obtain mem where mem: "length mem = length tmpmem" "WebRtcSpl_Resample48khzTo8khz x state tmpmem =
      (fst (spec48to8 x state), snd (spec48to8 x state), mem)"
    using Resample48khzTo8khz_spec [of x state tmpmem] s x st by auto
  show "case fst (run48to8 s x) of (state, tmpmem) \<Rightarrow> length (S_24_16 state) = 8 \<and> 496 \<le> length tmpmem"
    using mem s x st by (simp add: run48to8_def spec48to8_def Let_def split_beta)
  show "frame16 80 (snd (run48to8 s x))"
    using mem st x DownBy2IntToShort_is16
    by (simp add: run48to8_def spec48to8_def frame16_def Let_def split_beta)
qed

end
