(* ===== verification/RingBuffer.thy ===== *)
theory RingBuffer imports Prelude begin

text \<open>
  The ring buffer of \<open>common_audio/ring_buffer.c\<close>, byte by byte: positions count elements, the data
  array holds \<open>element_count * element_size\<close> bytes. Its contract is a bounded queue (locale
  \<open>bounded_fifo\<close>), of which the model is an interpretation.

  A null buffer or array is \<open>None\<close>. Sizes and positions are \<open>size_t\<close> (\<open>nat\<close>); the casts to \<open>int\<close>
  of \<open>WebRtc_MoveReadPtr\<close> are written out. Whether \<open>malloc\<close> succeeds is an argument.
\<close>

section \<open>State and operations\<close>

datatype Wrap = SAME_WRAP | DIFF_WRAP

record RingBuffer =
  read_pos :: nat
  write_pos :: nat
  element_count :: nat
  element_size :: nat
  rw_wrap :: Wrap
  rb_data :: "int list"

definition available_read :: "RingBuffer \<Rightarrow> nat" where
  "available_read self =
     (if rw_wrap self = SAME_WRAP then write_pos self - read_pos self
      else element_count self - read_pos self + write_pos self)"

definition WebRtc_available_read :: "RingBuffer option \<Rightarrow> nat" where
  "WebRtc_available_read handle = (case handle of None \<Rightarrow> 0 | Some self \<Rightarrow> available_read self)"

definition WebRtc_available_write :: "RingBuffer option \<Rightarrow> nat" where
  "WebRtc_available_write handle =
     (case handle of None \<Rightarrow> 0 | Some self \<Rightarrow> element_count self - WebRtc_available_read handle)"

definition WebRtc_InitBuffer :: "RingBuffer \<Rightarrow> RingBuffer" where
  "WebRtc_InitBuffer self =
     self\<lparr>read_pos := 0, write_pos := 0, rw_wrap := SAME_WRAP,
          rb_data := replicate (element_count self * element_size self) 0\<rparr>"

text \<open>
  \<open>malloc_self\<close> and \<open>malloc_data\<close>: whether the two allocations succeed. Sizes are unbounded: the code
  multiplies count and size as \<open>size_t\<close> and does not check the product.
\<close>

definition WebRtc_CreateBuffer :: "bool \<Rightarrow> bool \<Rightarrow> nat \<Rightarrow> nat \<Rightarrow> RingBuffer option" where
  "WebRtc_CreateBuffer malloc_self malloc_data count esize =
     (if count = 0 \<or> esize = 0 then None
      else if \<not> malloc_self then None
      else if \<not> malloc_data then None
      else Some (WebRtc_InitBuffer
             \<lparr>read_pos = 0, write_pos = 0, element_count = count, element_size = esize,
              rw_wrap = SAME_WRAP, rb_data = []\<rparr>))"

definition WebRtc_FreeBuffer :: "RingBuffer option \<Rightarrow> RingBuffer option" where
  "WebRtc_FreeBuffer handle = None"

text \<open>
  The read regions as byte offsets into the data array: the number of elements, offset and size of the
  first region, offset (\<open>None\<close> when null) and size of the second.
\<close>

definition GetBufferReadRegions :: "RingBuffer \<Rightarrow> nat \<Rightarrow> nat \<times> nat \<times> nat \<times> nat option \<times> nat" where
  "GetBufferReadRegions buf count =
     (let readable_elements = WebRtc_available_read (Some buf);
          read_elements = (if readable_elements < count then readable_elements else count);
          margin = element_count buf - read_pos buf
      in if read_elements > margin
         then (read_elements, read_pos buf * element_size buf, margin * element_size buf,
               Some 0, (read_elements - margin) * element_size buf)
         else (read_elements, read_pos buf * element_size buf, read_elements * element_size buf, None, 0))"

definition WebRtc_MoveReadPtr :: "RingBuffer option \<Rightarrow> int \<Rightarrow> int \<times> RingBuffer option" where
  "WebRtc_MoveReadPtr handle count =
     (case handle of
        None \<Rightarrow> (0, None)
      | Some self \<Rightarrow>
          let free_elements = s32 (int (WebRtc_available_write handle));
              readable_elements = s32 (int (WebRtc_available_read handle));
              rp = s32 (int (read_pos self));
              count = (if count > readable_elements then readable_elements else count);
              count = (if count < - free_elements then - free_elements else count);
              rp = s32 (rp + count);
              (rp, self) = (if rp > s32 (int (element_count self))
                            then (s32 (rp - s32 (int (element_count self))), self\<lparr>rw_wrap := SAME_WRAP\<rparr>)
                            else (rp, self));
              (rp, self) = (if rp < 0
                            then (s32 (rp + s32 (int (element_count self))), self\<lparr>rw_wrap := DIFF_WRAP\<rparr>)
                            else (rp, self))
          in (count, Some (self\<lparr>read_pos := nat rp\<rparr>)))"

text \<open>Where \<open>*data_ptr\<close> points after a read: into the buffer (byte offset) or at the caller's array.\<close>

datatype data_location = InBuffer nat | InCallerData

text \<open>
  \<open>want_ptr\<close>: \<open>data_ptr\<close> is not null. The result: elements read, the caller's array, the value stored
  in \<open>*data_ptr\<close>, the buffer.
\<close>

definition WebRtc_ReadBuffer ::
  "RingBuffer option \<Rightarrow> bool \<Rightarrow> int list option \<Rightarrow> nat
     \<Rightarrow> nat \<times> int list option \<times> data_location option \<times> RingBuffer option" where
  "WebRtc_ReadBuffer handle want_ptr data count =
     (case (handle, data) of
        (Some self, Some out) \<Rightarrow>
          let (read_count, off1, bytes1, off2, bytes2) = GetBufferReadRegions self count;
              region1 = take bytes1 (drop off1 (rb_data self));
              region2 = (case off2 of None \<Rightarrow> [] | Some off \<Rightarrow> take bytes2 (drop off (rb_data self)));
              (out, ptr) =
                (if bytes2 > 0 then (overwrite (overwrite out 0 region1) bytes1 region2, InCallerData)
                 else if \<not> want_ptr then (overwrite out 0 region1, InBuffer off1)
                 else (out, InBuffer off1));
              (_, handle) = WebRtc_MoveReadPtr (Some self) (s32 (int read_count))
          in (read_count, Some out, if want_ptr then Some ptr else None, handle)
      | _ \<Rightarrow> (0, data, None, handle))"

definition WebRtc_WriteBuffer ::
  "RingBuffer option \<Rightarrow> int list option \<Rightarrow> nat \<Rightarrow> nat \<times> RingBuffer option" where
  "WebRtc_WriteBuffer handle data count =
     (case (handle, data) of
        (Some self, Some src) \<Rightarrow>
          let free_elements = WebRtc_available_write (Some self);
              write_elements = (if free_elements < count then free_elements else count);
              n = write_elements;
              margin = element_count self - write_pos self;
              (n, self) =
                (if write_elements > margin
                 then (n - margin,
                       self\<lparr>rb_data := overwrite (rb_data self) (write_pos self * element_size self)
                              (take (margin * element_size self) src),
                            write_pos := 0, rw_wrap := DIFF_WRAP\<rparr>)
                 else (n, self));
              self = self\<lparr>rb_data := overwrite (rb_data self) (write_pos self * element_size self)
                              (take (n * element_size self) (drop ((write_elements - n) * element_size self) src))\<rparr>;
              self = self\<lparr>write_pos := write_pos self + n\<rparr>
          in (write_elements, Some self)
      | _ \<Rightarrow> (0, handle))"

section \<open>The abstract queue\<close>

text \<open>The bytes that can be read, oldest first.\<close>

definition contents :: "RingBuffer \<Rightarrow> int list" where
  "contents b =
     (if rw_wrap b = SAME_WRAP
      then take ((write_pos b - read_pos b) * element_size b) (drop (read_pos b * element_size b) (rb_data b))
      else drop (read_pos b * element_size b) (rb_data b) @ take (write_pos b * element_size b) (rb_data b))"

definition rb_ok :: "RingBuffer \<Rightarrow> bool" where
  "rb_ok b \<longleftrightarrow>
     0 < element_count b \<and> 0 < element_size b \<and> element_count b < 2 ^ 30 \<and>
     length (rb_data b) = element_count b * element_size b \<and>
     read_pos b \<le> element_count b \<and> write_pos b \<le> element_count b \<and>
     (if rw_wrap b = SAME_WRAP then read_pos b \<le> write_pos b else write_pos b \<le> read_pos b)"

lemma CreateBuffer_ok:
  "0 < count \<Longrightarrow> count < 2 ^ 30 \<Longrightarrow> 0 < esize \<Longrightarrow>
    \<exists>b. WebRtc_CreateBuffer True True count esize = Some b \<and> rb_ok b \<and> contents b = [] \<and>
        element_count b = count \<and> element_size b = esize"
  by (simp add: WebRtc_CreateBuffer_def WebRtc_InitBuffer_def rb_ok_def contents_def)

lemma InitBuffer_ok:
  assumes "rb_ok b"
  shows "rb_ok (WebRtc_InitBuffer b)" "contents (WebRtc_InitBuffer b) = []"
  using assms by (simp_all add: WebRtc_InitBuffer_def rb_ok_def contents_def)

lemma available_read_le: "rb_ok b \<Longrightarrow> available_read b \<le> element_count b"
  by (auto simp: rb_ok_def available_read_def split: if_splits)

text \<open>The count the buffer reports is the number of elements queued.\<close>

lemma length_contents: "rb_ok b \<Longrightarrow> length (contents b) = available_read b * element_size b"
proof (cases "rw_wrap b = SAME_WRAP")
  case True
  assume ok: "rb_ok b"
  then have "(write_pos b - read_pos b) * element_size b \<le> (element_count b - read_pos b) * element_size b"
    by (intro mult_le_mono1) (simp add: rb_ok_def diff_le_mono)
  then show ?thesis
    using ok True by (simp add: rb_ok_def contents_def available_read_def diff_mult_distrib)
next
  case False
  assume ok: "rb_ok b"
  then have "write_pos b * element_size b \<le> element_count b * element_size b"
    by (intro mult_le_mono1) (simp add: rb_ok_def)
  then show ?thesis
    using ok False
    by (simp add: rb_ok_def contents_def available_read_def min_absorb2 distrib_right diff_mult_distrib)
qed

section \<open>Moving the read position\<close>

definition advance :: "RingBuffer \<Rightarrow> nat \<Rightarrow> RingBuffer" where
  "advance b k =
     (if read_pos b + k > element_count b
      then b\<lparr>read_pos := read_pos b + k - element_count b, rw_wrap := SAME_WRAP\<rparr>
      else b\<lparr>read_pos := read_pos b + k\<rparr>)"

definition retreat :: "RingBuffer \<Rightarrow> nat \<Rightarrow> RingBuffer" where
  "retreat b k =
     (if read_pos b < k
      then b\<lparr>read_pos := read_pos b + element_count b - k, rw_wrap := DIFF_WRAP\<rparr>
      else b\<lparr>read_pos := read_pos b - k\<rparr>)"

lemma s32_nat: "n < 2 ^ 31 \<Longrightarrow> s32 (int n) = int n"
  by (rule s32_eqI) simp_all

lemma MoveReadPtr_forward:
  assumes ok: "rb_ok b" and c: "0 \<le> c"
  defines "k \<equiv> min (nat c) (available_read b)"
  shows "WebRtc_MoveReadPtr (Some b) c = (int k, Some (advance b k))"
proof -
  have le: "available_read b \<le> element_count b" by (rule available_read_le [OF ok])
  have cnt: "element_count b < 2 ^ 30" "read_pos b \<le> element_count b" using ok by (simp_all add: rb_ok_def)
  have k: "k \<le> available_read b" by (simp add: k_def)
  have s: "s32 (int (element_count b - available_read b)) = int (element_count b - available_read b)"
    "s32 (int (available_read b)) = int (available_read b)" "s32 (int (read_pos b)) = int (read_pos b)"
    "s32 (int (element_count b)) = int (element_count b)" "s32 (int (read_pos b + k)) = int (read_pos b + k)"
    "s32 (int (read_pos b + k - element_count b)) = int (read_pos b + k - element_count b)"
    using cnt le k by (intro s32_nat; simp)+
  have kc: "(if c > int (available_read b) then int (available_read b) else c) = int k"
    using c by (auto simp: k_def)
  have nn: "\<not> int k < - int (element_count b - available_read b)" by simp
  have r: "s32 (int (read_pos b) + int k) = int (read_pos b + k)" using s(5) by simp
  have w: "s32 (int (read_pos b + k) - int (element_count b)) = int (read_pos b + k - element_count b)"
    if "element_count b < read_pos b + k"
    using that s(6) by (simp add: of_nat_diff)
  show ?thesis
    unfolding WebRtc_MoveReadPtr_def WebRtc_available_write_def WebRtc_available_read_def
    by (simp only: option.case s kc nn r Let_def if_False) (simp add: advance_def w del: of_nat_add)
qed

lemma MoveReadPtr_backward:
  assumes ok: "rb_ok b" and c: "c < 0"
  defines "k \<equiv> min (nat (- c)) (element_count b - available_read b)"
  shows "WebRtc_MoveReadPtr (Some b) c = (- int k, Some (retreat b k))"
proof -
  have le: "available_read b \<le> element_count b" by (rule available_read_le [OF ok])
  have cnt: "element_count b < 2 ^ 30" "read_pos b \<le> element_count b" using ok by (simp_all add: rb_ok_def)
  have k: "k \<le> element_count b - available_read b" by (simp add: k_def)
  have s: "s32 (int (element_count b - available_read b)) = int (element_count b - available_read b)"
    "s32 (int (available_read b)) = int (available_read b)" "s32 (int (read_pos b)) = int (read_pos b)"
    "s32 (int (element_count b)) = int (element_count b)"
    using cnt le by (intro s32_nat; simp)+
  have r: "s32 (int (read_pos b) + - int k) = int (read_pos b) - int k"
    using cnt le k by (subst s32_id) (auto simp: is32_def)
  have kc: "(if c > int (available_read b) then int (available_read b) else c) = c"
    using c by simp
  have kd: "(if c < - int (element_count b - available_read b) then - int (element_count b - available_read b) else c) = - int k"
    using c by (auto simp: k_def)
  have ng: "\<not> int (read_pos b) - int k > int (element_count b)" using cnt(2) by simp
  have w: "s32 (int (read_pos b) - int k + int (element_count b)) = int (read_pos b + element_count b - k)"
    if "read_pos b < k"
    using that cnt k by (subst s32_id) (auto simp: is32_def)
  show ?thesis
    unfolding WebRtc_MoveReadPtr_def WebRtc_available_write_def WebRtc_available_read_def
    by (simp only: option.case s kc kd r ng Let_def if_False)
       (use w in \<open>auto simp: retreat_def nat_diff_distrib\<close>)
qed

text \<open>Advancing drops the oldest elements, retreating makes the elements before them readable again.\<close>

lemma advance_ok:
  assumes "rb_ok b" "k \<le> available_read b"
  shows "rb_ok (advance b k)" "available_read (advance b k) = available_read b - k"
  using assms by (auto simp: rb_ok_def advance_def available_read_def split: if_splits)

lemma contents_advance:
  assumes ok: "rb_ok b" and k: "k \<le> available_read b"
  shows "contents (advance b k) = drop (k * element_size b) (contents b)"
proof (cases "rw_wrap b = SAME_WRAP")
  case True
  then have "read_pos b + k \<le> write_pos b" "write_pos b \<le> element_count b"
    using ok k by (auto simp: rb_ok_def available_read_def)
  then show ?thesis
    using True by (simp add: contents_def advance_def drop_take distrib_right diff_mult_distrib add.commute)
next
  case False
  show ?thesis
  proof (cases "read_pos b + k > element_count b")
    case True
    then have r: "read_pos b + k - element_count b \<le> write_pos b" "read_pos b \<le> element_count b"
      using ok k False by (auto simp: rb_ok_def available_read_def)
    have len: "length (rb_data b) = element_count b * element_size b" using ok by (simp add: rb_ok_def)
    have "k * element_size b - (element_count b * element_size b - read_pos b * element_size b) =
        (read_pos b + k - element_count b) * element_size b"
      using True r(2) by (simp add: diff_mult_distrib distrib_right)
    moreover have "element_count b * element_size b - read_pos b * element_size b \<le> k * element_size b"
      unfolding diff_mult_distrib [symmetric] using True by (intro mult_le_mono1) linarith
    ultimately show ?thesis
      using False True r len
      by (simp add: contents_def advance_def drop_take diff_mult_distrib distrib_right)
  next
    case le: False
    then have "k * element_size b \<le> (element_count b - read_pos b) * element_size b" by (intro mult_le_mono1) simp
    then have "k * element_size b - (element_count b * element_size b - read_pos b * element_size b) = 0"
      by (simp add: diff_mult_distrib)
    then show ?thesis
      using ok False le
      by (simp add: contents_def advance_def rb_ok_def distrib_right add.commute)
  qed
qed

lemma retreat_ok:
  assumes "rb_ok b" "k \<le> element_count b - available_read b"
  shows "rb_ok (retreat b k)" "available_read (retreat b k) = available_read b + k"
  using assms by (auto simp: rb_ok_def retreat_def available_read_def split: if_splits)

lemma advance_retreat:
  assumes "rb_ok b" "k \<le> element_count b - available_read b" "read_pos b \<noteq> 0"
  shows "advance (retreat b k) k = b"
  using assms by (auto simp: rb_ok_def retreat_def advance_def available_read_def split: if_splits)

lemma contents_retreat:
  assumes ok: "rb_ok b" and k: "k \<le> element_count b - available_read b"
  shows "drop (k * element_size b) (contents (retreat b k)) = contents b"
proof -
  have "contents (advance (retreat b k) k) = drop (k * element_size (retreat b k)) (contents (retreat b k))"
    using retreat_ok [OF ok k] by (intro contents_advance) simp_all
  moreover have "contents (advance (retreat b k) k) = contents b"
  proof (cases "rw_wrap b = SAME_WRAP \<and> read_pos b = 0 \<and> 0 < k")
    case True
    then show ?thesis
      using ok k by (auto simp: rb_ok_def retreat_def advance_def available_read_def contents_def)
  next
    case False
    then have "advance (retreat b k) k = b"
      using ok k by (auto simp: rb_ok_def retreat_def advance_def available_read_def split: if_splits)
    then show ?thesis by simp
  qed
  ultimately show ?thesis by (simp add: retreat_def split: if_splits)
qed

section \<open>Reading\<close>

lemma advance_fields [simp]:
  "element_count (advance b k) = element_count b" "element_size (advance b k) = element_size b"
  "rb_data (advance b k) = rb_data b" "write_pos (advance b k) = write_pos b"
  by (simp_all add: advance_def)

lemma retreat_fields [simp]:
  "element_count (retreat b k) = element_count b" "element_size (retreat b k) = element_size b"
  "rb_data (retreat b k) = rb_data b" "write_pos (retreat b k) = write_pos b"
  by (simp_all add: retreat_def)

text \<open>The two regions, read one after the other, are the first elements of the queue.\<close>

lemma read_regions:
  assumes ok: "rb_ok b"
    and g: "GetBufferReadRegions b n = (m, off1, bytes1, off2, bytes2)"
  defines "r1 \<equiv> take bytes1 (drop off1 (rb_data b))"
    and "r2 \<equiv> (case off2 of None \<Rightarrow> [] | Some off \<Rightarrow> take bytes2 (drop off (rb_data b)))"
  shows "m = min n (available_read b)" "r1 @ r2 = take (m * element_size b) (contents b)"
    "length r1 = bytes1" "length r2 = bytes2"
proof -
  have m: "m = min n (available_read b)"
    using g by (auto simp: GetBufferReadRegions_def WebRtc_available_read_def Let_def split: if_splits)
  then show "m = min n (available_read b)" .
  have len: "length (rb_data b) = element_count b * element_size b" "read_pos b \<le> element_count b"
    "write_pos b \<le> element_count b" "0 < element_size b"
    using ok by (simp_all add: rb_ok_def)
  have am: "m \<le> available_read b" by (simp add: m)
  have "r1 @ r2 = take (m * element_size b) (contents b) \<and> length r1 = bytes1 \<and> length r2 = bytes2"
  proof (cases "m > element_count b - read_pos b")
    case True
    have D: "rw_wrap b \<noteq> SAME_WRAP" using True am ok by (auto simp: rb_ok_def available_read_def)
    have g': "off1 = read_pos b * element_size b" "bytes1 = (element_count b - read_pos b) * element_size b"
      "off2 = Some 0" "bytes2 = (m - (element_count b - read_pos b)) * element_size b"
      using g True m by (auto simp: GetBufferReadRegions_def WebRtc_available_read_def Let_def split: if_splits)
    have mw: "m - (element_count b - read_pos b) \<le> write_pos b"
      using am D by (simp add: available_read_def)
    then have mw': "(m - (element_count b - read_pos b)) * element_size b \<le> write_pos b * element_size b"
      by (rule mult_le_mono1)
    have "write_pos b * element_size b \<le> element_count b * element_size b" using len(3) by simp
    have split: "m * element_size b = (element_count b - read_pos b) * element_size b
        + (m - (element_count b - read_pos b)) * element_size b"
      using True by (simp add: distrib_right [symmetric])
    have lr: "length (drop (read_pos b * element_size b) (rb_data b)) = (element_count b - read_pos b) * element_size b"
      using len by (simp add: diff_mult_distrib)
    show ?thesis
      using D lr mw len
      unfolding r1_def r2_def g' contents_def split
      by (simp add: min_absorb1 min_absorb2)
  next
    case False
    have g': "off1 = read_pos b * element_size b" "bytes1 = m * element_size b" "off2 = None" "bytes2 = 0"
      using g False m by (auto simp: GetBufferReadRegions_def WebRtc_available_read_def Let_def split: if_splits)
    have fit: "m * element_size b \<le> element_count b * element_size b - read_pos b * element_size b"
      using False by (simp add: diff_mult_distrib [symmetric])
    have w: "m * element_size b \<le> (write_pos b - read_pos b) * element_size b" if "rw_wrap b = SAME_WRAP"
      using am that by (simp add: available_read_def)
    show ?thesis
      using fit w len(1) unfolding r1_def r2_def g' contents_def by (auto simp: min_def)
  qed
  then show "r1 @ r2 = take (m * element_size b) (contents b)" "length r1 = bytes1" "length r2 = bytes2"
    by simp_all
qed

text \<open>What the caller finds at \<open>*data_ptr\<close> after a read.\<close>

definition deref :: "RingBuffer \<Rightarrow> int list \<Rightarrow> data_location \<Rightarrow> nat \<Rightarrow> int list" where
  "deref b out loc n = (case loc of InBuffer off \<Rightarrow> take n (drop off (rb_data b)) | InCallerData \<Rightarrow> take n out)"

lemma overwrite_two:
  "length r1 = k \<Longrightarrow> overwrite (overwrite out 0 r1) k r2 = overwrite out 0 (r1 @ r2)"
  by (simp add: overwrite_def add.commute)

lemma ReadBuffer_copy:
  fixes n :: nat
  assumes ok: "rb_ok b"
  defines "m \<equiv> min n (available_read b)"
  shows "WebRtc_ReadBuffer (Some b) False (Some out) n =
    (m, Some (overwrite out 0 (take (m * element_size b) (contents b))), None, Some (advance b m))"
proof -
  obtain m' off1 bytes1 off2 bytes2 where g: "GetBufferReadRegions b n = (m', off1, bytes1, off2, bytes2)"
    by (cases "GetBufferReadRegions b n")
  note r = read_regions [OF ok g]
  have "m \<le> available_read b" "element_count b < 2 ^ 30" using ok by (simp_all add: m_def rb_ok_def)
  then have "m < 2 ^ 31" using available_read_le [OF ok] by simp
  then have "WebRtc_MoveReadPtr (Some b) (s32 (int m)) = (int m, Some (advance b m))"
    using MoveReadPtr_forward [OF ok, of "int m"] by (simp add: s32_nat m_def)
  then show ?thesis
    using r(1) r(2) [symmetric] r(3,4) g
    by (auto simp: WebRtc_ReadBuffer_def Let_def m_def overwrite_two split: option.splits)
qed

lemma ReadBuffer_ptr:
  fixes n :: nat
  assumes ok: "rb_ok b"
  defines "m \<equiv> min n (available_read b)"
  shows "\<exists>out' loc. WebRtc_ReadBuffer (Some b) True (Some out) n =
      (m, Some out', Some loc, Some (advance b m)) \<and>
      deref b out' loc (m * element_size b) = take (m * element_size b) (contents b)"
proof -
  obtain m' off1 bytes1 off2 bytes2 where g: "GetBufferReadRegions b n = (m', off1, bytes1, off2, bytes2)"
    by (cases "GetBufferReadRegions b n")
  note r = read_regions [OF ok g]
  have "m \<le> available_read b" "element_count b < 2 ^ 30" using ok by (simp_all add: m_def rb_ok_def)
  then have "m < 2 ^ 31" using available_read_le [OF ok] by simp
  then have mv: "WebRtc_MoveReadPtr (Some b) (s32 (int m)) = (int m, Some (advance b m))"
    using MoveReadPtr_forward [OF ok, of "int m"] by (simp add: s32_nat m_def)
  have lc: "length (take (m * element_size b) (contents b)) = m * element_size b"
    using length_contents [OF ok] by (simp add: m_def)
  show ?thesis
  proof (cases "bytes2 > 0")
    case True
    let ?r1 = "take bytes1 (drop off1 (rb_data b))"
      and ?r2 = "case off2 of None \<Rightarrow> [] | Some off \<Rightarrow> take bytes2 (drop off (rb_data b))"
    have o: "overwrite (overwrite out 0 ?r1) bytes1 ?r2 = overwrite out 0 (take (m * element_size b) (contents b))"
      using overwrite_two [OF r(3)] r(1,2) by (simp add: m_def)
    have "take (m * element_size b) (overwrite out 0 (take (m * element_size b) (contents b))) =
        take (m * element_size b) (contents b)"
      using lc by (simp add: overwrite_def)
    moreover have "WebRtc_ReadBuffer (Some b) True (Some out) n =
        (m, Some (overwrite out 0 (take (m * element_size b) (contents b))), Some InCallerData, Some (advance b m))"
      using True g mv r(1) o by (simp add: WebRtc_ReadBuffer_def Let_def m_def)
    ultimately show ?thesis by (auto simp: deref_def)
  next
    case False
    then have "(case off2 of None \<Rightarrow> [] | Some off \<Rightarrow> take bytes2 (drop off (rb_data b))) = []"
      by (simp split: option.splits)
    then show ?thesis
      using False r(1) r(2) r(3) g mv lc
      by (auto simp: WebRtc_ReadBuffer_def Let_def m_def deref_def)
  qed
qed

section \<open>Writing\<close>

text \<open>The buffer after \<open>m\<close> elements of \<open>src\<close> went in, without and with a wrap.\<close>

lemma WriteBuffer_straight:
  assumes ok: "rb_ok b" and src: "m * element_size b \<le> length src"
    and m: "m \<le> element_count b - available_read b" "m \<le> element_count b - write_pos b"
  defines "b' \<equiv> b\<lparr>rb_data := overwrite (rb_data b) (write_pos b * element_size b) (take (m * element_size b) src),
                  write_pos := write_pos b + m\<rparr>"
  shows "rb_ok b'" "contents b' = contents b @ take (m * element_size b) src"
proof -
  let ?e = "element_size b" and ?w = "write_pos b" and ?r = "read_pos b" and ?d = "rb_data b"
  have okD: "length ?d = element_count b * ?e" "?w \<le> element_count b" "?r \<le> element_count b"
    using ok by (simp_all add: rb_ok_def)
  have fit: "?w * ?e + m * ?e \<le> length ?d"
    using m(2) okD mult_le_mono1 [of "?w + m" "element_count b" ?e] by (simp add: distrib_right)
  have lx: "length (take (m * ?e) src) = m * ?e" using src by simp
  show "rb_ok b'"
    using ok m fit lx by (auto simp: b'_def rb_ok_def available_read_def split: if_splits)
  show "contents b' = contents b @ take (m * ?e) src"
  proof (cases "rw_wrap b = SAME_WRAP")
    case True
    then have rw: "?r \<le> ?w" using ok by (simp add: rb_ok_def)
    then have rwe: "?r * ?e \<le> ?w * ?e" by simp
    have d: "drop (?r * ?e) (overwrite ?d (?w * ?e) (take (m * ?e) src)) =
        take (?w * ?e - ?r * ?e) (drop (?r * ?e) ?d) @ take (m * ?e) src @ drop (?w * ?e + m * ?e) ?d"
      using rwe fit lx by (simp add: overwrite_def drop_take min_absorb2)
    have l: "length (take (?w * ?e - ?r * ?e) (drop (?r * ?e) ?d)) = ?w * ?e - ?r * ?e"
      using fit by simp
    have n: "(?w + m - ?r) * ?e = (?w * ?e - ?r * ?e) + m * ?e"
      using rw by (simp add: diff_mult_distrib distrib_right)
    show ?thesis
      using True l lx by (simp add: contents_def b'_def d n diff_mult_distrib [of ?w ?r])
  next
    case False
    then have wr: "?w \<le> ?r" "m \<le> ?r - ?w"
      using ok m(1) by (simp_all add: rb_ok_def available_read_def)
    then have "?w + m \<le> ?r" by linarith
    then have "(?w + m) * ?e \<le> ?r * ?e" by simp
    then have le: "?w * ?e + m * ?e \<le> ?r * ?e" by (simp add: distrib_right)
    have "drop (?r * ?e) (overwrite ?d (?w * ?e) (take (m * ?e) src)) = drop (?r * ?e) ?d"
      using le fit lx wr(1) by (simp add: overwrite_def)
    moreover have "take ((?w + m) * ?e) (overwrite ?d (?w * ?e) (take (m * ?e) src)) =
        take (?w * ?e) ?d @ take (m * ?e) src"
      using fit lx by (simp add: overwrite_def distrib_right)
    ultimately show ?thesis using False by (simp add: contents_def b'_def)
  qed
qed

lemma WriteBuffer_wrapped:
  assumes ok: "rb_ok b" and src: "m * element_size b \<le> length src"
    and m: "m \<le> element_count b - available_read b" "m > element_count b - write_pos b"
  defines "g \<equiv> element_count b - write_pos b"
  defines "d1 \<equiv> overwrite (rb_data b) (write_pos b * element_size b) (take (g * element_size b) src)"
  defines "b' \<equiv> b\<lparr>rb_data := overwrite d1 0 (take ((m - g) * element_size b) (drop (g * element_size b) src)),
                  write_pos := m - g, rw_wrap := DIFF_WRAP\<rparr>"
  shows "rb_ok b'" "contents b' = contents b @ take (m * element_size b) src"
proof -
  let ?e = "element_size b" and ?w = "write_pos b" and ?r = "read_pos b" and ?d = "rb_data b"
  have okD: "length ?d = element_count b * ?e" "?w \<le> element_count b" "?r \<le> element_count b"
    using ok by (simp_all add: rb_ok_def)
  have S: "rw_wrap b = SAME_WRAP"
    using m ok by (auto simp: rb_ok_def available_read_def split: if_splits)
  have rw: "?r \<le> ?w" "m - g \<le> ?r" "g \<le> m"
    using S m ok by (auto simp: rb_ok_def available_read_def g_def)
  have ge: "?w * ?e + g * ?e = element_count b * ?e"
    using okD(2) by (simp add: g_def distrib_right [symmetric])
  have me: "m * ?e = g * ?e + (m - g) * ?e" using rw(3) by (simp add: distrib_right [symmetric])
  have lx: "length (take (g * ?e) src) = g * ?e"
    "length (take ((m - g) * ?e) (drop (g * ?e) src)) = (m - g) * ?e"
    using src me by simp_all
  have d1: "d1 = take (?w * ?e) ?d @ take (g * ?e) src"
    using ge okD(1) lx(1) by (simp add: d1_def overwrite_def)
  have l1: "length d1 = element_count b * ?e" using ge okD(1) lx(1) by (simp add: d1)
  have e: "(m - g) * ?e \<le> ?r * ?e" "?r * ?e \<le> ?w * ?e" using rw by simp_all
  then have fit: "(m - g) * ?e \<le> length d1" using l1 okD(3) ge by linarith
  show "rb_ok b'"
    using ok rw okD fit lx(2) l1 by (auto simp: b'_def rb_ok_def)
  have "drop (?r * ?e) (rb_data b') = drop (?r * ?e) d1"
    using e lx(2) fit by (simp add: b'_def overwrite_def)
  also have "\<dots> = contents b @ take (g * ?e) src"
    using e S okD(1,2) ge
    by (simp add: d1 contents_def drop_take diff_mult_distrib min_absorb2)
  finally have 1: "drop (?r * ?e) (rb_data b') = contents b @ take (g * ?e) src" .
  have "take ((m - g) * ?e) (rb_data b') = take ((m - g) * ?e) (drop (g * ?e) src)"
    using lx(2) by (simp add: b'_def overwrite_def)
  then show "contents b' = contents b @ take (m * ?e) src"
    using 1 by (simp add: contents_def b'_def me take_add)
qed

lemma WriteBuffer_appends:
  assumes ok: "rb_ok b" and src: "n * element_size b \<le> length src"
  defines "m \<equiv> min n (element_count b - available_read b)"
  shows "\<exists>b'. WebRtc_WriteBuffer (Some b) (Some src) n = (m, Some b') \<and> rb_ok b' \<and>
    contents b' = contents b @ take (m * element_size b) src \<and>
    element_count b' = element_count b \<and> element_size b' = element_size b"
proof -
  have ms: "m * element_size b \<le> length src"
  proof -
    have "m * element_size b \<le> n * element_size b" by (intro mult_le_mono1) (simp add: m_def)
    then show ?thesis using src by linarith
  qed
  have mf: "m \<le> element_count b - available_read b" by (simp add: m_def)
  have w: "(if element_count b - available_read b < n then element_count b - available_read b else n) = m"
    by (simp add: m_def)
  show ?thesis
  proof (cases "m > element_count b - write_pos b")
    case True
    have "WebRtc_WriteBuffer (Some b) (Some src) n = (m, Some (b\<lparr>rb_data :=
        overwrite (overwrite (rb_data b) (write_pos b * element_size b)
          (take ((element_count b - write_pos b) * element_size b) src)) 0
          (take ((m - (element_count b - write_pos b)) * element_size b)
            (drop ((element_count b - write_pos b) * element_size b) src)),
        write_pos := m - (element_count b - write_pos b), rw_wrap := DIFF_WRAP\<rparr>))"
      using True unfolding WebRtc_WriteBuffer_def WebRtc_available_write_def WebRtc_available_read_def
      by (simp only: option.case prod.case w Let_def if_True) simp
    with WriteBuffer_wrapped [OF ok ms mf True] show ?thesis by simp
  next
    case False
    have "WebRtc_WriteBuffer (Some b) (Some src) n = (m, Some (b\<lparr>rb_data :=
        overwrite (rb_data b) (write_pos b * element_size b) (take (m * element_size b) src),
        write_pos := write_pos b + m\<rparr>))"
      using False unfolding WebRtc_WriteBuffer_def WebRtc_available_write_def WebRtc_available_read_def
      by (simp only: option.case prod.case w Let_def if_False) simp
    with WriteBuffer_straight [OF ok ms mf] False show ?thesis by simp
  qed
qed

section \<open>The contract: a bounded queue\<close>

text \<open>
  What a client relies on: \<open>put\<close> stores as many of \<open>n\<close> elements as fit and says how many, \<open>get\<close> returns
  the oldest elements and removes them. Contents are bytes, counts are elements of \<open>unit\<close> bytes.
\<close>

datatype fifo_op = Put "int list" nat | Get nat

text \<open>A run over a queue's two operations: what was accepted, what came out, the final buffer.\<close>

fun fifo_run ::
  "('b \<Rightarrow> int list \<Rightarrow> nat \<Rightarrow> nat \<times> 'b) \<Rightarrow> ('b \<Rightarrow> nat \<Rightarrow> int list \<times> 'b) \<Rightarrow> ('b \<Rightarrow> nat) \<Rightarrow> 'b \<Rightarrow> fifo_op list
     \<Rightarrow> int list \<times> int list \<times> 'b" where
  "fifo_run put get usize b [] = ([], [], b)"
| "fifo_run put get usize b (Put xs n # ops) =
     (let (m, b1) = put b xs n; (accepted, got, b2) = fifo_run put get usize b1 ops
      in (take (m * usize b) xs @ accepted, got, b2))"
| "fifo_run put get usize b (Get n # ops) =
     (let (ys, b1) = get b n; (accepted, got, b2) = fifo_run put get usize b1 ops in (accepted, ys @ got, b2))"

text \<open>Every write comes with enough data.\<close>

definition supplied :: "nat \<Rightarrow> fifo_op \<Rightarrow> bool" where
  "supplied u p = (case p of Put xs n \<Rightarrow> n * u \<le> length xs | Get n \<Rightarrow> True)"

locale bounded_fifo =
  fixes ok :: "'b \<Rightarrow> bool"
    and queue :: "'b \<Rightarrow> int list"
    and room :: "'b \<Rightarrow> nat"
    and ready :: "'b \<Rightarrow> nat"
    and usize :: "'b \<Rightarrow> nat"
    and put :: "'b \<Rightarrow> int list \<Rightarrow> nat \<Rightarrow> nat \<times> 'b"
    and get :: "'b \<Rightarrow> nat \<Rightarrow> int list \<times> 'b"
  assumes put_law: "ok b \<Longrightarrow> n * usize b \<le> length xs \<Longrightarrow> put b xs n = (m, b') \<Longrightarrow>
      m = min n (room b) \<and> ok b' \<and> queue b' = queue b @ take (m * usize b) xs \<and> usize b' = usize b \<and>
      room b' + ready b' = room b + ready b"
    and get_law: "ok b \<Longrightarrow> get b n = (ys, b') \<Longrightarrow>
      ys = take (min n (ready b) * usize b) (queue b) \<and> ok b' \<and>
      queue b' = drop (min n (ready b) * usize b) (queue b) \<and> usize b' = usize b \<and>
      room b' + ready b' = room b + ready b"
    and ready_law: "ok b \<Longrightarrow> length (queue b) = ready b * usize b"
begin

text \<open>Nothing is lost, duplicated or reordered, and the capacity never changes.\<close>

lemma run_conserves:
  assumes "ok b" "\<forall>p\<in>set ops. supplied (usize b) p" "fifo_run put get usize b ops = (accepted, got, b')"
  shows "queue b @ accepted = got @ queue b'" "ok b'" "usize b' = usize b"
    "room b' + ready b' = room b + ready b"
proof -
  have "queue b @ accepted = got @ queue b' \<and> ok b' \<and> usize b' = usize b \<and>
      room b' + ready b' = room b + ready b"
    using assms
  proof (induction ops arbitrary: b accepted got b')
    case Nil
    then show ?case by simp
  next
    case (Cons p ops)
    show ?case
    proof (cases p)
      case (Put xs n)
      obtain m b1 where p1: "put b xs n = (m, b1)" by (cases "put b xs n")
      obtain acc g b2 where r: "fifo_run put get usize b1 ops = (acc, g, b2)" by (cases "fifo_run put get usize b1 ops")
      have law: "ok b1" "queue b1 = queue b @ take (m * usize b) xs" "usize b1 = usize b"
          "room b1 + ready b1 = room b + ready b"
        using put_law [OF Cons.prems(1) _ p1] Cons.prems(2) Put by (simp_all add: supplied_def)
      have e: "accepted = take (m * usize b) xs @ acc" "got = g" "b' = b2"
        using Cons.prems(3) Put p1 r by simp_all
      have "\<forall>p\<in>set ops. supplied (usize b1) p" using Cons.prems(2) law(3) by simp
      from Cons.IH [OF law(1) this r] show ?thesis using law e by simp
    next
      case (Get n)
      obtain ys b1 where p1: "get b n = (ys, b1)" by (cases "get b n")
      obtain acc g b2 where r: "fifo_run put get usize b1 ops = (acc, g, b2)" by (cases "fifo_run put get usize b1 ops")
      have law: "ok b1" "ys @ queue b1 = queue b" "usize b1 = usize b"
          "room b1 + ready b1 = room b + ready b"
        using get_law [OF Cons.prems(1) p1] by simp_all
      have e: "accepted = acc" "got = ys @ g" "b' = b2"
        using Cons.prems(3) Get p1 r by simp_all
      have "\<forall>p\<in>set ops. supplied (usize b1) p" using Cons.prems(2) law(3) by simp
      from Cons.IH [OF law(1) this r] show ?thesis using law e by (metis append.assoc)
    qed
  qed
  then show "queue b @ accepted = got @ queue b'" "ok b'" "usize b' = usize b"
    "room b' + ready b' = room b + ready b" by simp_all
qed

text \<open>What was put into an empty queue comes out first, in order.\<close>

lemma got_prefix:
  assumes "ok b" "\<forall>p\<in>set ops. supplied (usize b) p" "fifo_run put get usize b ops = (accepted, got, b')" "queue b = []"
  shows "got = take (length got) accepted"
  using run_conserves(1) [OF assms(1-3)] assms(4) by (metis append_Nil append_eq_conv_conj)

end

text \<open>The ring buffer as a client drives it: copy out to an array of the right size.\<close>

definition rb_put :: "RingBuffer \<Rightarrow> int list \<Rightarrow> nat \<Rightarrow> nat \<times> RingBuffer" where
  "rb_put b xs n = (case WebRtc_WriteBuffer (Some b) (Some xs) n of (m, h) \<Rightarrow> (m, the h))"

definition rb_get :: "RingBuffer \<Rightarrow> nat \<Rightarrow> int list \<times> RingBuffer" where
  "rb_get b n =
     (case WebRtc_ReadBuffer (Some b) False (Some (replicate (n * element_size b) 0)) n of
        (m, out, _, h) \<Rightarrow> (take (m * element_size b) (the out), the h))"

definition rb_room :: "RingBuffer \<Rightarrow> nat" where
  "rb_room b = WebRtc_available_write (Some b)"

interpretation ring: bounded_fifo rb_ok contents rb_room available_read element_size rb_put rb_get
proof unfold_locales
  fix b n xs m b'
  assume ok: "rb_ok b" and n: "n * element_size b \<le> length xs" and p: "rb_put b xs n = (m, b')"
  have free: "rb_room c = element_count c - available_read c" for c
    by (simp add: rb_room_def WebRtc_available_write_def WebRtc_available_read_def)
  from WriteBuffer_appends [OF ok n] p
  have w: "m = min n (rb_room b)" "rb_ok b'" "contents b' = contents b @ take (m * element_size b) xs"
      "element_size b' = element_size b" "element_count b' = element_count b"
    by (auto simp: rb_put_def free)
  then show "m = min n (rb_room b) \<and> rb_ok b' \<and> contents b' = contents b @ take (m * element_size b) xs \<and>
      element_size b' = element_size b \<and> rb_room b' + available_read b' = rb_room b + available_read b"
    using available_read_le [OF ok] available_read_le [OF w(2)] by (simp add: free)
next
  fix b n ys b'
  assume ok: "rb_ok b" and g: "rb_get b n = (ys, b')"
  let ?m = "min n (available_read b)"
  have free: "rb_room c = element_count c - available_read c" for c
    by (simp add: rb_room_def WebRtc_available_write_def WebRtc_available_read_def)
  have len: "length (take (?m * element_size b) (contents b)) = ?m * element_size b"
    using length_contents [OF ok] by simp
  have "?m \<le> n" by simp
  then have "ys = take (?m * element_size b) (contents b)" and b': "b' = advance b ?m"
    using g ReadBuffer_copy [OF ok, of "replicate (n * element_size b) 0" n] len
    by (auto simp: rb_get_def overwrite_def)
  moreover note advance_ok [OF ok, of ?m] contents_advance [OF ok, of ?m]
  ultimately show "ys = take (?m * element_size b) (contents b) \<and> rb_ok b' \<and>
      contents b' = drop (?m * element_size b) (contents b) \<and> element_size b' = element_size b \<and>
      rb_room b' + available_read b' = rb_room b + available_read b"
    using available_read_le [OF ok] by (simp add: free)
next
  fix b
  show "rb_ok b \<Longrightarrow> length (contents b) = available_read b * element_size b" by (rule length_contents)
qed

end
