(* ===== verification/VadGmm.thy ===== *)
theory VadGmm imports SplInl begin

text \<open>
  The Gaussian likelihood of \<open>common_audio/vad/vad_gmm.c\<close> in fixed point, with the bounds under which
  none of its narrowing conversions loses a bit and its shift counts are valid.
\<close>

definition kCompVar :: int where "kCompVar = 22005"
definition kLog2Exp :: int where "kLog2Exp = 5909"

text \<open>The probability (Q20) and \<open>*delta\<close> (Q11).\<close>

definition WebRtcVad_GaussianProbability :: "int \<Rightarrow> int \<Rightarrow> int \<Rightarrow> int \<times> int" where
  "WebRtcVad_GaussianProbability input mean std =
     (let tmp32 = 131072 + sar std 1;
          inv_std = s16 (WebRtcSpl_DivW32W16 tmp32 std);
          tmp16 = sar inv_std 2;
          inv_std2 = s16 (sar (tmp16 * tmp16) 2);
          tmp16 = s16 (shl32 input 3);
          tmp16 = s16 (tmp16 - mean);
          delta = s16 (sar (inv_std2 * tmp16) 10);
          tmp32 = sar (delta * tmp16) 9;
          exp_value =
            (if tmp32 < kCompVar
             then let tmp16 = s16 (sar (s32 (kLog2Exp * tmp32)) 12);
                      tmp16 = s16 (- tmp16);
                      exp_value = s16 (0x0400 OR (tmp16 AND 0x03FF));
                      tmp16 = s16 (tmp16 XOR 0xFFFF);
                      tmp16 = sar tmp16 10;
                      tmp16 = s16 (tmp16 + 1)
                  in s16 (sar exp_value (nat tmp16))
             else 0)
      in (inv_std * exp_value, delta))"

section \<open>The exponential\<close>

text \<open>The exponent loop-free: \<open>2 ^ (- x / 1024)\<close> in Q10 by a linear mantissa and a shift.\<close>

definition exp2_neg :: "int \<Rightarrow> int" where
  "exp2_neg x = (1024 + (- x) mod 1024) div 2 ^ nat ((x + 1023) div 1024)"

lemma and_3ff: "(a :: int) AND 0x3FF = a mod 1024"
  using take_bit_eq_mask [of 10 a] by (simp add: take_bit_eq_mod mask_eq_exp_minus_1)

lemma or_1024:
  fixes a :: int
  assumes "0 \<le> a" "a < 1024"
  shows "1024 OR a = 1024 + a"
proof -
  have "1024 AND a = (0 :: int)"
  proof (rule bit_eqI)
    fix n
    have "\<not> bit a 10"
      using assms by (simp add: bit_iff_odd div_pos_pos_trivial)
    moreover have "bit (1024 :: int) n \<longleftrightarrow> n = 10"
      using bit_exp_iff [of 10 n, where 'a = int] by auto
    ultimately show "bit (1024 AND a) n = bit (0 :: int) n"
      by (auto simp: bit_and_iff)
  qed
  then show ?thesis using disjunctive_add_eq_or by (metis add.commute)
qed

lemma xor_ffff: "is16 a \<Longrightarrow> s16 (a XOR 0xFFFF) = - a - 1"
proof -
  assume a: "is16 a"
  have "take_bit 16 (a XOR 0xFFFF) = take_bit 16 (NOT a)"
    by (rule bit_eqI) (auto simp: bit_take_bit_iff bit_xor_iff bit_not_iff
        bit_mask_iff [of 16, where 'a = int, simplified mask_eq_exp_minus_1, simplified])
  then have "(a XOR 0xFFFF) mod 65536 = (NOT a) mod 65536"
    by (simp add: take_bit_eq_mod)
  then have "s16 (a XOR 0xFFFF) = s16 (NOT a)" by (rule s16_cong)
  also have "\<dots> = - a - 1" using a by (subst s16_id) (auto simp: is16_def not_int_def)
  finally show ?thesis .
qed

lemma exp2_neg_code:
  assumes "0 \<le> x" "x \<le> 31744"
  shows "(let tmp16 = s16 (- x);
              exp_value = s16 (0x0400 OR (tmp16 AND 0x03FF));
              tmp16 = s16 (tmp16 XOR 0xFFFF);
              tmp16 = sar tmp16 10;
              tmp16 = s16 (tmp16 + 1)
          in s16 (sar exp_value (nat tmp16))) = exp2_neg x"
proof -
  have n: "s16 (- x) = - x" using assms by (intro s16_eqI) simp_all
  have m: "0 \<le> (- x) mod 1024" "(- x) mod 1024 < 1024" by simp_all
  have e: "s16 (1024 OR (- x AND 1023)) = 1024 + (- x) mod 1024"
    using m by (simp only: and_3ff or_1024) (intro s16_eqI; linarith)
  have "is16 (- x)" using assms by (simp add: is16_def)
  then have "s16 (- x XOR 0xFFFF) = x - 1" using xor_ffff by simp
  moreover have "sar (x - 1) 10 + 1 = (x + 1023) div 1024" by (simp add: sar_def)
  moreover have "s16 ((x + 1023) div 1024) = (x + 1023) div 1024"
    using assms by (intro s16_eqI) (simp_all add: pos_imp_zdiv_nonneg_iff order_trans [of _ 0])
  moreover have "is16 (sar (1024 + (- x) mod 1024) k)" for k
    using m by (intro is16_sar) (simp add: is16_def)
  ultimately show ?thesis
    using n e by (simp add: Let_def exp2_neg_def sar_def del: s16_add_s16)
qed

lemma exp2_neg_range:
  assumes "0 \<le> x"
  shows "0 \<le> exp2_neg x" "exp2_neg x \<le> 1024"
proof -
  have m: "0 \<le> (- x) mod 1024" "(- x) mod 1024 < 1024" by simp_all
  then show "0 \<le> exp2_neg x" by (simp add: exp2_neg_def pos_imp_zdiv_nonneg_iff)
  show "exp2_neg x \<le> 1024"
  proof (cases "x = 0")
    case True
    then show ?thesis by (simp add: exp2_neg_def)
  next
    case False
    then have "1 \<le> nat ((x + 1023) div 1024)" using assms by (simp add: le_nat_iff)
    then have "(2 :: int) ^ 1 \<le> 2 ^ nat ((x + 1023) div 1024)" by (intro power_increasing) simp_all
    then have "exp2_neg x \<le> (1024 + (- x) mod 1024) div 2"
      unfolding exp2_neg_def using m by (intro zdiv_mono2) simp_all
    then show ?thesis using m by linarith
  qed
qed

section \<open>The likelihood\<close>

text \<open>The real-valued shape of the computation, with no conversion in it.\<close>

definition gauss_inv_std :: "int \<Rightarrow> int" where
  "gauss_inv_std std = (131072 + std div 2) div std"

definition gauss_delta :: "int \<Rightarrow> int \<Rightarrow> int \<Rightarrow> int" where
  "gauss_delta input mean std =
     ((gauss_inv_std std div 4) * (gauss_inv_std std div 4) div 4 * (8 * input - mean)) div 1024"

definition gauss_spec :: "int \<Rightarrow> int \<Rightarrow> int \<Rightarrow> int" where
  "gauss_spec input mean std =
     (let e = gauss_delta input mean std * (8 * input - mean) div 512
      in gauss_inv_std std * (if e < 22005 then exp2_neg (5909 * e div 4096) else 0))"

lemma gauss_inv_std_range:
  assumes "378 \<le> std" "std \<le> 32767"
  shows "4 \<le> gauss_inv_std std" "gauss_inv_std std \<le> 347"
proof -
  have "4 * std \<le> 131072 + std div 2" using assms by linarith
  then have "4 * std div std \<le> gauss_inv_std std"
    unfolding gauss_inv_std_def using assms by (intro zdiv_mono1) simp_all
  then show "4 \<le> gauss_inv_std std" using assms by simp
  have "131072 + std div 2 < 348 * std" using assms by linarith
  then have "gauss_inv_std std < 348"
    unfolding gauss_inv_std_def using assms by (intro int_div_lt) simp_all
  then show "gauss_inv_std std \<le> 347" by simp
qed

lemma mult_between:
  fixes a t :: int
  assumes "0 \<le> a" "a \<le> A" "\<bar>t\<bar> \<le> T"
  shows "- (A * T) \<le> a * t" "a * t \<le> A * T"
proof -
  have "\<bar>a * t\<bar> \<le> A * T"
    unfolding abs_mult using assms by (intro mult_mono) simp_all
  then show "- (A * T) \<le> a * t" "a * t \<le> A * T" by simp_all
qed

lemma gauss_delta_sign:
  assumes "378 \<le> std" "std \<le> 32767"
  shows "0 \<le> gauss_delta input mean std * (8 * input - mean)"
proof -
  let ?t = "8 * input - mean"
  define q where "q = (gauss_inv_std std div 4) * (gauss_inv_std std div 4) div 4"
  have "0 \<le> gauss_inv_std std div 4" using gauss_inv_std_range [OF assms] by linarith
  then have q: "0 \<le> q" by (simp add: q_def pos_imp_zdiv_nonneg_iff)
  have d_eq: "gauss_delta input mean std = q * ?t div 1024" by (simp add: gauss_delta_def q_def)
  show ?thesis
  proof (cases "0 \<le> ?t")
    case True
    then have "0 \<le> gauss_delta input mean std" unfolding d_eq using q by (simp add: pos_imp_zdiv_nonneg_iff)
    then show ?thesis using True by simp
  next
    case False
    then have "q * ?t \<le> 0" using q by (simp add: mult_nonneg_nonpos)
    then have "gauss_delta input mean std \<le> 0" unfolding d_eq by linarith
    then show ?thesis using False by (simp add: mult_nonpos_nonpos)
  qed
qed

lemma GaussianProbability_spec:
  assumes std: "378 \<le> std" "std \<le> 32767"
    and x: "\<bar>input\<bar> \<le> 4095" "\<bar>8 * input - mean\<bar> \<le> 18000"
  shows "WebRtcVad_GaussianProbability input mean std =
    (gauss_spec input mean std, gauss_delta input mean std)"
proof -
  let ?i = "gauss_inv_std std" and ?t = "8 * input - mean" and ?d = "gauss_delta input mean std"
  define q where "q = (?i div 4) * (?i div 4) div 4"
  have i: "4 \<le> ?i" "?i \<le> 347" by (rule gauss_inv_std_range [OF std])+
  have "?i div 4 \<le> 86" "1 \<le> ?i div 4" using i by linarith+
  then have "(?i div 4) * (?i div 4) \<le> 86 * 86" "0 \<le> (?i div 4) * (?i div 4)"
    by (intro mult_mono; simp) simp
  then have q: "0 \<le> q" "q \<le> 1849" unfolding q_def by linarith+
  have d_eq: "?d = q * ?t div 1024" by (simp add: gauss_delta_def q_def)
  have qt: "- (1849 * 18000) \<le> q * ?t" "q * ?t \<le> 1849 * 18000"
    using mult_between [OF q x(2)] by simp_all
  have d: "- 32503 \<le> ?d" "?d \<le> 32502" unfolding d_eq using qt by linarith+
  have inv: "s16 (WebRtcSpl_DivW32W16 (131072 + sar std 1) std) = ?i"
  proof -
    have "WebRtcSpl_DivW32W16 (131072 + sar std 1) std = ?i"
      using DivW32W16_pos [of "131072 + sar std 1" std] std
      by (simp add: gauss_inv_std_def sar_def)
    then show ?thesis using i by (simp add: s16_eqI)
  qed
  have q16: "s16 (sar (sar ?i 2 * sar ?i 2) 2) = q"
    using q by (simp add: sar_def q_def s16_eqI)
  have t16: "s16 (s16 (shl32 input 3) - mean) = ?t"
  proof -
    have "shl32 input 3 = 8 * input" unfolding shl32_def using x(1) by (subst s32_eqI) simp_all
    moreover have "s16 (8 * input) = 8 * input" using x(1) by (intro s16_eqI) simp_all
    moreover have "s16 ?t = ?t" using x(2) by (intro s16_eqI) simp_all
    ultimately show ?thesis by simp
  qed
  have d16: "s16 (sar (q * ?t) 10) = ?d"
    using d by (simp add: sar_def d_eq [symmetric] s16_eqI)
  have nonneg: "0 \<le> ?d * ?t" by (rule gauss_delta_sign [OF std])
  define e where "e = ?d * ?t div 512"
  have e0: "0 \<le> e" unfolding e_def using nonneg by (simp add: pos_imp_zdiv_nonneg_iff)
  have expo: "s16 (sar (s32 (kLog2Exp * e)) 12) = 5909 * e div 4096"
    "0 \<le> 5909 * e div 4096" "5909 * e div 4096 \<le> 31744" if "e < 22005"
  proof -
    have r: "0 \<le> 5909 * e" "5909 * e \<le> 5909 * 22004" using that e0 by simp_all
    show "0 \<le> 5909 * e div 4096" using r(1) by (simp add: pos_imp_zdiv_nonneg_iff)
    moreover show "5909 * e div 4096 \<le> 31744" using r(2) by linarith
    moreover have "s32 (kLog2Exp * e) = 5909 * e"
      unfolding kLog2Exp_def using r by (intro s32_eqI) linarith+
    ultimately show "s16 (sar (s32 (kLog2Exp * e)) 12) = 5909 * e div 4096"
      by (simp add: sar_def s16_eqI)
  qed
  have exp: "(if e < kCompVar
             then let tmp16 = s16 (sar (s32 (kLog2Exp * e)) 12);
                      tmp16 = s16 (- tmp16);
                      exp_value = s16 (0x0400 OR (tmp16 AND 0x03FF));
                      tmp16 = s16 (tmp16 XOR 0xFFFF);
                      tmp16 = sar tmp16 10;
                      tmp16 = s16 (tmp16 + 1)
                  in s16 (sar exp_value (nat tmp16))
             else 0) = (if e < 22005 then exp2_neg (5909 * e div 4096) else 0)"
    using expo exp2_neg_code by (simp add: kCompVar_def Let_def)
  have s: "sar (?d * ?t) 9 = e" by (simp add: sar_def e_def)
  show ?thesis
    by (simp only: WebRtcVad_GaussianProbability_def Let_def inv q16 t16 d16 s exp [unfolded Let_def]
        gauss_spec_def e_def [symmetric])
qed

lemma gauss_spec_range:
  assumes "378 \<le> std" "std \<le> 32767"
  shows "0 \<le> gauss_spec input mean std" "gauss_spec input mean std \<le> 355328"
proof -
  let ?e = "gauss_delta input mean std * (8 * input - mean) div 512"
  have i: "4 \<le> gauss_inv_std std" "gauss_inv_std std \<le> 347" by (rule gauss_inv_std_range [OF assms(1,2)])+
  define v where "v = (if ?e < 22005 then exp2_neg (5909 * ?e div 4096) else 0)"
  have "0 \<le> 5909 * ?e div 4096" using gauss_delta_sign [OF assms, of input mean] by (simp add: pos_imp_zdiv_nonneg_iff)
  then have v: "0 \<le> v" "v \<le> 1024" using exp2_neg_range by (simp_all add: v_def)
  have "gauss_spec input mean std = gauss_inv_std std * v" by (simp add: gauss_spec_def v_def Let_def)
  moreover have "gauss_inv_std std * v \<le> 347 * 1024" using i v by (intro mult_mono) simp_all
  ultimately show "0 \<le> gauss_spec input mean std" "gauss_spec input mean std \<le> 355328"
    using i v by simp_all
qed

end
