(* ===== verification/VadInst.thy ===== *)
theory VadInst imports SplResample begin

text \<open>
  The instance of the voice activity detector (\<open>common_audio/vad/vad_core.h\<close>), shared by all of
  \<open>common_audio/vad\<close>. An array of the struct is a list.
\<close>

definition kNumChannels :: nat where "kNumChannels = 6"
definition kNumGaussians :: nat where "kNumGaussians = 2"
definition kTableSize :: nat where "kTableSize = kNumChannels * kNumGaussians"
definition kMinEnergy :: int where "kMinEnergy = 10"

record VadInstT =
  vad :: int
  downsampling_filter_states :: "int list"
  state_48_to_8 :: State48khzTo8khz
  noise_means :: "int list"
  speech_means :: "int list"
  noise_stds :: "int list"
  speech_stds :: "int list"
  frame_counter :: int
  over_hang :: int
  num_of_speech :: int
  index_vector :: "int list"
  low_value_vector :: "int list"
  mean_value :: "int list"
  upper_state :: "int list"
  lower_state :: "int list"
  hp_filter_state :: "int list"
  over_hang_max_1 :: "int list"
  over_hang_max_2 :: "int list"
  individual :: "int list"
  total :: "int list"
  init_flag :: int

lemmas vad_consts = kNumChannels_def kNumGaussians_def kTableSize_def kMinEnergy_def

end
