(* ===== verification/VadSp.thy ===== *)
theory VadSp imports VadInst "HOL-Library.Multiset" begin

text \<open>
  \<open>common_audio/vad/vad_sp.c\<close>: the decimator of the detector and the tracker of the 16 smallest recent
  feature values of each channel, from which the noise floor is estimated.
\<close>

section \<open>Decimation\<close>

definition kAllPassCoefsQ13 :: "int list" where "kAllPassCoefsQ13 = [5243, 1392]"
definition kSmoothingDown :: int where "kSmoothingDown = 6553"
definition kSmoothingUp :: int where "kSmoothingUp = 32439"

text \<open>One pair of input samples; the state is \<open>(tmp32_1, tmp32_2)\<close>.\<close>

definition downsampling_step :: "int \<times> int \<Rightarrow> int \<times> int \<Rightarrow> (int \<times> int) \<times> int" where
  "downsampling_step = (\<lambda>(tmp32_1, tmp32_2) (x0, x1).
     let tmp16_1 = s16 (sar tmp32_1 1 + sar (kAllPassCoefsQ13 ! 0 * x0) 14);
         signal_out = tmp16_1;
         tmp32_1 = x0 - sar (kAllPassCoefsQ13 ! 0 * tmp16_1) 12;
         tmp16_2 = s16 (sar tmp32_2 1 + sar (kAllPassCoefsQ13 ! 1 * x1) 14);
         signal_out = s16 (signal_out + tmp16_2);
         tmp32_2 = x1 - sar (kAllPassCoefsQ13 ! 1 * tmp16_2) 12
     in ((tmp32_1, tmp32_2), signal_out))"

text \<open>\<open>filter_state\<close> is the pair of states the pointer addresses.\<close>

definition WebRtcVad_Downsampling :: "int list \<Rightarrow> int list \<Rightarrow> nat \<Rightarrow> int list \<times> int list" where
  "WebRtcVad_Downsampling signal_in filter_state in_length =
     (let (st, outs) = scan downsampling_step (filter_state ! 0, filter_state ! 1)
            (zip (evens (take in_length signal_in)) (odds (take in_length signal_in)))
      in (outs, [fst st, snd st]))"

section \<open>The minimum tracker\<close>

text \<open>
  The first loop. \<open>i\<close> counts up to 16. The removal loop shifts the values above slot \<open>i\<close> down; its last
  step reads one element past the 16 slots of the channel, whose value the two assignments after the
  loop discard.
\<close>

fun age_loop :: "nat \<Rightarrow> nat \<Rightarrow> int list \<Rightarrow> int list \<Rightarrow> int list \<times> int list" where
  "age_loop 0 i age smallest_values = (age, smallest_values)"
| "age_loop (Suc n) i age smallest_values =
     (if age ! i \<noteq> 100 then age_loop n (i + 1) (age[i := s16 (age ! i + 1)]) smallest_values
      else let smallest_values = take i smallest_values @ drop (i + 1) smallest_values @ [10000];
               age = take i age @ drop (i + 1) age @ [101]
           in age_loop n (i + 1) age smallest_values)"

text \<open>The decision tree; \<open>None\<close> is \<open>position = -1\<close>.\<close>

definition find_position :: "int \<Rightarrow> int list \<Rightarrow> nat option" where
  "find_position feature_value smallest_values =
     (if feature_value < smallest_values ! 7 then
        if feature_value < smallest_values ! 3 then
          if feature_value < smallest_values ! 1 then
            if feature_value < smallest_values ! 0 then Some 0 else Some 1
          else if feature_value < smallest_values ! 2 then Some 2 else Some 3
        else if feature_value < smallest_values ! 5 then
          if feature_value < smallest_values ! 4 then Some 4 else Some 5
        else if feature_value < smallest_values ! 6 then Some 6 else Some 7
      else if feature_value < smallest_values ! 15 then
        if feature_value < smallest_values ! 11 then
          if feature_value < smallest_values ! 9 then
            if feature_value < smallest_values ! 8 then Some 8 else Some 9
          else if feature_value < smallest_values ! 10 then Some 10 else Some 11
        else if feature_value < smallest_values ! 13 then
          if feature_value < smallest_values ! 12 then Some 12 else Some 13
        else if feature_value < smallest_values ! 14 then Some 14 else Some 15
      else None)"

text \<open>\<open>for (i = 15; i > position; i--) xs[i] = xs[i - 1]; xs[position] = x;\<close>\<close>

definition insert_at :: "nat \<Rightarrow> 'a \<Rightarrow> 'a list \<Rightarrow> 'a list" where
  "insert_at position x xs =
     (foldl (\<lambda>xs i. xs[i := xs ! (i - 1)]) xs (rev [position + 1..<16]))[position := x]"

text \<open>The smoothed median: \<open>mean_value[channel]\<close> after the update.\<close>

definition smooth_median :: "int \<Rightarrow> int list \<Rightarrow> int \<Rightarrow> int" where
  "smooth_median counter smallest_values mean =
     (let current_median = (if counter > 2 then smallest_values ! 2
                            else if counter > 0 then smallest_values ! 0 else 1600);
          alpha = (if counter > 0
                   then if current_median < mean then kSmoothingDown else kSmoothingUp
                   else 0);
          tmp32 = s32 ((alpha + 1) * mean);
          tmp32 = s32 (tmp32 + (32767 - alpha) * current_median);
          tmp32 = s32 (tmp32 + 16384)
      in s16 (sar tmp32 15))"

definition WebRtcVad_FindMinimum :: "VadInstT \<Rightarrow> int \<Rightarrow> nat \<Rightarrow> VadInstT \<times> int" where
  "WebRtcVad_FindMinimum self feature_value channel =
     (let offset = 16 * channel;
          age = take 16 (drop offset (index_vector self));
          smallest_values = take 16 (drop offset (low_value_vector self));
          (age, smallest_values) = age_loop 16 0 age smallest_values;
          (age, smallest_values) =
            (case find_position feature_value smallest_values of
               None \<Rightarrow> (age, smallest_values)
             | Some position \<Rightarrow> (insert_at position 1 age, insert_at position feature_value smallest_values));
          mean = smooth_median (frame_counter self) smallest_values (mean_value self ! channel)
      in (self\<lparr>index_vector := overwrite (index_vector self) offset age,
               low_value_vector := overwrite (low_value_vector self) offset smallest_values,
               mean_value := (mean_value self)[channel := mean]\<rparr>, mean))"

section \<open>Decimation: no overflow, frames\<close>

text \<open>The branch states stay within \<open>\<plusminus>75536\<close>, so that no 32-bit sum wraps.\<close>

definition down_state_ok :: "int \<times> int \<Rightarrow> bool" where
  "down_state_ok = (\<lambda>(a, b). \<bar>a\<bar> \<le> 75536 \<and> \<bar>b\<bar> \<le> 75536)"

interpretation downsampler: stream_filter downsampling_step down_state_ok
  "\<lambda>(x0, x1). is16 x0 \<and> is16 x1" is16
proof unfold_locales
  fix s x :: "int \<times> int"
  assume x: "case x of (x0, x1) \<Rightarrow> is16 x0 \<and> is16 x1"
  obtain a b x0 x1 where sx: "s = (a, b)" "x = (x0, x1)" by (cases s; cases x) auto
  have b: "\<bar>y - sar (k * s16 z) 12\<bar> \<le> 75536" if "is16 y" "0 \<le> k" "k \<le> 5243" for y k z
  proof -
    have "\<bar>s16 z\<bar> \<le> 32768" using is16_s16 [of z] unfolding is16_def by linarith
    then have "\<bar>k * s16 z\<bar> \<le> 5243 * 32768"
      unfolding abs_mult using that by (intro mult_mono) simp_all
    moreover have "sar (k * s16 z) 12 = k * s16 z div 4096" by (simp add: sar_def)
    ultimately have "- 41944 \<le> sar (k * s16 z) 12" "sar (k * s16 z) 12 \<le> 41944" by linarith+
    then show ?thesis using that(1) unfolding is16_def by linarith
  qed
  show "down_state_ok (fst (downsampling_step s x))"
    using b [of x0 5243] b [of x1 1392] x sx
    by (simp add: downsampling_step_def down_state_ok_def kAllPassCoefsQ13_def Let_def)
  show "is16 (snd (downsampling_step s x))"
    using sx by (simp add: downsampling_step_def Let_def)
qed

lemma zip_even_append:
  "even (length xs) \<Longrightarrow> zip (evens (xs @ ys)) (odds (xs @ ys)) = zip (evens xs) (odds xs) @ zip (evens ys) (odds ys)"
  by (simp add: evens_append odds_append)

lemma Downsampling_append:
  assumes "even (length xs)"
  shows "WebRtcVad_Downsampling (xs @ ys) st (length xs + length ys) =
    (let (us, st1) = WebRtcVad_Downsampling xs st (length xs);
         (vs, st2) = WebRtcVad_Downsampling ys st1 (length ys)
     in (us @ vs, st2))"
  using assms
  by (simp add: WebRtcVad_Downsampling_def zip_even_append fst_scan_append snd_scan_append split_beta Let_def)

lemma length_Downsampling [simp]:
  "n \<le> length xs \<Longrightarrow> length (fst (WebRtcVad_Downsampling xs st n)) = n div 2"
  "length (snd (WebRtcVad_Downsampling xs st n)) = 2"
  by (simp_all add: WebRtcVad_Downsampling_def split_beta Let_def)

lemma in_zip_evens_odds:
  "(a, b) \<in> set (zip (evens xs) (odds xs)) \<Longrightarrow> a \<in> set xs \<and> b \<in> set xs"
  using set_evens set_odds by (metis set_zip_leftD set_zip_rightD subsetD)

lemma Downsampling_ok:
  assumes "\<forall>x\<in>set xs. is16 x" "down_state_ok (st ! 0, st ! 1)"
  shows "\<forall>y\<in>set (fst (WebRtcVad_Downsampling xs st n)). is16 y"
    and "down_state_ok (snd (WebRtcVad_Downsampling xs st n) ! 0, snd (WebRtcVad_Downsampling xs st n) ! 1)"
proof -
  let ?ps = "zip (evens (take n xs)) (odds (take n xs))"
  have ps: "\<forall>p\<in>set ?ps. case p of (x0, x1) \<Rightarrow> is16 x0 \<and> is16 x1"
    using assms(1) in_zip_evens_odds in_set_takeD by fast
  show "\<forall>y\<in>set (fst (WebRtcVad_Downsampling xs st n)). is16 y"
    using downsampler.run_out [OF assms(2) ps]
    by (simp add: WebRtcVad_Downsampling_def split_beta Let_def)
  show "down_state_ok (snd (WebRtcVad_Downsampling xs st n) ! 0, snd (WebRtcVad_Downsampling xs st n) ! 1)"
    using downsampler.run_inv [OF assms(2) ps]
    by (simp add: WebRtcVad_Downsampling_def split_beta Let_def)
qed

section \<open>The decision tree is a linear search\<close>

lemma takeWhile_position:
  assumes "sorted vs" "p < length vs" "x < vs ! p" "p = 0 \<or> \<not> x < vs ! (p - 1)"
  shows "length (takeWhile (\<lambda>v. \<not> x < v) vs) = p"
proof -
  have "takeWhile (\<lambda>v. \<not> x < v) vs = take p vs"
  proof (rule takeWhile_eq_take_P_nth)
    fix i assume i: "i < p" "i < length vs"
    then have "vs ! i \<le> vs ! (p - 1)" using assms(1,2) by (intro sorted_nth_mono) auto
    then show "\<not> x < vs ! i" using assms(4) i by auto
  next
    show "p < length vs \<Longrightarrow> \<not> \<not> x < vs ! p" using assms(3) by simp
  qed
  then show ?thesis using assms(2) by simp
qed

lemma find_position_leaf:
  assumes "find_position x vs = Some p"
  shows "p < 16" "x < vs ! p" "p = 0 \<or> \<not> x < vs ! (p - 1)"
  using assms by (auto simp: find_position_def split: if_splits)

lemma find_position_linear:
  assumes "sorted vs" "length vs = 16"
  shows "find_position x vs = (if x < vs ! 15 then Some (length (takeWhile (\<lambda>v. \<not> x < v) vs)) else None)"
proof (cases "find_position x vs")
  case None
  then have "\<not> x < vs ! 15" using sorted_nth_mono [OF assms(1), of 7 15] assms(2)
    by (auto simp: find_position_def split: if_splits)
  then show ?thesis using None by simp
next
  case (Some p)
  note leaf = find_position_leaf [OF Some]
  have "vs ! p \<le> vs ! 15" using assms leaf(1) by (intro sorted_nth_mono) simp_all
  then have "x < vs ! 15" using leaf(2) by simp
  moreover have "length (takeWhile (\<lambda>v. \<not> x < v) vs) = p"
    using leaf assms by (intro takeWhile_position) simp_all
  ultimately show ?thesis using Some by simp
qed

section \<open>The tracker keeps the 16 smallest values, sorted\<close>

lemma shift_up_nth:
  "m \<le> length xs \<Longrightarrow> j < length xs \<Longrightarrow>
    foldl (\<lambda>xs i. xs[i := xs ! (i - Suc 0)]) xs (rev [Suc p..<m]) ! j =
      (if p < j \<and> j < m then xs ! (j - 1) else xs ! j)"
proof (induction m arbitrary: xs)
  case 0
  then show ?case by simp
next
  case (Suc m)
  show ?case
  proof (cases "Suc p \<le> m")
    case True
    then have "rev [Suc p..<Suc m] = m # rev [Suc p..<m]" by simp
    then show ?thesis
      using Suc.IH [of "xs[m := xs ! (m - Suc 0)]"] Suc.prems True
      by (simp del: upt_Suc) (auto simp: nth_list_update)
  next
    case False
    then show ?thesis using Suc.prems by auto
  qed
qed

lemma length_shift_up [simp]:
  "length (foldl (\<lambda>xs i. xs[i := xs ! (i - Suc 0)]) xs is) = length xs"
  by (induction "is" arbitrary: xs) simp_all

lemma insert_at_eq:
  assumes "length xs = 16" "p < 16"
  shows "insert_at p x xs = take 16 (take p xs @ x # drop p xs)"
proof (rule nth_equalityI)
  show len: "length (insert_at p x xs) = length (take 16 (take p xs @ x # drop p xs))"
    using assms by (simp add: insert_at_def)
  fix j assume "j < length (insert_at p x xs)"
  then have j: "j < 16" using assms by (simp add: insert_at_def)
  have "insert_at p x xs ! j = (if j = p then x else if p < j then xs ! (j - 1) else xs ! j)"
    using assms j shift_up_nth [of 16 xs j p]
    by (simp add: insert_at_def nth_list_update del: upt_Suc upt_conv_Cons)
  also have "\<dots> = take 16 (take p xs @ x # drop p xs) ! j"
    using assms j by (auto simp: nth_append nth_Cons' min_def)
  finally show "insert_at p x xs ! j = take 16 (take p xs @ x # drop p xs) ! j" .
qed

lemma length_insert_at [simp]: "length (insert_at p x xs) = length xs"
  by (simp add: insert_at_def)

lemma sorted_split_insort:
  fixes x :: int
  assumes "sorted vs" "\<forall>i < p. vs ! i \<le> x" "p \<le> length vs" "p < length vs \<longrightarrow> x \<le> vs ! p"
  shows "take p vs @ x # drop p vs = insort x vs"
proof -
  have "sorted (take p vs @ x # drop p vs)"
  proof -
    have "sorted (take p vs)" "sorted (drop p vs)" using assms(1) by (simp_all add: sorted_wrt_take sorted_wrt_drop)
    moreover have "\<forall>v\<in>set (take p vs). v \<le> x" using assms(2,3) by (auto simp: in_set_conv_nth)
    moreover have "\<forall>v\<in>set (drop p vs). x \<le> v"
    proof
      fix v assume "v \<in> set (drop p vs)"
      then obtain i where i: "i < length vs - p" "v = vs ! (p + i)" by (auto simp: in_set_conv_nth)
      then have "vs ! p \<le> v" using assms(1) by (auto intro: sorted_nth_mono)
      moreover have "x \<le> vs ! p" using assms(4) i(1) by simp
      ultimately show "x \<le> v" by linarith
    qed
    ultimately show ?thesis by (fastforce simp: sorted_append)
  qed
  moreover have "mset (take p vs @ x # drop p vs) = mset (insort x vs)"
  proof -
    have "mset (take p vs) + mset (drop p vs) = mset vs" by (simp only: mset_append [symmetric] append_take_drop_id)
    then show ?thesis by simp
  qed
  ultimately show ?thesis
    using assms(1) sorted_insort [of x vs] by (metis properties_for_sort)
qed

text \<open>After the search and the shift, the slots hold the 16 smallest of the old values and the new one.\<close>

lemma insertion_spec:
  assumes "sorted vs" "length vs = 16"
  shows "(case find_position x vs of None \<Rightarrow> vs | Some p \<Rightarrow> insert_at p x vs) = take 16 (insort x vs)"
proof (cases "find_position x vs")
  case None
  then have ge: "vs ! 15 \<le> x"
    using find_position_linear [OF assms, of x] by (simp split: if_splits)
  have "take 16 vs @ x # drop 16 vs = insort x vs"
  proof (rule sorted_split_insort [OF assms(1)])
    show "\<forall>i < 16. vs ! i \<le> x"
    proof (intro allI impI)
      fix i :: nat assume "i < 16"
      then have "vs ! i \<le> vs ! 15" using assms by (intro sorted_nth_mono) simp_all
      then show "vs ! i \<le> x" using ge by simp
    qed
  qed (simp_all add: assms(2))
  then have "insort x vs = vs @ [x]" using assms(2) by simp
  then show ?thesis using None assms(2) by simp
next
  case (Some p)
  note leaf = find_position_leaf [OF Some]
  have "take p vs @ x # drop p vs = insort x vs"
  proof (rule sorted_split_insort [OF assms(1)])
    show "\<forall>i < p. vs ! i \<le> x"
    proof (intro allI impI)
      fix i assume i: "i < p"
      then have "vs ! i \<le> vs ! (p - 1)" using assms leaf(1) by (intro sorted_nth_mono) simp_all
      then show "vs ! i \<le> x" using leaf(3) i by auto
    qed
  qed (use leaf assms(2) in simp_all)
  then show ?thesis using Some insert_at_eq [OF assms(2) leaf(1), of x] by simp
qed

definition slots_ok :: "int list \<Rightarrow> bool" where
  "slots_ok vs \<longleftrightarrow> length vs = 16 \<and> sorted vs \<and> (\<forall>v\<in>set vs. 0 \<le> v \<and> v \<le> 10000)"

lemma slots_ok_remove:
  assumes "slots_ok vs" "i < 16"
  shows "slots_ok (take i vs @ drop (i + 1) vs @ [10000])"
proof -
  have "sorted (take i vs @ drop i vs)" using assms by (simp add: slots_ok_def)
  then have "sorted (take i vs)" "\<forall>x\<in>set (take i vs). \<forall>y\<in>set (drop i vs). x \<le> y"
    unfolding sorted_append by simp_all
  moreover have "sorted (drop (i + 1) vs)" using assms by (simp add: slots_ok_def sorted_wrt_drop)
  moreover have "set (drop (i + 1) vs) \<subseteq> set (drop i vs)" by (rule set_drop_subset_set_drop) simp
  ultimately have "sorted (take i vs @ drop (i + 1) vs)" by (auto simp: sorted_append)
  then show ?thesis
    using assms by (auto simp: slots_ok_def sorted_append dest: in_set_takeD in_set_dropD)
qed

lemma age_loop_ok:
  assumes "slots_ok vs" "length age = 16" "i + n = 16" "age_loop n i age vs = (age', vs')"
  shows "slots_ok vs'" "length age' = 16"
proof -
  have "slots_ok vs' \<and> length age' = 16"
    using assms
  proof (induction n arbitrary: i age vs)
    case 0
    then show ?case by simp
  next
    case (Suc n)
    show ?case
    proof (cases "age ! i \<noteq> 100")
      case True
      then show ?thesis using Suc.IH [of vs "age[i := s16 (age ! i + 1)]" "i + 1"] Suc.prems by simp
    next
      case False
      then show ?thesis
        using Suc.IH [of "take i vs @ drop (i + 1) vs @ [10000]" "take i age @ drop (i + 1) age @ [101]" "i + 1"]
          Suc.prems slots_ok_remove [of vs i] by (simp add: Let_def)
    qed
  qed
  then show "slots_ok vs'" "length age' = 16" by simp_all
qed

text \<open>With no value at its maximal age, the loop only ages.\<close>

lemma age_loop_young:
  "\<forall>a\<in>set (drop i age). a \<noteq> 100 \<Longrightarrow> length age = i + n \<Longrightarrow>
    age_loop n i age vs = (take i age @ map (\<lambda>a. s16 (a + 1)) (drop i age), vs)"
proof (induction n arbitrary: i age)
  case 0
  then show ?case by simp
next
  case (Suc n)
  have d: "drop i age = age ! i # drop (Suc i) age" using Suc.prems(2) by (simp add: Cons_nth_drop_Suc)
  then have "age ! i \<noteq> 100" "\<forall>a\<in>set (drop (Suc i) age). a \<noteq> 100" using Suc.prems(1) by simp_all
  moreover have "drop (Suc i) (age[i := b]) = drop (Suc i) age" for b by simp
  moreover have "take (Suc i) (age[i := b]) = take i age @ [b]" for b
    using Suc.prems(2) by (simp add: take_Suc_conv_app_nth)
  ultimately show ?case
    using Suc.IH [of "Suc i" "age[i := s16 (age ! i + 1)]"] Suc.prems(2) d by simp
qed

text \<open>
  A value that slides into the slot of a removed one is passed over: of two neighbours of the maximal
  age 100 the second stays, and with its age unchanged.
\<close>

lemma age_loop_skips:
  "age_loop 16 0 ([100, 100] @ replicate 14 0) (map int [1..<17]) =
    ([100] @ replicate 14 1 @ [102], map int [2..<17] @ [10000])"
  by code_simp

section \<open>The smoothed median\<close>

lemma smooth_convex:
  fixes alpha mean med :: int
  assumes "0 \<le> alpha" "alpha \<le> 32767" "lo \<le> mean" "mean \<le> hi" "lo \<le> med" "med \<le> hi"
  shows "lo \<le> ((alpha + 1) * mean + (32767 - alpha) * med + 16384) div 32768"
    and "((alpha + 1) * mean + (32767 - alpha) * med + 16384) div 32768 \<le> hi"
proof -
  let ?s = "(alpha + 1) * mean + (32767 - alpha) * med"
  have "(alpha + 1) * lo \<le> (alpha + 1) * mean" "(32767 - alpha) * lo \<le> (32767 - alpha) * med"
    "(alpha + 1) * mean \<le> (alpha + 1) * hi" "(32767 - alpha) * med \<le> (32767 - alpha) * hi"
    using assms by (simp_all add: mult_left_mono)
  moreover have "(alpha + 1) * lo + (32767 - alpha) * lo = 32768 * lo"
    "(alpha + 1) * hi + (32767 - alpha) * hi = 32768 * hi" by (simp_all add: algebra_simps)
  ultimately have "32768 * lo \<le> ?s" "?s \<le> 32768 * hi" by linarith+
  then show "lo \<le> (?s + 16384) div 32768" "(?s + 16384) div 32768 \<le> hi" by linarith+
qed

lemma smooth_median_between:
  fixes counter :: int
  assumes "slots_ok vs" "0 \<le> mean" "mean \<le> 10000"
  defines "med \<equiv> (if counter > 2 then vs ! 2 else if counter > 0 then vs ! 0 else 1600)"
  shows "min mean med \<le> smooth_median counter vs mean" "smooth_median counter vs mean \<le> max mean med"
proof -
  define alpha where "alpha = (if counter > 0 then if med < mean then kSmoothingDown else kSmoothingUp else 0)"
  have a: "0 \<le> alpha" "alpha \<le> 32767" by (simp_all add: alpha_def kSmoothingDown_def kSmoothingUp_def)
  have med: "0 \<le> med" "med \<le> 10000" using assms(1) by (auto simp: med_def slots_ok_def)
  let ?s = "(alpha + 1) * mean + (32767 - alpha) * med + 16384"
  have c: "min mean med \<le> ?s div 32768" "?s div 32768 \<le> max mean med"
    using smooth_convex [OF a, of "min mean med" mean "max mean med" med] by simp_all
  have p: "0 \<le> (alpha + 1) * mean" "(alpha + 1) * mean \<le> 32768 * 10000"
    "0 \<le> (32767 - alpha) * med" "(32767 - alpha) * med \<le> 32767 * 10000"
  proof -
    show "0 \<le> (alpha + 1) * mean" "0 \<le> (32767 - alpha) * med" using a assms(2) med by simp_all
    show "(alpha + 1) * mean \<le> 32768 * 10000" using a assms(2,3) by (intro mult_mono) simp_all
    show "(32767 - alpha) * med \<le> 32767 * 10000" using a med by (intro mult_mono) simp_all
  qed
  have "s32 (s32 (s32 ((alpha + 1) * mean) + (32767 - alpha) * med) + 16384) = ?s"
    using p by (simp add: s32_eqI)
  moreover have "s16 (?s div 32768) = ?s div 32768" using c assms(2,3) med by (intro s16_eqI) linarith+
  ultimately have "smooth_median counter vs mean = ?s div 32768"
    by (simp add: smooth_median_def med_def [symmetric] alpha_def [symmetric] Let_def sar_def del: s32_add_s32)
  then show "min mean med \<le> smooth_median counter vs mean" "smooth_median counter vs mean \<le> max mean med"
    using c by simp_all
qed

end
