(* ===== verification/VadFilterbank.thy ===== *)
theory VadFilterbank imports VadSp begin

text \<open>
  \<open>common_audio/vad/vad_filterbank.c\<close>: the tree of half-band splits, the 80 Hz high pass and the
  log energies of the six bands. Bands are lists; the scratch arrays of the code
  (\<open>hp_120\<close>, \<open>lp_120\<close>, \<open>hp_60\<close>, \<open>lp_60\<close>) are the lists the splits return.
\<close>

definition kLogConst :: int where "kLogConst = 24660"
definition kLogEnergyIntPart :: int where "kLogEnergyIntPart = 14336"
definition kHpZeroCoefs :: "int list" where "kHpZeroCoefs = [6631, - 13262, 6631]"
definition kHpPoleCoefs :: "int list" where "kHpPoleCoefs = [16384, - 7756, 5620]"
definition kAllPassCoefsQ15 :: "int list" where "kAllPassCoefsQ15 = [20972, 5571]"
definition kOffsetVector :: "int list" where "kOffsetVector = [368, 368, 272, 176, 176, 176]"

section \<open>Filters\<close>

definition hp_step :: "int list \<Rightarrow> int \<Rightarrow> int list \<times> int" where
  "hp_step fs x =
     (let tmp32 = s32 (kHpZeroCoefs ! 0 * x);
          tmp32 = s32 (tmp32 + kHpZeroCoefs ! 1 * fs ! 0);
          tmp32 = s32 (tmp32 + kHpZeroCoefs ! 2 * fs ! 1);
          fs = fs[1 := fs ! 0];
          fs = fs[0 := x];
          tmp32 = s32 (tmp32 - kHpPoleCoefs ! 1 * fs ! 2);
          tmp32 = s32 (tmp32 - kHpPoleCoefs ! 2 * fs ! 3);
          fs = fs[3 := fs ! 2];
          fs = fs[2 := s16 (sar tmp32 14)]
      in (fs, fs ! 2))"

definition HighPassFilter :: "int list \<Rightarrow> int list \<Rightarrow> int list \<times> int list" where
  "HighPassFilter data_in filter_state = scan hp_step filter_state data_in"

definition allpass_q15_step :: "int \<Rightarrow> int \<Rightarrow> int \<Rightarrow> int \<times> int" where
  "allpass_q15_step filter_coefficient state32 x =
     (let tmp32 = s32 (state32 + filter_coefficient * x);
          tmp16 = s16 (sar tmp32 16);
          state32 = s32 (shl32 x 14 - filter_coefficient * tmp16);
          state32 = shl32 state32 1
      in (state32, tmp16))"

text \<open>\<open>data_in\<close> is every second sample; the result is the new \<open>*filter_state\<close> and the output.\<close>

definition AllPassFilter :: "int list \<Rightarrow> int \<Rightarrow> int \<Rightarrow> int \<times> int list" where
  "AllPassFilter data_in filter_coefficient filter_state =
     (let (state32, outs) = scan (allpass_q15_step filter_coefficient) (shl32 filter_state 16) data_in
      in (s16 (sar state32 16), outs))"

text \<open>The result: upper state, lower state, high-pass half, low-pass half.\<close>

definition SplitFilter :: "int list \<Rightarrow> int \<Rightarrow> int \<Rightarrow> int \<times> int \<times> int list \<times> int list" where
  "SplitFilter data_in upper_st lower_st =
     (let (upper_st, hp_data_out) = AllPassFilter (evens data_in) (kAllPassCoefsQ15 ! 0) upper_st;
          (lower_st, lp_data_out) = AllPassFilter (odds data_in) (kAllPassCoefsQ15 ! 1) lower_st
      in (upper_st, lower_st,
          map2 (\<lambda>h l. s16 (h - l)) hp_data_out lp_data_out,
          map2 (\<lambda>h l. s16 (l + h)) hp_data_out lp_data_out))"

section \<open>Log energy\<close>

text \<open>The result: \<open>*total_energy\<close> and \<open>*log_energy\<close>. The code asserts a positive length, which all bands of the
  accepted frames have.\<close>

definition LogOfEnergy :: "int list \<Rightarrow> int \<Rightarrow> int \<Rightarrow> int \<times> int" where
  "LogOfEnergy data_in offset total_energy =
     (let (en, scale) = WebRtcSpl_Energy data_in;
          tot_rshifts = int scale;
          energy = u32 en
      in if energy \<noteq> 0
         then let normalizing_rshifts = 17 - int (WebRtcSpl_NormU32 energy);
                  tot_rshifts = tot_rshifts + normalizing_rshifts;
                  energy = (if normalizing_rshifts < 0 then shlu32 energy (nat (- normalizing_rshifts))
                            else sar energy (nat normalizing_rshifts));
                  log2_energy = s16 (kLogEnergyIntPart + s16 (sar (energy AND 0x00003FFF) 4));
                  log_energy = s16 (sar (kLogConst * log2_energy) 19 + sar (tot_rshifts * kLogConst) 9);
                  log_energy = (if log_energy < 0 then 0 else log_energy);
                  log_energy = s16 (log_energy + offset);
                  total_energy =
                    (if total_energy \<le> kMinEnergy
                     then if tot_rshifts \<ge> 0 then s16 (total_energy + (kMinEnergy + 1))
                          else s16 (total_energy + s16 (sar energy (nat (- tot_rshifts))))
                     else total_energy)
              in (total_energy, log_energy)
         else (total_energy, offset))"

text \<open>The result: the instance, \<open>total_energy\<close> and the six features.\<close>

definition WebRtcVad_CalculateFeatures :: "VadInstT \<Rightarrow> int list \<Rightarrow> VadInstT \<times> int \<times> int list" where
  "WebRtcVad_CalculateFeatures self data_in =
     (let us = upper_state self; ls = lower_state self;
          (u0, l0, hp_120, lp_120) = SplitFilter data_in (us ! 0) (ls ! 0);
          (u1, l1, hp_60, lp_60) = SplitFilter hp_120 (us ! 1) (ls ! 1);
          (te, f5) = LogOfEnergy hp_60 (kOffsetVector ! 5) 0;
          (te, f4) = LogOfEnergy lp_60 (kOffsetVector ! 4) te;
          (u2, l2, hp_60, lp_60) = SplitFilter lp_120 (us ! 2) (ls ! 2);
          (te, f3) = LogOfEnergy hp_60 (kOffsetVector ! 3) te;
          (u3, l3, hp_120, lp_120) = SplitFilter lp_60 (us ! 3) (ls ! 3);
          (te, f2) = LogOfEnergy hp_120 (kOffsetVector ! 2) te;
          (u4, l4, hp_60, lp_60) = SplitFilter lp_120 (us ! 4) (ls ! 4);
          (te, f1) = LogOfEnergy hp_60 (kOffsetVector ! 1) te;
          (hs, hp_120) = HighPassFilter lp_60 (hp_filter_state self);
          (te, f0) = LogOfEnergy hp_120 (kOffsetVector ! 0) te
      in (self\<lparr>upper_state := [u0, u1, u2, u3, u4], lower_state := [l0, l1, l2, l3, l4],
               hp_filter_state := hs\<rparr>, te, [f0, f1, f2, f3, f4, f5]))"

section \<open>The high-pass filter does not overflow\<close>

definition hp_state_ok :: "int list \<Rightarrow> bool" where
  "hp_state_ok fs \<longleftrightarrow> length fs = 4 \<and> (\<forall>x\<in>set fs. is16 x)"

lemma hp_state_cases: "hp_state_ok fs \<Longrightarrow> \<exists>a b c d. fs = [a, b, c, d] \<and> is16 a \<and> is16 b \<and> is16 c \<and> is16 d"
proof -
  assume h: "hp_state_ok fs"
  then obtain a b c d where "fs = [a, b, c, d]"
    unfolding hp_state_ok_def by (auto simp: numeral_eq_Suc length_Suc_conv)
  then show ?thesis using h by (auto simp: hp_state_ok_def)
qed

text \<open>The exact biquad: no wrap in any of the four 32-bit accumulations.\<close>

lemma hp_step_exact:
  assumes "is16 a" "is16 b" "is16 c" "is16 d" "is16 x"
  shows "hp_step [a, b, c, d] x =
    (let y = s16 ((6631 * x - 13262 * a + 6631 * b + 7756 * c - 5620 * d) div 16384) in ([x, a, y, c], y))"
proof -
  have b: "- 32768 \<le> a" "a \<le> 32767" "- 32768 \<le> b" "b \<le> 32767" "- 32768 \<le> c" "c \<le> 32767"
    "- 32768 \<le> d" "d \<le> 32767" "- 32768 \<le> x" "x \<le> 32767"
    using assms by (simp_all add: is16_def)
  have "s32 (6631 * x) = 6631 * x" "s32 (6631 * x - 13262 * a) = 6631 * x - 13262 * a"
    "s32 (6631 * x - 13262 * a + 6631 * b) = 6631 * x - 13262 * a + 6631 * b"
    "s32 (6631 * x - 13262 * a + 6631 * b + 7756 * c) = 6631 * x - 13262 * a + 6631 * b + 7756 * c"
    "s32 (6631 * x - 13262 * a + 6631 * b + 7756 * c - 5620 * d) =
      6631 * x - 13262 * a + 6631 * b + 7756 * c - 5620 * d"
    by (rule s32_eqI; use b in linarith)+
  then show ?thesis
    by (simp add: hp_step_def Let_def kHpZeroCoefs_def kHpPoleCoefs_def sar_def
        del: s32_add_s32 s32_diff_s32)
qed

interpretation high_pass: stream_filter hp_step hp_state_ok is16 is16
proof unfold_locales
  fix fs :: "int list" and x :: int
  assume fs: "hp_state_ok fs" and x: "is16 x"
  obtain a b c d where "fs = [a, b, c, d]" "is16 a" "is16 b" "is16 c" "is16 d"
    using hp_state_cases [OF fs] by blast
  then show "hp_state_ok (fst (hp_step fs x))" "is16 (snd (hp_step fs x))"
    using hp_step_exact [of a b c d x] x by (simp_all add: hp_state_ok_def Let_def)
qed

section \<open>Lengths and ranges of the bands\<close>

lemma SplitFilter_lengths:
  assumes "SplitFilter xs u l = (u', l', hp, lp)"
  shows "length hp = length xs div 2" "length lp = length xs div 2"
    "\<forall>x\<in>set hp. is16 x" "\<forall>x\<in>set lp. is16 x" "is16 u'" "is16 l'"
  using assms by (auto simp: SplitFilter_def AllPassFilter_def split_beta Let_def)

lemma HighPassFilter_ok:
  assumes "HighPassFilter xs fs = (fs', ys)" "hp_state_ok fs" "\<forall>x\<in>set xs. is16 x"
  shows "hp_state_ok fs'" "\<forall>y\<in>set ys. is16 y" "length ys = length xs"
  using assms high_pass.run_inv [of fs xs] high_pass.run_out [of fs xs] length_scan [of hp_step fs xs]
  by (simp_all add: HighPassFilter_def)

section \<open>Range of the log energy\<close>

lemma GetSizeInBits_le_7:
  assumes "n < 128"
  shows "WebRtcSpl_GetSizeInBits (u32 (int n)) \<le> 7"
proof (rule ccontr)
  assume "\<not> ?thesis"
  then have ge: "7 \<le> WebRtcSpl_GetSizeInBits (u32 (int n)) - 1" "WebRtcSpl_GetSizeInBits (u32 (int n)) \<noteq> 0"
    by simp_all
  have u: "u32 (int n) = int n" using assms by (intro u32_id) (simp add: isu32_def)
  have "isu32 (int n)" using assms by (simp add: isu32_def)
  from GetSizeInBits_least(2) [OF this] have "2 ^ (WebRtcSpl_GetSizeInBits (int n) - 1) \<le> int n"
    using ge(2) u by simp
  moreover have "(2 :: int) ^ 7 \<le> 2 ^ (WebRtcSpl_GetSizeInBits (int n) - 1)"
    using ge(1) u by (intro power_increasing) simp_all
  ultimately have "(2 :: int) ^ 7 \<le> int n" by (rule order_trans [rotated])
  then show False using assms by simp
qed

lemma GetScalingSquare_le: "WebRtcSpl_GetScalingSquare xs n \<le> WebRtcSpl_GetSizeInBits (u32 (int n))"
  by (simp add: WebRtcSpl_GetScalingSquare_def Let_def)

lemma NormU32_le:
  assumes "isu32 a" "a \<noteq> 0"
  shows "WebRtcSpl_NormU32 a \<le> 31"
proof (rule ccontr)
  assume "\<not> ?thesis"
  then have "(2 :: int) ^ 32 \<le> 2 ^ WebRtcSpl_NormU32 a" by (intro power_increasing) simp_all
  also have "\<dots> \<le> a * 2 ^ WebRtcSpl_NormU32 a" using assms by (simp add: isu32_def)
  finally show False using NormU32_top(2) [of a] assms by (simp add: isu32_def)
qed

definition log_energy_of :: "int \<Rightarrow> int \<Rightarrow> int \<Rightarrow> int" where
  "log_energy_of tot energy offset =
     (let log2_energy = s16 (kLogEnergyIntPart + s16 (sar (energy AND 0x00003FFF) 4));
          log_energy = s16 (sar (kLogConst * log2_energy) 19 + sar (tot * kLogConst) 9)
      in s16 ((if log_energy < 0 then 0 else log_energy) + offset))"

lemma log_energy_of_range:
  assumes "- 675 \<le> sar (tot * kLogConst) 9" "sar (tot * kLogConst) 9 \<le> 1155" "0 \<le> offset" "offset \<le> 368"
  shows "offset \<le> log_energy_of tot energy offset" "log_energy_of tot energy offset \<le> 2245"
proof -
  let ?f = "sar (energy AND 0x00003FFF) 4"
  have "energy AND 0x00003FFF = energy mod 16384"
    using take_bit_eq_mask [of 14 energy] by (simp add: take_bit_eq_mod mask_eq_exp_minus_1)
  then have "?f = energy mod 16384 div 16" by (simp add: sar_def)
  moreover have "0 \<le> energy mod 16384" "energy mod 16384 < 16384" by simp_all
  ultimately have f: "0 \<le> ?f" "?f \<le> 1023" by linarith+
  define l2 where "l2 = s16 (kLogEnergyIntPart + s16 ?f)"
  have l2: "14336 \<le> l2" "l2 \<le> 15359" using f by (simp_all add: l2_def kLogEnergyIntPart_def s16_eqI)
  have "sar (kLogConst * l2) 19 = 24660 * l2 div 524288" by (simp add: sar_def kLogConst_def)
  then have "674 \<le> sar (kLogConst * l2) 19" "sar (kLogConst * l2) 19 \<le> 722" using l2 by linarith+
  then show "offset \<le> log_energy_of tot energy offset" "log_energy_of tot energy offset \<le> 2245"
    unfolding log_energy_of_def Let_def l2_def [symmetric] using assms by (simp_all add: s16_eqI)
qed

lemma LogOfEnergy_range:
  assumes "length xs < 128" "0 \<le> offset" "offset \<le> 368"
  shows "offset \<le> snd (LogOfEnergy xs offset te)" "snd (LogOfEnergy xs offset te) \<le> 2245"
proof -
  have "offset \<le> snd (LogOfEnergy xs offset te) \<and> snd (LogOfEnergy xs offset te) \<le> 2245"
  proof (cases "u32 (fst (WebRtcSpl_Energy xs)) = 0")
    case True
    then show ?thesis using assms by (simp add: LogOfEnergy_def split_beta Let_def)
  next
    case False
    define sc where "sc = snd (WebRtcSpl_Energy xs)"
    define tot where "tot = int sc + (17 - int (WebRtcSpl_NormU32 (u32 (fst (WebRtcSpl_Energy xs)))))"
    have "sc \<le> 7"
      using GetScalingSquare_le [of xs "length xs"] GetSizeInBits_le_7 [OF assms(1)]
      by (simp add: sc_def WebRtcSpl_Energy_def Let_def)
    moreover have "WebRtcSpl_NormU32 (u32 (fst (WebRtcSpl_Energy xs))) \<le> 31"
      by (rule NormU32_le [OF isu32_u32 False])
    ultimately have tot: "- 14 \<le> tot" "tot \<le> 24" by (simp_all add: tot_def)
    then have t9: "- 675 \<le> sar (tot * kLogConst) 9" "sar (tot * kLogConst) 9 \<le> 1155"
      by (simp_all add: sar_def kLogConst_def)
    let ?E = "u32 (fst (WebRtcSpl_Energy xs))"
    let ?n = "17 - int (WebRtcSpl_NormU32 ?E)"
    have e: "snd (LogOfEnergy xs offset te) =
        log_energy_of tot (if ?n < 0 then shlu32 ?E (nat (- ?n)) else sar ?E (nat ?n)) offset"
      using False by (simp add: LogOfEnergy_def log_energy_of_def split_beta Let_def tot_def sc_def)
    show ?thesis unfolding e using log_energy_of_range [OF t9 assms(2,3)] by simp
  qed
  then show "offset \<le> snd (LogOfEnergy xs offset te)" "snd (LogOfEnergy xs offset te) \<le> 2245" by simp_all
qed

end
