(* ===== verification/VadCore.thy ===== *)
theory VadCore imports VadGmm VadFilterbank begin

text \<open>
  \<open>common_audio/vad/vad_core.c\<close>: the likelihood-ratio test over the six bands, the adaptation of the
  two Gaussian mixtures, the hangover, initialisation, the aggressiveness modes and the entry points
  for the four sample rates. \<open>GmmProbability\<close> is cut at its comments; each part takes and returns the
  local variables it shares with the next.
\<close>

section \<open>Constants\<close>

definition kSpectrumWeight :: "int list" where "kSpectrumWeight = [6, 8, 10, 12, 14, 16]"
definition kNoiseUpdateConst :: int where "kNoiseUpdateConst = 655"
definition kSpeechUpdateConst :: int where "kSpeechUpdateConst = 6554"
definition kBackEta :: int where "kBackEta = 154"
definition kMinimumDifference :: "int list" where "kMinimumDifference = [544, 544, 576, 576, 576, 576]"
definition kMaximumSpeech :: "int list" where
  "kMaximumSpeech = [11392, 11392, 11520, 11520, 11520, 11520]"
definition kMinimumMean :: "int list" where "kMinimumMean = [640, 768]"
definition kMaximumNoise :: "int list" where "kMaximumNoise = [9216, 9088, 8960, 8832, 8704, 8576]"
definition kNoiseDataWeights :: "int list" where
  "kNoiseDataWeights = [34, 62, 72, 66, 53, 25, 94, 66, 56, 62, 75, 103]"
definition kSpeechDataWeights :: "int list" where
  "kSpeechDataWeights = [48, 82, 45, 87, 50, 47, 80, 46, 83, 41, 78, 81]"
definition kNoiseDataMeans :: "int list" where
  "kNoiseDataMeans = [6738, 4892, 7065, 6715, 6771, 3369, 7646, 3863, 7820, 7266, 5020, 4362]"
definition kSpeechDataMeans :: "int list" where
  "kSpeechDataMeans = [8306, 10085, 10078, 11823, 11843, 6309, 9473, 9571, 10879, 7581, 8180, 7483]"
definition kNoiseDataStds :: "int list" where
  "kNoiseDataStds = [378, 1064, 493, 582, 688, 593, 474, 697, 475, 688, 421, 455]"
definition kSpeechDataStds :: "int list" where
  "kSpeechDataStds = [555, 505, 567, 524, 585, 1231, 509, 828, 492, 1540, 1079, 850]"
definition kMaxSpeechFrames :: int where "kMaxSpeechFrames = 6"
definition kMinStd :: int where "kMinStd = 384"
definition kDefaultMode :: int where "kDefaultMode = 0"
definition kInitCheck :: int where "kInitCheck = 42"

definition kOverHangMax1Q :: "int list" where "kOverHangMax1Q = [8, 4, 3]"
definition kOverHangMax2Q :: "int list" where "kOverHangMax2Q = [14, 7, 5]"
definition kLocalThresholdQ :: "int list" where "kLocalThresholdQ = [24, 21, 24]"
definition kGlobalThresholdQ :: "int list" where "kGlobalThresholdQ = [57, 48, 57]"
definition kOverHangMax1LBR :: "int list" where "kOverHangMax1LBR = [8, 4, 3]"
definition kOverHangMax2LBR :: "int list" where "kOverHangMax2LBR = [14, 7, 5]"
definition kLocalThresholdLBR :: "int list" where "kLocalThresholdLBR = [37, 32, 37]"
definition kGlobalThresholdLBR :: "int list" where "kGlobalThresholdLBR = [100, 80, 100]"
definition kOverHangMax1AGG :: "int list" where "kOverHangMax1AGG = [6, 3, 2]"
definition kOverHangMax2AGG :: "int list" where "kOverHangMax2AGG = [9, 5, 3]"
definition kLocalThresholdAGG :: "int list" where "kLocalThresholdAGG = [82, 78, 82]"
definition kGlobalThresholdAGG :: "int list" where "kGlobalThresholdAGG = [285, 260, 285]"
definition kOverHangMax1VAG :: "int list" where "kOverHangMax1VAG = [6, 3, 2]"
definition kOverHangMax2VAG :: "int list" where "kOverHangMax2VAG = [9, 5, 3]"
definition kLocalThresholdVAG :: "int list" where "kLocalThresholdVAG = [94, 94, 94]"
definition kGlobalThresholdVAG :: "int list" where "kGlobalThresholdVAG = [1100, 1050, 1100]"

section \<open>The likelihood-ratio test\<close>

text \<open>\<open>data[channel]\<close> and \<open>data[channel + kNumChannels]\<close> moved by \<open>offset\<close>, and their weighted sum.\<close>

definition WeightedAverage :: "int list \<Rightarrow> nat \<Rightarrow> int \<Rightarrow> int list \<Rightarrow> int list \<times> int" where
  "WeightedAverage data channel offset weights =
     foldl (\<lambda>(data, weighted_average) k.
         let g = channel + k * kNumChannels;
             data = data[g := s16 (data ! g + offset)]
         in (data, s32 (weighted_average + data ! g * weights ! g)))
       (data, 0) [0..<kNumGaussians]"

record GmmWork =
  deltaN :: "int list"
  deltaS :: "int list"
  ngprvec :: "int list"
  sgprvec :: "int list"
  vadflag :: int
  sum_llr :: int

text \<open>
  The two Gaussians of a channel under one hypothesis: \<open>probability[0]\<close>, the sum \<open>test\<close> of the two
  weighted probabilities, and the two deltas written into their table.
\<close>

definition mixture :: "int list \<Rightarrow> int list \<Rightarrow> int list \<Rightarrow> int \<Rightarrow> nat \<Rightarrow> int list \<Rightarrow> int \<times> int \<times> int list" where
  "mixture means stds weights feature channel delta =
     (let g0 = channel; g1 = channel + kNumChannels;
          (tmp1_s32, d0) = WebRtcVad_GaussianProbability feature (means ! g0) (stds ! g0);
          prob0 = s32 (weights ! g0 * tmp1_s32);
          (tmp1_s32, d1) = WebRtcVad_GaussianProbability feature (means ! g1) (stds ! g1);
          prob1 = s32 (weights ! g1 * tmp1_s32)
      in (prob0, s32 (prob0 + prob1), delta[g0 := d0, g1 := d1]))"

text \<open>The share of the first Gaussian in Q14, \<open>h\<close> is the sum in Q15.\<close>

definition conditional :: "int \<Rightarrow> int \<Rightarrow> int" where
  "conditional prob0 h =
     s16 (WebRtcSpl_DivW32W16 (s32 (shlu32 (u32 prob0 AND 0xFFFFF000) 2)) h)"

definition lrt_channel :: "VadInstT \<Rightarrow> int list \<Rightarrow> int \<Rightarrow> GmmWork \<Rightarrow> nat \<Rightarrow> GmmWork" where
  "lrt_channel self features individualTest w channel =
     (let (noise_probability0, h0_test, dN) =
            mixture (noise_means self) (noise_stds self) kNoiseDataWeights (features ! channel) channel (deltaN w);
          (speech_probability0, h1_test, dS) =
            mixture (speech_means self) (speech_stds self) kSpeechDataWeights (features ! channel) channel (deltaS w);
          shifts_h0 = (if h0_test = 0 then 31 else int (WebRtcSpl_NormW32 h0_test));
          shifts_h1 = (if h1_test = 0 then 31 else int (WebRtcSpl_NormW32 h1_test));
          log_likelihood_ratio = s16 (shifts_h0 - shifts_h1);
          llr_sum = s32 (sum_llr w + log_likelihood_ratio * kSpectrumWeight ! channel);
          flag = (if shl32 log_likelihood_ratio 2 > individualTest then 1 else vadflag w);
          h0 = s16 (sar h0_test 12);
          ng = (if h0 > 0
                then let p = conditional noise_probability0 h0
                     in (ngprvec w)[channel := p, channel + kNumChannels := s16 (16384 - p)]
                else (ngprvec w)[channel := 16384]);
          h1 = s16 (sar h1_test 12);
          sg = (if h1 > 0
                then let p = conditional speech_probability0 h1
                     in (sgprvec w)[channel := p, channel + kNumChannels := s16 (16384 - p)]
                else sgprvec w)
      in \<lparr>deltaN = dN, deltaS = dS, ngprvec = ng, sgprvec = sg, vadflag = flag, sum_llr = llr_sum\<rparr>)"

definition gmm_work_init :: GmmWork where
  "gmm_work_init =
     \<lparr>deltaN = replicate kTableSize 0, deltaS = replicate kTableSize 0,
      ngprvec = replicate kTableSize 0, sgprvec = replicate kTableSize 0, vadflag = 0, sum_llr = 0\<rparr>"

text \<open>All channels, then the global decision.\<close>

definition likelihood_test :: "VadInstT \<Rightarrow> int list \<Rightarrow> int \<Rightarrow> int \<Rightarrow> GmmWork" where
  "likelihood_test self features individualTest totalTest =
     (let w = foldl (lrt_channel self features individualTest) gmm_work_init [0..<kNumChannels]
      in w\<lparr>vadflag := vadflag w OR (if sum_llr w \<ge> totalTest then 1 else 0)\<rparr>)"

section \<open>The adaptation of the models\<close>

definition noise_mean_update :: "int \<Rightarrow> int \<Rightarrow> int \<Rightarrow> int \<Rightarrow> int \<Rightarrow> int \<Rightarrow> nat \<Rightarrow> nat \<Rightarrow> int" where
  "noise_mean_update flag nmk ngpr dN feature_minimum tmp1_s16 channel k =
     (let nmk2 = (if flag = 0
                  then let delt = s16 (sar (ngpr * dN) 11)
                       in s16 (nmk + s16 (sar (delt * kNoiseUpdateConst) 22))
                  else nmk);
          ndelt = s16 (shl32 feature_minimum 4 - tmp1_s16);
          nmk3 = s16 (nmk2 + s16 (sar (ndelt * kBackEta) 9));
          tmp_s16 = s16 (shl32 (int k + 5) 7);
          nmk3 = (if nmk3 < tmp_s16 then tmp_s16 else nmk3);
          tmp_s16 = s16 (shl32 (72 + int k - int channel) 7)
      in if nmk3 > tmp_s16 then tmp_s16 else nmk3)"

definition speech_mean_update :: "int \<Rightarrow> int \<Rightarrow> int \<Rightarrow> int \<Rightarrow> nat \<Rightarrow> int" where
  "speech_mean_update smk sgpr dS maxspe k =
     (let delt = s16 (sar (sgpr * dS) 11);
          tmp_s16 = s16 (sar (delt * kSpeechUpdateConst) 21);
          smk2 = s16 (smk + sar (tmp_s16 + 1) 1);
          maxmu = s16 (maxspe + 640);
          smk2 = (if smk2 < kMinimumMean ! k then kMinimumMean ! k else smk2)
      in if smk2 > maxmu then maxmu else smk2)"

text \<open>The division of a signed value by a positive one, as the code splits it by sign.\<close>

definition signed_div :: "int \<Rightarrow> int \<Rightarrow> int" where
  "signed_div num den =
     (if num > 0 then s16 (WebRtcSpl_DivW32W16 num den)
      else s16 (- s16 (WebRtcSpl_DivW32W16 (s32 (- num)) den)))"

text \<open>\<open>ssk * 10\<close> is passed as \<open>int16_t\<close>.\<close>

definition speech_std_update :: "int \<Rightarrow> int \<Rightarrow> int \<Rightarrow> int \<Rightarrow> int \<Rightarrow> int" where
  "speech_std_update feature smk ssk sgpr dS =
     (let tmp_s16 = s16 (sar (smk + 4) 3);
          tmp_s16 = s16 (feature - tmp_s16);
          tmp1_s32 = sar (dS * tmp_s16) 3;
          tmp2_s32 = tmp1_s32 - 4096;
          tmp_s16 = sar sgpr 2;
          tmp1_s32 = s32 (tmp_s16 * tmp2_s32);
          tmp2_s32 = sar tmp1_s32 4;
          tmp_s16 = signed_div tmp2_s32 (s16 (ssk * 10));
          tmp_s16 = s16 (tmp_s16 + 128);
          ssk = s16 (ssk + sar tmp_s16 8)
      in if ssk < kMinStd then kMinStd else ssk)"

definition noise_std_update :: "int \<Rightarrow> int \<Rightarrow> int \<Rightarrow> int \<Rightarrow> int \<Rightarrow> int" where
  "noise_std_update feature nmk nsk ngpr dN =
     (let tmp_s16 = s16 (feature - sar nmk 3);
          tmp1_s32 = sar (dN * tmp_s16) 3;
          tmp1_s32 = tmp1_s32 - 4096;
          tmp_s16 = s16 (sar (ngpr + 2) 2);
          tmp2_s32 = s32 (tmp_s16 * tmp1_s32);
          tmp1_s32 = sar tmp2_s32 14;
          tmp_s16 = signed_div tmp1_s32 nsk;
          tmp_s16 = s16 (tmp_s16 + 32);
          nsk = s16 (nsk + sar tmp_s16 6)
      in if nsk < kMinStd then kMinStd else nsk)"

definition update_gaussian ::
  "int list \<Rightarrow> GmmWork \<Rightarrow> int \<Rightarrow> int \<Rightarrow> int \<Rightarrow> nat \<Rightarrow> VadInstT \<Rightarrow> nat \<Rightarrow> VadInstT" where
  "update_gaussian features w feature_minimum tmp1_s16 maxspe channel self k =
     (let gaussian = channel + k * kNumChannels;
          nmk = noise_means self ! gaussian; smk = speech_means self ! gaussian;
          nsk = noise_stds self ! gaussian; ssk = speech_stds self ! gaussian;
          nmk3 = noise_mean_update (vadflag w) nmk (ngprvec w ! gaussian) (deltaN w ! gaussian)
                   feature_minimum tmp1_s16 channel k;
          self = self\<lparr>noise_means := (noise_means self)[gaussian := nmk3]\<rparr>
      in if vadflag w \<noteq> 0
         then self\<lparr>speech_means := (speech_means self)[gaussian :=
                     speech_mean_update smk (sgprvec w ! gaussian) (deltaS w ! gaussian) maxspe k],
                   speech_stds := (speech_stds self)[gaussian :=
                     speech_std_update (features ! channel) smk ssk (sgprvec w ! gaussian) (deltaS w ! gaussian)]\<rparr>
         else self\<lparr>noise_stds := (noise_stds self)[gaussian :=
                     noise_std_update (features ! channel) nmk nsk (ngprvec w ! gaussian) (deltaN w ! gaussian)]\<rparr>)"

text \<open>Models that are too close are moved apart; the two averages are those after the move.\<close>

definition separate_models :: "VadInstT \<Rightarrow> nat \<Rightarrow> VadInstT \<times> int \<times> int" where
  "separate_models self channel =
     (let (nm, noise_global_mean) = WeightedAverage (noise_means self) channel 0 kNoiseDataWeights;
          (sm, speech_global_mean) = WeightedAverage (speech_means self) channel 0 kSpeechDataWeights;
          diff = s16 (s16 (sar speech_global_mean 9) - s16 (sar noise_global_mean 9))
      in if diff < kMinimumDifference ! channel
         then let tmp_s16 = s16 (kMinimumDifference ! channel - diff);
                  tmp1_s16 = s16 (sar (13 * tmp_s16) 2);
                  tmp2_s16 = s16 (sar (3 * tmp_s16) 2);
                  (sm, speech_global_mean) = WeightedAverage sm channel tmp1_s16 kSpeechDataWeights;
                  (nm, noise_global_mean) = WeightedAverage nm channel (s16 (- tmp2_s16)) kNoiseDataWeights
              in (self\<lparr>noise_means := nm, speech_means := sm\<rparr>, noise_global_mean, speech_global_mean)
         else (self\<lparr>noise_means := nm, speech_means := sm\<rparr>, noise_global_mean, speech_global_mean))"

definition lower_means :: "int list \<Rightarrow> nat \<Rightarrow> int \<Rightarrow> int list" where
  "lower_means means channel excess =
     foldl (\<lambda>m k. m[channel + k * kNumChannels := s16 (m ! (channel + k * kNumChannels) - excess)])
       means [0..<kNumGaussians]"

definition limit_models :: "VadInstT \<Rightarrow> nat \<Rightarrow> int \<Rightarrow> int \<Rightarrow> VadInstT \<times> int" where
  "limit_models self channel noise_global_mean speech_global_mean =
     (let maxspe = kMaximumSpeech ! channel;
          tmp2_s16 = s16 (sar speech_global_mean 7);
          self = (if tmp2_s16 > maxspe
                  then self\<lparr>speech_means := lower_means (speech_means self) channel (s16 (tmp2_s16 - maxspe))\<rparr>
                  else self);
          tmp2_s16 = s16 (sar noise_global_mean 7);
          self = (if tmp2_s16 > kMaximumNoise ! channel
                  then self\<lparr>noise_means := lower_means (noise_means self) channel
                              (s16 (tmp2_s16 - kMaximumNoise ! channel))\<rparr>
                  else self)
      in (self, maxspe))"

text \<open>One channel; \<open>maxspe\<close> carries the limit of the previous channel into the next.\<close>

definition update_channel :: "int list \<Rightarrow> GmmWork \<Rightarrow> VadInstT \<times> int \<Rightarrow> nat \<Rightarrow> VadInstT \<times> int" where
  "update_channel features w = (\<lambda>(self, maxspe) channel.
     let (self, feature_minimum) = WebRtcVad_FindMinimum self (features ! channel) channel;
         (nm, noise_global_mean) = WeightedAverage (noise_means self) channel 0 kNoiseDataWeights;
         self = self\<lparr>noise_means := nm\<rparr>;
         tmp1_s16 = s16 (sar noise_global_mean 6);
         self = foldl (update_gaussian features w feature_minimum tmp1_s16 maxspe channel) self [0..<kNumGaussians];
         (self, noise_global_mean, speech_global_mean) = separate_models self channel
     in limit_models self channel noise_global_mean speech_global_mean)"

section \<open>Decision and hangover\<close>

text \<open>\<open>vadflag\<close> after the smoothing, and the instance.\<close>

definition hangover :: "VadInstT \<Rightarrow> int \<Rightarrow> int \<Rightarrow> int \<Rightarrow> VadInstT \<times> int" where
  "hangover self flag overhead1 overhead2 =
     (if flag = 0
      then let (self, flag) =
                 (if over_hang self > 0
                  then (self\<lparr>over_hang := s16 (over_hang self - 1)\<rparr>, s16 (2 + over_hang self))
                  else (self, flag))
           in (self\<lparr>num_of_speech := 0\<rparr>, flag)
      else let self = self\<lparr>num_of_speech := s16 (num_of_speech self + 1)\<rparr>
           in if num_of_speech self > kMaxSpeechFrames
              then (self\<lparr>num_of_speech := kMaxSpeechFrames, over_hang := overhead2\<rparr>, flag)
              else (self\<lparr>over_hang := overhead1\<rparr>, flag))"

definition frame_index :: "nat \<Rightarrow> nat" where
  "frame_index frame_length = (if frame_length = 80 then 0 else if frame_length = 160 then 1 else 2)"

definition GmmProbability :: "VadInstT \<Rightarrow> int list \<Rightarrow> int \<Rightarrow> nat \<Rightarrow> VadInstT \<times> int" where
  "GmmProbability self features total_power frame_length =
     (let overhead1 = over_hang_max_1 self ! frame_index frame_length;
          overhead2 = over_hang_max_2 self ! frame_index frame_length;
          individualTest = individual self ! frame_index frame_length;
          totalTest = total self ! frame_index frame_length;
          (self, flag) =
            (if total_power > kMinEnergy
             then let w = likelihood_test self features individualTest totalTest;
                      (self, _) = foldl (update_channel features w) (self, 12800) [0..<kNumChannels]
                  in (self\<lparr>frame_counter := s32 (frame_counter self + 1)\<rparr>, vadflag w)
             else (self, 0))
      in hangover self flag overhead1 overhead2)"

section \<open>Modes and initialisation\<close>

definition WebRtcVad_set_mode_core :: "VadInstT \<Rightarrow> int \<Rightarrow> VadInstT \<times> int" where
  "WebRtcVad_set_mode_core self mode =
     (if mode = 0 then (self\<lparr>over_hang_max_1 := kOverHangMax1Q, over_hang_max_2 := kOverHangMax2Q,
                             individual := kLocalThresholdQ, total := kGlobalThresholdQ\<rparr>, 0)
      else if mode = 1 then (self\<lparr>over_hang_max_1 := kOverHangMax1LBR, over_hang_max_2 := kOverHangMax2LBR,
                             individual := kLocalThresholdLBR, total := kGlobalThresholdLBR\<rparr>, 0)
      else if mode = 2 then (self\<lparr>over_hang_max_1 := kOverHangMax1AGG, over_hang_max_2 := kOverHangMax2AGG,
                             individual := kLocalThresholdAGG, total := kGlobalThresholdAGG\<rparr>, 0)
      else if mode = 3 then (self\<lparr>over_hang_max_1 := kOverHangMax1VAG, over_hang_max_2 := kOverHangMax2VAG,
                             individual := kLocalThresholdVAG, total := kGlobalThresholdVAG\<rparr>, 0)
      else (self, - 1))"

definition WebRtcVad_InitCore :: "VadInstT option \<Rightarrow> VadInstT option \<times> int" where
  "WebRtcVad_InitCore handle =
     (case handle of
        None \<Rightarrow> (None, - 1)
      | Some self \<Rightarrow>
          let self = self\<lparr>vad := 1, frame_counter := 0, over_hang := 0, num_of_speech := 0,
                          downsampling_filter_states := replicate 4 0,
                          state_48_to_8 := WebRtcSpl_ResetResample48khzTo8khz,
                          noise_means := kNoiseDataMeans, speech_means := kSpeechDataMeans,
                          noise_stds := kNoiseDataStds, speech_stds := kSpeechDataStds,
                          low_value_vector := replicate (16 * kNumChannels) 10000,
                          index_vector := replicate (16 * kNumChannels) 0,
                          upper_state := replicate 5 0, lower_state := replicate 5 0,
                          hp_filter_state := replicate 4 0,
                          mean_value := replicate kNumChannels 1600\<rparr>;
              (self, r) = WebRtcVad_set_mode_core self kDefaultMode
          in if r \<noteq> 0 then (Some self, - 1) else (Some (self\<lparr>init_flag := kInitCheck\<rparr>), 0))"

section \<open>Sample rates\<close>

definition WebRtcVad_CalcVad8khz :: "VadInstT \<Rightarrow> int list \<Rightarrow> nat \<Rightarrow> VadInstT \<times> int" where
  "WebRtcVad_CalcVad8khz inst speech_frame frame_length =
     (let (inst, total_power, feature_vector) = WebRtcVad_CalculateFeatures inst (take frame_length speech_frame);
          (inst, v) = GmmProbability inst feature_vector total_power frame_length
      in (inst\<lparr>vad := v\<rparr>, v))"

definition WebRtcVad_CalcVad16khz :: "VadInstT \<Rightarrow> int list \<Rightarrow> nat \<Rightarrow> VadInstT \<times> int" where
  "WebRtcVad_CalcVad16khz inst speech_frame frame_length =
     (let fs = downsampling_filter_states inst;
          (speechNB, st) = WebRtcVad_Downsampling speech_frame (take 2 fs) frame_length;
          inst = inst\<lparr>downsampling_filter_states := overwrite fs 0 st\<rparr>
      in WebRtcVad_CalcVad8khz inst speechNB (frame_length div 2))"

definition WebRtcVad_CalcVad32khz :: "VadInstT \<Rightarrow> int list \<Rightarrow> nat \<Rightarrow> VadInstT \<times> int" where
  "WebRtcVad_CalcVad32khz inst speech_frame frame_length =
     (let fs = downsampling_filter_states inst;
          (speechWB, st) = WebRtcVad_Downsampling speech_frame (drop 2 fs) frame_length;
          fs = overwrite fs 2 st;
          len = frame_length div 2;
          (speechNB, st) = WebRtcVad_Downsampling speechWB (take 2 fs) len;
          inst = inst\<lparr>downsampling_filter_states := overwrite fs 0 st\<rparr>;
          len = len div 2
      in WebRtcVad_CalcVad8khz inst speechNB len)"

text \<open>
  The 10 ms blocks: every iteration passes the same pointer \<open>speech_frame\<close>, so each block resamples the
  first 480 samples. \<open>tmp_mem\<close> is zero at first and shared by the iterations.
\<close>

definition resample_block ::
  "int list \<Rightarrow> int list \<times> State48khzTo8khz \<times> int list \<Rightarrow> nat \<Rightarrow> int list \<times> State48khzTo8khz \<times> int list" where
  "resample_block speech_frame = (\<lambda>(speech_nb, st, tmp_mem) i.
     let (outs, st, tmp_mem) = WebRtcSpl_Resample48khzTo8khz speech_frame st tmp_mem
     in (overwrite speech_nb (i * 80) outs, st, tmp_mem))"

definition resample_blocks :: "nat \<Rightarrow> int list \<Rightarrow> State48khzTo8khz \<Rightarrow> int list \<times> State48khzTo8khz \<times> int list" where
  "resample_blocks n speech_frame st =
     foldl (resample_block speech_frame) (replicate 240 0, st, replicate (480 + 256) 0) [0..<n]"

definition WebRtcVad_CalcVad48khz :: "VadInstT \<Rightarrow> int list \<Rightarrow> nat \<Rightarrow> VadInstT \<times> int" where
  "WebRtcVad_CalcVad48khz inst speech_frame frame_length =
     (let (speech_nb, st, _) = resample_blocks (frame_length div 480) speech_frame (state_48_to_8 inst)
      in WebRtcVad_CalcVad8khz (inst\<lparr>state_48_to_8 := st\<rparr>) speech_nb (frame_length div 6))"

end
