(* ===== verification/VadInv.thy ===== *)
theory VadInv imports VadCore begin

text \<open>
  The invariant of a detector instance (\<open>vad_ok\<close>), kept by every operation of \<open>vad_core.c\<close>: table sizes,
  sample ranges, standard deviations that are never zero, sorted minimum slots, and the hangover
  counters, in an instance that has been initialised. With it the decisions of the detector are always \<open>0\<close>, \<open>1\<close> or a hangover count.
\<close>

section \<open>The invariant\<close>

definition all16 :: "int list \<Rightarrow> bool" where
  "all16 xs \<longleftrightarrow> (\<forall>x\<in>set xs. is16 x)"

definition means_ok :: "int list \<Rightarrow> bool" where
  "means_ok m \<longleftrightarrow> length m = 12 \<and> all16 m"

definition stds_ok :: "int list \<Rightarrow> bool" where
  "stds_ok s \<longleftrightarrow> length s = 12 \<and> (\<forall>x\<in>set s. 378 \<le> x \<and> x \<le> 32767)"

definition block :: "nat \<Rightarrow> int list \<Rightarrow> int list" where
  "block c xs = take 16 (drop (16 * c) xs)"

definition tracker_ok :: "int list \<Rightarrow> int list \<Rightarrow> int list \<Rightarrow> bool" where
  "tracker_ok ages vals medians \<longleftrightarrow>
     length ages = 96 \<and> length vals = 96 \<and> (\<forall>c < 6. slots_ok (block c vals)) \<and>
     length medians = 6 \<and> (\<forall>m\<in>set medians. 0 \<le> m \<and> m \<le> 10000)"

definition hang_ok :: "int list \<Rightarrow> bool" where
  "hang_ok h \<longleftrightarrow> length h = 3 \<and> (\<forall>x\<in>set h. 0 \<le> x \<and> x \<le> 14)"

definition vad_ok :: "VadInstT \<Rightarrow> bool" where
  "vad_ok v \<longleftrightarrow>
     means_ok (noise_means v) \<and> means_ok (speech_means v) \<and>
     stds_ok (noise_stds v) \<and> stds_ok (speech_stds v) \<and>
     tracker_ok (index_vector v) (low_value_vector v) (mean_value v) \<and>
     length (upper_state v) = 5 \<and> length (lower_state v) = 5 \<and> hp_state_ok (hp_filter_state v) \<and>
     length (downsampling_filter_states v) = 4 \<and>
     down_state_ok (downsampling_filter_states v ! 0, downsampling_filter_states v ! 1) \<and>
     down_state_ok (downsampling_filter_states v ! 2, downsampling_filter_states v ! 3) \<and>
     length (S_24_16 (state_48_to_8 v)) = 8 \<and>
     hang_ok (over_hang_max_1 v) \<and> hang_ok (over_hang_max_2 v) \<and>
     length (individual v) = 3 \<and> length (total v) = 3 \<and> init_flag v = kInitCheck \<and>
     0 \<le> over_hang v \<and> over_hang v \<le> 14 \<and> 0 \<le> num_of_speech v \<and> num_of_speech v \<le> 6"

lemma all_set_update:
  assumes "\<forall>x\<in>set xs. P x" "P v"
  shows "\<forall>x\<in>set (xs[i := v]). P x"
  using assms set_update_subset_insert [of xs i v] by blast

lemma means_ok_update [intro]:
  assumes "means_ok m" "is16 x"
  shows "means_ok (m[i := x])"
  using assms all_set_update [of m is16 x i] by (simp add: means_ok_def all16_def)

lemma stds_ok_update [intro]:
  assumes "stds_ok s" "378 \<le> x" "x \<le> 32767"
  shows "stds_ok (s[i := x])"
  using assms all_set_update [of s "\<lambda>x. 378 \<le> x \<and> x \<le> 32767" x i] by (simp add: stds_ok_def)

lemma vad_ok_set:
  "vad_ok v \<Longrightarrow> means_ok m \<Longrightarrow> vad_ok (v\<lparr>noise_means := m\<rparr>)"
  "vad_ok v \<Longrightarrow> means_ok m \<Longrightarrow> vad_ok (v\<lparr>speech_means := m\<rparr>)"
  "vad_ok v \<Longrightarrow> stds_ok s \<Longrightarrow> vad_ok (v\<lparr>noise_stds := s\<rparr>)"
  "vad_ok v \<Longrightarrow> stds_ok s \<Longrightarrow> vad_ok (v\<lparr>speech_stds := s\<rparr>)"
  "vad_ok v \<Longrightarrow> vad_ok (v\<lparr>frame_counter := n\<rparr>)"
  "vad_ok v \<Longrightarrow> vad_ok (v\<lparr>vad := n\<rparr>)"
  by (simp_all add: vad_ok_def)

lemma vad_okD:
  assumes "vad_ok v"
  shows "means_ok (noise_means v)" "means_ok (speech_means v)" "stds_ok (noise_stds v)" "stds_ok (speech_stds v)"
    "tracker_ok (index_vector v) (low_value_vector v) (mean_value v)"
  using assms by (simp_all add: vad_ok_def)

section \<open>Each step keeps it\<close>

lemma kNumGaussians_upt: "[0..<kNumGaussians] = [0, 1]"
  by (simp add: kNumGaussians_def eval_nat_numeral)

lemma kNumChannels_upt: "[0..<kNumChannels] = [0, 1, 2, 3, 4, 5]"
  by (simp add: kNumChannels_def eval_nat_numeral)

lemma WeightedAverage_ok: "means_ok m \<Longrightarrow> means_ok (fst (WeightedAverage m c off w))"
  by (simp add: WeightedAverage_def kNumGaussians_upt Let_def means_ok_update)

lemma lower_means_ok: "means_ok m \<Longrightarrow> means_ok (lower_means m c e)"
  by (simp add: lower_means_def kNumGaussians_upt means_ok_update)

lemma std_updates_range:
  "384 \<le> noise_std_update f nmk nsk ng dN" "noise_std_update f nmk nsk ng dN \<le> 32767"
  "384 \<le> speech_std_update f smk ssk sg dS" "speech_std_update f smk ssk sg dS \<le> 32767"
proof -
  have "s16 x \<le> 32767" for x using is16_s16 [of x] by (simp add: is16_def)
  then show "384 \<le> noise_std_update f nmk nsk ng dN" "noise_std_update f nmk nsk ng dN \<le> 32767"
    "384 \<le> speech_std_update f smk ssk sg dS" "speech_std_update f smk ssk sg dS \<le> 32767"
    by (simp_all add: noise_std_update_def speech_std_update_def kMinStd_def Let_def)
qed

lemma noise_mean_update_range:
  assumes "c < 6" "k < 2"
  shows "128 * (int k + 5) \<le> noise_mean_update flag nmk ng dN fm t c k"
    "noise_mean_update flag nmk ng dN fm t c k \<le> 128 * (72 + int k - int c)"
proof -
  have k: "s16 (shl32 (int k + 5) 7) = 128 * (int k + 5)"
    using assms(2) by (simp add: shl32_def s32_eqI s16_eqI)
  have c: "s16 (shl32 (72 + int k - int c) 7) = 128 * (72 + int k - int c)"
    using assms by (simp add: shl32_def s32_eqI s16_eqI)
  have "128 * (int k + 5) \<le> 128 * (72 + int k - int c)" using assms by simp
  then show "128 * (int k + 5) \<le> noise_mean_update flag nmk ng dN fm t c k"
    "noise_mean_update flag nmk ng dN fm t c k \<le> 128 * (72 + int k - int c)"
    by (simp_all add: noise_mean_update_def k c Let_def del: s16_add_s16)
qed

lemma noise_mean_update_is16:
  assumes "c < 6" "k < 2" shows "is16 (noise_mean_update flag nmk ng dN fm t c k)"
proof -
  have "0 \<le> 128 * (int k + 5)" "128 * (72 + int k - int c) \<le> 32767" using assms by simp_all
  then show ?thesis using noise_mean_update_range [OF assms, of flag nmk ng dN fm t] unfolding is16_def by linarith
qed

text \<open>The limits of the speech means, for maxima of the model that exceed its minima.\<close>

lemma speech_mean_update_range:
  assumes "kMinimumMean ! k \<le> maxspe + 640" "- 32768 \<le> maxspe" "maxspe \<le> 32127"
  shows "kMinimumMean ! k \<le> speech_mean_update smk sg dS maxspe k" "speech_mean_update smk sg dS maxspe k \<le> maxspe + 640"
proof -
  have "s16 (maxspe + 640) = maxspe + 640" using assms by (intro s16_eqI) simp_all
  then show "kMinimumMean ! k \<le> speech_mean_update smk sg dS maxspe k" "speech_mean_update smk sg dS maxspe k \<le> maxspe + 640"
    using assms(1) by (simp_all add: speech_mean_update_def Let_def del: s16_add_s16)
qed

lemma speech_mean_update_is16: "k < 2 \<Longrightarrow> is16 (speech_mean_update smk sg dS maxspe k)"
proof -
  assume "k < 2"
  then have "kMinimumMean ! k = 640 \<or> kMinimumMean ! k = 768"
    by (auto simp: kMinimumMean_def less_Suc_eq numeral_2_eq_2)
  then have "is16 (kMinimumMean ! k)" by (auto simp: is16_def)
  then show ?thesis by (simp add: speech_mean_update_def Let_def)
qed

text \<open>What one adaptation leaves in the model.\<close>

lemma update_gaussian_bounds:
  fixes features w fm t
  assumes v: "vad_ok v" and ck: "c < 6" "k < 2" and m: "maxspe \<in> set (12800 # kMaximumSpeech)"
  defines "i \<equiv> c + k * kNumChannels"
  defines "v' \<equiv> update_gaussian features w fm t maxspe c v k"
  shows "128 * (int k + 5) \<le> noise_means v' ! i" "noise_means v' ! i \<le> 128 * (72 + int k - int c)"
    "noise_means v' = (noise_means v)[i := noise_means v' ! i]"
    "if vadflag w = 0
     then kMinStd \<le> noise_stds v' ! i \<and> noise_stds v' = (noise_stds v)[i := noise_stds v' ! i] \<and>
       speech_means v' = speech_means v \<and> speech_stds v' = speech_stds v
     else kMinimumMean ! k \<le> speech_means v' ! i \<and> speech_means v' ! i \<le> maxspe + 640 \<and>
       kMinStd \<le> speech_stds v' ! i \<and> speech_means v' = (speech_means v)[i := speech_means v' ! i] \<and>
       speech_stds v' = (speech_stds v)[i := speech_stds v' ! i] \<and> noise_stds v' = noise_stds v"
proof -
  have i: "i < 12" using ck by (simp add: i_def kNumChannels_def)
  have l: "length (noise_means v) = 12" "length (speech_means v) = 12" "length (noise_stds v) = 12" "length (speech_stds v) = 12"
    using v by (simp_all add: vad_ok_def means_ok_def stds_ok_def)
  have "kMinimumMean ! k = 640 \<or> kMinimumMean ! k = 768"
    using ck by (auto simp: kMinimumMean_def less_Suc_eq numeral_2_eq_2)
  then have s: "kMinimumMean ! k \<le> maxspe + 640" "- 32768 \<le> maxspe" "maxspe \<le> 32127"
    using m by (auto simp: kMaximumSpeech_def)
  have d: "kMinStd \<le> noise_std_update f nmk nsk ng dN" "kMinStd \<le> speech_std_update f nmk nsk ng dN" for f nmk nsk ng dN
    using std_updates_range(1,3) [of f nmk nsk ng dN] by (simp_all add: kMinStd_def)
  show "128 * (int k + 5) \<le> noise_means v' ! i" "noise_means v' ! i \<le> 128 * (72 + int k - int c)"
    "noise_means v' = (noise_means v)[i := noise_means v' ! i]"
    using i l noise_mean_update_range [OF ck]
    by (simp_all add: v'_def update_gaussian_def Let_def i_def [symmetric])
  show "if vadflag w = 0
     then kMinStd \<le> noise_stds v' ! i \<and> noise_stds v' = (noise_stds v)[i := noise_stds v' ! i] \<and>
       speech_means v' = speech_means v \<and> speech_stds v' = speech_stds v
     else kMinimumMean ! k \<le> speech_means v' ! i \<and> speech_means v' ! i \<le> maxspe + 640 \<and>
       kMinStd \<le> speech_stds v' ! i \<and> speech_means v' = (speech_means v)[i := speech_means v' ! i] \<and>
       speech_stds v' = (speech_stds v)[i := speech_stds v' ! i] \<and> noise_stds v' = noise_stds v"
    using i l d speech_mean_update_range [OF s]
    by (simp add: v'_def update_gaussian_def Let_def i_def [symmetric])
qed

lemma update_gaussian_ok:
  assumes "vad_ok v" "c < 6" "k < 2"
  shows "vad_ok (update_gaussian features w fm t maxspe c v k)"
proof -
  have n: "is16 (noise_mean_update flag nmk ng dN fm t c k)" for flag nmk ng dN
    by (rule noise_mean_update_is16 [OF assms(2,3)])
  have s: "378 \<le> noise_std_update f nmk nsk ng dN" "378 \<le> speech_std_update f nmk nsk ng dN" for f nmk nsk ng dN
    using std_updates_range(1) [of f nmk nsk ng dN] std_updates_range(3) [of f nmk nsk ng dN] by linarith+
  let ?v1 = "v\<lparr>noise_means := (noise_means v)[c + k * kNumChannels :=
      noise_mean_update (vadflag w) (noise_means v ! (c + k * kNumChannels)) (ngprvec w ! (c + k * kNumChannels))
        (deltaN w ! (c + k * kNumChannels)) fm t c k]\<rparr>"
  have v1: "vad_ok ?v1" by (intro vad_ok_set means_ok_update vad_okD assms(1) n)
  show ?thesis
  proof (cases "vadflag w = 0")
    case True
    have "vad_ok (?v1\<lparr>noise_stds := (noise_stds v)[i := noise_std_update f nmk nsk ng dN]\<rparr>)" for i f nmk nsk ng dN
      by (intro vad_ok_set v1 stds_ok_update vad_okD assms(1) s std_updates_range)
    then show ?thesis using True by (simp add: update_gaussian_def Let_def)
  next
    case False
    have "vad_ok (?v1\<lparr>speech_means := (speech_means v)[i := speech_mean_update smk sg dS m k],
        speech_stds := (speech_stds v)[i := speech_std_update f smk ssk sg dS]\<rparr>)" for i smk sg dS m f ssk
      by (intro vad_ok_set v1 stds_ok_update means_ok_update vad_okD assms(1) s std_updates_range
          speech_mean_update_is16 assms(3))
    then show ?thesis using False by (simp add: update_gaussian_def Let_def)
  qed
qed

lemma separate_models_ok:
  assumes "vad_ok v"
  shows "vad_ok (fst (separate_models v c))"
proof -
  have W: "means_ok (fst (WeightedAverage (fst (WeightedAverage m c 0 w)) c off w))"
    "means_ok (fst (WeightedAverage m c 0 w))" if "means_ok m" for m w off
    using that by (simp_all add: WeightedAverage_ok)
  have "vad_ok (v\<lparr>noise_means := m, speech_means := s\<rparr>)" if "means_ok m" "means_ok s" for m s
    by (intro vad_ok_set assms that)
  then show ?thesis
    using W [OF vad_okD(1) [OF assms]] W [OF vad_okD(2) [OF assms]]
    unfolding separate_models_def by (simp only: split_beta Let_def fst_conv snd_conv split: if_split) simp
qed

lemma limit_models_ok:
  assumes "vad_ok v"
  shows "vad_ok (fst (limit_models v c a b))"
proof -
  have L: "vad_ok (u\<lparr>noise_means := lower_means (noise_means u) c e\<rparr>)"
    "vad_ok (u\<lparr>speech_means := lower_means (speech_means u) c e\<rparr>)" if "vad_ok u" for u e
    by (intro vad_ok_set lower_means_ok vad_okD that)+
  have S: "vad_ok (if P then u\<lparr>speech_means := lower_means (speech_means u) c e\<rparr> else u)" if "vad_ok u" for P u e
    using that L by simp
  have N: "vad_ok (if P then u\<lparr>noise_means := lower_means (noise_means u) c e\<rparr> else u)" if "vad_ok u" for P u e
    using that L by simp
  show ?thesis unfolding limit_models_def Let_def fst_conv by (intro N S assms)
qed

section \<open>The minimum tracker\<close>

lemma block_overwrite:
  assumes "length xs = 96" "length ys = 16" "c < 6" "c' < 6"
  shows "block c' (overwrite xs (16 * c) ys) = (if c' = c then ys else block c' xs)"
proof (cases "c' = c")
  case True
  then show ?thesis using assms by (simp add: block_def overwrite_def)
next
  case False
  then consider "16 * c' + 16 \<le> 16 * c" | "16 * c + 16 \<le> 16 * c'" by linarith
  then show ?thesis
  proof cases
    case 1
    then have "16 \<le> 16 * c - 16 * c'" by linarith
    then show ?thesis using False assms 1 by (simp add: block_def overwrite_def drop_take min_def)
  next
    case 2
    then show ?thesis using False assms by (simp add: block_def overwrite_def)
  qed
qed

lemma slots_ok_insert:
  assumes "slots_ok vs" "0 \<le> x" "x \<le> 10000"
  shows "slots_ok (take 16 (insort x vs))"
  using assms by (auto simp: slots_ok_def sorted_insort sorted_wrt_take set_insort_key dest!: in_set_takeD)

text \<open>What one call does to the slots of its channel.\<close>

lemma FindMinimum_slots:
  assumes ok: "tracker_ok (index_vector v) (low_value_vector v) (mean_value v)"
    and c: "c < 6" and f: "0 \<le> f" "f \<le> 10000"
  defines "aged \<equiv> age_loop 16 0 (block c (index_vector v)) (block c (low_value_vector v))"
  defines "slots \<equiv> take 16 (insort f (snd aged))"
  shows "block c (low_value_vector (fst (WebRtcVad_FindMinimum v f c))) = slots"
    and "c' < 6 \<Longrightarrow> c' \<noteq> c \<Longrightarrow>
      block c' (low_value_vector (fst (WebRtcVad_FindMinimum v f c))) = block c' (low_value_vector v)"
    and "slots_ok slots"
    and "snd (WebRtcVad_FindMinimum v f c) = smooth_median (frame_counter v) slots (mean_value v ! c)"
    and "tracker_ok (index_vector (fst (WebRtcVad_FindMinimum v f c)))
           (low_value_vector (fst (WebRtcVad_FindMinimum v f c))) (mean_value (fst (WebRtcVad_FindMinimum v f c)))"
proof -
  obtain age' vs' where al: "age_loop 16 0 (block c (index_vector v)) (block c (low_value_vector v)) = (age', vs')"
    by (cases "age_loop 16 0 (block c (index_vector v)) (block c (low_value_vector v))")
  have bl: "length (block c (index_vector v)) = 16" "slots_ok (block c (low_value_vector v))"
    using ok c by (simp_all add: tracker_ok_def block_def)
  note a = age_loop_ok [OF bl(2,1) _ al, simplified]
  have vs: "sorted vs'" "length vs' = 16" using a(1) by (simp_all add: slots_ok_def)
  have slots: "slots = take 16 (insort f vs')" by (simp add: slots_def aged_def al)
  show ok_slots: "slots_ok slots" unfolding slots by (rule slots_ok_insert [OF a(1) f])
  define ages where "ages = (case find_position f vs' of None \<Rightarrow> age' | Some p \<Rightarrow> insert_at p 1 age')"
  have la: "length ages = 16" using a(2) by (simp add: ages_def split: option.split)
  have "(case find_position f vs' of None \<Rightarrow> (age', vs')
       | Some p \<Rightarrow> (insert_at p 1 age', insert_at p f vs')) = (ages, slots)"
    using insertion_spec [OF vs, of f] by (simp add: ages_def slots split: option.splits)
  then have fm: "WebRtcVad_FindMinimum v f c =
      (v\<lparr>index_vector := overwrite (index_vector v) (16 * c) ages,
         low_value_vector := overwrite (low_value_vector v) (16 * c) slots,
         mean_value := (mean_value v)[c := smooth_median (frame_counter v) slots (mean_value v ! c)]\<rparr>,
       smooth_median (frame_counter v) slots (mean_value v ! c))"
    using al by (simp add: WebRtcVad_FindMinimum_def block_def Let_def)
  have ls: "length slots = 16" using ok_slots by (simp add: slots_ok_def)
  show "block c (low_value_vector (fst (WebRtcVad_FindMinimum v f c))) = slots"
    using ok c ls block_overwrite [of "low_value_vector v" slots c c] by (simp add: fm tracker_ok_def)
  show "c' < 6 \<Longrightarrow> c' \<noteq> c \<Longrightarrow>
      block c' (low_value_vector (fst (WebRtcVad_FindMinimum v f c))) = block c' (low_value_vector v)"
    using ok c ls block_overwrite [of "low_value_vector v" slots c c'] by (simp add: fm tracker_ok_def)
  show "snd (WebRtcVad_FindMinimum v f c) = smooth_median (frame_counter v) slots (mean_value v ! c)"
    by (simp add: fm)
  have m: "0 \<le> mean_value v ! c" "mean_value v ! c \<le> 10000" using ok c by (simp_all add: tracker_ok_def)
  have "0 \<le> smooth_median (frame_counter v) slots (mean_value v ! c)"
    "smooth_median (frame_counter v) slots (mean_value v ! c) \<le> 10000"
  proof -
    define med where
      "med = (if frame_counter v > 2 then slots ! 2 else if frame_counter v > 0 then slots ! 0 else 1600)"
    have "0 \<le> slots ! 0 \<and> slots ! 0 \<le> 10000" "0 \<le> slots ! 2 \<and> slots ! 2 \<le> 10000"
      using ok_slots by (simp_all add: slots_ok_def)
    then have "0 \<le> med" "med \<le> 10000" by (simp_all add: med_def)
    then show "0 \<le> smooth_median (frame_counter v) slots (mean_value v ! c)"
      "smooth_median (frame_counter v) slots (mean_value v ! c) \<le> 10000"
      using smooth_median_between [OF ok_slots m, of "frame_counter v"] m
      unfolding med_def [symmetric] by linarith+
  qed
  then have med: "\<forall>m\<in>set ((mean_value v)[c := smooth_median (frame_counter v) slots (mean_value v ! c)]). 0 \<le> m \<and> m \<le> 10000"
    using ok by (intro all_set_update) (simp_all add: tracker_ok_def)
  have lv: "length (low_value_vector v) = 96" "length (index_vector v) = 96" using ok by (simp_all add: tracker_ok_def)
  have "\<forall>c' < 6. slots_ok (block c' (overwrite (low_value_vector v) (16 * c) slots))"
  proof (intro allI impI)
    fix c' :: nat assume "c' < 6"
    then show "slots_ok (block c' (overwrite (low_value_vector v) (16 * c) slots))"
      using block_overwrite [OF lv(1) ls c, of c'] ok_slots ok by (simp add: tracker_ok_def)
  qed
  moreover have "length (overwrite (low_value_vector v) (16 * c) slots) = 96"
    "length (overwrite (index_vector v) (16 * c) ages) = 96"
    using lv ls la c by simp_all
  ultimately show "tracker_ok (index_vector (fst (WebRtcVad_FindMinimum v f c)))
      (low_value_vector (fst (WebRtcVad_FindMinimum v f c))) (mean_value (fst (WebRtcVad_FindMinimum v f c)))"
    using med ok unfolding fm tracker_ok_def by simp
qed


section \<open>Whole channels and frames\<close>

lemma FindMinimum_ok:
  assumes "vad_ok v" "c < 6" "0 \<le> f" "f \<le> 10000"
  shows "vad_ok (fst (WebRtcVad_FindMinimum v f c))"
proof -
  have "tracker_ok (index_vector (fst (WebRtcVad_FindMinimum v f c)))
      (low_value_vector (fst (WebRtcVad_FindMinimum v f c))) (mean_value (fst (WebRtcVad_FindMinimum v f c)))"
    by (rule FindMinimum_slots(5) [OF vad_okD(5) [OF assms(1)] assms(2-4)])
  then show ?thesis
    using assms(1) by (simp add: vad_ok_def WebRtcVad_FindMinimum_def Let_def split_beta)
qed

definition features_ok :: "int list \<Rightarrow> bool" where
  "features_ok fs \<longleftrightarrow> length fs = 6 \<and> (\<forall>f\<in>set fs. 176 \<le> f \<and> f \<le> 2245)"

lemma update_channel_ok:
  assumes "vad_ok (fst s)" "c < 6" "features_ok features"
  shows "vad_ok (fst (update_channel features w s c))"
proof -
  obtain v maxspe where s: "s = (v, maxspe)" by (cases s)
  have "features ! c \<in> set features" using assms(2,3) by (simp add: features_ok_def)
  then have "176 \<le> features ! c \<and> features ! c \<le> 2245" using assms(3) by (simp add: features_ok_def)
  then have f: "0 \<le> features ! c" "features ! c \<le> 10000" by simp_all
  obtain v1 fm where v1: "WebRtcVad_FindMinimum v (features ! c) c = (v1, fm)"
    by (cases "WebRtcVad_FindMinimum v (features ! c) c")
  have ok1: "vad_ok v1" using FindMinimum_ok [OF _ assms(2) f, of v] assms(1) s v1 by simp
  obtain nm avg where nm: "WeightedAverage (noise_means v1) c 0 kNoiseDataWeights = (nm, avg)"
    by (cases "WeightedAverage (noise_means v1) c 0 kNoiseDataWeights")
  have "means_ok nm" using WeightedAverage_ok [OF vad_okD(1) [OF ok1], of c 0 kNoiseDataWeights] nm by simp
  then have ok2: "vad_ok (v1\<lparr>noise_means := nm\<rparr>)" by (rule vad_ok_set(1) [OF ok1])
  let ?g = "update_gaussian features w fm (s16 (sar avg 6)) maxspe c"
  have ok3: "vad_ok (?g (?g (v1\<lparr>noise_means := nm\<rparr>) 0) 1)"
    by (intro update_gaussian_ok ok2 assms(2)) simp_all
  have "update_channel features w s c =
      (case separate_models (?g (?g (v1\<lparr>noise_means := nm\<rparr>) 0) 1) c of
         (v, a, b) \<Rightarrow> limit_models v c a b)"
    by (simp add: update_channel_def s v1 nm kNumGaussians_upt Let_def)
  then show ?thesis
    using limit_models_ok [OF separate_models_ok [OF ok3, of c]] by (simp add: split_beta)
qed

lemma update_channels_ok:
  assumes "vad_ok v" "features_ok features"
  shows "vad_ok (fst (foldl (update_channel features w) (v, m) [0..<kNumChannels]))"
proof -
  have all: "vad_ok (fst (foldl (update_channel features w) s cs))" if "vad_ok (fst s)" "\<forall>c\<in>set cs. c < 6" for s cs
    using that by (induction cs arbitrary: s) (simp_all add: update_channel_ok assms(2))
  show ?thesis by (rule all) (use assms(1) in \<open>simp_all add: kNumChannels_def\<close>)
qed

lemma vad_ok_hangD:
  assumes "vad_ok v"
  shows "0 \<le> over_hang_max_1 v ! frame_index n" "over_hang_max_1 v ! frame_index n \<le> 14"
    "0 \<le> over_hang_max_2 v ! frame_index n" "over_hang_max_2 v ! frame_index n \<le> 14"
  using assms nth_mem [of "frame_index n" "over_hang_max_1 v"] nth_mem [of "frame_index n" "over_hang_max_2 v"]
  by (auto simp: vad_ok_def hang_ok_def frame_index_def)

text \<open>The decision after smoothing: noise, speech, or \<open>2\<close> more than the remaining hangover.\<close>

lemma hangover_ok:
  assumes "vad_ok v" "flag = 0 \<or> flag = 1" "0 \<le> o1" "o1 \<le> 14" "0 \<le> o2" "o2 \<le> 14"
    and h: "hangover v flag o1 o2 = (v', r)"
  shows "vad_ok v'" "r = 0 \<or> r = 1 \<or> (3 \<le> r \<and> r \<le> 16)" "flag = 1 \<Longrightarrow> r = 1"
proof -
  have b: "0 \<le> over_hang v" "over_hang v \<le> 14" "0 \<le> num_of_speech v" "num_of_speech v \<le> 6"
    using assms(1) by (simp_all add: vad_ok_def)
  then have s: "s16 (over_hang v - 1) = over_hang v - 1" "s16 (2 + over_hang v) = 2 + over_hang v"
    "s16 (num_of_speech v + 1) = num_of_speech v + 1" by (simp_all add: s16_eqI)
  show "vad_ok v'"
    using assms b s by (auto simp: hangover_def vad_ok_def kMaxSpeechFrames_def Let_def split: if_splits)
  show "r = 0 \<or> r = 1 \<or> (3 \<le> r \<and> r \<le> 16)" "flag = 1 \<Longrightarrow> r = 1"
    using h assms(2) b s by (auto simp: hangover_def Let_def split: if_splits)
qed

lemma lrt_flag:
  assumes "vadflag w = 0 \<or> vadflag w = 1"
  shows "vadflag (lrt_channel v fs t w c) = 0 \<or> vadflag (lrt_channel v fs t w c) = 1"
  using assms by (simp add: lrt_channel_def split_beta Let_def)

lemma likelihood_test_flag: "vadflag (likelihood_test v fs t1 t2) = 0 \<or> vadflag (likelihood_test v fs t1 t2) = 1"
proof -
  have "vadflag (foldl (lrt_channel v fs t1) w cs) = 0 \<or> vadflag (foldl (lrt_channel v fs t1) w cs) = 1"
    if "vadflag w = 0 \<or> vadflag w = 1" for w cs
    using that by (induction cs arbitrary: w) (simp, simp add: lrt_flag)
  from this [of gmm_work_init "[0..<kNumChannels]"] show ?thesis
    by (auto simp: likelihood_test_def gmm_work_init_def Let_def)
qed

lemma GmmProbability_ok:
  assumes "vad_ok v" "features_ok fs"
  shows "vad_ok (fst (GmmProbability v fs te n))"
    and "snd (GmmProbability v fs te n) = 0 \<or> snd (GmmProbability v fs te n) = 1 \<or>
      (3 \<le> snd (GmmProbability v fs te n) \<and> snd (GmmProbability v fs te n) \<le> 16)"
proof -
  let ?i = "frame_index n"
  let ?w = "likelihood_test v fs (individual v ! ?i) (total v ! ?i)"
  let ?p = "if te > kMinEnergy
    then let (u, m) = foldl (update_channel fs ?w) (v, 12800) [0..<kNumChannels]
         in (u\<lparr>frame_counter := s32 (frame_counter u + 1)\<rparr>, vadflag ?w)
    else (v, 0)"
  have g: "GmmProbability v fs te n =
      hangover (fst ?p) (snd ?p) (over_hang_max_1 v ! ?i) (over_hang_max_2 v ! ?i)"
    by (simp add: GmmProbability_def Let_def split_beta)
  have ok: "vad_ok (fst ?p)"
    using update_channels_ok [OF assms, of ?w 12800] assms(1) vad_ok_set(5)
    by (simp add: split_beta Let_def)
  have fl: "snd ?p = 0 \<or> snd ?p = 1" using likelihood_test_flag by (simp add: split_beta Let_def)
  note h = hangover_ok [OF ok fl vad_ok_hangD [OF assms(1)] surjective_pairing]
  show "vad_ok (fst (GmmProbability v fs te n))" unfolding g by (rule h(1))
  show "snd (GmmProbability v fs te n) = 0 \<or> snd (GmmProbability v fs te n) = 1 \<or>
      (3 \<le> snd (GmmProbability v fs te n) \<and> snd (GmmProbability v fs te n) \<le> 16)"
    unfolding g by (rule h(2))
qed

lemma CalculateFeatures_ok:
  assumes "vad_ok v" "length xs \<le> 240" "\<forall>x\<in>set xs. is16 x"
    and r: "WebRtcVad_CalculateFeatures v xs = (v', te, fs)"
  shows "vad_ok v'" "features_ok fs"
proof -
  obtain u0 l0 h0 p0 where s0: "SplitFilter xs (upper_state v ! 0) (lower_state v ! 0) = (u0, l0, h0, p0)"
    by (metis prod_cases4)
  obtain u1 l1 h1 p1 where s1: "SplitFilter h0 (upper_state v ! 1) (lower_state v ! 1) = (u1, l1, h1, p1)"
    by (metis prod_cases4)
  obtain u2 l2 h2 p2 where s2: "SplitFilter p0 (upper_state v ! 2) (lower_state v ! 2) = (u2, l2, h2, p2)"
    by (metis prod_cases4)
  obtain u3 l3 h3 p3 where s3: "SplitFilter p2 (upper_state v ! 3) (lower_state v ! 3) = (u3, l3, h3, p3)"
    by (metis prod_cases4)
  obtain u4 l4 h4 p4 where s4: "SplitFilter p3 (upper_state v ! 4) (lower_state v ! 4) = (u4, l4, h4, p4)"
    by (metis prod_cases4)
  obtain hs h5 where hp: "HighPassFilter p4 (hp_filter_state v) = (hs, h5)"
    by (cases "HighPassFilter p4 (hp_filter_state v)")
  note q0 = SplitFilter_lengths [OF s0] and q1 = SplitFilter_lengths [OF s1]
    and q2 = SplitFilter_lengths [OF s2] and q3 = SplitFilter_lengths [OF s3] and q4 = SplitFilter_lengths [OF s4]
  have fs0: "hp_state_ok (hp_filter_state v)" using assms(1) by (simp add: vad_ok_def)
  note q5 = HighPassFilter_ok [OF hp fs0 q4(4)]
  have len: "length h1 < 128" "length p1 < 128" "length h2 < 128" "length h3 < 128" "length h4 < 128" "length h5 < 128"
    using assms(2) q0(1,2) q1(1,2) q2(1,2) q3(1,2) q4(1,2) q5(3) by linarith+
  have v': "v' = v\<lparr>upper_state := [u0, u1, u2, u3, u4], lower_state := [l0, l1, l2, l3, l4], hp_filter_state := hs\<rparr>"
    using r by (simp add: WebRtcVad_CalculateFeatures_def s0 s1 s2 s3 s4 hp Let_def split_beta del: One_nat_def)
  show "vad_ok v'" unfolding v' using assms(1) q5(1) by (simp add: vad_ok_def)
  obtain t5 t4 t3 t2 t1 where "fs =
      [snd (LogOfEnergy h5 368 t1), snd (LogOfEnergy h4 368 t2), snd (LogOfEnergy h3 272 t3),
       snd (LogOfEnergy h2 176 t4), snd (LogOfEnergy p1 176 t5), snd (LogOfEnergy h1 176 0)]"
    using r by (simp add: WebRtcVad_CalculateFeatures_def s0 s1 s2 s3 s4 hp Let_def split_beta kOffsetVector_def
        del: One_nat_def) blast
  moreover have "176 \<le> snd (LogOfEnergy ys off t) \<and> snd (LogOfEnergy ys off t) \<le> 2245"
    if "length ys < 128" "176 \<le> off" "off \<le> 368" for ys off t
    using LogOfEnergy_range [OF that(1) _ that(3), of t] that(2) by simp
  ultimately show "features_ok fs" using len by (simp add: features_ok_def)
qed

lemma CalcVad8khz_ok:
  assumes "vad_ok v" "n \<le> 240" "\<forall>x\<in>set xs. is16 x"
    and r: "WebRtcVad_CalcVad8khz v xs n = (v', d)"
  shows "vad_ok v'" "d = 0 \<or> d = 1 \<or> (3 \<le> d \<and> d \<le> 16)"
proof -
  obtain v1 te fs where f: "WebRtcVad_CalculateFeatures v (take n xs) = (v1, te, fs)"
    by (metis prod_cases3)
  have ok: "vad_ok v1" "features_ok fs"
  proof -
    have "length (take n xs) \<le> 240" "\<forall>x\<in>set (take n xs). is16 x"
      using assms(2,3) by (auto dest: in_set_takeD)
    from CalculateFeatures_ok [OF assms(1) this f] show "vad_ok v1" "features_ok fs" by simp_all
  qed
  obtain v2 e where g: "GmmProbability v1 fs te n = (v2, e)" by (cases "GmmProbability v1 fs te n")
  have "v' = v2\<lparr>vad := e\<rparr>" "d = e" using r f g by (auto simp: WebRtcVad_CalcVad8khz_def Let_def)
  then show "vad_ok v'" "d = 0 \<or> d = 1 \<or> (3 \<le> d \<and> d \<le> 16)"
    using GmmProbability_ok [OF ok, of te n] g vad_ok_set(6) by simp_all
qed

section \<open>The hangover as a countdown\<close>

text \<open>
  The reported results of a sequence of raw decisions: speech frames report \<open>1\<close> and arm the counter,
  noise frames are still reported as speech while it runs down, with \<open>2 + h, 2 + h - 1, \<dots>, 3\<close>, then as
  \<open>0\<close>. The overheads depend on the mode and the frame length; they are those of one stream.
\<close>

fun hangover_run :: "int \<Rightarrow> int \<Rightarrow> VadInstT \<Rightarrow> int list \<Rightarrow> VadInstT \<times> int list" where
  "hangover_run o1 o2 v [] = (v, [])"
| "hangover_run o1 o2 v (flag # flags) =
     (let (v, r) = hangover v flag o1 o2; (v, rs) = hangover_run o1 o2 v flags in (v, r # rs))"

lemma hangover_run_append:
  "hangover_run o1 o2 v (fs @ gs) =
    (fst (hangover_run o1 o2 (fst (hangover_run o1 o2 v fs)) gs),
     snd (hangover_run o1 o2 v fs) @ snd (hangover_run o1 o2 (fst (hangover_run o1 o2 v fs)) gs))"
  by (induction fs arbitrary: v) (simp_all add: split_beta Let_def)

lemma hangover_noise:
  assumes "0 \<le> over_hang v" "over_hang v \<le> 14"
  shows "hangover v 0 o1 o2 =
    (if over_hang v = 0 then (v\<lparr>num_of_speech := 0\<rparr>, 0)
     else (v\<lparr>over_hang := over_hang v - 1, num_of_speech := 0\<rparr>, over_hang v + 2))"
  using assms by (simp add: hangover_def s16_eqI)

lemma noise_over: "over_hang v = 0 \<Longrightarrow> snd (hangover_run o1 o2 v (replicate n 0)) = replicate n 0"
  by (induction n arbitrary: v) (simp_all add: hangover_noise split_beta Let_def)

lemma noise_counts:
  assumes "over_hang v = int h" "h \<le> 14"
  shows "snd (hangover_run o1 o2 v (replicate (h + n) 0)) = map (\<lambda>i. int i + 2) (rev [1..<Suc h]) @ replicate n 0"
  using assms
proof (induction h arbitrary: v)
  case 0
  then show ?case using noise_over by simp
next
  case (Suc h)
  let ?v = "v\<lparr>over_hang := over_hang v - 1, num_of_speech := 0\<rparr>"
  have v: "over_hang ?v = int h" "h \<le> 14" using Suc.prems by simp_all
  have "hangover v 0 o1 o2 = (?v, over_hang v + 2)"
    using hangover_noise [of v o1 o2] Suc.prems by simp
  then show ?case using Suc.IH [OF v] Suc.prems(1) by (simp add: split_beta Let_def)
qed

text \<open>How speech frames arm the counter.\<close>

lemma hangover_speech:
  assumes "0 \<le> num_of_speech v" "num_of_speech v \<le> 6"
  shows "hangover v 1 o1 o2 =
    (if num_of_speech v = 6 then (v\<lparr>num_of_speech := 6, over_hang := o2\<rparr>, 1)
     else (v\<lparr>num_of_speech := num_of_speech v + 1, over_hang := o1\<rparr>, 1))"
  using assms by (auto simp: hangover_def s16_eqI kMaxSpeechFrames_def Let_def)

lemma speech_burst:
  assumes "0 \<le> num_of_speech v" "num_of_speech v \<le> 6"
  shows "snd (hangover_run o1 o2 v (replicate (Suc m) 1)) = replicate (Suc m) 1 \<and>
    num_of_speech (fst (hangover_run o1 o2 v (replicate (Suc m) 1))) = min 6 (num_of_speech v + int (Suc m)) \<and>
    over_hang (fst (hangover_run o1 o2 v (replicate (Suc m) 1))) = (if 6 < num_of_speech v + int (Suc m) then o2 else o1)"
  using assms
proof (induction m arbitrary: v)
  case 0
  then show ?case by (auto simp: hangover_speech)
next
  case (Suc m)
  define v' where "v' = fst (hangover v 1 o1 o2)"
  have v': "hangover v 1 o1 o2 = (v', 1)" "num_of_speech v' = min 6 (num_of_speech v + 1)"
    using hangover_speech [OF Suc.prems, of o1 o2] Suc.prems by (auto simp: v'_def)
  have r: "hangover_run o1 o2 v (1 # replicate (Suc m) 1) =
      (fst (hangover_run o1 o2 v' (replicate (Suc m) 1)), 1 # snd (hangover_run o1 o2 v' (replicate (Suc m) 1)))"
    using v'(1) by (simp add: split_beta Let_def del: replicate.simps)
  have "0 \<le> num_of_speech v'" "num_of_speech v' \<le> 6" using v'(2) Suc.prems by simp_all
  from Suc.IH [OF this] show ?case unfolding replicate_Suc [of "Suc m" "1 :: int"] r using v'(2) Suc.prems
    by (auto simp del: replicate.simps hangover_run.simps)
qed

text \<open>A burst of speech, then noise.\<close>

lemma burst_counts:
  assumes "0 \<le> num_of_speech v" "num_of_speech v \<le> 6" "0 \<le> o1" "o1 \<le> 14" "0 \<le> o2" "o2 \<le> 14"
    and h: "h = nat (if 6 < num_of_speech v + int (Suc m) then o2 else o1)"
  shows "snd (hangover_run o1 o2 v (replicate (Suc m) 1 @ replicate (h + n) 0)) =
    replicate (Suc m) 1 @ map (\<lambda>i. int i + 2) (rev [1..<Suc h]) @ replicate n 0"
proof -
  define w where "w = fst (hangover_run o1 o2 v (replicate (Suc m) 1))"
  note b = speech_burst [OF assms(1,2), of o1 o2 m, folded w_def]
  have "over_hang w = int h" "h \<le> 14" using b assms(3-6) h by auto
  from noise_counts [OF this, of o1 o2 n] b show ?thesis
    unfolding hangover_run_append w_def [symmetric] by (simp del: replicate.simps hangover_run.simps)
qed

section \<open>The divisor of the speech deviation\<close>

lemma speech_divisor:
  assumes "378 \<le> ssk" "ssk \<le> 32767"
  shows "s16 (ssk * 10) \<noteq> 0" "s16 (ssk * 10) = ssk * 10 \<longleftrightarrow> ssk \<le> 3276"
proof -
  show "s16 (ssk * 10) \<noteq> 0"
  proof
    assume "s16 (ssk * 10) = 0"
    then have m: "(ssk * 10 + 32768) mod 65536 = 32768" by (simp add: s16_def)
    define q where "q = (ssk * 10 + 32768) div 65536"
    have q: "ssk * 5 = 32768 * q"
      using div_mult_mod_eq [of "ssk * 10 + 32768" 65536] unfolding m q_def [symmetric] by simp
    then have "q = 1 \<or> q = 2 \<or> q = 3 \<or> q = 4" using assms by linarith
    moreover have "ssk \<le> b \<or> b + 1 \<le> ssk" for b by linarith
    from this [of 6553] this [of 13107] this [of 19660] this [of 26214] have "q \<noteq> 1" "q \<noteq> 2" "q \<noteq> 3" "q \<noteq> 4"
      using q by auto
    ultimately show False by simp
  qed
  show "s16 (ssk * 10) = ssk * 10 \<longleftrightarrow> ssk \<le> 3276"
  proof
    assume "s16 (ssk * 10) = ssk * 10"
    then show "ssk \<le> 3276" using is16_s16 [of "ssk * 10"] by (simp add: is16_def)
  next
    assume "ssk \<le> 3276"
    then show "s16 (ssk * 10) = ssk * 10" using assms(1) by (simp add: s16_eqI)
  qed
qed

end
