(* ===== verification/WebRtcVad.thy ===== *)
theory WebRtcVad imports VadInv begin

text \<open>
  The public interface \<open>common_audio/vad/webrtc_vad.c\<close>: argument checks, dispatch on the sample rate and
  the final decision. A handle is a \<open>VadInstT option\<close>, an audio frame an \<open>int list option\<close> (\<open>None\<close> is a
  null pointer). A fresh instance comes from \<open>malloc\<close>, whose contents are an argument.
\<close>

section \<open>Interface\<close>

definition kValidRates :: "int list" where "kValidRates = [8000, 16000, 32000, 48000]"
definition kMaxFrameLengthMs :: int where "kMaxFrameLengthMs = 30"

text \<open>\<open>mem\<close>: what \<open>malloc\<close> returned (the code dereferences it without a check).\<close>

definition WebRtcVad_Create :: "VadInstT \<Rightarrow> VadInstT option" where
  "WebRtcVad_Create mem = Some (mem\<lparr>init_flag := 0\<rparr>)"

definition WebRtcVad_Free :: "VadInstT option \<Rightarrow> VadInstT option" where
  "WebRtcVad_Free handle = None"

definition WebRtcVad_Init :: "VadInstT option \<Rightarrow> VadInstT option \<times> int" where
  "WebRtcVad_Init handle = WebRtcVad_InitCore handle"

definition WebRtcVad_set_mode :: "VadInstT option \<Rightarrow> int \<Rightarrow> VadInstT option \<times> int" where
  "WebRtcVad_set_mode handle mode =
     (case handle of
        None \<Rightarrow> (None, - 1)
      | Some self \<Rightarrow>
          if init_flag self \<noteq> kInitCheck then (Some self, - 1)
          else let (self, r) = WebRtcVad_set_mode_core self mode in (Some self, r))"

text \<open>The inner loop over \<open>valid_length_ms = 10, 20, 30\<close> and the outer one over the rates.\<close>

fun length_loop :: "int list \<Rightarrow> int \<Rightarrow> nat \<Rightarrow> int" where
  "length_loop [] rate frame_length = - 1"
| "length_loop (valid_length_ms # rest) rate frame_length =
     (if frame_length = nat (rate div 1000 * valid_length_ms) then 0 else length_loop rest rate frame_length)"

fun rate_loop :: "int list \<Rightarrow> int \<Rightarrow> nat \<Rightarrow> int" where
  "rate_loop [] rate frame_length = - 1"
| "rate_loop (r # rates) rate frame_length =
     (if r = rate then length_loop [10, 20, kMaxFrameLengthMs] r frame_length
      else rate_loop rates rate frame_length)"

definition WebRtcVad_ValidRateAndFrameLength :: "int \<Rightarrow> nat \<Rightarrow> int" where
  "WebRtcVad_ValidRateAndFrameLength rate frame_length = rate_loop kValidRates rate frame_length"

definition WebRtcVad_Process :: "VadInstT option \<Rightarrow> int \<Rightarrow> int list option \<Rightarrow> nat \<Rightarrow> VadInstT option \<times> int" where
  "WebRtcVad_Process handle fs audio_frame frame_length =
     (case handle of
        None \<Rightarrow> (None, - 1)
      | Some self \<Rightarrow>
          if init_flag self \<noteq> kInitCheck then (Some self, - 1)
          else case audio_frame of
            None \<Rightarrow> (Some self, - 1)
          | Some frame \<Rightarrow>
              if WebRtcVad_ValidRateAndFrameLength fs frame_length \<noteq> 0 then (Some self, - 1)
              else let (self, v) =
                     (if fs = 48000 then WebRtcVad_CalcVad48khz self frame frame_length
                      else if fs = 32000 then WebRtcVad_CalcVad32khz self frame frame_length
                      else if fs = 16000 then WebRtcVad_CalcVad16khz self frame frame_length
                      else if fs = 8000 then WebRtcVad_CalcVad8khz self frame frame_length
                      else (self, - 1))
                   in (Some self, if v > 0 then 1 else v))"

section \<open>Accepted frames\<close>

definition valid_frame :: "int \<Rightarrow> nat \<Rightarrow> bool" where
  "valid_frame fs n \<longleftrightarrow> fs \<in> {8000, 16000, 32000, 48000} \<and> (\<exists>ms \<in> {10, 20, 30}. int n * 1000 = fs * ms)"

lemma ValidRateAndFrameLength_cases:
  "WebRtcVad_ValidRateAndFrameLength fs n = 0 \<or> WebRtcVad_ValidRateAndFrameLength fs n = - 1"
proof -
  have "length_loop ms r n = 0 \<or> length_loop ms r n = - 1" for ms r by (induction ms) simp_all
  then have "rate_loop rs fs n = 0 \<or> rate_loop rs fs n = - 1" for rs by (induction rs) simp_all
  then show ?thesis by (simp add: WebRtcVad_ValidRateAndFrameLength_def)
qed

lemma ValidRateAndFrameLength_iff:
  "WebRtcVad_ValidRateAndFrameLength fs n = 0 \<longleftrightarrow> valid_frame fs n"
proof (cases "fs \<in> {8000, 16000, 32000, 48000}")
  case True
  have *: "n = nat k \<longleftrightarrow> int n = k" if "0 \<le> k" for k using that by auto
  from True consider "fs = 8000" | "fs = 16000" | "fs = 32000" | "fs = 48000" by auto
  then show ?thesis
    by cases (simp_all add: WebRtcVad_ValidRateAndFrameLength_def kValidRates_def kMaxFrameLengthMs_def
        valid_frame_def *)
next
  case False
  then show ?thesis
    by (simp add: WebRtcVad_ValidRateAndFrameLength_def kValidRates_def valid_frame_def)
qed

section \<open>Every rate keeps the invariant\<close>

lemma down_states_overwrite:
  assumes "length fs = 4" "length st = 2"
  shows "length (overwrite fs 0 st) = 4" "overwrite fs 0 st ! 0 = st ! 0" "overwrite fs 0 st ! 1 = st ! 1"
    "overwrite fs 0 st ! 2 = fs ! 2" "overwrite fs 0 st ! 3 = fs ! 3"
    "length (overwrite fs 2 st) = 4" "overwrite fs 2 st ! 0 = fs ! 0" "overwrite fs 2 st ! 1 = fs ! 1"
    "overwrite fs 2 st ! 2 = st ! 0" "overwrite fs 2 st ! 3 = st ! 1"
  using assms by (simp_all add: overwrite_def nth_append numeral_2_eq_2 numeral_3_eq_3)

lemma vad_ok_downD:
  assumes "vad_ok v"
  shows "length (downsampling_filter_states v) = 4"
    "down_state_ok (downsampling_filter_states v ! 0, downsampling_filter_states v ! 1)"
    "down_state_ok (downsampling_filter_states v ! 2, downsampling_filter_states v ! 3)"
    "length (S_24_16 (state_48_to_8 v)) = 8"
  using assms by (simp_all add: vad_ok_def)

lemma vad_ok_set_down:
  assumes "vad_ok v" "length fs = 4" "down_state_ok (fs ! 0, fs ! 1)" "down_state_ok (fs ! 2, fs ! 3)"
  shows "vad_ok (v\<lparr>downsampling_filter_states := fs\<rparr>)"
  using assms by (simp add: vad_ok_def)

lemma CalcVad16khz_ok:
  assumes "vad_ok v" "n \<le> 480" "\<forall>x\<in>set xs. is16 x"
    and r: "WebRtcVad_CalcVad16khz v xs n = (v', d)"
  shows "vad_ok v'" "d = 0 \<or> d = 1 \<or> (3 \<le> d \<and> d \<le> 16)"
proof -
  let ?fs = "downsampling_filter_states v"
  obtain ys st where d: "WebRtcVad_Downsampling xs (take 2 ?fs) n = (ys, st)"
    by (cases "WebRtcVad_Downsampling xs (take 2 ?fs) n")
  note fs = vad_ok_downD [OF assms(1)]
  have st2: "length st = 2" using length_Downsampling(2) [of xs "take 2 ?fs" n] d by simp
  have "down_state_ok (take 2 ?fs ! 0, take 2 ?fs ! 1)" using fs(2) by simp
  note o = Downsampling_ok [OF assms(3) this, of n, unfolded d, simplified]
  have "vad_ok (v\<lparr>downsampling_filter_states := overwrite ?fs 0 st\<rparr>)"
    using down_states_overwrite [OF fs(1) st2] fs(3) o(2) by (intro vad_ok_set_down assms(1)) simp_all
  from CalcVad8khz_ok [OF this _ o(1), of "n div 2" v' d] show "vad_ok v'" "d = 0 \<or> d = 1 \<or> (3 \<le> d \<and> d \<le> 16)"
    using r d assms(2) by (simp_all add: WebRtcVad_CalcVad16khz_def Let_def)
qed

lemma CalcVad32khz_ok:
  assumes "vad_ok v" "n \<le> 960" "\<forall>x\<in>set xs. is16 x"
    and r: "WebRtcVad_CalcVad32khz v xs n = (v', d)"
  shows "vad_ok v'" "d = 0 \<or> d = 1 \<or> (3 \<le> d \<and> d \<le> 16)"
proof -
  let ?fs = "downsampling_filter_states v"
  obtain ws st where d: "WebRtcVad_Downsampling xs (drop 2 ?fs) n = (ws, st)"
    by (cases "WebRtcVad_Downsampling xs (drop 2 ?fs) n")
  note fs = vad_ok_downD [OF assms(1)]
  have st2: "length st = 2" using length_Downsampling(2) [of xs "drop 2 ?fs" n] d by simp
  have "down_state_ok (drop 2 ?fs ! 0, drop 2 ?fs ! 1)" using fs(1,3) by simp
  note o = Downsampling_ok [OF assms(3) this, of n, unfolded d, simplified]
  let ?fs1 = "overwrite ?fs 2 st"
  note w = down_states_overwrite [OF fs(1) st2]
  obtain ys st' where e: "WebRtcVad_Downsampling ws (take 2 ?fs1) (n div 2) = (ys, st')"
    by (cases "WebRtcVad_Downsampling ws (take 2 ?fs1) (n div 2)")
  have st2': "length st' = 2" using length_Downsampling(2) [of ws "take 2 ?fs1" "n div 2"] e by simp
  have "down_state_ok (take 2 ?fs1 ! 0, take 2 ?fs1 ! 1)" using fs(2) w by simp
  note o' = Downsampling_ok [OF o(1) this, of "n div 2", unfolded e, simplified]
  have "vad_ok (v\<lparr>downsampling_filter_states := overwrite ?fs1 0 st'\<rparr>)"
    using down_states_overwrite [OF w(6) st2'] w o(2) o'(2) by (intro vad_ok_set_down assms(1)) simp_all
  from CalcVad8khz_ok [OF this _ o'(1), of "n div 2 div 2" v' d] show "vad_ok v'" "d = 0 \<or> d = 1 \<or> (3 \<le> d \<and> d \<le> 16)"
    using r d e assms(2) by (simp_all add: WebRtcVad_CalcVad32khz_def Let_def)
qed

text \<open>The resampled blocks: all from the same 480 samples, each with the state the previous one left.\<close>

definition blocks_ok :: "int list \<times> State48khzTo8khz \<times> int list \<Rightarrow> bool" where
  "blocks_ok = (\<lambda>(nb, st, mem). length nb = 240 \<and> (\<forall>x\<in>set nb. is16 x) \<and> length (S_24_16 st) = 8 \<and> 496 \<le> length mem)"

lemma set_overwrite: "set (overwrite d off xs) \<subseteq> set d \<union> set xs"
  by (auto simp: overwrite_def dest: in_set_takeD in_set_dropD)

lemma resample_blocks_ok:
  assumes "480 \<le> length xs" "length (S_24_16 st) = 8" "n \<le> 3"
  shows "blocks_ok (resample_blocks n xs st)"
proof -
  have step: "blocks_ok (resample_block xs s i)"
    if bs: "blocks_ok s" and i: "i < 3" for s i
  proof -
    obtain nb st mem where s: "s = (nb, st, mem)" by (cases s)
    obtain mem' where m: "length mem' = length mem" "WebRtcSpl_Resample48khzTo8khz xs st mem =
        (fst (spec48to8 xs st), snd (spec48to8 xs st), mem')"
      using Resample48khzTo8khz_spec [OF assms(1), of st mem] bs s by (auto simp: blocks_ok_def)
    have sp: "length (fst (spec48to8 xs st)) = 80" "\<forall>y\<in>set (fst (spec48to8 xs st)). is16 y"
      "length (S_24_16 (snd (spec48to8 xs st))) = 8"
      using assms(1) DownBy2IntToShort_is16 by (simp_all add: spec48to8_def Let_def split_beta)
    have "i * 80 + 80 \<le> 240" using i by simp
    then show ?thesis
      using bs s m sp set_overwrite [of nb "i * 80" "fst (spec48to8 xs st)"]
      by (auto simp: blocks_ok_def resample_block_def)
  qed
  have "blocks_ok (foldl (resample_block xs) s is)"
    if "blocks_ok s" "\<forall>i\<in>set is. i < 3" for s "is"
    using that step by (induction "is" arbitrary: s) simp_all
  moreover have "blocks_ok (replicate 240 0, st, replicate (480 + 256) 0)"
    using assms(2) by (simp add: blocks_ok_def is16_def)
  ultimately show ?thesis using assms(3) by (simp add: resample_blocks_def)
qed

lemma CalcVad48khz_ok:
  assumes "vad_ok v" "480 \<le> length xs" "n \<le> 1440"
    and r: "WebRtcVad_CalcVad48khz v xs n = (v', d)"
  shows "vad_ok v'" "d = 0 \<or> d = 1 \<or> (3 \<le> d \<and> d \<le> 16)"
proof -
  obtain nb st mem where b: "resample_blocks (n div 480) xs (state_48_to_8 v) = (nb, st, mem)"
    by (metis prod_cases3)
  have ok: "blocks_ok (nb, st, mem)"
    using resample_blocks_ok [OF assms(2) vad_ok_downD(4) [OF assms(1)], of "n div 480"] assms(3) b by simp
  then have st: "vad_ok (v\<lparr>state_48_to_8 := st\<rparr>)" and nb: "\<forall>x\<in>set nb. is16 x"
    using assms(1) by (simp_all add: vad_ok_def blocks_ok_def)
  from CalcVad8khz_ok [OF st _ nb, of "n div 6" v' d] show "vad_ok v'" "d = 0 \<or> d = 1 \<or> (3 \<le> d \<and> d \<le> 16)"
    using r b assms(3) by (simp_all add: WebRtcVad_CalcVad48khz_def Let_def)
qed

section \<open>Modes and initialisation\<close>

lemmas mode_tables =
  kOverHangMax1Q_def kOverHangMax2Q_def kOverHangMax1LBR_def kOverHangMax2LBR_def
  kOverHangMax1AGG_def kOverHangMax2AGG_def kOverHangMax1VAG_def kOverHangMax2VAG_def
  kLocalThresholdQ_def kGlobalThresholdQ_def kLocalThresholdLBR_def kGlobalThresholdLBR_def
  kLocalThresholdAGG_def kGlobalThresholdAGG_def kLocalThresholdVAG_def kGlobalThresholdVAG_def

lemma set_mode_core_ok:
  assumes "vad_ok v"
  shows "vad_ok (fst (WebRtcVad_set_mode_core v mode))"
    "snd (WebRtcVad_set_mode_core v mode) = (if mode \<in> {0, 1, 2, 3} then 0 else - 1)"
    "mode \<notin> {0, 1, 2, 3} \<Longrightarrow> fst (WebRtcVad_set_mode_core v mode) = v"
  using assms by (auto simp: WebRtcVad_set_mode_core_def vad_ok_def hang_ok_def mode_tables)

text \<open>Whatever the memory held, an initialised instance satisfies the invariant.\<close>

lemma InitCore_ok:
  "\<exists>v'. WebRtcVad_InitCore (Some v) = (Some v', 0) \<and> vad_ok v' \<and> init_flag v' = kInitCheck"
proof -
  have "block c (replicate 96 x) = replicate 16 x" if "c < 6" for c and x :: int
    using that by (simp add: block_def)
  moreover have "slots_ok (replicate 16 10000)" by (simp add: slots_ok_def sorted_replicate)
  ultimately have t: "tracker_ok (replicate 96 0) (replicate 96 10000) (replicate 6 1600)"
    by (simp add: tracker_ok_def)
  have m: "means_ok kNoiseDataMeans" "means_ok kSpeechDataMeans" "stds_ok kNoiseDataStds" "stds_ok kSpeechDataStds"
    by (simp_all add: means_ok_def all16_def is16_def stds_ok_def kNoiseDataMeans_def kSpeechDataMeans_def
        kNoiseDataStds_def kSpeechDataStds_def)
  have h: "hang_ok kOverHangMax1Q" "hang_ok kOverHangMax2Q" "hp_state_ok (replicate 4 0)"
    by (simp_all add: hang_ok_def mode_tables hp_state_ok_def is16_def)
  have f: "down_state_ok (replicate 4 0 ! 0, replicate 4 0 ! 1)" "down_state_ok (replicate 4 0 ! 2, replicate 4 0 ! 3)"
    "length (S_24_16 WebRtcSpl_ResetResample48khzTo8khz) = 8"
    by (simp_all add: down_state_ok_def WebRtcSpl_ResetResample48khzTo8khz_def)
  show ?thesis
    using t m h f
    by (simp add: kLocalThresholdQ_def kGlobalThresholdQ_def WebRtcVad_InitCore_def WebRtcVad_set_mode_core_def kDefaultMode_def vad_ok_def
        kNumChannels_def Let_def)
qed

section \<open>Any sequence of calls\<close>

text \<open>
  A client's calls. The frame of \<open>EProcess\<close> holds the samples the pointer addresses, which the
  interface asks to be 16-bit values and at least \<open>frame_length\<close> of them.
\<close>

datatype vad_call = EInit | ESetMode int | EProcess int "int list option" nat

definition vad_step :: "VadInstT option \<Rightarrow> vad_call \<Rightarrow> VadInstT option" where
  "vad_step handle call =
     (case call of
        EInit \<Rightarrow> fst (WebRtcVad_Init handle)
      | ESetMode mode \<Rightarrow> fst (WebRtcVad_set_mode handle mode)
      | EProcess fs frame n \<Rightarrow> fst (WebRtcVad_Process handle fs frame n))"

definition handle_ok :: "VadInstT option \<Rightarrow> bool" where
  "handle_ok handle = (case handle of None \<Rightarrow> True | Some v \<Rightarrow> init_flag v = kInitCheck \<longrightarrow> vad_ok v)"

definition frame_given :: "int list option \<Rightarrow> nat \<Rightarrow> bool" where
  "frame_given frame n = (case frame of None \<Rightarrow> True | Some xs \<Rightarrow> n \<le> length xs \<and> (\<forall>x\<in>set xs. is16 x))"

definition call_ok :: "vad_call \<Rightarrow> bool" where
  "call_ok call = (case call of EProcess fs frame n \<Rightarrow> frame_given frame n | _ \<Rightarrow> True)"

lemma valid_frame_bounds:
  assumes "valid_frame fs n"
  shows "fs = 48000 \<Longrightarrow> 480 \<le> n \<and> n \<le> 1440" "fs = 32000 \<Longrightarrow> n \<le> 960"
    "fs = 16000 \<Longrightarrow> n \<le> 480" "fs = 8000 \<Longrightarrow> n \<le> 240" "fs \<in> {8000, 16000, 32000, 48000}"
  using assms by (auto simp: valid_frame_def)

lemma Process_valid:
  assumes "vad_ok v" "init_flag v = kInitCheck" "n \<le> length xs" "\<forall>x\<in>set xs. is16 x" "valid_frame fs n"
  shows "\<exists>v' r. WebRtcVad_Process (Some v) fs (Some xs) n = (Some v', r) \<and> vad_ok v' \<and> (r = 0 \<or> r = 1)"
proof -
  note b = valid_frame_bounds [OF assms(5)]
  have calc: "\<exists>v' d. f v xs n = (v', d) \<and> vad_ok v' \<and> (d = 0 \<or> d = 1 \<or> (3 \<le> d \<and> d \<le> 16))"
    if "\<And>v' d. f v xs n = (v', d) \<Longrightarrow> vad_ok v'"
      "\<And>v' d. f v xs n = (v', d) \<Longrightarrow> d = 0 \<or> d = 1 \<or> (3 \<le> d \<and> d \<le> 16)"
    for f :: "VadInstT \<Rightarrow> int list \<Rightarrow> nat \<Rightarrow> VadInstT \<times> int"
    using that by (cases "f v xs n") blast
  have valid: "WebRtcVad_ValidRateAndFrameLength fs n = 0" using assms(5) ValidRateAndFrameLength_iff by simp
  from b(5) consider "fs = 48000" | "fs = 32000" | "fs = 16000" | "fs = 8000" by auto
  then show ?thesis
  proof cases
    case 1
    have "\<exists>v' d. WebRtcVad_CalcVad48khz v xs n = (v', d) \<and> vad_ok v' \<and> (d = 0 \<or> d = 1 \<or> (3 \<le> d \<and> d \<le> 16))"
      using b(1) [OF 1] assms(3) by (intro calc CalcVad48khz_ok [OF assms(1)]) simp_all
    then show ?thesis using 1 valid assms(2) by (auto simp: WebRtcVad_Process_def)
  next
    case 2
    have "\<exists>v' d. WebRtcVad_CalcVad32khz v xs n = (v', d) \<and> vad_ok v' \<and> (d = 0 \<or> d = 1 \<or> (3 \<le> d \<and> d \<le> 16))"
      using b(2) [OF 2] assms(4) by (intro calc CalcVad32khz_ok [OF assms(1)]) simp_all
    then show ?thesis using 2 valid assms(2) by (auto simp: WebRtcVad_Process_def)
  next
    case 3
    have "\<exists>v' d. WebRtcVad_CalcVad16khz v xs n = (v', d) \<and> vad_ok v' \<and> (d = 0 \<or> d = 1 \<or> (3 \<le> d \<and> d \<le> 16))"
      using b(3) [OF 3] assms(4) by (intro calc CalcVad16khz_ok [OF assms(1)]) simp_all
    then show ?thesis using 3 valid assms(2) by (auto simp: WebRtcVad_Process_def)
  next
    case 4
    have "\<exists>v' d. WebRtcVad_CalcVad8khz v xs n = (v', d) \<and> vad_ok v' \<and> (d = 0 \<or> d = 1 \<or> (3 \<le> d \<and> d \<le> 16))"
      using b(4) [OF 4] assms(4) by (intro calc CalcVad8khz_ok [OF assms(1)]) simp_all
    then show ?thesis using 4 valid assms(2) by (auto simp: WebRtcVad_Process_def)
  qed
qed

lemma Process_invalid:
  assumes "handle = None \<or> init_flag (the handle) \<noteq> kInitCheck \<or> frame = None \<or> \<not> valid_frame fs n"
  shows "WebRtcVad_Process handle fs frame n = (handle, - 1)"
  using assms ValidRateAndFrameLength_iff [of fs n]
  by (auto simp: WebRtcVad_Process_def split: option.splits)

lemma Process_handle_ok:
  assumes "handle_ok handle" "frame_given frame n"
  shows "handle_ok (fst (WebRtcVad_Process handle fs frame n))"
proof (cases "handle = None \<or> init_flag (the handle) \<noteq> kInitCheck \<or> frame = None \<or> \<not> valid_frame fs n")
  case True
  then show ?thesis using Process_invalid assms(1) by simp
next
  case False
  then obtain v xs where v: "handle = Some v" "init_flag v = kInitCheck" "frame = Some xs" "valid_frame fs n" by auto
  then have "vad_ok v" "n \<le> length xs" "\<forall>x\<in>set xs. is16 x"
    using assms by (simp_all add: handle_ok_def frame_given_def)
  from Process_valid [OF this(1) v(2) this(2,3) v(4)] show ?thesis using v by (auto simp: handle_ok_def)
qed

interpretation vad_api: event_machine vad_step handle_ok call_ok
proof unfold_locales
  fix handle call
  assume h: "handle_ok handle" and c: "call_ok call"
  show "handle_ok (vad_step handle call)"
  proof (cases call)
    case EInit
    then show ?thesis
    proof (cases handle)
      case None
      then show ?thesis using EInit by (simp add: vad_step_def WebRtcVad_Init_def WebRtcVad_InitCore_def handle_ok_def)
    next
      case (Some v)
      then show ?thesis using EInit InitCore_ok [of v] by (auto simp: vad_step_def WebRtcVad_Init_def handle_ok_def)
    qed
  next
    case (ESetMode mode)
    then show ?thesis
      using h set_mode_core_ok(1) [of _ mode]
      by (auto simp: vad_step_def WebRtcVad_set_mode_def handle_ok_def split_beta Let_def split: option.splits)
  next
    case (EProcess fs frame n)
    then show ?thesis using Process_handle_ok [OF h] c by (simp add: vad_step_def call_ok_def)
  qed
qed

text \<open>Once initialised, an instance stays initialised and valid.\<close>

definition live_handle :: "VadInstT option \<Rightarrow> bool" where
  "live_handle handle = (case handle of None \<Rightarrow> False | Some v \<Rightarrow> vad_ok v)"

lemma live_iff: "live_handle handle \<longleftrightarrow> handle \<noteq> None \<and> init_flag (the handle) = kInitCheck \<and> handle_ok handle"
  by (auto simp: live_handle_def handle_ok_def vad_ok_def split: option.splits)

lemma set_mode_live:
  assumes "vad_ok v"
  shows "live_handle (fst (WebRtcVad_set_mode (Some v) mode))"
  using assms set_mode_core_ok(1) [of v mode]
  by (simp add: live_handle_def WebRtcVad_set_mode_def split_beta Let_def)

lemma Process_live:
  assumes "vad_ok v" "frame_given frame n"
  shows "live_handle (fst (WebRtcVad_Process (Some v) fs frame n))"
proof (cases "frame = None \<or> \<not> valid_frame fs n")
  case True
  then show ?thesis using Process_invalid [of "Some v" frame fs n] assms(1) by (simp add: live_handle_def)
next
  case False
  then obtain xs where xs: "frame = Some xs" "valid_frame fs n" by auto
  have "init_flag v = kInitCheck" "n \<le> length xs" "\<forall>x\<in>set xs. is16 x"
    using assms xs by (simp_all add: vad_ok_def frame_given_def)
  from Process_valid [OF assms(1) this xs(2)] show ?thesis using xs by (auto simp: live_handle_def)
qed

interpretation vad_live: event_machine vad_step live_handle call_ok
proof unfold_locales
  fix handle call
  assume h: "live_handle handle" and c: "call_ok call"
  obtain v where v: "handle = Some v" "vad_ok v" using h by (auto simp: live_handle_def split: option.splits)
  show "live_handle (vad_step handle call)"
  proof (cases call)
    case EInit
    then show ?thesis using InitCore_ok [of v] v(1) by (auto simp: vad_step_def WebRtcVad_Init_def live_handle_def)
  next
    case (ESetMode mode)
    then show ?thesis using set_mode_live [OF v(2)] v(1) by (simp add: vad_step_def)
  next
    case (EProcess fs frame n)
    then show ?thesis using Process_live [OF v(2)] c v(1) by (simp add: vad_step_def call_ok_def)
  qed
qed

section \<open>The 48 kHz path\<close>

lemma Resample48khzTo8khz_first:
  "take 480 xs = take 480 ys \<Longrightarrow> WebRtcSpl_Resample48khzTo8khz xs st mem = WebRtcSpl_Resample48khzTo8khz ys st mem"
  by (simp only: WebRtcSpl_Resample48khzTo8khz_def)

lemma resample_blocks_first:
  assumes "take 480 xs = take 480 ys"
  shows "resample_blocks n xs st = resample_blocks n ys st"
proof -
  have "resample_block xs = resample_block ys"
    by (intro ext) (simp add: resample_block_def Resample48khzTo8khz_first [OF assms])
  then show ?thesis by (simp add: resample_blocks_def)
qed

end
