(* ===== verification/Popcount.thy ===== *)
theory Popcount imports Prelude begin

text \<open>
  Numbers as digit lists: the arithmetic behind the parallel bit count of the delay estimator, which
  adds the bits of a 32-bit word in its eleven octal digits at once.
\<close>


lemma div_pow_le: "0 \<le> (y :: int) \<Longrightarrow> y div 2 ^ k \<le> y"
  using zdiv_mono2 [of y 1 "2 ^ k"] by simp

text \<open>The octal digits of a word, lowest first, and the value of a digit list in base \<open>2 ^ k\<close>.\<close>

fun dval :: "nat \<Rightarrow> int list \<Rightarrow> int" where
  "dval k [] = 0"
| "dval k (d # ds) = d + 2 ^ k * dval k ds"

fun digits :: "nat \<Rightarrow> nat \<Rightarrow> int \<Rightarrow> int list" where
  "digits k 0 u = []"
| "digits k (Suc n) u = u mod 2 ^ k # digits k n (u div 2 ^ k)"

lemma dval_digits: "0 \<le> u \<Longrightarrow> u < 2 ^ (k * n) \<Longrightarrow> dval k (digits k n u) = u"
proof (induction n arbitrary: u)
  case 0
  then show ?case by simp
next
  case (Suc n)
  have "u < 2 ^ (k * n) * 2 ^ k" using Suc.prems(2) by (simp add: power_add mult.commute)
  then have "u div 2 ^ k < 2 ^ (k * n)" by (intro int_div_lt) simp_all
  moreover have "0 \<le> u div 2 ^ k" using Suc.prems(1) by (simp add: pos_imp_zdiv_nonneg_iff)
  ultimately have "dval k (digits k n (u div 2 ^ k)) = u div 2 ^ k" by (intro Suc.IH)
  then show ?case by simp
qed

lemma and_step:
  fixes a b x y :: int
  assumes "0 \<le> a" "a < 2 ^ k" "0 \<le> b" "b < 2 ^ k"
  shows "(a + 2 ^ k * x) AND (b + 2 ^ k * y) = (a AND b) + 2 ^ k * (x AND y)"
proof -
  have c: "z + 2 ^ k * w = concat_bit k z w" if "0 \<le> z" "z < 2 ^ k" for z w :: int
    using that by (simp add: concat_bit_eq push_bit_eq_mult take_bit_int_eq_self mult.commute)
  have ab: "0 \<le> a AND b" "a AND b < 2 ^ k"
    using assms and_nonnegative_int_iff [of a b] AND_upper1 [OF assms(1), of b] by auto
  have "concat_bit k a x AND concat_bit k b y = concat_bit k (a AND b) (x AND y)"
    by (rule bit_eqI) (auto simp: bit_and_iff bit_concat_bit_iff)
  then show ?thesis using c assms ab by simp
qed

lemma and_dval:
  assumes "length ds = length ms" "\<forall>d\<in>set ds. 0 \<le> d \<and> d < 2 ^ k" "\<forall>m\<in>set ms. 0 \<le> m \<and> m < 2 ^ k"
  shows "dval k ds AND dval k ms = dval k (map2 (AND) ds ms)"
  using assms by (induction ds ms rule: list_induct2) (simp_all add: and_step)

definition oct_ok :: "int \<Rightarrow> bool" where "oct_ok d \<longleftrightarrow> 0 \<le> d \<and> d < 8"

lemma length_digits [simp]: "length (digits k n u) = n"
  by (induction n arbitrary: u) simp_all

lemma digits_oct: "\<forall>d\<in>set (digits 3 n u). oct_ok d"
  by (induction n arbitrary: u) (simp_all add: oct_ok_def)

text \<open>Bits in one octal digit.\<close>

definition pc3 :: "int \<Rightarrow> int" where "pc3 d = d - d div 2 - d div 4"

fun popc :: "nat \<Rightarrow> int \<Rightarrow> int" where
  "popc 0 u = 0"
| "popc (Suc n) u = u mod 2 + popc n (u div 2)"

lemma popc_sum_bits: "popc n u = (\<Sum>i<n. of_bool (bit u i))"
proof (induction n arbitrary: u)
  case 0
  then show ?case by simp
next
  case (Suc n)
  have "(\<Sum>i<Suc n. of_bool (bit u i)) = of_bool (bit u 0) + (\<Sum>i<n. of_bool (bit u (Suc i)) :: int)"
    by (rule sum.lessThan_Suc_shift)
  then show ?case using Suc.IH [of "u div 2"] by (simp add: bit_Suc bit_0 mod2_eq_if)
qed

lemma popc_oct:
  assumes "oct_ok d"
  shows "popc (n + 3) (d + 8 * x) = pc3 d + popc n x"
proof -
  have d: "0 \<le> d" "d < 8" using assms by (simp_all add: oct_ok_def)
  have e1: "(d + 8 * x) mod 2 = d mod 2" using mod_mult_self2 [of d 2 "4 * x"] by simp
  have e2: "(d + 8 * x) div 2 = d div 2 + 2 * (2 * x)" using div_mult_self2 [of 2 d "4 * x"] by simp
  have e3: "(d + 8 * x) div 4 = d div 4 + 2 * x" using div_mult_self2 [of 4 d "2 * x"] by simp
  have e4: "(d + 8 * x) div 8 = x" using div_mult_self2 [of 8 d x] d by simp
  have "(d + 8 * x) div 2 mod 2 = d div 2 mod 2" unfolding e2 by (rule mod_mult_self2)
  moreover have "(d + 8 * x) div 4 mod 2 = d div 4 mod 2" unfolding e3 by (rule mod_mult_self2)
  moreover have "d mod 2 + (d div 2 mod 2 + d div 4 mod 2) = pc3 d"
  proof -
    have "d = 0 \<or> d = 1 \<or> d = 2 \<or> d = 3 \<or> d = 4 \<or> d = 5 \<or> d = 6 \<or> d = 7"
      using assms by (auto simp: oct_ok_def)
    then show ?thesis by (elim disjE) (simp_all add: pc3_def)
  qed
  moreover have "popc (n + 3) (d + 8 * x) =
      (d + 8 * x) mod 2 + ((d + 8 * x) div 2 mod 2 + ((d + 8 * x) div 4 mod 2 + popc n ((d + 8 * x) div 8)))"
  proof -
    have n: "n + 3 = Suc (Suc (Suc n))" by simp
    have h: "u div 2 div 2 = u div 4" "u div 4 div 2 = u div 8" for u :: int
      using zdiv_zmult2_eq [of 2 u 2] zdiv_zmult2_eq [of 2 u 4] by simp_all
    show ?thesis unfolding n popc.simps h ..
  qed
  ultimately show ?thesis using e1 e4 by presburger
qed

lemma popc_zero [simp]: "popc n 0 = 0"
  by (induction n) simp_all

lemma popc_dval:
  "\<forall>d\<in>set ds. oct_ok d \<Longrightarrow> popc (3 * length ds) (dval 3 ds) = (\<Sum>d\<leftarrow>ds. pc3 d)"
proof (induction ds)
  case Nil
  then show ?case by simp
next
  case (Cons d ds)
  have "popc (3 * length ds + 3) (d + 8 * dval 3 ds) = pc3 d + popc (3 * length ds) (dval 3 ds)"
    using Cons.prems by (intro popc_oct) simp
  then show ?case using Cons by (simp add: add.commute)
qed

lemma dval_append: "dval k (xs @ ys) = dval k xs + 2 ^ (k * length xs) * dval k ys"
  by (induction xs) (simp_all add: algebra_simps power_add)

lemma dval_div: "0 \<le> d \<Longrightarrow> d < 2 ^ k \<Longrightarrow> (d + 2 ^ k * x) div 2 ^ k = (x :: int)"
  by (simp add: div_pos_pos_trivial)

text \<open>A shift by \<open>s < 3\<close> bits, digit by digit.\<close>

lemma shift_digit:
  fixes d x :: int
  shows "(d + 8 * x) div 2 = (d div 2 + 4 * (x mod 2)) + 8 * (x div 2)"
    "(d + 8 * x) div 4 = (d div 4 + 2 * (x mod 4)) + 8 * (x div 4)"
proof -
  have "(d + 8 * x) div 2 = d div 2 + 4 * x" using div_mult_self2 [of 2 d "4 * x"] by simp
  moreover have "4 * x = 4 * (x mod 2) + 8 * (x div 2)" using div_mult_mod_eq [of x 2] by linarith
  ultimately show "(d + 8 * x) div 2 = (d div 2 + 4 * (x mod 2)) + 8 * (x div 2)" by linarith
  have "(d + 8 * x) div 4 = d div 4 + 2 * x" using div_mult_self2 [of 4 d "2 * x"] by simp
  moreover have "2 * x = 2 * (x mod 4) + 8 * (x div 4)" using div_mult_mod_eq [of x 4] by linarith
  ultimately show "(d + 8 * x) div 4 = (d div 4 + 2 * (x mod 4)) + 8 * (x div 4)" by linarith
qed

lemma and_3_1: "(x :: int) AND 3 = x mod 4" "(x :: int) AND 1 = x mod 2" "(x :: int) AND 7 = x mod 8"
  "(x :: int) AND 63 = x mod 64"
  using take_bit_eq_mask [of 2 x] take_bit_eq_mask [of 1 x] take_bit_eq_mask [of 3 x] take_bit_eq_mask [of 6 x]
  by (simp_all add: take_bit_eq_mod mask_eq_exp_minus_1)

lemma shifted_and:
  assumes "\<forall>d\<in>set ds. oct_ok d"
  shows "dval 3 ds div 2 AND dval 3 (replicate (length ds) 3) = dval 3 (map (\<lambda>d. d div 2) ds)"
    and "dval 3 ds div 4 AND dval 3 (replicate (length ds) 1) = dval 3 (map (\<lambda>d. d div 4) ds)"
proof -
  have "dval 3 ds div 2 AND dval 3 (replicate (length ds) 3) = dval 3 (map (\<lambda>d. d div 2) ds) \<and>
      dval 3 ds div 4 AND dval 3 (replicate (length ds) 1) = dval 3 (map (\<lambda>d. d div 4) ds)"
    using assms
  proof (induction ds)
    case Nil
    then show ?case by simp
  next
    case (Cons d ds)
    let ?x = "dval 3 ds"
    have d: "0 \<le> d" "d < 8" using Cons.prems by (simp_all add: oct_ok_def)
    have m: "0 \<le> ?x mod 2" "?x mod 2 < 2" "0 \<le> ?x mod 4" "?x mod 4 < 4" by simp_all
    have "(d div 2 + 4 * (?x mod 2) + 2 ^ 3 * (?x div 2)) AND (3 + 2 ^ 3 * dval 3 (replicate (length ds) 3)) =
        (d div 2 + 4 * (?x mod 2) AND 3) + 2 ^ 3 * (?x div 2 AND dval 3 (replicate (length ds) 3))"
    proof (rule and_step)
      show "0 \<le> d div 2 + 4 * (?x mod 2)" "d div 2 + 4 * (?x mod 2) < 2 ^ 3" using d m by auto
    qed simp_all
    moreover have "d div 2 + 4 * (?x mod 2) AND 3 = d div 2"
      unfolding and_3_1 using d by (simp add: div_pos_pos_trivial)
    moreover have "(d div 4 + 2 * (?x mod 4) + 2 ^ 3 * (?x div 4)) AND (1 + 2 ^ 3 * dval 3 (replicate (length ds) 1)) =
        (d div 4 + 2 * (?x mod 4) AND 1) + 2 ^ 3 * (?x div 4 AND dval 3 (replicate (length ds) 1))"
    proof (rule and_step)
      show "0 \<le> d div 4 + 2 * (?x mod 4)" "d div 4 + 2 * (?x mod 4) < 2 ^ 3" using d m by auto
    qed simp_all
    moreover have "d div 4 + 2 * (?x mod 4) AND 1 = d div 4"
      unfolding and_3_1 using d by (simp add: div_pos_pos_trivial)
    ultimately show ?case using Cons by (simp add: shift_digit)
  qed
  then show "dval 3 ds div 2 AND dval 3 (replicate (length ds) 3) = dval 3 (map (\<lambda>d. d div 2) ds)"
    and "dval 3 ds div 4 AND dval 3 (replicate (length ds) 1) = dval 3 (map (\<lambda>d. d div 4) ds)" by simp_all
qed

lemma dval_diff: "dval k (map f ds) - dval k (map g ds) = dval k (map (\<lambda>d. f d - g d) ds)"
  by (induction ds) (simp_all add: algebra_simps)

lemma octal_counts:
  assumes "\<forall>d\<in>set ds. oct_ok d" "length ds = 11"
  shows "dval 3 ds - (sar (dval 3 ds) 1 AND 3681400539) - (sar (dval 3 ds) 2 AND 1227133513) = dval 3 (map pc3 ds)"
proof -
  have masks: "3681400539 = dval 3 (replicate (length ds) 3)" "1227133513 = dval 3 (replicate (length ds) 1)"
    using assms(2) by (simp_all add: numeral_eq_Suc)
  have "sar (dval 3 ds) 1 AND 3681400539 = dval 3 (map (\<lambda>d. d div 2) ds)"
    "sar (dval 3 ds) 2 AND 1227133513 = dval 3 (map (\<lambda>d. d div 4) ds)"
    unfolding masks sar_def using shifted_and [OF assms(1)] by simp_all
  moreover have "pc3 = (\<lambda>d. d - d div 2 - d div 4)" by (rule ext) (simp add: pc3_def)
  ultimately show ?thesis
    using dval_diff [of 3 "\<lambda>d. d" ds "\<lambda>d. d div 2"] dval_diff [of 3 "\<lambda>d. d - d div 2" ds "\<lambda>d. d div 4"]
    by simp
qed

text \<open>Adding the eleven digits by shifts and masks, all of them small enough not to carry.\<close>

lemma pc3_range: "oct_ok d \<Longrightarrow> 0 \<le> pc3 d \<and> pc3 d \<le> 3"
proof -
  assume "oct_ok d"
  then have "d = 0 \<or> d = 1 \<or> d = 2 \<or> d = 3 \<or> d = 4 \<or> d = 5 \<or> d = 6 \<or> d = 7" by (auto simp: oct_ok_def)
  then show ?thesis by (elim disjE) (simp_all add: pc3_def)
qed

lemma list_of_eleven:
  assumes "length xs = 11"
  obtains a b c d e f g h i j k where "xs = [a, b, c, d, e, f, g, h, i, j, k]"
  using assms by (auto simp: eval_nat_numeral length_Suc_conv)

lemma shift_sum: "0 \<le> r \<Longrightarrow> r < 2 ^ k \<Longrightarrow> sar (r + 2 ^ k * x) k = x"
  by (simp add: sar_def dval_div)

lemma and_pairs:
  fixes q0 :: int
  assumes "\<forall>q\<in>{q0, q1, q2, q3, q4, q5, q6, q7, q8, q9, q10}. 0 \<le> q \<and> q < 8" "q10 < 4"
  shows "dval 3 [q0, q1, q2, q3, q4, q5, q6, q7, q8, q9, q10] AND 3340530119 = dval 6 [q0, q2, q4, q6, q8, q10]"
proof -
  have m: "3340530119 = dval 3 [7, 0, 7, 0, 7, 0, 7, 0, 7, 0, 3]" by simp
  have "dval 3 [q0, q1, q2, q3, q4, q5, q6, q7, q8, q9, q10] AND dval 3 [7, 0, 7, 0, 7, 0, 7, 0, 7, 0, 3] =
      dval 3 (map2 (AND) [q0, q1, q2, q3, q4, q5, q6, q7, q8, q9, q10] [7, 0, 7, 0, 7, 0, 7, 0, 7, 0, 3])"
    by (rule and_dval) (use assms(1) in auto)
  then show ?thesis unfolding m using assms by (simp add: and_3_1)
qed

lemma base64_sum:
  fixes e0 :: int
  assumes "\<forall>e\<in>{e0, e1, e2, e3, e4, e5}. 0 \<le> e \<and> e \<le> 6" "e5 \<le> 2"
  shows "u32 (u32 (dval 6 [e0, e1, e2, e3, e4, e5] + sar (dval 6 [e0, e1, e2, e3, e4, e5]) 6) +
           sar (u32 (dval 6 [e0, e1, e2, e3, e4, e5] + sar (dval 6 [e0, e1, e2, e3, e4, e5]) 6)) 12 +
           sar (u32 (dval 6 [e0, e1, e2, e3, e4, e5] + sar (dval 6 [e0, e1, e2, e3, e4, e5]) 6)) 24) AND 63 =
         e0 + e1 + e2 + e3 + e4 + e5"
proof -
  have e: "0 \<le> e0" "e0 \<le> 6" "0 \<le> e1" "e1 \<le> 6" "0 \<le> e2" "e2 \<le> 6" "0 \<le> e3" "e3 \<le> 6" "0 \<le> e4" "e4 \<le> 6" "0 \<le> e5" "e5 \<le> 2"
    using assms by auto
  let ?v = "dval 6 [e0, e1, e2, e3, e4, e5]"
  have s6: "sar ?v 6 = dval 6 [e1, e2, e3, e4, e5]"
    using shift_sum [of e0 6 "dval 6 [e1, e2, e3, e4, e5]"] e by simp
  define f0 f1 f2 f3 f4 where "f0 = e0 + e1" and "f1 = e1 + e2" and "f2 = e2 + e3" and "f3 = e3 + e4" and "f4 = e4 + e5"
  have f: "0 \<le> f0" "f0 \<le> 12" "0 \<le> f1" "f1 \<le> 12" "0 \<le> f2" "f2 \<le> 12" "0 \<le> f3" "f3 \<le> 12" "0 \<le> f4" "f4 \<le> 12"
    using e unfolding f0_def f1_def f2_def f3_def f4_def by linarith+
  have w: "?v + sar ?v 6 = dval 6 [f0, f1, f2, f3, f4, e5]"
    unfolding s6 f0_def f1_def f2_def f3_def f4_def by simp
  have u: "u32 (dval 6 [f0, f1, f2, f3, f4, e5]) = dval 6 [f0, f1, f2, f3, f4, e5]"
    using e f by (simp add: u32_def mod_pos_pos_trivial)
  have s12: "sar (dval 6 [f0, f1, f2, f3, f4, e5]) 12 = dval 6 [f2, f3, f4, e5]"
    using shift_sum [of "f0 + 64 * f1" 12 "dval 6 [f2, f3, f4, e5]"] f by (simp add: add.assoc)
  have s24: "sar (dval 6 [f0, f1, f2, f3, f4, e5]) 24 = dval 6 [f4, e5]"
    using shift_sum [of "f0 + 64 * f1 + 4096 * f2 + 262144 * f3" 24 "dval 6 [f4, e5]"] f by (simp add: add.assoc)
  define rest where "rest = f1 + f3 + e5 + 64 * (f2 + f4) + 4096 * (f3 + e5) + 262144 * f4 + 16777216 * e5"
  have total: "dval 6 [f0, f1, f2, f3, f4, e5] + dval 6 [f2, f3, f4, e5] + dval 6 [f4, e5] =
      (f0 + f2 + f4) + 64 * rest"
    unfolding rest_def by simp
  have r: "0 \<le> rest" unfolding rest_def using f(3-10) e(11,12) by (simp add: algebra_simps)
  have r': "rest < 67108863" unfolding rest_def using f(4,6,8,10) e(12) by simp
  have "u32 ((f0 + f2 + f4) + 64 * rest) = (f0 + f2 + f4) + 64 * rest"
    using r r' f by (simp add: u32_def mod_pos_pos_trivial)
  moreover have "((f0 + f2 + f4) + 64 * rest) mod 64 = f0 + f2 + f4"
    using f by simp
  ultimately have fin: "u32 ((f0 + f2 + f4) + 64 * rest) AND 63 = f0 + f2 + f4" by (simp add: and_3_1)
  show ?thesis unfolding w u s12 s24 total fin by (simp add: f0_def f2_def f4_def)
qed

end
