(* ===== verification/DelayEstimator.thy ===== *)
theory DelayEstimator imports Popcount begin

text \<open>
  The binary delay estimator of the echo cancellers, \<open>audio_processing/utility/delay_estimator.c\<close>: bit
  counts of 32-band binary spectra, smoothed bit differences per delay, the candidate search and the
  robust validation by a histogram.

  The histogram is kept in C \<open>float\<close>s. Single-precision arithmetic is a parameter here: a record \<open>F\<close> of
  operations on some type \<open>'f\<close>, and every theorem holds for any such arithmetic; \<open>f_bits\<close> and
  \<open>f_of_bits\<close> are the object representation of a \<open>float\<close> as a 32-bit integer. The far end is owned by
  the caller and shared, so it is an argument of the operations rather than a field.
\<close>

section \<open>Data\<close>

record 'f float_ops =
  f_int :: "int \<Rightarrow> 'f"
  f_lit :: "int \<Rightarrow> int \<Rightarrow> 'f"
  f_add :: "'f \<Rightarrow> 'f \<Rightarrow> 'f"
  f_sub :: "'f \<Rightarrow> 'f \<Rightarrow> 'f"
  f_mul :: "'f \<Rightarrow> 'f \<Rightarrow> 'f"
  f_div :: "'f \<Rightarrow> 'f \<Rightarrow> 'f"
  f_less :: "'f \<Rightarrow> 'f \<Rightarrow> bool"
  f_bits :: "'f \<Rightarrow> int"
  f_of_bits :: "int \<Rightarrow> 'f"

record BinaryDelayEstimatorFarend =
  far_bit_counts :: "int list"
  binary_far_history :: "int list"
  far_history_size :: nat

record 'f BinaryDelayEstimator =
  mean_bit_counts :: "int list"
  bit_counts :: "int list"
  binary_near_history :: "int list"
  near_history_size :: nat
  history_size :: nat
  minimum_probability :: int
  last_delay_probability :: int
  last_delay :: int
  robust_validation_enabled :: int
  allowed_offset :: int
  last_candidate_delay :: int
  compare_delay :: int
  candidate_hits :: int
  histogram :: "'f list"
  last_delay_histogram :: 'f
  lookahead :: int

definition kMaxBitCountsQ9 :: int where "kMaxBitCountsQ9 = 16384"
definition kShiftsAtZero :: int where "kShiftsAtZero = 13"
definition kShiftsLinearSlope :: int where "kShiftsLinearSlope = 3"
definition kProbabilityOffset :: int where "kProbabilityOffset = 1024"
definition kProbabilityLowerLimit :: int where "kProbabilityLowerLimit = 8704"
definition kProbabilityMinSpread :: int where "kProbabilityMinSpread = 2816"
definition kMinRequiredHits :: int where "kMinRequiredHits = 10"
definition kMaxHitsWhenPossiblyNonCausal :: int where "kMaxHitsWhenPossiblyNonCausal = 10"
definition kMaxHitsWhenPossiblyCausal :: int where "kMaxHitsWhenPossiblyCausal = 1000"

text \<open>Float constants: \<open>f_lit F n d\<close> is the literal of value \<open>n / d\<close>.\<close>

definition kHistogramMax :: "'f float_ops \<Rightarrow> 'f" where "kHistogramMax F = f_lit F 3000 1"
definition kLastHistogramMax :: "'f float_ops \<Rightarrow> 'f" where "kLastHistogramMax F = f_lit F 250 1"
definition kMinHistogramThreshold :: "'f float_ops \<Rightarrow> 'f" where "kMinHistogramThreshold F = f_lit F 3 2"
definition kQ14Scaling :: "'f float_ops \<Rightarrow> 'f" where "kQ14Scaling F = f_lit F 1 16384"
definition kFractionSlope :: "'f float_ops \<Rightarrow> 'f" where "kFractionSlope F = f_lit F 1 20"
definition kMinFractionWhenPossiblyCausal :: "'f float_ops \<Rightarrow> 'f" where
  "kMinFractionWhenPossiblyCausal F = f_lit F 1 2"
definition kMinFractionWhenPossiblyNonCausal :: "'f float_ops \<Rightarrow> 'f" where
  "kMinFractionWhenPossiblyNonCausal F = f_lit F 1 4"

section \<open>Bit counts\<close>

text \<open>Octal masks: \<open>033333333333\<close>, \<open>011111111111\<close>, \<open>030707070707\<close>, \<open>077\<close>.\<close>

definition BitCount :: "int \<Rightarrow> int" where
  "BitCount u =
     (let tmp = u32 (u - (sar u 1 AND 3681400539) - (sar u 2 AND 1227133513));
          tmp = u32 (tmp + sar tmp 3) AND 3340530119;
          tmp = u32 (tmp + sar tmp 6);
          tmp = u32 (tmp + sar tmp 12 + sar tmp 24) AND 63
      in tmp)"

definition BitCountComparison :: "int \<Rightarrow> int list \<Rightarrow> int list" where
  "BitCountComparison binary_vector binary_matrix =
     map (\<lambda>row. BitCount (binary_vector XOR row)) binary_matrix"

definition WebRtc_MeanEstimatorFix :: "int \<Rightarrow> nat \<Rightarrow> int \<Rightarrow> int" where
  "WebRtc_MeanEstimatorFix new_value factor mean_value =
     (let diff = s32 (new_value - mean_value);
          diff = (if diff < 0 then s32 (- sar (s32 (- diff)) factor) else sar diff factor)
      in s32 (mean_value + diff))"

section \<open>Robust validation\<close>

definition UpdateRobustValidationStatistics ::
  "'f float_ops \<Rightarrow> 'f BinaryDelayEstimator \<Rightarrow> int \<Rightarrow> int \<Rightarrow> int \<Rightarrow> 'f BinaryDelayEstimator" where
  "UpdateRobustValidationStatistics F self candidate_delay valley_depth_q14 valley_level_q14 =
     (let valley_depth = f_mul F (f_int F valley_depth_q14) (kQ14Scaling F);
          max_hits_for_slow_change = (if candidate_delay < last_delay self then kMaxHitsWhenPossiblyNonCausal
                                      else kMaxHitsWhenPossiblyCausal);
          self = (if candidate_delay \<noteq> last_candidate_delay self
                  then self\<lparr>candidate_hits := 0, last_candidate_delay := candidate_delay\<rparr> else self);
          self = self\<lparr>candidate_hits := s32 (candidate_hits self + 1)\<rparr>;
          h = f_add F (histogram self ! nat candidate_delay) valley_depth;
          h = (if f_less F (kHistogramMax F) h then kHistogramMax F else h);
          self = self\<lparr>histogram := (histogram self)[nat candidate_delay := h]\<rparr>;
          decrease_in_last_set =
            (if candidate_hits self < max_hits_for_slow_change
             then f_mul F (f_int F (s32 (mean_bit_counts self ! nat (compare_delay self) - valley_level_q14))) (kQ14Scaling F)
             else valley_depth);
          bin = (\<lambda>i h.
            let is_in_last_set = (int i \<ge> last_delay self - 2 \<and> int i \<le> last_delay self + 1 \<and> int i \<noteq> candidate_delay);
                is_in_candidate_set = (int i \<ge> candidate_delay - 2 \<and> int i \<le> candidate_delay + 1);
                h = f_sub F h (f_add F (f_mul F decrease_in_last_set (f_int F (of_bool is_in_last_set)))
                      (f_mul F valley_depth (f_int F (of_bool (\<not> is_in_last_set \<and> \<not> is_in_candidate_set)))))
            in if f_less F h (f_int F 0) then f_int F 0 else h)
      in self\<lparr>histogram := map2 (\<lambda>i h. if i < history_size self then bin i h else h)
                            [0..<length (histogram self)] (histogram self)\<rparr>)"

definition HistogramBasedValidation :: "'f float_ops \<Rightarrow> 'f BinaryDelayEstimator \<Rightarrow> int \<Rightarrow> bool" where
  "HistogramBasedValidation F self candidate_delay =
     (let histogram_threshold = histogram self ! nat (compare_delay self);
          delay_difference = candidate_delay - last_delay self;
          fraction =
            (if delay_difference > allowed_offset self
             then let fr = f_sub F (f_int F 1) (f_mul F (kFractionSlope F)
                                (f_int F (delay_difference - allowed_offset self)))
                  in if f_less F (kMinFractionWhenPossiblyCausal F) fr then fr else kMinFractionWhenPossiblyCausal F
             else if delay_difference < 0
             then let fr = f_sub F (kMinFractionWhenPossiblyNonCausal F)
                             (f_mul F (kFractionSlope F) (f_int F delay_difference))
                  in if f_less F (f_int F 1) fr then f_int F 1 else fr
             else f_int F 1);
          histogram_threshold = f_mul F histogram_threshold fraction;
          histogram_threshold = (if f_less F (kMinHistogramThreshold F) histogram_threshold
                                 then histogram_threshold else kMinHistogramThreshold F)
      in \<not> f_less F (histogram self ! nat candidate_delay) histogram_threshold \<and>
         candidate_hits self > kMinRequiredHits)"

definition RobustValidation :: "'f float_ops \<Rightarrow> 'f BinaryDelayEstimator \<Rightarrow> int \<Rightarrow> bool \<Rightarrow> bool \<Rightarrow> bool" where
  "RobustValidation F self candidate_delay is_instantaneous_valid is_histogram_valid =
     (let is_robust = (last_delay self < 0 \<and> (is_instantaneous_valid \<or> is_histogram_valid));
          is_robust = (is_robust \<or> (is_instantaneous_valid \<and> is_histogram_valid))
      in is_robust \<or> (is_histogram_valid \<and>
           f_less F (last_delay_histogram self) (histogram self ! nat candidate_delay)))"

section \<open>The far end\<close>

text \<open>
  \<open>realloc\<close> keeps the old elements and the code zeroes the new ones. \<open>far_ok\<close>: both reallocations
  succeed; otherwise the size is set to \<open>0\<close> and the arrays are not used any more.
\<close>

definition resize0 :: "nat \<Rightarrow> int list \<Rightarrow> int list" where
  "resize0 n xs = take n xs @ replicate (n - length xs) 0"

definition WebRtc_AllocateFarendBufferMemory ::
  "bool \<Rightarrow> BinaryDelayEstimatorFarend \<Rightarrow> nat \<Rightarrow> BinaryDelayEstimatorFarend \<times> nat" where
  "WebRtc_AllocateFarendBufferMemory far_ok self new_size =
     (if far_ok
      then (self\<lparr>binary_far_history := resize0 new_size (binary_far_history self),
                 far_bit_counts := resize0 new_size (far_bit_counts self), far_history_size := new_size\<rparr>, new_size)
      else (self\<lparr>binary_far_history := [], far_bit_counts := [], far_history_size := 0\<rparr>, 0))"

definition WebRtc_FreeBinaryDelayEstimatorFarend ::
  "BinaryDelayEstimatorFarend option \<Rightarrow> BinaryDelayEstimatorFarend option" where
  "WebRtc_FreeBinaryDelayEstimatorFarend self = None"

definition WebRtc_CreateBinaryDelayEstimatorFarend :: "bool \<Rightarrow> bool \<Rightarrow> int \<Rightarrow> BinaryDelayEstimatorFarend option" where
  "WebRtc_CreateBinaryDelayEstimatorFarend malloc_ok far_ok hsize =
     (if hsize > 1 \<and> malloc_ok
      then let (self, n) = WebRtc_AllocateFarendBufferMemory far_ok
                 \<lparr>far_bit_counts = [], binary_far_history = [], far_history_size = 0\<rparr> (nat hsize)
           in if n = 0 then WebRtc_FreeBinaryDelayEstimatorFarend (Some self) else Some self
      else None)"

definition WebRtc_InitBinaryDelayEstimatorFarend :: "BinaryDelayEstimatorFarend \<Rightarrow> BinaryDelayEstimatorFarend" where
  "WebRtc_InitBinaryDelayEstimatorFarend self =
     self\<lparr>binary_far_history := replicate (far_history_size self) 0,
          far_bit_counts := replicate (far_history_size self) 0\<rparr>"

text \<open>\<open>memmove\<close> of \<open>shift_size\<close> elements from \<open>src\<close> to \<open>dest\<close>, then \<open>memset\<close> of \<open>pad\<close> zeros at \<open>padding\<close>.\<close>

definition move_and_pad :: "nat \<Rightarrow> nat \<Rightarrow> nat \<Rightarrow> nat \<Rightarrow> nat \<Rightarrow> int list \<Rightarrow> int list" where
  "move_and_pad dest src shift_size padding pad xs =
     overwrite (overwrite xs dest (take shift_size (drop src xs))) padding (replicate pad 0)"

definition WebRtc_SoftResetBinaryDelayEstimatorFarend ::
  "BinaryDelayEstimatorFarend \<Rightarrow> int \<Rightarrow> BinaryDelayEstimatorFarend" where
  "WebRtc_SoftResetBinaryDelayEstimatorFarend self delay_shift =
     (let abs_shift = nat \<bar>delay_shift\<bar>;
          shift_size = far_history_size self - abs_shift;
          move = (if delay_shift > 0 then move_and_pad abs_shift 0 shift_size 0 abs_shift
                  else move_and_pad 0 abs_shift shift_size shift_size abs_shift)
      in if delay_shift = 0 then self
         else self\<lparr>binary_far_history := move (binary_far_history self),
                   far_bit_counts := move (far_bit_counts self)\<rparr>)"

definition WebRtc_AddBinaryFarSpectrum :: "BinaryDelayEstimatorFarend \<Rightarrow> int \<Rightarrow> BinaryDelayEstimatorFarend" where
  "WebRtc_AddBinaryFarSpectrum handle binary_far_spectrum =
     (let n = far_history_size handle - 1
      in handle\<lparr>binary_far_history :=
                  (overwrite (binary_far_history handle) 1 (take n (binary_far_history handle)))[0 := binary_far_spectrum],
                far_bit_counts :=
                  (overwrite (far_bit_counts handle) 1 (take n (far_bit_counts handle)))[0 := BitCount binary_far_spectrum]\<rparr>)"

section \<open>The near end\<close>

text \<open>
  \<open>near_ok\<close>: the three reallocations succeed. \<open>mean_bit_counts\<close> and \<open>histogram\<close> have one element more; when
  the buffers grow, the code zeroes from the old size on, which leaves that last element as \<open>realloc\<close>
  returned it (\<open>junk_mean\<close>, \<open>junk_hist\<close>).
\<close>

definition resize1 :: "'a \<Rightarrow> nat \<Rightarrow> nat \<Rightarrow> 'a \<Rightarrow> 'a list \<Rightarrow> 'a list" where
  "resize1 zero old n junk xs =
     (if n > old then take old xs @ replicate (n - old) zero @ [junk] else take (n + 1) xs)"

definition WebRtc_AllocateHistoryBufferMemory ::
  "'f float_ops \<Rightarrow> bool \<Rightarrow> bool \<Rightarrow> int \<Rightarrow> 'f \<Rightarrow> BinaryDelayEstimatorFarend \<Rightarrow> 'f BinaryDelayEstimator \<Rightarrow> nat
     \<Rightarrow> BinaryDelayEstimatorFarend \<times> 'f BinaryDelayEstimator \<times> nat" where
  "WebRtc_AllocateHistoryBufferMemory F far_ok near_ok junk_mean junk_hist far self new_size =
     (let (far, n) = (if new_size \<noteq> far_history_size far
                      then WebRtc_AllocateFarendBufferMemory far_ok far new_size else (far, new_size))
      in if near_ok
         then (far, self\<lparr>mean_bit_counts := resize1 0 (history_size self) n junk_mean (mean_bit_counts self),
                         bit_counts := resize0 n (bit_counts self),
                         histogram := resize1 (f_int F 0) (history_size self) n junk_hist (histogram self),
                         history_size := n\<rparr>, n)
         else (far, self\<lparr>mean_bit_counts := [], bit_counts := [], histogram := [], history_size := 0\<rparr>, 0))"

definition WebRtc_FreeBinaryDelayEstimator :: "'f BinaryDelayEstimator option \<Rightarrow> 'f BinaryDelayEstimator option" where
  "WebRtc_FreeBinaryDelayEstimator self = None"

text \<open>\<open>raw\<close> is the memory \<open>malloc\<close> returned: the fields not set here keep its contents.\<close>

definition WebRtc_CreateBinaryDelayEstimator ::
  "'f float_ops \<Rightarrow> bool \<Rightarrow> bool \<Rightarrow> bool \<Rightarrow> bool \<Rightarrow> 'f BinaryDelayEstimator
     \<Rightarrow> BinaryDelayEstimatorFarend option \<Rightarrow> int \<Rightarrow> 'f BinaryDelayEstimator option" where
  "WebRtc_CreateBinaryDelayEstimator F malloc_ok malloc_near far_ok near_ok raw farend max_lookahead =
     (case farend of
        None \<Rightarrow> None
      | Some far \<Rightarrow>
          if max_lookahead < 0 \<or> \<not> malloc_ok then None
          else let self = raw\<lparr>near_history_size := nat (max_lookahead + 1), history_size := 0,
                              robust_validation_enabled := 0, allowed_offset := 0, lookahead := max_lookahead,
                              mean_bit_counts := [], bit_counts := [], histogram := [],
                              binary_near_history := take (nat (max_lookahead + 1)) (binary_near_history raw)\<rparr>
               in if \<not> malloc_near then WebRtc_FreeBinaryDelayEstimator (Some self)
                  else let (far, self, n) = WebRtc_AllocateHistoryBufferMemory F far_ok near_ok 0
                             (last_delay_histogram raw) far self (far_history_size far)
                       in if n = 0 then WebRtc_FreeBinaryDelayEstimator (Some self) else Some self)"

definition WebRtc_InitBinaryDelayEstimator :: "'f float_ops \<Rightarrow> 'f BinaryDelayEstimator \<Rightarrow> 'f BinaryDelayEstimator" where
  "WebRtc_InitBinaryDelayEstimator F self =
     self\<lparr>bit_counts := replicate (history_size self) 0,
          binary_near_history := replicate (near_history_size self) 0,
          mean_bit_counts := replicate (history_size self + 1) 10240,
          histogram := replicate (history_size self + 1) (f_int F 0),
          minimum_probability := kMaxBitCountsQ9, last_delay_probability := kMaxBitCountsQ9,
          last_delay := - 2, last_candidate_delay := - 2, compare_delay := int (history_size self),
          candidate_hits := 0, last_delay_histogram := f_int F 0\<rparr>"

definition WebRtc_SoftResetBinaryDelayEstimator :: "'f BinaryDelayEstimator \<Rightarrow> int \<Rightarrow> 'f BinaryDelayEstimator \<times> int" where
  "WebRtc_SoftResetBinaryDelayEstimator self delay_shift =
     (let old = lookahead self;
          la = s32 (lookahead self - delay_shift);
          la = (if la < 0 then 0 else la);
          la = (if la > int (near_history_size self) - 1 then int (near_history_size self) - 1 else la)
      in (self\<lparr>lookahead := la\<rparr>, s32 (old - la)))"

section \<open>One frame\<close>

text \<open>The smoothed bit counts, delay by delay.\<close>

definition smooth_counts :: "int list \<Rightarrow> int list \<Rightarrow> int list \<Rightarrow> int list" where
  "smooth_counts far_counts counts means =
     map2 (\<lambda>(far, count) mean.
         if far > 0
         then let shifts = kShiftsAtZero - sar (kShiftsLinearSlope * far) 4
              in WebRtc_MeanEstimatorFix (shl32 count 9) (nat shifts) mean
         else mean)
       (zip far_counts counts) means"

text \<open>The best value and its index, the worst value.\<close>

definition find_candidate :: "int list \<Rightarrow> int \<times> int \<times> int" where
  "find_candidate means =
     foldl (\<lambda>(candidate_delay, best, worst) (i, m).
         let (candidate_delay, best) = (if m < best then (int i, m) else (candidate_delay, best));
             worst = (if m > worst then m else worst)
         in (candidate_delay, best, worst))
       (- 1, kMaxBitCountsQ9, 0) (enumerate 0 means)"

definition update_minimum_probability :: "int \<Rightarrow> int \<Rightarrow> int \<Rightarrow> int" where
  "update_minimum_probability minimum best valley_depth =
     (if minimum > kProbabilityLowerLimit \<and> valley_depth > kProbabilityMinSpread
      then let threshold = best + kProbabilityOffset;
               threshold = (if threshold < kProbabilityLowerLimit then kProbabilityLowerLimit else threshold)
           in if minimum > threshold then threshold else minimum
      else minimum)"

text \<open>What is stored when the candidate is accepted.\<close>

definition accept_candidate :: "'f float_ops \<Rightarrow> 'f BinaryDelayEstimator \<Rightarrow> int \<Rightarrow> int \<Rightarrow> 'f BinaryDelayEstimator" where
  "accept_candidate F self candidate_delay best =
     (let h = histogram self ! nat candidate_delay;
          self = (if candidate_delay \<noteq> last_delay self
                  then let self = self\<lparr>last_delay_histogram :=
                                    (if f_less F (kLastHistogramMax F) h then kLastHistogramMax F else h)\<rparr>
                       in if f_less F h (histogram self ! nat (compare_delay self))
                          then self\<lparr>histogram := (histogram self)[nat (compare_delay self) := h]\<rparr> else self
                  else self);
          self = self\<lparr>last_delay := candidate_delay\<rparr>;
          self = (if best < last_delay_probability self then self\<lparr>last_delay_probability := best\<rparr> else self)
      in self\<lparr>compare_delay := last_delay self\<rparr>)"

text \<open>The near-end spectrum to compare: the one of \<open>lookahead\<close> frames ago.\<close>

definition delay_near :: "'f BinaryDelayEstimator \<Rightarrow> int \<Rightarrow> 'f BinaryDelayEstimator \<times> int" where
  "delay_near self binary_near_spectrum =
     (if near_history_size self > 1
      then let nh = (overwrite (binary_near_history self) 1
                       (take (near_history_size self - 1) (binary_near_history self)))[0 := binary_near_spectrum]
           in (self\<lparr>binary_near_history := nh\<rparr>, nh ! nat (lookahead self))
      else (self, binary_near_spectrum))"

text \<open>The bit counts of all delays and their smoothed versions.\<close>

definition update_counts :: "BinaryDelayEstimatorFarend \<Rightarrow> int \<Rightarrow> 'f BinaryDelayEstimator \<Rightarrow> 'f BinaryDelayEstimator" where
  "update_counts far near self =
     (let n = history_size self;
          self = self\<lparr>bit_counts := BitCountComparison near (take n (binary_far_history far))\<rparr>;
          means = smooth_counts (take n (far_bit_counts far)) (bit_counts self) (take n (mean_bit_counts self))
      in self\<lparr>mean_bit_counts := overwrite (mean_bit_counts self) 0 means\<rparr>)"

text \<open>The candidate search, the thresholds, the validation and the update of the delay.\<close>

definition track_candidate :: "'f float_ops \<Rightarrow> 'f BinaryDelayEstimator \<Rightarrow> 'f BinaryDelayEstimator" where
  "track_candidate F self =
     (let (candidate_delay, best, worst) = find_candidate (take (history_size self) (mean_bit_counts self));
          valley_depth = worst - best;
          self = self\<lparr>minimum_probability := update_minimum_probability (minimum_probability self) best valley_depth\<rparr>;
          self = self\<lparr>last_delay_probability := s32 (last_delay_probability self + 1)\<rparr>;
          valid_candidate = (valley_depth > kProbabilityOffset \<and>
            (best < minimum_probability self \<or> best < last_delay_probability self));
          self = UpdateRobustValidationStatistics F self candidate_delay valley_depth best;
          valid_candidate =
            (if robust_validation_enabled self \<noteq> 0
             then RobustValidation F self candidate_delay valid_candidate (HistogramBasedValidation F self candidate_delay)
             else valid_candidate)
      in if valid_candidate then accept_candidate F self candidate_delay best else self)"

definition WebRtc_ProcessBinarySpectrum ::
  "'f float_ops \<Rightarrow> BinaryDelayEstimatorFarend \<Rightarrow> 'f BinaryDelayEstimator \<Rightarrow> int \<Rightarrow> 'f BinaryDelayEstimator \<times> int" where
  "WebRtc_ProcessBinarySpectrum F far self binary_near_spectrum =
     (if far_history_size far \<noteq> history_size self then (self, - 1)
      else let (self, near) = delay_near self binary_near_spectrum;
               self = track_candidate F (update_counts far near self)
           in (self, last_delay self))"

definition WebRtc_binary_last_delay :: "'f BinaryDelayEstimator \<Rightarrow> int" where
  "WebRtc_binary_last_delay self = last_delay self"

definition WebRtc_binary_last_delay_quality :: "'f float_ops \<Rightarrow> 'f BinaryDelayEstimator \<Rightarrow> 'f" where
  "WebRtc_binary_last_delay_quality F self =
     (if robust_validation_enabled self \<noteq> 0
      then f_div F (histogram self ! nat (compare_delay self)) (kHistogramMax F)
      else let quality = f_div F (f_int F (kMaxBitCountsQ9 - last_delay_probability self)) (f_int F kMaxBitCountsQ9)
           in if f_less F quality (f_int F 0) then f_int F 0 else quality)"

section \<open>The bit count is the population count\<close>

lemma BitCount_popc:
  assumes "0 \<le> u" "u < 4294967296"
  shows "BitCount u = popc 33 u"
proof -
  let ?ds = "digits 3 11 u"
  have u: "dval 3 ?ds = u" using assms dval_digits [of u 3 11] by simp
  obtain d0 d1 d2 d3 d4 d5 d6 d7 d8 d9 d10 where ds: "?ds = [d0, d1, d2, d3, d4, d5, d6, d7, d8, d9, d10]"
    using list_of_eleven [OF length_digits [of 3 11 u]] .
  have oct: "\<forall>d\<in>set ?ds. oct_ok d" by (rule digits_oct)
  have top: "d10 < 4"
  proof -
    have "0 \<le> dval 3 [d0, d1, d2, d3, d4, d5, d6, d7, d8, d9]"
      using oct unfolding ds oct_ok_def by simp
    moreover have "dval 3 [d0, d1, d2, d3, d4, d5, d6, d7, d8, d9] + 1073741824 * d10 = u"
      using u unfolding ds by simp
    ultimately show ?thesis using assms(2) by linarith
  qed
  define p0 p1 p2 p3 p4 p5 p6 p7 p8 p9 p10
    where "p0 = pc3 d0" and "p1 = pc3 d1" and "p2 = pc3 d2" and "p3 = pc3 d3" and "p4 = pc3 d4" and "p5 = pc3 d5"
      and "p6 = pc3 d6" and "p7 = pc3 d7" and "p8 = pc3 d8" and "p9 = pc3 d9" and "p10 = pc3 d10"
  note p_defs = p0_def p1_def p2_def p3_def p4_def p5_def p6_def p7_def p8_def p9_def p10_def
  have p: "0 \<le> p0" "p0 \<le> 3" "0 \<le> p1" "p1 \<le> 3" "0 \<le> p2" "p2 \<le> 3" "0 \<le> p3" "p3 \<le> 3" "0 \<le> p4" "p4 \<le> 3"
    "0 \<le> p5" "p5 \<le> 3" "0 \<le> p6" "p6 \<le> 3" "0 \<le> p7" "p7 \<le> 3" "0 \<le> p8" "p8 \<le> 3" "0 \<le> p9" "p9 \<le> 3" "0 \<le> p10"
    unfolding p_defs using oct pc3_range unfolding ds by auto
  have p10: "p10 \<le> 2"
  proof -
    have "d10 = 0 \<or> d10 = 1 \<or> d10 = 2 \<or> d10 = 3" using oct top unfolding ds oct_ok_def by auto
    then show ?thesis unfolding p10_def by (elim disjE) (simp_all add: pc3_def)
  qed
  let ?ps = "dval 3 [p0, p1, p2, p3, p4, p5, p6, p7, p8, p9, p10]"
  have "u - (sar u 1 AND 3681400539) - (sar u 2 AND 1227133513) = ?ps"
    using octal_counts [OF oct] unfolding u unfolding ds p_defs by simp
  moreover have "u32 ?ps = ?ps" using p p10 by (simp add: u32_def mod_pos_pos_trivial)
  ultimately have t1: "u32 (u - (sar u 1 AND 3681400539) - (sar u 2 AND 1227133513)) = ?ps" by simp
  have s3: "sar ?ps 3 = dval 3 [p1, p2, p3, p4, p5, p6, p7, p8, p9, p10]"
    using shift_sum [of p0 3 "dval 3 [p1, p2, p3, p4, p5, p6, p7, p8, p9, p10]"] p by simp
  let ?qs = "dval 3 [p0 + p1, p1 + p2, p2 + p3, p3 + p4, p4 + p5, p5 + p6, p6 + p7, p7 + p8, p8 + p9, p9 + p10, p10]"
  have A: "?ps + sar ?ps 3 = ?qs" unfolding s3 by simp
  have B: "u32 ?qs = ?qs" using p p10 by (simp add: u32_def mod_pos_pos_trivial)
  have t2: "u32 (?ps + sar ?ps 3) AND 3340530119 = dval 6 [p0 + p1, p2 + p3, p4 + p5, p6 + p7, p8 + p9, p10]"
    unfolding A B by (rule and_pairs) (use p p10 in auto)
  have "BitCount u = p0 + p1 + (p2 + p3) + (p4 + p5) + (p6 + p7) + (p8 + p9) + p10"
    unfolding BitCount_def Let_def t1 t2 by (rule base64_sum) (use p p10 in auto)
  also have "\<dots> = popc 33 u"
    using popc_dval [OF oct] unfolding u length_digits unfolding ds p_defs by simp
  finally show ?thesis .
qed

lemma numeral_33_eq: "(33 :: nat) = Suc 32"
  by simp

lemma BitCount_bits:
  assumes "0 \<le> u" "u < 4294967296"
  shows "BitCount u = (\<Sum>i<32. of_bool (bit u i))"
proof -
  have "\<not> bit u 32" using assms by (simp add: bit_iff_odd)
  moreover have "(\<Sum>i<33. of_bool (bit u i)) = (\<Sum>i<32. of_bool (bit u i)) + (of_bool (bit u 32) :: int)"
    using sum.lessThan_Suc [of "\<lambda>i. of_bool (bit u i)" 32] by (simp only: numeral_33_eq)
  ultimately show ?thesis unfolding BitCount_popc [OF assms] popc_sum_bits by simp
qed

lemma BitCount_range:
  assumes "0 \<le> u" "u < 4294967296"
  shows "0 \<le> BitCount u \<and> BitCount u \<le> 32"
proof -
  have "(\<Sum>i<32. of_bool (bit u i) :: int) \<le> (\<Sum>i<(32::nat). 1)" by (intro sum_mono) simp
  moreover have "0 \<le> (\<Sum>i<32. of_bool (bit u i) :: int)" by (intro sum_nonneg) simp
  ultimately show ?thesis unfolding BitCount_bits [OF assms] by simp
qed

section \<open>The smoothed counts\<close>

lemma MeanEstimatorFix_rise:
  assumes "0 \<le> m" "m \<le> x" "x \<le> 16384"
  shows "WebRtc_MeanEstimatorFix x k m = m + (x - m) div 2 ^ k"
proof -
  have "0 \<le> (x - m) div 2 ^ k" using assms by (simp add: pos_imp_zdiv_nonneg_iff)
  moreover have "(x - m) div 2 ^ k \<le> x - m" using assms by (intro div_pow_le) simp
  ultimately show ?thesis using assms
    unfolding WebRtc_MeanEstimatorFix_def Let_def sar_def by (simp add: is32_def)
qed

lemma MeanEstimatorFix_fall:
  assumes "0 \<le> x" "x < m" "m \<le> 16384"
  shows "WebRtc_MeanEstimatorFix x k m = m - (m - x) div 2 ^ k"
proof -
  have "0 \<le> (m - x) div 2 ^ k" using assms by (simp add: pos_imp_zdiv_nonneg_iff)
  moreover have "(m - x) div 2 ^ k \<le> m - x" using assms by (intro div_pow_le) simp
  ultimately show ?thesis using assms
    unfolding WebRtc_MeanEstimatorFix_def Let_def sar_def by (simp add: is32_def)
qed

lemma MeanEstimatorFix_between:
  assumes "0 \<le> m" "m \<le> 16384" "0 \<le> x" "x \<le> 16384"
  shows "min m x \<le> WebRtc_MeanEstimatorFix x k m \<and> WebRtc_MeanEstimatorFix x k m \<le> max m x"
proof (cases "m \<le> x")
  case True
  have "0 \<le> (x - m) div 2 ^ k" using True by (simp add: pos_imp_zdiv_nonneg_iff)
  moreover have "(x - m) div 2 ^ k \<le> x - m" using True by (intro div_pow_le) simp
  ultimately show ?thesis using MeanEstimatorFix_rise [OF assms(1) True assms(4), of k] True by simp
next
  case False
  have "0 \<le> (m - x) div 2 ^ k" using False by (simp add: pos_imp_zdiv_nonneg_iff)
  moreover have "(m - x) div 2 ^ k \<le> m - x" using False by (intro div_pow_le) simp
  ultimately show ?thesis using MeanEstimatorFix_fall [of x m k] False assms by simp
qed

text \<open>With at least one shift the mean never reaches \<open>kMaxBitCountsQ9\<close>, so a candidate is always found.\<close>

lemma MeanEstimatorFix_below_max:
  assumes "0 \<le> m" "m < 16384" "0 \<le> x" "x \<le> 16384" "0 < k"
  shows "WebRtc_MeanEstimatorFix x k m < 16384"
proof (cases "m \<le> x")
  case True
  have "(x - m) div 2 ^ k \<le> (x - m) div 2"
    using True assms(5) power_increasing [of 1 k "2 :: int"] by (intro zdiv_mono2) simp_all
  moreover have "2 * ((x - m) div 2) \<le> x - m" by simp
  ultimately show ?thesis using MeanEstimatorFix_rise [OF assms(1) True assms(4), of k] assms by simp
next
  case False
  then show ?thesis using MeanEstimatorFix_between [of m x k] assms by simp
qed

lemma smooth_shifts:
  assumes "0 < c" "c \<le> 32"
  shows "7 \<le> kShiftsAtZero - sar (kShiftsLinearSlope * c) 4"
    "kShiftsAtZero - sar (kShiftsLinearSlope * c) 4 \<le> 13"
proof -
  have "3 * c div 16 \<le> 6" "0 \<le> 3 * c div 16" using assms by simp_all
  then show "7 \<le> kShiftsAtZero - sar (kShiftsLinearSlope * c) 4"
    "kShiftsAtZero - sar (kShiftsLinearSlope * c) 4 \<le> 13"
    by (simp_all add: kShiftsAtZero_def kShiftsLinearSlope_def sar_def)
qed

lemma length_smooth_counts [simp]:
  "length (smooth_counts fc bc ms) = min (min (length fc) (length bc)) (length ms)"
  by (simp add: smooth_counts_def)

lemma smooth_counts_range:
  assumes "\<forall>c\<in>set fc. 0 \<le> c \<and> c \<le> 32" "\<forall>b\<in>set bc. 0 \<le> b \<and> b \<le> 32" "\<forall>m\<in>set ms. 0 \<le> m \<and> m < 16384"
  shows "\<forall>m\<in>set (smooth_counts fc bc ms). 0 \<le> m \<and> m < 16384"
proof
  fix r assume "r \<in> set (smooth_counts fc bc ms)"
  then obtain i where i: "i < length fc" "i < length bc" "i < length ms"
    and ri: "r = smooth_counts fc bc ms ! i" by (auto simp: in_set_conv_nth)
  define c b m where "c = fc ! i" and "b = bc ! i" and "m = ms ! i"
  have m: "c \<in> set fc" "b \<in> set bc" "m \<in> set ms"
    and r: "r = (if c > 0 then WebRtc_MeanEstimatorFix (shl32 b 9)
                   (nat (kShiftsAtZero - sar (kShiftsLinearSlope * c) 4)) m else m)"
    using i ri unfolding smooth_counts_def c_def b_def m_def by (simp_all add: Let_def)
  show "0 \<le> r \<and> r < 16384"
  proof (cases "c > 0")
    case False
    then show ?thesis using r m assms(3) by simp
  next
    case True
    have x: "0 \<le> shl32 b 9" "shl32 b 9 \<le> 16384"
      using bspec [OF assms(2) m(2)] by (simp_all add: shl32_def is32_def)
    have "0 < nat (kShiftsAtZero - sar (kShiftsLinearSlope * c) 4)"
      using smooth_shifts(1) [OF True] assms(1) m(1) by auto
    then have "WebRtc_MeanEstimatorFix (shl32 b 9) (nat (kShiftsAtZero - sar (kShiftsLinearSlope * c) 4)) m < 16384"
      using assms(3) m x by (intro MeanEstimatorFix_below_max) auto
    moreover have "0 \<le> WebRtc_MeanEstimatorFix (shl32 b 9) (nat (kShiftsAtZero - sar (kShiftsLinearSlope * c) 4)) m"
    proof -
      have "0 \<le> m" "m \<le> 16384" using bspec [OF assms(3) m(3)] by simp_all
      then show ?thesis using MeanEstimatorFix_between [of m "shl32 b 9"] x by (smt (verit) min_def)
    qed
    ultimately show ?thesis using True r by simp
  qed
qed

section \<open>The candidate\<close>

text \<open>The first index of the smallest value, that value, and the largest value.\<close>

lemma enumerate_snoc: "enumerate k (xs @ [x]) = enumerate k xs @ [(k + length xs, x)]"
  by (induction xs arbitrary: k) simp_all

lemma find_candidate_spec:
  assumes "\<forall>m\<in>set ms. 0 \<le> m \<and> m < 16384" "ms \<noteq> []" "find_candidate ms = (c, b, w)"
  shows "0 \<le> c \<and> c < int (length ms) \<and> b = ms ! nat c \<and> (\<forall>m\<in>set ms. b \<le> m \<and> m \<le> w) \<and>
    (\<forall>i<nat c. b < ms ! i) \<and> w \<in> set ms \<union> {0}"
  using assms
proof (induction ms arbitrary: c b w rule: rev_induct)
  case Nil
  then show ?case by simp
next
  case (snoc m ms)
  obtain c0 b0 w0 where r: "find_candidate ms = (c0, b0, w0)" by (metis prod_cases3)
  have step: "c = (if m < b0 then int (length ms) else c0)" "b = (if m < b0 then m else b0)" "w = (if m > w0 then m else w0)"
    using snoc.prems(3) r unfolding find_candidate_def by (simp_all add: enumerate_snoc Let_def split: if_splits)
  show ?case
  proof (cases "ms = []")
    case True
    then have "c0 = - 1" "b0 = 16384" "w0 = 0" using r by (simp_all add: find_candidate_def kMaxBitCountsQ9_def)
    then show ?thesis using step snoc.prems(1) True by auto
  next
    case False
    have IH: "0 \<le> c0" "c0 < int (length ms)" "b0 = ms ! nat c0" "\<forall>m\<in>set ms. b0 \<le> m \<and> m \<le> w0"
      "\<forall>i<nat c0. b0 < ms ! i" "w0 \<in> set ms \<union> {0}"
      using snoc.IH [OF _ False r] snoc.prems(1) by auto
    have sm: "set (ms @ [m]) = insert m (set ms)" by simp
    show ?thesis
    proof (cases "m < b0")
      case True
      have below: "\<forall>x\<in>set ms. m < x" using IH(4) True by fastforce
      then have "\<forall>i<length ms. m < ms ! i" by simp
      moreover have "\<forall>x\<in>set ms. m \<le> x" using below by fastforce
      ultimately
      show ?thesis using step True IH unfolding sm by (auto simp: nth_append)
    next
      case False
      have "nat c0 < length ms" using IH(1,2) by simp
      then show ?thesis using step False IH unfolding sm by (auto simp: nth_append)
    qed
  qed
qed

section \<open>The far-end invariant\<close>

text \<open>The bit counts are those of the kept spectra, which are 32-bit words.\<close>

definition far_inv :: "BinaryDelayEstimatorFarend \<Rightarrow> bool" where
  "far_inv far \<longleftrightarrow> far_history_size far > 0 \<and> length (binary_far_history far) = far_history_size far \<and>
     far_bit_counts far = map BitCount (binary_far_history far) \<and>
     (\<forall>u\<in>set (binary_far_history far). 0 \<le> u \<and> u < 4294967296)"

lemma BitCount_0 [simp]: "BitCount 0 = 0"
  using BitCount_popc [of 0] by simp

lemma push_front:
  assumes "0 < length xs"
  shows "(overwrite xs 1 (take (length xs - 1) xs))[0 := x] = x # butlast xs"
  using assms by (cases xs) (simp_all add: overwrite_def butlast_conv_take)

lemma AddBinaryFarSpectrum_ok:
  assumes "far_inv far" "0 \<le> u" "u < 4294967296"
  shows "far_inv (WebRtc_AddBinaryFarSpectrum far u)"
    and "binary_far_history (WebRtc_AddBinaryFarSpectrum far u) = u # butlast (binary_far_history far)"
    and "far_history_size (WebRtc_AddBinaryFarSpectrum far u) = far_history_size far"
proof -
  have n: "0 < length (binary_far_history far)" "far_history_size far = length (binary_far_history far)"
    "far_bit_counts far = map BitCount (binary_far_history far)"
    using assms(1) by (simp_all add: far_inv_def)
  have h: "binary_far_history (WebRtc_AddBinaryFarSpectrum far u) = u # butlast (binary_far_history far)"
    using push_front [OF n(1), of u] n(2) by (simp add: WebRtc_AddBinaryFarSpectrum_def Let_def)
  have "far_bit_counts (WebRtc_AddBinaryFarSpectrum far u) = map BitCount (u # butlast (binary_far_history far))"
  proof -
    have "far_bit_counts (WebRtc_AddBinaryFarSpectrum far u) =
        (overwrite (far_bit_counts far) 1 (take (length (far_bit_counts far) - 1) (far_bit_counts far)))[0 := BitCount u]"
      using n(3) by (simp add: WebRtc_AddBinaryFarSpectrum_def Let_def n(2))
    also have "\<dots> = BitCount u # butlast (far_bit_counts far)" using n by (intro push_front) simp
    finally show ?thesis using n(3) by (simp add: map_butlast)
  qed
  moreover have s: "far_history_size (WebRtc_AddBinaryFarSpectrum far u) = far_history_size far"
    by (simp add: WebRtc_AddBinaryFarSpectrum_def Let_def)
  ultimately show "far_inv (WebRtc_AddBinaryFarSpectrum far u)"
    using assms n(1) unfolding far_inv_def h s by (auto dest: in_set_butlastD)
  show "binary_far_history (WebRtc_AddBinaryFarSpectrum far u) = u # butlast (binary_far_history far)" by (rule h)
  show "far_history_size (WebRtc_AddBinaryFarSpectrum far u) = far_history_size far" by (rule s)
qed

text \<open>A soft reset shifts both arrays and fills with zeros.\<close>

definition shifted :: "int \<Rightarrow> 'a::zero list \<Rightarrow> 'a list" where
  "shifted k xs = (if k > 0 then replicate (nat k) 0 @ take (length xs - nat k) xs
                   else drop (nat (- k)) xs @ replicate (nat (- k)) 0)"

lemma move_right:
  assumes "k \<le> length xs"
  shows "move_and_pad k 0 (length xs - k) 0 k xs = replicate k 0 @ take (length xs - k) xs"
  using assms by (simp add: move_and_pad_def overwrite_def)

lemma move_left:
  assumes "k \<le> length xs"
  shows "move_and_pad 0 k (length xs - k) (length xs - k) k xs = drop k xs @ replicate k 0"
  using assms by (simp add: move_and_pad_def overwrite_def)

lemma map_shifted: "f 0 = 0 \<Longrightarrow> map f (shifted k xs) = shifted k (map f xs)"
  by (simp add: shifted_def take_map drop_map)

lemma length_shifted: "\<bar>k\<bar> \<le> int (length xs) \<Longrightarrow> length (shifted k xs) = length xs"
  by (auto simp: shifted_def)

lemma SoftResetFarend_shifts:
  assumes "far_inv far" "\<bar>k\<bar> < int (far_history_size far)"
  shows "WebRtc_SoftResetBinaryDelayEstimatorFarend far k =
      far\<lparr>binary_far_history := shifted k (binary_far_history far),
          far_bit_counts := shifted k (far_bit_counts far)\<rparr>"
proof -
  have n: "far_history_size far = length (binary_far_history far)" "length (far_bit_counts far) = length (binary_far_history far)"
    using assms(1) by (simp_all add: far_inv_def)
  consider "k = 0" | "k > 0" | "k < 0" by linarith
  then show ?thesis
  proof cases
    case 1
    then show ?thesis by (simp add: WebRtc_SoftResetBinaryDelayEstimatorFarend_def shifted_def Let_def)
  next
    case 2
    then have "nat k \<le> length (binary_far_history far)" using assms(2) n by linarith
    then show ?thesis using 2 n move_right [of "nat k" "binary_far_history far"] move_right [of "nat k" "far_bit_counts far"]
      by (simp add: WebRtc_SoftResetBinaryDelayEstimatorFarend_def shifted_def Let_def)
  next
    case 3
    then have "nat (- k) \<le> length (binary_far_history far)" using assms(2) n by linarith
    then show ?thesis using 3 n move_left [of "nat (- k)" "binary_far_history far"] move_left [of "nat (- k)" "far_bit_counts far"]
      by (simp add: WebRtc_SoftResetBinaryDelayEstimatorFarend_def shifted_def Let_def)
  qed
qed

lemma SoftResetFarend_ok:
  assumes "far_inv far" "\<bar>k\<bar> < int (far_history_size far)"
  shows "far_inv (WebRtc_SoftResetBinaryDelayEstimatorFarend far k)"
proof -
  have s: "set (shifted k xs) \<subseteq> insert 0 (set xs)" for xs :: "int list"
    unfolding shifted_def by (auto dest: in_set_takeD in_set_dropD)
  show ?thesis unfolding SoftResetFarend_shifts [OF assms]
    using assms s [of "binary_far_history far"] unfolding far_inv_def
    by (auto simp: map_shifted length_shifted)
qed

section \<open>The near-end invariant\<close>

definition de_inv :: "'f BinaryDelayEstimator \<Rightarrow> bool" where
  "de_inv self \<longleftrightarrow>
     history_size self > 0 \<and> near_history_size self > 0 \<and>
     length (mean_bit_counts self) = history_size self + 1 \<and>
     length (histogram self) = history_size self + 1 \<and>
     length (bit_counts self) = history_size self \<and>
     length (binary_near_history self) = near_history_size self \<and>
     (\<forall>u\<in>set (binary_near_history self). 0 \<le> u \<and> u < 4294967296) \<and>
     (\<forall>m\<in>set (mean_bit_counts self). 0 \<le> m \<and> m < 16384) \<and>
     (\<forall>c\<in>set (bit_counts self). 0 \<le> c \<and> c \<le> 32) \<and>
     (last_delay self = - 2 \<or> 0 \<le> last_delay self \<and> last_delay self < int (history_size self)) \<and>
     0 \<le> compare_delay self \<and> compare_delay self \<le> int (history_size self) \<and>
     0 \<le> lookahead self \<and> lookahead self < int (near_history_size self)"

lemma Create_Init_ok:
  assumes "far_inv far" "0 \<le> max_lookahead" "int (far_history_size far) < 2147483647"
    "length (binary_near_history raw) \<ge> nat (max_lookahead + 1)"
    "WebRtc_CreateBinaryDelayEstimator F True True True True raw (Some far) max_lookahead = Some self"
  shows "de_inv (WebRtc_InitBinaryDelayEstimator F self)"
    and "history_size self = far_history_size far" "near_history_size self = nat (max_lookahead + 1)"
proof -
  have e: "history_size self = far_history_size far" "near_history_size self = nat (max_lookahead + 1)"
    "lookahead self = max_lookahead"
    using assms(1,2,5) unfolding WebRtc_CreateBinaryDelayEstimator_def WebRtc_AllocateHistoryBufferMemory_def
    by (auto simp: Let_def far_inv_def split: if_splits)
  then show "history_size self = far_history_size far" "near_history_size self = nat (max_lookahead + 1)" by simp_all
  show "de_inv (WebRtc_InitBinaryDelayEstimator F self)"
    using assms(1,2) e unfolding de_inv_def WebRtc_InitBinaryDelayEstimator_def far_inv_def by simp
qed

lemma SoftReset_ok:
  assumes "de_inv self" "\<bar>k\<bar> < 1073741824" "near_history_size self < 1073741824"
  shows "de_inv (fst (WebRtc_SoftResetBinaryDelayEstimator self k))"
    and "snd (WebRtc_SoftResetBinaryDelayEstimator self k) =
      lookahead self - lookahead (fst (WebRtc_SoftResetBinaryDelayEstimator self k))"
    and "lookahead (fst (WebRtc_SoftResetBinaryDelayEstimator self k)) =
      max 0 (min (int (near_history_size self) - 1) (lookahead self - k))"
proof -
  have l: "0 \<le> lookahead self" "lookahead self < int (near_history_size self)" "0 < near_history_size self"
    using assms(1) by (simp_all add: de_inv_def)
  have n: "lookahead self < 1073741824" using assms(3) l by linarith
  have N: "int (near_history_size self) < 1073741824" using assms(3) by linarith
  have k: "s32 k = k" using assms(2) by (intro s32_id) (simp add: is32_def abs_less_iff)
  have e: "s32 (lookahead self - (int (near_history_size self) - 1)) = lookahead self - (int (near_history_size self) - 1)"
    using l(1,2) N by (intro s32_id) (simp add: is32_def)
  have d: "s32 (lookahead self - k) = lookahead self - k" using l(1) n assms(2) by (intro s32_id) (simp add: is32_def abs_less_iff)
  show la: "lookahead (fst (WebRtc_SoftResetBinaryDelayEstimator self k)) =
      max 0 (min (int (near_history_size self) - 1) (lookahead self - k))"
    using l d unfolding WebRtc_SoftResetBinaryDelayEstimator_def Let_def by simp
  show "snd (WebRtc_SoftResetBinaryDelayEstimator self k) =
      lookahead self - lookahead (fst (WebRtc_SoftResetBinaryDelayEstimator self k))"
    using l n k e d unfolding WebRtc_SoftResetBinaryDelayEstimator_def Let_def by (simp add: is32_def)
  have "fst (WebRtc_SoftResetBinaryDelayEstimator self k) =
      self\<lparr>lookahead := max 0 (min (int (near_history_size self) - 1) (lookahead self - k))\<rparr>"
    using la unfolding WebRtc_SoftResetBinaryDelayEstimator_def Let_def by simp
  then show "de_inv (fst (WebRtc_SoftResetBinaryDelayEstimator self k))"
    using assms(1) l unfolding de_inv_def by simp
qed

text \<open>The steps of one frame.\<close>

lemma delay_near_ok:
  assumes "de_inv self" "0 \<le> u" "u < 4294967296" "delay_near self u = (s, near)"
  shows "de_inv s" "0 \<le> near \<and> near < 4294967296" "history_size s = history_size self"
    "near = (u # butlast (binary_near_history self)) ! nat (lookahead self)"
proof -
  have l: "0 \<le> lookahead self" "lookahead self < int (length (binary_near_history self))"
    "near_history_size self = length (binary_near_history self)" "0 < length (binary_near_history self)"
    "\<forall>v\<in>set (binary_near_history self). 0 \<le> v \<and> v < 4294967296"
    using assms(1) by (simp_all add: de_inv_def)
  let ?nh = "u # butlast (binary_near_history self)"
  have nh: "length ?nh = length (binary_near_history self)" "\<forall>v\<in>set ?nh. 0 \<le> v \<and> v < 4294967296"
    using l assms(2,3) by (auto dest: in_set_butlastD)
  have "near = ?nh ! nat (lookahead self) \<and> (s = self \<or> s = self\<lparr>binary_near_history := ?nh\<rparr>)"
    using assms(4) l push_front [OF l(4), of u] unfolding delay_near_def Let_def by (auto split: if_splits)
  moreover have "?nh ! nat (lookahead self) \<in> set ?nh" using l nh(1) by (intro nth_mem) simp
  moreover have "de_inv (self\<lparr>binary_near_history := ?nh\<rparr>)"
    using assms(1) nh unfolding de_inv_def by simp
  ultimately show "de_inv s" "0 \<le> near \<and> near < 4294967296" "history_size s = history_size self"
    "near = (u # butlast (binary_near_history self)) ! nat (lookahead self)"
    using assms(1) nh(2) by auto
qed

lemma update_counts_ok:
  assumes "de_inv self" "far_inv far" "far_history_size far = history_size self" "0 \<le> near" "near < 4294967296"
  shows "de_inv (update_counts far near self)" "history_size (update_counts far near self) = history_size self"
    "bit_counts (update_counts far near self) = map (\<lambda>u. BitCount (near XOR u)) (binary_far_history far)"
proof -
  let ?n = "history_size self"
  let ?b = "BitCountComparison near (take ?n (binary_far_history far))"
  let ?m = "smooth_counts (take ?n (far_bit_counts far)) ?b (take ?n (mean_bit_counts self))"
  have f: "length (binary_far_history far) = ?n" "length (far_bit_counts far) = ?n"
    "far_bit_counts far = map BitCount (binary_far_history far)"
    "\<forall>u\<in>set (binary_far_history far). 0 \<le> u \<and> u < 4294967296"
    using assms(2,3) by (simp_all add: far_inv_def)
  have u: "update_counts far near self = self\<lparr>bit_counts := ?b, mean_bit_counts := overwrite (mean_bit_counts self) 0 ?m\<rparr>"
    by (simp add: update_counts_def Let_def)
  have x: "0 \<le> near XOR v \<and> near XOR v < 4294967296" if "0 \<le> v" "v < 4294967296" for v
    using assms(4,5) that XOR_upper [of near 32 v] by simp
  have b: "\<forall>c\<in>set ?b. 0 \<le> c \<and> c \<le> 32"
  proof -
    have "0 \<le> BitCount (near XOR c) \<and> BitCount (near XOR c) \<le> 32" if "c \<in> set (binary_far_history far)" for c
      using BitCount_range [of "near XOR c"] x [of c] f(4) that by blast
    then show ?thesis using f(1) by (simp add: BitCountComparison_def)
  qed
  have fc: "\<forall>c\<in>set (take ?n (far_bit_counts far)). 0 \<le> c \<and> c \<le> 32"
    using f BitCount_range by simp
  have mm: "\<forall>m\<in>set (mean_bit_counts self). 0 \<le> m \<and> m < 16384" "length (mean_bit_counts self) = ?n + 1"
    using assms(1) by (simp_all add: de_inv_def)
  then have "\<forall>m\<in>set (take ?n (mean_bit_counts self)). 0 \<le> m \<and> m < 16384" by (auto dest: in_set_takeD)
  then have m: "\<forall>m\<in>set ?m. 0 \<le> m \<and> m < 16384" by (rule smooth_counts_range [OF fc b])
  have lb: "length ?b = ?n" using f(1) by (simp add: BitCountComparison_def)
  then have lm: "length ?m = ?n" using f(2) mm(2) by simp
  then have "\<forall>m\<in>set (overwrite (mean_bit_counts self) 0 ?m). 0 \<le> m \<and> m < 16384"
    "length (overwrite (mean_bit_counts self) 0 ?m) = ?n + 1"
    using m mm by (auto simp: overwrite_def dest: in_set_dropD)
  then show "de_inv (update_counts far near self)"
    using assms(1) b lb unfolding u de_inv_def by simp
  show "history_size (update_counts far near self) = history_size self" unfolding u by simp
  show "bit_counts (update_counts far near self) = map (\<lambda>u. BitCount (near XOR u)) (binary_far_history far)"
    unfolding u using f(1) by (simp add: BitCountComparison_def)
qed

text \<open>What the robust validation changes: the histogram's values and the candidate's bookkeeping.\<close>

lemma UpdateRobust_fields:
  obtains h hits lc where "UpdateRobustValidationStatistics F self c v l =
      self\<lparr>histogram := h, candidate_hits := hits, last_candidate_delay := lc\<rparr>" "length h = length (histogram self)"
proof
  let ?r = "UpdateRobustValidationStatistics F self c v l"
  show "?r = self\<lparr>histogram := histogram ?r, candidate_hits := candidate_hits ?r, last_candidate_delay := last_candidate_delay ?r\<rparr>"
    unfolding UpdateRobustValidationStatistics_def Let_def by simp
  show "length (histogram ?r) = length (histogram self)"
    unfolding UpdateRobustValidationStatistics_def Let_def by simp
qed

lemma UpdateRobust_ok: "de_inv self \<Longrightarrow> de_inv (UpdateRobustValidationStatistics F self c v l)"
  by (rule UpdateRobust_fields [of F self c v l]) (simp add: de_inv_def)

lemma UpdateRobust_last [simp]:
  "last_delay (UpdateRobustValidationStatistics F self c v l) = last_delay self"
  "history_size (UpdateRobustValidationStatistics F self c v l) = history_size self"
  "mean_bit_counts (UpdateRobustValidationStatistics F self c v l) = mean_bit_counts self"
  "bit_counts (UpdateRobustValidationStatistics F self c v l) = bit_counts self"
  by (rule UpdateRobust_fields [of F self c v l], simp)+

lemma accept_candidate_ok:
  assumes "de_inv self" "0 \<le> c" "c < int (history_size self)"
  shows "de_inv (accept_candidate F self c b)" "last_delay (accept_candidate F self c b) = c"
    "bit_counts (accept_candidate F self c b) = bit_counts self"
  using assms unfolding de_inv_def accept_candidate_def Let_def by simp_all

text \<open>The two outcomes of one frame's search: the candidate is taken over, or nothing but the levels changes.\<close>

lemma if_cases: "(if P then x else y) = x \<or> (if P then x else y) = y"
  by simp

lemma track_candidate_ok:
  assumes "de_inv self" "find_candidate (take (history_size self) (mean_bit_counts self)) = (c, b, w)"
  shows "de_inv (track_candidate F self)" "bit_counts (track_candidate F self) = bit_counts self"
    and "last_delay (track_candidate F self) = last_delay self \<or> last_delay (track_candidate F self) = c"
    and "0 \<le> c" "c < int (history_size self)"
proof -
  have "\<forall>m\<in>set (take (history_size self) (mean_bit_counts self)). 0 \<le> m \<and> m < 16384"
    "take (history_size self) (mean_bit_counts self) \<noteq> []"
    "length (take (history_size self) (mean_bit_counts self)) = history_size self"
    using assms(1) unfolding de_inv_def by (auto dest: in_set_takeD)
  then show C: "0 \<le> c" "c < int (history_size self)" using find_candidate_spec [OF _ _ assms(2)] by simp_all
  define s1 where "s1 = self\<lparr>minimum_probability := update_minimum_probability (minimum_probability self) b (w - b)\<rparr>"
  define s2 where "s2 = s1\<lparr>last_delay_probability := s32 (last_delay_probability s1 + 1)\<rparr>"
  define s3 where "s3 = UpdateRobustValidationStatistics F s2 c (w - b) b"
  have s2: "de_inv s2" "history_size s2 = history_size self" "bit_counts s2 = bit_counts self" "last_delay s2 = last_delay self"
    using assms(1) by (simp_all add: s2_def s1_def de_inv_def)
  then have s3: "de_inv s3" "history_size s3 = history_size self" "bit_counts s3 = bit_counts self" "last_delay s3 = last_delay self"
    by (simp_all add: s3_def UpdateRobust_ok)
  have A: "de_inv (accept_candidate F s3 c b)" "last_delay (accept_candidate F s3 c b) = c"
    "bit_counts (accept_candidate F s3 c b) = bit_counts self"
    using accept_candidate_ok [OF s3(1) C(1)] C(2) s3(2,3) by simp_all
  have r: "track_candidate F self = accept_candidate F s3 c b \<or> track_candidate F self = s3"
    unfolding track_candidate_def Let_def assms(2) prod.case s1_def [symmetric] s2_def [symmetric] s3_def [symmetric]
    by (rule if_cases)
  show "de_inv (track_candidate F self)" "bit_counts (track_candidate F self) = bit_counts self"
    "last_delay (track_candidate F self) = last_delay self \<or> last_delay (track_candidate F self) = c"
    using r A s3 by auto
qed

lemma Process_mismatch:
  "far_history_size far \<noteq> history_size self \<Longrightarrow> WebRtc_ProcessBinarySpectrum F far self u = (self, - 1)"
  by (simp add: WebRtc_ProcessBinarySpectrum_def)

lemma Process_ok:
  assumes "de_inv self" "far_inv far" "far_history_size far = history_size self" "0 \<le> u" "u < 4294967296"
    and "WebRtc_ProcessBinarySpectrum F far self u = (self', d)"
  shows "de_inv self'" and "d = last_delay self'" and "d = last_delay self \<or> 0 \<le> d \<and> d < int (history_size self)"
    and "bit_counts self' = map (\<lambda>v. BitCount ((u # butlast (binary_near_history self)) ! nat (lookahead self) XOR v))
           (binary_far_history far)"
proof -
  obtain s0 near where n: "delay_near self u = (s0, near)" by (metis surj_pair)
  note N = delay_near_ok [OF assms(1,4,5) n]
  define s1 where "s1 = update_counts far near s0"
  have U: "de_inv s1" "history_size s1 = history_size self"
    "bit_counts s1 = map (\<lambda>v. BitCount (near XOR v)) (binary_far_history far)"
    unfolding s1_def using update_counts_ok [OF N(1) assms(2)] N assms(3) by simp_all
  obtain c b w where fc: "find_candidate (take (history_size s1) (mean_bit_counts s1)) = (c, b, w)" by (metis prod_cases3)
  note T = track_candidate_ok(1-3) [OF U(1) fc, of F] track_candidate_ok(4,5) [OF U(1) fc]
  have l: "last_delay s1 = last_delay self"
    using n unfolding s1_def update_counts_def delay_near_def Let_def by (auto split: if_splits)
  have r: "self' = track_candidate F s1" "d = last_delay self'"
    using assms(3,6) n unfolding WebRtc_ProcessBinarySpectrum_def by (auto simp: Let_def s1_def)
  show "de_inv self'" "d = last_delay self'" using r T by simp_all
  show "d = last_delay self \<or> 0 \<le> d \<and> d < int (history_size self)"
    using r T U(2) l by auto
  show "bit_counts self' = map (\<lambda>v. BitCount ((u # butlast (binary_near_history self)) ! nat (lookahead self) XOR v))
      (binary_far_history far)"
    using r T(2) U(3) N(4) by simp
qed

lemma accept_candidate_sizes [simp]:
  "history_size (accept_candidate F self c b) = history_size self"
  "near_history_size (accept_candidate F self c b) = near_history_size self"
  "lookahead (accept_candidate F self c b) = lookahead self"
  unfolding accept_candidate_def Let_def by simp_all

lemma UpdateRobust_sizes [simp]:
  "near_history_size (UpdateRobustValidationStatistics F self c v l) = near_history_size self"
  "lookahead (UpdateRobustValidationStatistics F self c v l) = lookahead self"
  by (rule UpdateRobust_fields [of F self c v l], simp)+

lemma track_candidate_sizes:
  "history_size (track_candidate F self) = history_size self"
  "near_history_size (track_candidate F self) = near_history_size self"
  "lookahead (track_candidate F self) = lookahead self"
proof -
  obtain c b w where fc: "find_candidate (take (history_size self) (mean_bit_counts self)) = (c, b, w)" by (metis prod_cases3)
  define s1 where "s1 = self\<lparr>minimum_probability := update_minimum_probability (minimum_probability self) b (w - b)\<rparr>"
  define s2 where "s2 = s1\<lparr>last_delay_probability := s32 (last_delay_probability s1 + 1)\<rparr>"
  define s3 where "s3 = UpdateRobustValidationStatistics F s2 c (w - b) b"
  have "track_candidate F self = accept_candidate F s3 c b \<or> track_candidate F self = s3"
    unfolding track_candidate_def Let_def fc prod.case s1_def [symmetric] s2_def [symmetric] s3_def [symmetric]
    by (rule if_cases)
  then show "history_size (track_candidate F self) = history_size self"
    "near_history_size (track_candidate F self) = near_history_size self"
    "lookahead (track_candidate F self) = lookahead self"
    by (auto simp: s3_def s2_def s1_def)
qed

lemma Process_sizes:
  "history_size (fst (WebRtc_ProcessBinarySpectrum F far self u)) = history_size self"
  "near_history_size (fst (WebRtc_ProcessBinarySpectrum F far self u)) = near_history_size self"
  "lookahead (fst (WebRtc_ProcessBinarySpectrum F far self u)) = lookahead self"
  by (simp_all add: WebRtc_ProcessBinarySpectrum_def track_candidate_sizes delay_near_def update_counts_def Let_def)

end
