(* ===== verification/DelayEstimatorWrapper.thy ===== *)
theory DelayEstimatorWrapper imports DelayEstimator begin

text \<open>
  The public interface of the delay estimator, \<open>audio_processing/utility/delay_estimator_wrapper.c\<close>:
  binary spectra from magnitude spectra, and the handles with their argument checks.

  A handle is an \<open>option\<close> (\<open>None\<close> is a null pointer). An element of a spectrum's \<open>SpectrumType\<close> array, a
  union of \<open>float\<close> and \<open>int32_t\<close>, is its 32-bit representation, an \<open>int\<close>. The near-end handle points to
  the far-end one; as before the far end is an argument.
\<close>

section \<open>Data\<close>

type_synonym SpectrumType = int

record DelayEstimatorFarend =
  mean_far_spectrum :: "SpectrumType list"
  far_spectrum_initialized :: int
  far_spectrum_size :: int
  binary_farend :: BinaryDelayEstimatorFarend

record 'f DelayEstimator =
  mean_near_spectrum :: "SpectrumType list"
  near_spectrum_initialized :: int
  near_spectrum_size :: int
  binary_handle :: "'f BinaryDelayEstimator"

definition kBandFirst :: nat where "kBandFirst = 12"
definition kBandLast :: nat where "kBandLast = 43"

section \<open>Binary spectra\<close>

definition SetBit :: "int \<Rightarrow> nat \<Rightarrow> int" where
  "SetBit in_bits pos = in_bits OR u32 (shl32 1 pos)"

definition MeanEstimatorFloat :: "'f float_ops \<Rightarrow> 'f \<Rightarrow> 'f \<Rightarrow> 'f \<Rightarrow> 'f" where
  "MeanEstimatorFloat F new_value scale mean_value =
     f_add F mean_value (f_mul F (f_sub F new_value mean_value) scale)"

text \<open>A bin converted from Q(\<open>q_domain\<close>) to Q15. An assertion of the code limits \<open>q_domain\<close> to \<open>15\<close>; shifts
  by more than \<open>31\<close>, for domains below \<open>-16\<close>, are undefined in C.\<close>

definition to_q15_bin :: "int list \<Rightarrow> int \<Rightarrow> nat \<Rightarrow> int" where
  "to_q15_bin spectrum q_domain i = shl32 (spectrum ! i) (nat (15 - q_domain))"

definition start_threshold_fix :: "int list \<Rightarrow> int \<Rightarrow> SpectrumType list \<times> int \<Rightarrow> nat \<Rightarrow> SpectrumType list \<times> int" where
  "start_threshold_fix spectrum q_domain = (\<lambda>(threshold, initialized) i.
     if spectrum ! i > 0 then (threshold[i := sar (to_q15_bin spectrum q_domain i) 1], 1)
     else (threshold, initialized))"

definition binary_bin_fix :: "int list \<Rightarrow> int \<Rightarrow> SpectrumType list \<times> int \<Rightarrow> nat \<Rightarrow> SpectrumType list \<times> int" where
  "binary_bin_fix spectrum q_domain = (\<lambda>(threshold, out) i.
     let spectrum_q15 = to_q15_bin spectrum q_domain i;
         m = WebRtc_MeanEstimatorFix spectrum_q15 6 (threshold ! i)
     in (threshold[i := m], if spectrum_q15 > m then SetBit out (i - kBandFirst) else out))"

definition BinarySpectrumFix ::
  "int list \<Rightarrow> SpectrumType list \<Rightarrow> int \<Rightarrow> int \<Rightarrow> int \<times> SpectrumType list \<times> int" where
  "BinarySpectrumFix spectrum threshold q_domain initialized =
     (let (threshold, initialized) =
            (if initialized = 0
             then foldl (start_threshold_fix spectrum q_domain) (threshold, initialized) [kBandFirst..<kBandLast + 1]
             else (threshold, initialized));
          (threshold, out) = foldl (binary_bin_fix spectrum q_domain) (threshold, 0) [kBandFirst..<kBandLast + 1]
      in (out, threshold, initialized))"

definition start_threshold_float ::
  "'f float_ops \<Rightarrow> 'f list \<Rightarrow> SpectrumType list \<times> int \<Rightarrow> nat \<Rightarrow> SpectrumType list \<times> int" where
  "start_threshold_float F spectrum = (\<lambda>(threshold, initialized) i.
     if f_less F (f_int F 0) (spectrum ! i)
     then (threshold[i := f_bits F (f_div F (spectrum ! i) (f_int F 2))], 1)
     else (threshold, initialized))"

definition binary_bin_float ::
  "'f float_ops \<Rightarrow> 'f list \<Rightarrow> SpectrumType list \<times> int \<Rightarrow> nat \<Rightarrow> SpectrumType list \<times> int" where
  "binary_bin_float F spectrum = (\<lambda>(threshold, out) i.
     let kScale = f_lit F 1 64;
         m = MeanEstimatorFloat F (spectrum ! i) kScale (f_of_bits F (threshold ! i));
         threshold = threshold[i := f_bits F m]
     in (threshold, if f_less F (f_of_bits F (threshold ! i)) (spectrum ! i)
                    then SetBit out (i - kBandFirst) else out))"

definition BinarySpectrumFloat ::
  "'f float_ops \<Rightarrow> 'f list \<Rightarrow> SpectrumType list \<Rightarrow> int \<Rightarrow> int \<times> SpectrumType list \<times> int" where
  "BinarySpectrumFloat F spectrum threshold initialized =
     (let (threshold, initialized) =
            (if initialized = 0
             then foldl (start_threshold_float F spectrum) (threshold, initialized) [kBandFirst..<kBandLast + 1]
             else (threshold, initialized));
          (threshold, out) = foldl (binary_bin_float F spectrum) (threshold, 0) [kBandFirst..<kBandLast + 1]
      in (out, threshold, initialized))"

section \<open>The far end\<close>

definition WebRtc_FreeDelayEstimatorFarend :: "DelayEstimatorFarend option \<Rightarrow> DelayEstimatorFarend option" where
  "WebRtc_FreeDelayEstimatorFarend handle = None"

text \<open>
  \<open>ok\<close>: the handle, \<open>binary\<close>: the binary far end, its arrays and \<open>spectrum_ok\<close>: the spectrum could be
  allocated; \<open>raw\<close> is the memory of the handle, \<open>raw_spectrum\<close> that of the spectrum.
\<close>

definition WebRtc_CreateDelayEstimatorFarend ::
  "bool \<Rightarrow> bool \<Rightarrow> bool \<Rightarrow> bool \<Rightarrow> DelayEstimatorFarend \<Rightarrow> (nat \<Rightarrow> SpectrumType list) \<Rightarrow> int \<Rightarrow> int
     \<Rightarrow> DelayEstimatorFarend option" where
  "WebRtc_CreateDelayEstimatorFarend ok binary far_ok spectrum_ok raw raw_spectrum spectrum_size hsize =
     (if spectrum_size \<ge> int kBandLast \<and> ok
      then case WebRtc_CreateBinaryDelayEstimatorFarend binary far_ok hsize of
             None \<Rightarrow> WebRtc_FreeDelayEstimatorFarend (Some raw)
           | Some far \<Rightarrow>
               let self = raw\<lparr>binary_farend := far, mean_far_spectrum := raw_spectrum (nat spectrum_size),
                              far_spectrum_size := spectrum_size\<rparr>
               in if \<not> spectrum_ok then WebRtc_FreeDelayEstimatorFarend (Some self) else Some self
      else None)"

definition WebRtc_InitDelayEstimatorFarend :: "DelayEstimatorFarend option \<Rightarrow> DelayEstimatorFarend option \<times> int" where
  "WebRtc_InitDelayEstimatorFarend handle =
     (case handle of
        None \<Rightarrow> (None, - 1)
      | Some self \<Rightarrow>
          (Some (self\<lparr>binary_farend := WebRtc_InitBinaryDelayEstimatorFarend (binary_farend self),
                      mean_far_spectrum := replicate (nat (far_spectrum_size self)) 0,
                      far_spectrum_initialized := 0\<rparr>), 0))"

definition WebRtc_SoftResetDelayEstimatorFarend :: "DelayEstimatorFarend \<Rightarrow> int \<Rightarrow> DelayEstimatorFarend" where
  "WebRtc_SoftResetDelayEstimatorFarend self delay_shift =
     self\<lparr>binary_farend := WebRtc_SoftResetBinaryDelayEstimatorFarend (binary_farend self) delay_shift\<rparr>"

definition WebRtc_AddFarSpectrumFix ::
  "DelayEstimatorFarend option \<Rightarrow> int list option \<Rightarrow> int \<Rightarrow> int \<Rightarrow> DelayEstimatorFarend option \<times> int" where
  "WebRtc_AddFarSpectrumFix handle far_spectrum spectrum_size far_q =
     (case handle of
        None \<Rightarrow> (None, - 1)
      | Some self \<Rightarrow>
          (case far_spectrum of
             None \<Rightarrow> (Some self, - 1)
           | Some spectrum \<Rightarrow>
               if spectrum_size \<noteq> far_spectrum_size self then (Some self, - 1)
               else if far_q > 15 then (Some self, - 1)
               else let (binary_spectrum, threshold, initialized) =
                          BinarySpectrumFix spectrum (mean_far_spectrum self) far_q (far_spectrum_initialized self)
                    in (Some (self\<lparr>mean_far_spectrum := threshold, far_spectrum_initialized := initialized,
                                   binary_farend := WebRtc_AddBinaryFarSpectrum (binary_farend self) binary_spectrum\<rparr>), 0)))"

definition WebRtc_AddFarSpectrumFloat ::
  "'f float_ops \<Rightarrow> DelayEstimatorFarend option \<Rightarrow> 'f list option \<Rightarrow> int \<Rightarrow> DelayEstimatorFarend option \<times> int" where
  "WebRtc_AddFarSpectrumFloat F handle far_spectrum spectrum_size =
     (case handle of
        None \<Rightarrow> (None, - 1)
      | Some self \<Rightarrow>
          (case far_spectrum of
             None \<Rightarrow> (Some self, - 1)
           | Some spectrum \<Rightarrow>
               if spectrum_size \<noteq> far_spectrum_size self then (Some self, - 1)
               else let (binary_spectrum, threshold, initialized) =
                          BinarySpectrumFloat F spectrum (mean_far_spectrum self) (far_spectrum_initialized self)
                    in (Some (self\<lparr>mean_far_spectrum := threshold, far_spectrum_initialized := initialized,
                                   binary_farend := WebRtc_AddBinaryFarSpectrum (binary_farend self) binary_spectrum\<rparr>), 0)))"

section \<open>The near end\<close>

definition WebRtc_FreeDelayEstimator :: "'f DelayEstimator option \<Rightarrow> 'f DelayEstimator option" where
  "WebRtc_FreeDelayEstimator handle = None"

definition WebRtc_CreateDelayEstimator ::
  "'f float_ops \<Rightarrow> bool \<Rightarrow> bool \<Rightarrow> bool \<Rightarrow> bool \<Rightarrow> bool \<Rightarrow> 'f DelayEstimator \<Rightarrow> (nat \<Rightarrow> SpectrumType list)
     \<Rightarrow> DelayEstimatorFarend option \<Rightarrow> int \<Rightarrow> 'f DelayEstimator option" where
  "WebRtc_CreateDelayEstimator F ok malloc_ok malloc_near near_ok spectrum_ok raw raw_spectrum farend_handle max_lookahead =
     (case farend_handle of
        None \<Rightarrow> None
      | Some farend \<Rightarrow>
          if \<not> ok then None
          else case WebRtc_CreateBinaryDelayEstimator F malloc_ok malloc_near True near_ok (binary_handle raw)
                      (Some (binary_farend farend)) max_lookahead of
                 None \<Rightarrow> WebRtc_FreeDelayEstimator (Some raw)
               | Some handle \<Rightarrow>
                   let self = raw\<lparr>binary_handle := handle,
                                  mean_near_spectrum := raw_spectrum (nat (far_spectrum_size farend)),
                                  near_spectrum_size := far_spectrum_size farend\<rparr>
                   in if \<not> spectrum_ok then WebRtc_FreeDelayEstimator (Some self) else Some self)"

definition WebRtc_InitDelayEstimator :: "'f float_ops \<Rightarrow> 'f DelayEstimator option \<Rightarrow> 'f DelayEstimator option \<times> int" where
  "WebRtc_InitDelayEstimator F handle =
     (case handle of
        None \<Rightarrow> (None, - 1)
      | Some self \<Rightarrow>
          (Some (self\<lparr>binary_handle := WebRtc_InitBinaryDelayEstimator F (binary_handle self),
                      mean_near_spectrum := replicate (nat (near_spectrum_size self)) 0,
                      near_spectrum_initialized := 0\<rparr>), 0))"

definition WebRtc_SoftResetDelayEstimator :: "'f DelayEstimator \<Rightarrow> int \<Rightarrow> 'f DelayEstimator \<times> int" where
  "WebRtc_SoftResetDelayEstimator self delay_shift =
     (let (h, r) = WebRtc_SoftResetBinaryDelayEstimator (binary_handle self) delay_shift
      in (self\<lparr>binary_handle := h\<rparr>, r))"

definition WebRtc_set_history_size ::
  "'f float_ops \<Rightarrow> bool \<Rightarrow> bool \<Rightarrow> int \<Rightarrow> 'f \<Rightarrow> DelayEstimatorFarend \<Rightarrow> 'f DelayEstimator option \<Rightarrow> int
     \<Rightarrow> DelayEstimatorFarend \<times> 'f DelayEstimator option \<times> int" where
  "WebRtc_set_history_size F far_ok near_ok junk_mean junk_hist farend handle hsize =
     (case handle of
        None \<Rightarrow> (farend, None, - 1)
      | Some self \<Rightarrow>
          if hsize \<le> 1 then (farend, Some self, - 1)
          else let (far, h, n) = WebRtc_AllocateHistoryBufferMemory F far_ok near_ok junk_mean junk_hist
                                   (binary_farend farend) (binary_handle self) (nat hsize)
               in (farend\<lparr>binary_farend := far\<rparr>, Some (self\<lparr>binary_handle := h\<rparr>), int n))"

definition WebRtc_history_size :: "DelayEstimatorFarend \<Rightarrow> 'f DelayEstimator option \<Rightarrow> int" where
  "WebRtc_history_size farend handle =
     (case handle of
        None \<Rightarrow> - 1
      | Some self \<Rightarrow>
          if far_history_size (binary_farend farend) \<noteq> history_size (binary_handle self) then - 1
          else int (history_size (binary_handle self)))"

definition WebRtc_set_lookahead :: "'f DelayEstimator \<Rightarrow> int \<Rightarrow> 'f DelayEstimator \<times> int" where
  "WebRtc_set_lookahead self la =
     (if la > int (near_history_size (binary_handle self)) - 1 \<or> la < 0 then (self, - 1)
      else (self\<lparr>binary_handle := (binary_handle self)\<lparr>lookahead := la\<rparr>\<rparr>, la))"

definition WebRtc_lookahead :: "'f DelayEstimator \<Rightarrow> int" where
  "WebRtc_lookahead self = lookahead (binary_handle self)"

definition WebRtc_set_allowed_offset :: "'f DelayEstimator option \<Rightarrow> int \<Rightarrow> 'f DelayEstimator option \<times> int" where
  "WebRtc_set_allowed_offset handle offset =
     (case handle of
        None \<Rightarrow> (None, - 1)
      | Some self \<Rightarrow>
          if offset < 0 then (Some self, - 1)
          else (Some (self\<lparr>binary_handle := (binary_handle self)\<lparr>allowed_offset := offset\<rparr>\<rparr>), 0))"

definition WebRtc_get_allowed_offset :: "'f DelayEstimator option \<Rightarrow> int" where
  "WebRtc_get_allowed_offset handle =
     (case handle of None \<Rightarrow> - 1 | Some self \<Rightarrow> allowed_offset (binary_handle self))"

definition WebRtc_enable_robust_validation :: "'f DelayEstimator option \<Rightarrow> int \<Rightarrow> 'f DelayEstimator option \<times> int" where
  "WebRtc_enable_robust_validation handle enable =
     (case handle of
        None \<Rightarrow> (None, - 1)
      | Some self \<Rightarrow>
          if enable < 0 \<or> enable > 1 then (Some self, - 1)
          else (Some (self\<lparr>binary_handle := (binary_handle self)\<lparr>robust_validation_enabled := enable\<rparr>\<rparr>), 0))"

definition WebRtc_is_robust_validation_enabled :: "'f DelayEstimator option \<Rightarrow> int" where
  "WebRtc_is_robust_validation_enabled handle =
     (case handle of None \<Rightarrow> - 1 | Some self \<Rightarrow> robust_validation_enabled (binary_handle self))"

definition WebRtc_DelayEstimatorProcessFix ::
  "'f float_ops \<Rightarrow> DelayEstimatorFarend \<Rightarrow> 'f DelayEstimator option \<Rightarrow> int list option \<Rightarrow> int \<Rightarrow> int
     \<Rightarrow> 'f DelayEstimator option \<times> int" where
  "WebRtc_DelayEstimatorProcessFix F farend handle near_spectrum spectrum_size near_q =
     (case handle of
        None \<Rightarrow> (None, - 1)
      | Some self \<Rightarrow>
          (case near_spectrum of
             None \<Rightarrow> (Some self, - 1)
           | Some spectrum \<Rightarrow>
               if spectrum_size \<noteq> near_spectrum_size self then (Some self, - 1)
               else if near_q > 15 then (Some self, - 1)
               else let (binary_spectrum, threshold, initialized) =
                          BinarySpectrumFix spectrum (mean_near_spectrum self) near_q (near_spectrum_initialized self);
                        (h, r) = WebRtc_ProcessBinarySpectrum F (binary_farend farend) (binary_handle self) binary_spectrum
                    in (Some (self\<lparr>mean_near_spectrum := threshold, near_spectrum_initialized := initialized,
                                   binary_handle := h\<rparr>), r)))"

definition WebRtc_DelayEstimatorProcessFloat ::
  "'f float_ops \<Rightarrow> DelayEstimatorFarend \<Rightarrow> 'f DelayEstimator option \<Rightarrow> 'f list option \<Rightarrow> int
     \<Rightarrow> 'f DelayEstimator option \<times> int" where
  "WebRtc_DelayEstimatorProcessFloat F farend handle near_spectrum spectrum_size =
     (case handle of
        None \<Rightarrow> (None, - 1)
      | Some self \<Rightarrow>
          (case near_spectrum of
             None \<Rightarrow> (Some self, - 1)
           | Some spectrum \<Rightarrow>
               if spectrum_size \<noteq> near_spectrum_size self then (Some self, - 1)
               else let (binary_spectrum, threshold, initialized) =
                          BinarySpectrumFloat F spectrum (mean_near_spectrum self) (near_spectrum_initialized self);
                        (h, r) = WebRtc_ProcessBinarySpectrum F (binary_farend farend) (binary_handle self) binary_spectrum
                    in (Some (self\<lparr>mean_near_spectrum := threshold, near_spectrum_initialized := initialized,
                                   binary_handle := h\<rparr>), r)))"

definition WebRtc_last_delay :: "'f DelayEstimator option \<Rightarrow> int" where
  "WebRtc_last_delay handle = (case handle of None \<Rightarrow> - 1 | Some self \<Rightarrow> WebRtc_binary_last_delay (binary_handle self))"

definition WebRtc_last_delay_quality :: "'f float_ops \<Rightarrow> 'f DelayEstimator \<Rightarrow> 'f" where
  "WebRtc_last_delay_quality F self = WebRtc_binary_last_delay_quality F (binary_handle self)"

section \<open>What a binary spectrum is\<close>

lemma SetBit_eq: "p < 32 \<Longrightarrow> SetBit x p = x OR 2 ^ p"
proof -
  assume "p < 32"
  then have "(2 :: int) ^ p < 2 ^ 32" by (intro power_strict_increasing) simp_all
  then have "u32 (2 ^ p) = 2 ^ p" by (simp add: u32_def)
  then show ?thesis by (simp add: SetBit_def shl32_def u32_s32)
qed

lemma bit_SetBit: "p < 32 \<Longrightarrow> bit (SetBit x p) k \<longleftrightarrow> bit x k \<or> k = p"
  by (auto simp: SetBit_eq bit_or_iff bit_exp_iff)

text \<open>A pass over the bins that updates each threshold and collects one bit per bin.\<close>

lemma bins_fold:
  assumes "foldl (\<lambda>(th, out) i. (th[i := m i (th ! i)], if P i (th ! i) then SetBit out (i - 12) else out))
      (th, 0) [12..<n] = (th', out')"
    and "12 \<le> n" "n \<le> 44" "n \<le> length th"
  shows "length th' = length th" "\<And>j. th' ! j = (if 12 \<le> j \<and> j < n then m j (th ! j) else th ! j)"
    "\<And>k. bit out' k \<longleftrightarrow> k < n - 12 \<and> P (12 + k) (th ! (12 + k))"
proof -
  let ?step = "\<lambda>(th, out) i. (th[i := m i (th ! i)], if P i (th ! i) then SetBit out (i - 12) else out)"
  have "length th' = length th \<and> (\<forall>j. th' ! j = (if 12 \<le> j \<and> j < n then m j (th ! j) else th ! j)) \<and>
      (\<forall>k. bit out' k \<longleftrightarrow> k < n - 12 \<and> P (12 + k) (th ! (12 + k)))"
    using assms(2,1,3,4)
  proof (induction n arbitrary: th' out' rule: dec_induct)
    case base
    then show ?case by auto
  next
    case (step n)
    obtain t o1 where r: "foldl ?step (th, 0) [12..<n] = (t, o1)" by (rule prod.exhaust)
    have "n \<le> 44" "n \<le> length th" using step.prems by simp_all
    note step.IH [OF r this]
    then have IH: "length t = length th" "\<forall>j. t ! j = (if 12 \<le> j \<and> j < n then m j (th ! j) else th ! j)"
      "\<forall>k. bit o1 k \<longleftrightarrow> k < n - 12 \<and> P (12 + k) (th ! (12 + k))" by blast+
    have tn: "t ! n = th ! n" using IH(2) by simp
    have r': "th' = t[n := m n (th ! n)]" "out' = (if P n (th ! n) then SetBit o1 (n - 12) else o1)"
      using step.prems(1) step.hyps(1) r tn by simp_all
    have "bit out' k \<longleftrightarrow> k < Suc n - 12 \<and> P (12 + k) (th ! (12 + k))" for k
    proof -
      have "n - 12 < 32" using step.hyps step.prems(2) by linarith
      then have b: "bit out' k \<longleftrightarrow> bit o1 k \<or> (P n (th ! n) \<and> k = n - 12)"
        unfolding r'(2) using bit_SetBit [of "n - 12" o1 k] by (cases "P n (th ! n)") simp_all
      show ?thesis
      proof (cases "k = n - 12")
        case True
        then have nk: "12 + k = n" "k < Suc n - 12" "\<not> k < n - 12" using step.hyps(1) by linarith+
        show ?thesis unfolding b spec [OF IH(3), of k] nk(1) using nk(2,3) True by blast
      next
        case False
        then have "k < Suc n - 12 \<longleftrightarrow> k < n - 12" using step.hyps(1) by linarith
        then show ?thesis unfolding b spec [OF IH(3), of k] using False by blast
      qed
    qed
    moreover have "n < length t" using IH(1) step.prems(3) by simp
    ultimately show ?case using r'(1) IH(1,2) step.hyps(1) by (auto simp: nth_list_update)
  qed
  then show "length th' = length th" "\<And>j. th' ! j = (if 12 \<le> j \<and> j < n then m j (th ! j) else th ! j)"
    "\<And>k. bit out' k \<longleftrightarrow> k < n - 12 \<and> P (12 + k) (th ! (12 + k))" by simp_all
qed

lemma bits_below_32:
  assumes "\<And>k. bit (x :: int) k \<Longrightarrow> k < 32"
  shows "0 \<le> x \<and> x < 4294967296"
proof -
  have "take_bit 32 x = x" by (rule bit_eqI) (use assms in \<open>auto simp: bit_take_bit_iff\<close>)
  then show ?thesis using take_bit_int_less_exp [of 32 x] take_bit_nonnegative [of 32 x] by simp
qed

text \<open>The thresholds the first spectrum starts from.\<close>

definition start_threshold :: "int list \<Rightarrow> int \<Rightarrow> SpectrumType list \<Rightarrow> int \<Rightarrow> nat \<Rightarrow> int" where
  "start_threshold spectrum q threshold initialized i =
     (if initialized = 0 \<and> spectrum ! i > 0 then sar (to_q15_bin spectrum q i) 1 else threshold ! i)"

lemma start_fold:
  assumes "12 \<le> n" "n \<le> length th"
  shows "length (fst (foldl (start_threshold_fix spectrum q) (th, ini) [12..<n])) = length th \<and>
    (\<forall>j. fst (foldl (start_threshold_fix spectrum q) (th, ini) [12..<n]) ! j =
      (if 12 \<le> j \<and> j < n \<and> spectrum ! j > 0 then sar (to_q15_bin spectrum q j) 1 else th ! j))"
  using assms
proof (induction n rule: dec_induct)
  case base
  then show ?case by auto
next
  case (step n)
  obtain t o1 where r: "foldl (start_threshold_fix spectrum q) (th, ini) [12..<n] = (t, o1)" by (metis surj_pair)
  have IH: "length t = length th"
    "\<forall>j. t ! j = (if 12 \<le> j \<and> j < n \<and> spectrum ! j > 0 then sar (to_q15_bin spectrum q j) 1 else th ! j)"
    using step r by simp_all
  have "n < length t" using IH(1) step.prems by simp
  then show ?case using step.hyps(1) IH r by (auto simp: start_threshold_fix_def nth_list_update less_Suc_eq)
qed

text \<open>Bit \<open>k\<close> compares bin \<open>12 + k\<close> with its updated threshold; the word has 32 bits.\<close>

lemma BinarySpectrumFix_spec:
  assumes "44 \<le> length th" "BinarySpectrumFix spectrum th q ini = (out, th', ini')"
  shows "length th' = length th" "0 \<le> out \<and> out < 4294967296"
    "12 \<le> j \<Longrightarrow> j < 44 \<Longrightarrow> th' ! j = WebRtc_MeanEstimatorFix (to_q15_bin spectrum q j) 6 (start_threshold spectrum q th ini j)"
    "\<not> (12 \<le> j \<and> j < 44) \<Longrightarrow> th' ! j = th ! j"
    "bit out k \<longleftrightarrow> k < 32 \<and> to_q15_bin spectrum q (12 + k) > th' ! (12 + k)"
proof -
  define s where "s = (if ini = 0 then foldl (start_threshold_fix spectrum q) (th, ini) [12..<44] else (th, ini))"
  have s: "length (fst s) = length th"
    "\<forall>j. fst s ! j = (if 12 \<le> j \<and> j < 44 \<and> ini = 0 \<and> spectrum ! j > 0 then sar (to_q15_bin spectrum q j) 1 else th ! j)"
    using start_fold [of 44 th spectrum q ini] assms(1) by (auto simp: s_def)
  then have st: "fst s ! j = start_threshold spectrum q th ini j" if "12 \<le> j" "j < 44" for j
    using that by (simp add: start_threshold_def)
  let ?m = "\<lambda>i. WebRtc_MeanEstimatorFix (to_q15_bin spectrum q i) 6"
  let ?P = "\<lambda>i t. to_q15_bin spectrum q i > ?m i t"
  have e: "binary_bin_fix spectrum q =
      (\<lambda>(th, out) i. (th[i := ?m i (th ! i)], if ?P i (th ! i) then SetBit out (i - 12) else out))"
    by (simp add: binary_bin_fix_def kBandFirst_def Let_def fun_eq_iff)
  have bands: "[kBandFirst..<kBandLast + 1] = [12..<44]" by (simp add: kBandFirst_def kBandLast_def)
  have F: "foldl (binary_bin_fix spectrum q) (fst s, 0) [12..<44] = (th', out)"
    using assms(2) unfolding BinarySpectrumFix_def bands s_def [symmetric] by (auto simp: Let_def split_beta)
  note B = bins_fold [OF F [unfolded e], simplified]
  have l: "44 \<le> length (fst s)" using s(1) assms(1) by simp
  show "length th' = length th" using B(1) [OF l] s(1) by simp
  have b: "bit out k \<longleftrightarrow> k < 32 \<and> ?P (12 + k) (fst s ! (12 + k))" for k using B(3) [OF l] by simp
  show "0 \<le> out \<and> out < 4294967296" by (rule bits_below_32) (simp add: b)
  have t: "12 \<le> j \<Longrightarrow> j < 44 \<Longrightarrow> th' ! j = ?m j (fst s ! j)" "\<not> (12 \<le> j \<and> j < 44) \<Longrightarrow> th' ! j = fst s ! j" for j
    using B(2) [OF l, of j] by auto
  show "12 \<le> j \<Longrightarrow> j < 44 \<Longrightarrow> th' ! j = ?m j (start_threshold spectrum q th ini j)"
    using t(1) [of j] st [of j] by simp
  show "\<not> (12 \<le> j \<and> j < 44) \<Longrightarrow> th' ! j = th ! j" using t(2) [of j] s(2) by auto
  show "bit out k \<longleftrightarrow> k < 32 \<and> to_q15_bin spectrum q (12 + k) > th' ! (12 + k)"
    using b [of k] t(1) [of "12 + k"] by auto
qed

lemma to_q15_bin_exact:
  assumes "0 \<le> spectrum ! i" "spectrum ! i < 65536" "0 \<le> q" "q \<le> 15"
  shows "to_q15_bin spectrum q i = spectrum ! i * 2 ^ nat (15 - q)"
proof -
  have "(2 :: int) ^ nat (15 - q) \<le> 2 ^ 15" using assms(3) by (intro power_increasing) simp_all
  then have "spectrum ! i * 2 ^ nat (15 - q) \<le> 65535 * 32768" using assms(1,2) by (intro mult_mono) simp_all
  moreover have "0 \<le> spectrum ! i * 2 ^ nat (15 - q)" using assms(1) by simp
  ultimately have "is32 (spectrum ! i * 2 ^ nat (15 - q))" unfolding is32_def by linarith
  then show ?thesis by (simp add: to_q15_bin_def shl32_def)
qed

section \<open>The invariant of the handles\<close>

definition farend_inv :: "DelayEstimatorFarend \<Rightarrow> bool" where
  "farend_inv f \<longleftrightarrow> far_inv (binary_farend f) \<and> 44 \<le> far_spectrum_size f \<and>
     int (length (mean_far_spectrum f)) = far_spectrum_size f"

definition nearend_inv :: "'f DelayEstimator \<Rightarrow> bool" where
  "nearend_inv s \<longleftrightarrow> de_inv (binary_handle s) \<and> 44 \<le> near_spectrum_size s \<and>
     int (length (mean_near_spectrum s)) = near_spectrum_size s \<and> near_history_size (binary_handle s) < 1073741824"

text \<open>A pair of handles that belong together.\<close>

definition pair_inv :: "DelayEstimatorFarend \<times> 'f DelayEstimator \<Rightarrow> bool" where
  "pair_inv p \<longleftrightarrow> farend_inv (fst p) \<and> nearend_inv (snd p) \<and>
     far_history_size (binary_farend (fst p)) = history_size (binary_handle (snd p))"

lemma AddFarSpectrumFix_ok:
  assumes "farend_inv f"
  shows "\<exists>f' r. WebRtc_AddFarSpectrumFix (Some f) sp n q = (Some f', r) \<and> farend_inv f' \<and>
    far_history_size (binary_farend f') = far_history_size (binary_farend f) \<and> (r = 0 \<or> f' = f \<and> r = - 1)"
proof (cases "sp = None \<or> n \<noteq> far_spectrum_size f \<or> q > 15")
  case True
  then show ?thesis using assms by (auto simp: WebRtc_AddFarSpectrumFix_def split: option.splits)
next
  case False
  then obtain spectrum where sp: "sp = Some spectrum" by auto
  obtain out th ini where b: "BinarySpectrumFix spectrum (mean_far_spectrum f) q (far_spectrum_initialized f) = (out, th, ini)"
    by (metis prod_cases3)
  have l: "44 \<le> length (mean_far_spectrum f)" using assms by (simp add: farend_inv_def)
  note B = BinarySpectrumFix_spec(1,2) [OF l b]
  have far: "far_inv (binary_farend f)" using assms by (simp add: farend_inv_def)
  have "farend_inv (f\<lparr>mean_far_spectrum := th, far_spectrum_initialized := ini,
      binary_farend := WebRtc_AddBinaryFarSpectrum (binary_farend f) out\<rparr>)"
    using assms B AddBinaryFarSpectrum_ok(1) [OF far, of out] by (simp add: farend_inv_def)
  then show ?thesis using False sp b B AddBinaryFarSpectrum_ok(3) [OF far, of out]
    by (simp add: WebRtc_AddFarSpectrumFix_def)
qed

lemma ProcessFix_ok:
  assumes "pair_inv (f, s)"
  shows "\<exists>s' r. WebRtc_DelayEstimatorProcessFix F f (Some s) sp n q = (Some s', r) \<and> pair_inv (f, s') \<and>
    history_size (binary_handle s') = history_size (binary_handle s) \<and>
    (sp = None \<or> n \<noteq> near_spectrum_size s \<or> q > 15 \<longrightarrow> s' = s \<and> r = - 1) \<and>
    (\<not> (sp = None \<or> n \<noteq> near_spectrum_size s \<or> q > 15) \<longrightarrow>
       r = WebRtc_last_delay (Some s') \<and> (r = - 2 \<or> 0 \<le> r \<and> r < int (history_size (binary_handle s))))"
proof (cases "sp = None \<or> n \<noteq> near_spectrum_size s \<or> q > 15")
  case True
  then show ?thesis using assms by (auto simp: WebRtc_DelayEstimatorProcessFix_def split: option.splits)
next
  case False
  then obtain spectrum where sp: "sp = Some spectrum" by auto
  obtain out th ini where b: "BinarySpectrumFix spectrum (mean_near_spectrum s) q (near_spectrum_initialized s) = (out, th, ini)"
    by (metis prod_cases3)
  have i: "farend_inv f" "nearend_inv s" "far_history_size (binary_farend f) = history_size (binary_handle s)"
    using assms by (simp_all add: pair_inv_def)
  have l: "44 \<le> length (mean_near_spectrum s)" using i(2) by (simp add: nearend_inv_def)
  note B = BinarySpectrumFix_spec(1,2) [OF l b]
  have fi: "far_inv (binary_farend f)" "de_inv (binary_handle s)" using i by (simp_all add: farend_inv_def nearend_inv_def)
  obtain h r where p: "WebRtc_ProcessBinarySpectrum F (binary_farend f) (binary_handle s) out = (h, r)" by (metis surj_pair)
  note P = Process_ok [OF fi(2,1) i(3) _ _ p]
  have sz: "history_size h = history_size (binary_handle s)" "near_history_size h = near_history_size (binary_handle s)"
    using Process_sizes [of F "binary_farend f" "binary_handle s" out] p by simp_all
  have d: "de_inv h" "r = last_delay h" using P B by simp_all
  then have "r = - 2 \<or> 0 \<le> r \<and> r < int (history_size (binary_handle s))" using sz by (auto simp: de_inv_def)
  moreover have "pair_inv (f, s\<lparr>mean_near_spectrum := th, near_spectrum_initialized := ini, binary_handle := h\<rparr>)"
    using i B d sz by (simp add: pair_inv_def nearend_inv_def)
  ultimately show ?thesis using False sp b p d sz
    by (simp add: WebRtc_DelayEstimatorProcessFix_def WebRtc_last_delay_def WebRtc_binary_last_delay_def)
qed

section \<open>Any sequence of calls\<close>

text \<open>
  The calls of a client that owns one far end and one near end. A soft reset of the far end needs a
  shift smaller than the history (the code asserts it).
\<close>

datatype de_call =
    EFar "int list option" int int
  | ENear "int list option" int int
  | EShiftFar int
  | EShiftNear int
  | ELookahead int
  | EOffset int
  | ERobust int
  | EInit

definition de_step :: "'f float_ops \<Rightarrow> DelayEstimatorFarend \<times> 'f DelayEstimator \<Rightarrow> de_call \<Rightarrow> DelayEstimatorFarend \<times> 'f DelayEstimator" where
  "de_step F p call =
     (case call of
        EFar sp n q \<Rightarrow> (the (fst (WebRtc_AddFarSpectrumFix (Some (fst p)) sp n q)), snd p)
      | ENear sp n q \<Rightarrow> (fst p, the (fst (WebRtc_DelayEstimatorProcessFix F (fst p) (Some (snd p)) sp n q)))
      | EShiftFar k \<Rightarrow> (WebRtc_SoftResetDelayEstimatorFarend (fst p) k, snd p)
      | EShiftNear k \<Rightarrow> (fst p, fst (WebRtc_SoftResetDelayEstimator (snd p) k))
      | ELookahead la \<Rightarrow> (fst p, fst (WebRtc_set_lookahead (snd p) la))
      | EOffset x \<Rightarrow> (fst p, the (fst (WebRtc_set_allowed_offset (Some (snd p)) x)))
      | ERobust x \<Rightarrow> (fst p, the (fst (WebRtc_enable_robust_validation (Some (snd p)) x)))
      | EInit \<Rightarrow> (the (fst (WebRtc_InitDelayEstimatorFarend (Some (fst p)))),
                  the (fst (WebRtc_InitDelayEstimator F (Some (snd p))))))"

definition de_call_ok :: "nat \<Rightarrow> de_call \<Rightarrow> bool" where
  "de_call_ok n call =
     (case call of EShiftFar k \<Rightarrow> \<bar>k\<bar> < int n | EShiftNear k \<Rightarrow> \<bar>k\<bar> < 1073741824 | _ \<Rightarrow> True)"

definition sized_pair :: "nat \<Rightarrow> DelayEstimatorFarend \<times> 'f DelayEstimator \<Rightarrow> bool" where
  "sized_pair n p \<longleftrightarrow> pair_inv p \<and> history_size (binary_handle (snd p)) = n"

lemma nearend_inv_handle:
  "nearend_inv s \<Longrightarrow> de_inv h \<Longrightarrow> near_history_size h = near_history_size (binary_handle s) \<Longrightarrow>
    nearend_inv (s\<lparr>binary_handle := h\<rparr>)"
  by (simp add: nearend_inv_def)

lemma shift_far_ok:
  assumes "farend_inv f" "\<bar>k\<bar> < int (far_history_size (binary_farend f))"
  shows "farend_inv (WebRtc_SoftResetDelayEstimatorFarend f k) \<and>
    far_history_size (binary_farend (WebRtc_SoftResetDelayEstimatorFarend f k)) = far_history_size (binary_farend f)"
proof -
  have far: "far_inv (binary_farend f)" using assms(1) by (simp add: farend_inv_def)
  show ?thesis using assms SoftResetFarend_ok [OF far assms(2)] SoftResetFarend_shifts [OF far assms(2)]
    by (simp add: WebRtc_SoftResetDelayEstimatorFarend_def farend_inv_def)
qed

lemma shift_near_ok:
  assumes "nearend_inv s" "\<bar>k\<bar> < 1073741824"
  shows "nearend_inv (fst (WebRtc_SoftResetDelayEstimator s k)) \<and>
    history_size (binary_handle (fst (WebRtc_SoftResetDelayEstimator s k))) = history_size (binary_handle s)"
proof -
  have d: "de_inv (binary_handle s)" "near_history_size (binary_handle s) < 1073741824" using assms(1) by (simp_all add: nearend_inv_def)
  let ?h = "fst (WebRtc_SoftResetBinaryDelayEstimator (binary_handle s) k)"
  have "near_history_size ?h = near_history_size (binary_handle s)" "history_size ?h = history_size (binary_handle s)"
    by (simp_all add: WebRtc_SoftResetBinaryDelayEstimator_def Let_def)
  then show ?thesis using SoftReset_ok(1) [OF d(1) assms(2) d(2)] nearend_inv_handle [OF assms(1)]
    by (simp add: WebRtc_SoftResetDelayEstimator_def split_beta)
qed

lemma Init_pair_ok:
  assumes "pair_inv p"
  shows "pair_inv (de_step F p EInit) \<and> history_size (binary_handle (snd (de_step F p EInit))) = history_size (binary_handle (snd p))"
  using assms unfolding de_step_def pair_inv_def farend_inv_def nearend_inv_def far_inv_def de_inv_def
  by (simp add: WebRtc_InitDelayEstimatorFarend_def WebRtc_InitBinaryDelayEstimatorFarend_def
      WebRtc_InitDelayEstimator_def WebRtc_InitBinaryDelayEstimator_def)

interpretation de_api: event_machine "de_step F" "sized_pair n" "de_call_ok n"
proof unfold_locales
  fix p :: "DelayEstimatorFarend \<times> 'a DelayEstimator" and call
  assume p: "sized_pair n p" and c: "de_call_ok n call"
  obtain f s where fs: "p = (f, s)" by (cases p)
  have i: "pair_inv (f, s)" "farend_inv f" "nearend_inv s" "far_history_size (binary_farend f) = n"
    "history_size (binary_handle s) = n" "de_inv (binary_handle s)"
    using p fs by (simp_all add: sized_pair_def pair_inv_def nearend_inv_def)
  have near: "sized_pair n (f, s')" if "nearend_inv s'" "history_size (binary_handle s') = n" for s' :: "'a DelayEstimator"
    using that i by (simp add: sized_pair_def pair_inv_def)
  have far: "sized_pair n (f', s)" if "farend_inv f'" "far_history_size (binary_farend f') = n" for f'
    using that i by (simp add: sized_pair_def pair_inv_def)
  have field: "nearend_inv (s\<lparr>binary_handle := h\<rparr>)"
    if "h = (binary_handle s)\<lparr>allowed_offset := x\<rparr> \<or> h = (binary_handle s)\<lparr>robust_validation_enabled := x\<rparr> \<or>
      h = (binary_handle s)\<lparr>lookahead := x\<rparr> \<and> 0 \<le> x \<and> x < int (near_history_size (binary_handle s))" for h x
    using that i(6) by (intro nearend_inv_handle [OF i(3)]) (auto simp: de_inv_def)
  show "sized_pair n (de_step F p call)"
  proof (cases call)
    case (EFar sp m q)
    then show ?thesis using AddFarSpectrumFix_ok [OF i(2), of sp m q] far fs i(4) by (auto simp: de_step_def)
  next
    case (ENear sp m q)
    then show ?thesis using ProcessFix_ok [OF i(1), of F sp m q] fs i(5) by (auto simp: de_step_def sized_pair_def)
  next
    case (EShiftFar k)
    then show ?thesis using shift_far_ok [OF i(2), of k] far fs i(4) c by (simp add: de_step_def de_call_ok_def)
  next
    case (EShiftNear k)
    then show ?thesis using shift_near_ok [OF i(3), of k] near fs i(5) c by (simp add: de_step_def de_call_ok_def)
  next
    case (ELookahead la)
    then show ?thesis using field [of _ la] near i fs by (auto simp: de_step_def WebRtc_set_lookahead_def)
  next
    case (EOffset x)
    then show ?thesis using field [of _ x] near i fs by (auto simp: de_step_def WebRtc_set_allowed_offset_def)
  next
    case (ERobust x)
    then show ?thesis using field [of _ x] near i fs by (auto simp: de_step_def WebRtc_enable_robust_validation_def)
  next
    case EInit
    then show ?thesis using Init_pair_ok [OF i(1), of F] fs i(5) by (simp add: sized_pair_def)
  qed
qed

section \<open>Creation, and a change of the history size\<close>

lemma Create_pair_ok:
  assumes "WebRtc_CreateDelayEstimatorFarend a b c d raw raw_spectrum n hsize = Some f" "44 \<le> n"
    and "WebRtc_CreateDelayEstimator F True True True True True rawn rawn_spectrum (Some f) max_lookahead = Some s"
    and "max_lookahead < 1073741823"
    and "int (length (binary_near_history (binary_handle rawn))) \<ge> max_lookahead + 1"
  shows "sized_pair (nat hsize) (de_step F (f, s) EInit)" "1 < hsize" "0 \<le> max_lookahead"
proof -
  have f: "1 < hsize" "far_history_size (binary_farend f) = nat hsize" "far_spectrum_size f = n"
    using assms(1) unfolding WebRtc_CreateDelayEstimatorFarend_def WebRtc_CreateBinaryDelayEstimatorFarend_def
    by (auto simp: WebRtc_FreeDelayEstimatorFarend_def WebRtc_FreeBinaryDelayEstimatorFarend_def
        WebRtc_AllocateFarendBufferMemory_def Let_def split: if_splits option.splits)
  obtain h where h: "WebRtc_CreateBinaryDelayEstimator F True True True True (binary_handle rawn)
      (Some (binary_farend f)) max_lookahead = Some h" "binary_handle s = h" "near_spectrum_size s = n"
    using assms(3) f(3) unfolding WebRtc_CreateDelayEstimator_def
    by (auto simp: WebRtc_FreeDelayEstimator_def Let_def split: if_splits option.splits)
  have m: "0 \<le> max_lookahead" using h(1) by (auto simp: WebRtc_CreateBinaryDelayEstimator_def split: if_splits)
  have s: "history_size h = nat hsize" "near_history_size h = nat (max_lookahead + 1)" "lookahead h = max_lookahead"
    using h(1) f(1,2) m unfolding WebRtc_CreateBinaryDelayEstimator_def WebRtc_AllocateHistoryBufferMemory_def
    by (auto simp: Let_def split: if_splits)
  show "1 < hsize" "0 \<le> max_lookahead" by (rule f(1), rule m)
  show "sized_pair (nat hsize) (de_step F (f, s) EInit)"
    using f h(2,3) m s assms(2,4) unfolding sized_pair_def de_step_def pair_inv_def farend_inv_def nearend_inv_def far_inv_def de_inv_def
    by (simp add: WebRtc_InitDelayEstimatorFarend_def WebRtc_InitBinaryDelayEstimatorFarend_def
        WebRtc_InitDelayEstimator_def WebRtc_InitBinaryDelayEstimator_def)
qed

text \<open>A smaller history keeps \<open>compare_delay\<close>, which may then lie outside the shortened histogram.\<close>

lemma set_history_size_shrinks:
  assumes "nearend_inv s" "1 < k" "nat k \<le> history_size (binary_handle s)"
    "WebRtc_set_history_size F True True jm jh f (Some s) k = (f', Some s', r)"
  shows "r = k" "history_size (binary_handle s') = nat k" "length (histogram (binary_handle s')) = nat k + 1"
    "compare_delay (binary_handle s') = compare_delay (binary_handle s)"
    "last_delay (binary_handle s') = last_delay (binary_handle s)"
proof -
  let ?h = "binary_handle s"
  have l: "length (histogram ?h) = history_size ?h + 1" using assms(1) by (simp add: nearend_inv_def de_inv_def)
  have e: "r = k" "binary_handle s' = ?h\<lparr>mean_bit_counts := resize1 0 (history_size ?h) (nat k) jm (mean_bit_counts ?h),
      bit_counts := resize0 (nat k) (bit_counts ?h),
      histogram := resize1 (f_int F 0) (history_size ?h) (nat k) jh (histogram ?h), history_size := nat k\<rparr>"
    using assms(2,4) by (auto simp: WebRtc_set_history_size_def WebRtc_AllocateHistoryBufferMemory_def
        WebRtc_AllocateFarendBufferMemory_def Let_def split: if_splits)
  then show "r = k" "history_size (binary_handle s') = nat k" "length (histogram (binary_handle s')) = nat k + 1"
    "compare_delay (binary_handle s') = compare_delay ?h" "last_delay (binary_handle s') = last_delay ?h"
    using assms(3) l by (simp_all add: resize1_def)
qed

end
