(* ===== verification/G711.thy ===== *)
theory G711 imports Prelude begin

text \<open>
  The speech codecs that are pure arithmetic: G.711 mu-law and A-law (\<open>g711.h\<close>, \<open>g711.c\<close>,
  \<open>g711_interface.c\<close>) and 16-bit linear PCM (\<open>pcm16b.c\<close>). A \<open>uint8_t\<close> is an \<open>int\<close> from 0 to
  255; the encoded and decoded arrays are the elements the loops write. The portable versions of
  \<open>top_bit\<close> and \<open>bottom_bit\<close> are modelled (the ones every target but x86 compiles).
\<close>

definition u8 :: "int \<Rightarrow> int" where
  "u8 x = x mod 256"

definition isu8 :: "int \<Rightarrow> bool" where
  "isu8 x \<longleftrightarrow> 0 \<le> x \<and> x \<le> 255"

section \<open>Bit search\<close>

text \<open>One halving step: \<open>if (bits & mask) { bits &= mask; i += d; }\<close>.\<close>

definition keep_bits :: "int \<Rightarrow> int \<Rightarrow> int \<times> int \<Rightarrow> int \<times> int" where
  "keep_bits m d = (\<lambda>(bits, i). if bits AND m \<noteq> 0 then (bits AND m, i + d) else (bits, i))"

definition top_bit :: "int \<Rightarrow> int" where
  "top_bit bits =
     (if bits = 0 then - 1
      else
        let s = (bits, 0);
            s = keep_bits 0xFFFF0000 16 s;
            s = keep_bits 0xFF00FF00 8 s;
            s = keep_bits 0xF0F0F0F0 4 s;
            s = keep_bits 0xCCCCCCCC 2 s;
            s = keep_bits 0xAAAAAAAA 1 s
        in snd s)"

definition bottom_bit :: "int \<Rightarrow> int" where
  "bottom_bit bits =
     (if bits = 0 then - 1
      else
        let s = (bits, 32);
            s = keep_bits 0x0000FFFF (- 16) s;
            s = keep_bits 0x00FF00FF (- 8) s;
            s = keep_bits 0x0F0F0F0F (- 4) s;
            s = keep_bits 0x33333333 (- 2) s;
            s = keep_bits 0x55555555 (- 1) s
        in snd s)"

section \<open>Mu-law\<close>

definition ULAW_BIAS :: int where
  "ULAW_BIAS = 0x84"

definition linear_to_ulaw :: "int \<Rightarrow> int" where
  "linear_to_ulaw linear =
     (let (linear, mask) =
            (if linear < 0 then (ULAW_BIAS - linear - 1, 0x7F) else (ULAW_BIAS + linear, 0xFF));
          seg = top_bit (linear OR 0xFF) - 7
      in if seg \<ge> 8 then u8 (0x7F XOR mask)
         else u8 ((shl32 seg 4 OR (sar linear (nat (seg + 3)) AND 0xF)) XOR mask))"

definition ulaw_to_linear :: "int \<Rightarrow> int" where
  "ulaw_to_linear ulaw =
     (let ulaw = u8 (NOT ulaw);
          t = shl32 (shl32 (ulaw AND 0x0F) 3 + ULAW_BIAS) (nat (sar (ulaw AND 0x70) 4))
      in s16 (if ulaw AND 0x80 \<noteq> 0 then ULAW_BIAS - t else t - ULAW_BIAS))"

section \<open>A-law\<close>

definition ALAW_AMI_MASK :: int where
  "ALAW_AMI_MASK = 0x55"

definition linear_to_alaw :: "int \<Rightarrow> int" where
  "linear_to_alaw linear =
     (let (linear, mask) =
            (if linear \<ge> 0 then (linear, ALAW_AMI_MASK OR 0x80)
             else (- linear - 1, ALAW_AMI_MASK));
          seg = top_bit (linear OR 0xFF) - 7
      in if seg \<ge> 8 then (if linear \<ge> 0 then u8 (0x7F XOR mask) else u8 (0x00 XOR mask))
         else u8 ((shl32 seg 4 OR (sar linear (nat (if seg \<noteq> 0 then seg + 3 else 4)) AND 0x0F))
                  XOR mask))"

definition alaw_to_linear :: "int \<Rightarrow> int" where
  "alaw_to_linear alaw =
     (let alaw = alaw XOR ALAW_AMI_MASK;
          i = shl32 (alaw AND 0x0F) 4;
          seg = sar (alaw AND 0x70) 4;
          i = (if seg \<noteq> 0 then shl32 (i + 0x108) (nat (seg - 1)) else i + 8)
      in s16 (if alaw AND 0x80 \<noteq> 0 then i else - i))"

text \<open>Transcoding tables, copied from the CCITT G.711 specification.\<close>

definition ulaw_to_alaw_table :: "int list" where
  "ulaw_to_alaw_table = [
   42,  43,  40,  41,  46,  47,  44,  45,  34,  35,  32,  33,  38,  39,  36,
   37,  58,  59,  56,  57,  62,  63,  60,  61,  50,  51,  48,  49,  54,  55,
   52,  53,  10,  11,   8,   9,  14,  15,  12,  13,   2,   3,   0,   1,   6,
    7,   4,  26,  27,  24,  25,  30,  31,  28,  29,  18,  19,  16,  17,  22,
   23,  20,  21, 106, 104, 105, 110, 111, 108, 109,  98,  99,  96,  97, 102,
  103, 100, 101, 122, 120, 126, 127, 124, 125, 114, 115, 112, 113, 118, 119,
  116, 117,  75,  73,  79,  77,  66,  67,  64,  65,  70,  71,  68,  69,  90,
   91,  88,  89,  94,  95,  92,  93,  82,  82,  83,  83,  80,  80,  81,  81,
   86,  86,  87,  87,  84,  84,  85,  85, 170, 171, 168, 169, 174, 175, 172,
  173, 162, 163, 160, 161, 166, 167, 164, 165, 186, 187, 184, 185, 190, 191,
  188, 189, 178, 179, 176, 177, 182, 183, 180, 181, 138, 139, 136, 137, 142,
  143, 140, 141, 130, 131, 128, 129, 134, 135, 132, 154, 155, 152, 153, 158,
  159, 156, 157, 146, 147, 144, 145, 150, 151, 148, 149, 234, 232, 233, 238,
  239, 236, 237, 226, 227, 224, 225, 230, 231, 228, 229, 250, 248, 254, 255,
  252, 253, 242, 243, 240, 241, 246, 247, 244, 245, 203, 201, 207, 205, 194,
  195, 192, 193, 198, 199, 196, 197, 218, 219, 216, 217, 222, 223, 220, 221,
  210, 210, 211, 211, 208, 208, 209, 209, 214, 214, 215, 215, 212, 212, 213,
  213]"

definition alaw_to_ulaw_table :: "int list" where
  "alaw_to_ulaw_table = [
   42,  43,  40,  41,  46,  47,  44,  45,  34,  35,  32,  33,  38,  39,  36,
   37,  57,  58,  55,  56,  61,  62,  59,  60,  49,  50,  47,  48,  53,  54,
   51,  52,  10,  11,   8,   9,  14,  15,  12,  13,   2,   3,   0,   1,   6,
    7,   4,   5,  26,  27,  24,  25,  30,  31,  28,  29,  18,  19,  16,  17,
   22,  23,  20,  21,  98,  99,  96,  97, 102, 103, 100, 101,  93,  93,  92,
   92,  95,  95,  94,  94, 116, 118, 112, 114, 124, 126, 120, 122, 106, 107,
  104, 105, 110, 111, 108, 109,  72,  73,  70,  71,  76,  77,  74,  75,  64,
   65,  63,  63,  68,  69,  66,  67,  86,  87,  84,  85,  90,  91,  88,  89,
   79,  79,  78,  78,  82,  83,  80,  81, 170, 171, 168, 169, 174, 175, 172,
  173, 162, 163, 160, 161, 166, 167, 164, 165, 185, 186, 183, 184, 189, 190,
  187, 188, 177, 178, 175, 176, 181, 182, 179, 180, 138, 139, 136, 137, 142,
  143, 140, 141, 130, 131, 128, 129, 134, 135, 132, 133, 154, 155, 152, 153,
  158, 159, 156, 157, 146, 147, 144, 145, 150, 151, 148, 149, 226, 227, 224,
  225, 230, 231, 228, 229, 221, 221, 220, 220, 223, 223, 222, 222, 244, 246,
  240, 242, 252, 254, 248, 250, 234, 235, 232, 233, 238, 239, 236, 237, 200,
  201, 198, 199, 204, 205, 202, 203, 192, 193, 191, 191, 196, 197, 194, 195,
  214, 215, 212, 213, 218, 219, 216, 217, 207, 207, 206, 206, 210, 211, 208,
  209]"

definition alaw_to_ulaw :: "int \<Rightarrow> int" where
  "alaw_to_ulaw alaw = alaw_to_ulaw_table ! nat alaw"

definition ulaw_to_alaw :: "int \<Rightarrow> int" where
  "ulaw_to_alaw ulaw = ulaw_to_alaw_table ! nat ulaw"

section \<open>The codec interface\<close>

definition WebRtcG711_EncodeA :: "int list \<Rightarrow> nat \<Rightarrow> int list \<times> nat" where
  "WebRtcG711_EncodeA speechIn len = (map linear_to_alaw (take len speechIn), len)"

definition WebRtcG711_EncodeU :: "int list \<Rightarrow> nat \<Rightarrow> int list \<times> nat" where
  "WebRtcG711_EncodeU speechIn len = (map linear_to_ulaw (take len speechIn), len)"

text \<open>Decoded samples, \<open>*speechType\<close> and the number of samples.\<close>

definition WebRtcG711_DecodeA :: "int list \<Rightarrow> nat \<Rightarrow> int list \<times> int \<times> nat" where
  "WebRtcG711_DecodeA encoded len = (map alaw_to_linear (take len encoded), 1, len)"

definition WebRtcG711_DecodeU :: "int list \<Rightarrow> nat \<Rightarrow> int list \<times> int \<times> nat" where
  "WebRtcG711_DecodeU encoded len = (map ulaw_to_linear (take len encoded), 1, len)"

text \<open>\<open>strncpy\<close> of ''2.0.0'' into \<open>lenBytes\<close> characters (padded with NUL, cut without one).\<close>

definition WebRtcG711_Version :: "nat \<Rightarrow> string \<times> int" where
  "WebRtcG711_Version lenBytes =
     (take lenBytes (''2.0.0'' @ replicate (lenBytes - 5) (CHR 0x00)), 0)"

section \<open>16-bit PCM\<close>

definition WebRtcPcm16b_Encode :: "int list \<Rightarrow> nat \<Rightarrow> int list \<times> nat" where
  "WebRtcPcm16b_Encode speech len =
     (concat (map (\<lambda>x. let s = u16 x in [u8 (sar s 8), u8 s]) (take len speech)), 2 * len)"

definition WebRtcPcm16b_Decode :: "int list \<Rightarrow> nat \<Rightarrow> int list \<times> nat" where
  "WebRtcPcm16b_Decode encoded len =
     (map (\<lambda>i. s16 (shl32 (encoded ! (2 * i)) 8 OR encoded ! (2 * i + 1))) [0..<len div 2],
      len div 2)"

section \<open>Bit search: correctness\<close>

text \<open>
  After the steps for the digits \<open>16 \<dots> 2 ^ j\<close> of a bit position, the bits left are those whose
  position agrees with the highest one in these digits.
\<close>

definition digit_mask :: "int \<Rightarrow> nat \<Rightarrow> bool \<Rightarrow> bool" where
  "digit_mask m j b \<longleftrightarrow> (\<forall>p. bit m p \<longleftrightarrow> p < 32 \<and> (bit p j \<longleftrightarrow> b))"

lemma bits_upto32:
  assumes "0 \<le> m" "m < 2 ^ 32" "\<forall>p\<in>set [0..<32]. bit m p \<longleftrightarrow> (bit p j \<longleftrightarrow> b)"
  shows "digit_mask m j b"
proof -
  have "take_bit 32 m = m" using assms by (simp add: take_bit_int_eq_self)
  then have "\<not> bit m p" if "\<not> p < 32" for p using that by (metis bit_take_bit_iff)
  then show ?thesis using assms(3) by (auto simp: digit_mask_def)
qed

lemma digit_masks:
  "digit_mask 0xFFFF0000 4 True" "digit_mask 0xFF00FF00 3 True" "digit_mask 0xF0F0F0F0 2 True"
  "digit_mask 0xCCCCCCCC 1 True" "digit_mask 0xAAAAAAAA 0 True"
  "digit_mask 0x0000FFFF 4 False" "digit_mask 0x00FF00FF 3 False" "digit_mask 0x0F0F0F0F 2 False"
  "digit_mask 0x33333333 1 False" "digit_mask 0x55555555 0 False"
  by (rule bits_upto32; code_simp)+

definition top_found :: "nat \<Rightarrow> nat \<Rightarrow> int \<times> int \<Rightarrow> bool" where
  "top_found T j s \<longleftrightarrow>
     bit (fst s) T \<and> (\<forall>p. bit (fst s) p \<longrightarrow> p < 32 \<and> p div 2 ^ j = T div 2 ^ j \<and> p \<le> T) \<and>
     snd s = int (T div 2 ^ j * 2 ^ j)"

definition bottom_found :: "nat \<Rightarrow> nat \<Rightarrow> int \<times> int \<Rightarrow> bool" where
  "bottom_found B j s \<longleftrightarrow>
     bit (fst s) B \<and> (\<forall>p. bit (fst s) p \<longrightarrow> p < 32 \<and> p div 2 ^ j = B div 2 ^ j \<and> B \<le> p) \<and>
     snd s = int (B div 2 ^ j * 2 ^ j + 2 ^ j)"

lemma div_pow_digit: "(p :: nat) div 2 ^ j = 2 * (p div 2 ^ Suc j) + (if bit p j then 1 else 0)"
proof -
  have "p div 2 ^ Suc j = p div 2 ^ j div 2"
    by (simp only: power_Suc2 div_mult2_eq)
  moreover have "(if bit p j then 1 else 0) = p div 2 ^ j mod 2"
    by (simp add: bit_iff_odd odd_iff_mod_2_eq_one)
  ultimately show ?thesis by (simp only: mult_div_mod_eq)
qed

lemma same_digit:
  "p div 2 ^ Suc j = q div 2 ^ Suc j \<Longrightarrow> (bit p j \<longleftrightarrow> bit (q :: nat) j) \<Longrightarrow> p div 2 ^ j = q div 2 ^ j"
  by (simp only: div_pow_digit [of p j] div_pow_digit [of q j])

lemma digit_le:
  assumes "p div 2 ^ Suc j = q div 2 ^ Suc j" "p \<le> q" "bit (p :: nat) j"
  shows "bit q j"
proof (rule ccontr)
  assume "\<not> bit q j"
  then have "q div 2 ^ j < p div 2 ^ j"
    using assms(1,3) by (simp only: div_pow_digit [of p j] div_pow_digit [of q j] if_True if_False)
  then show False using div_le_mono [OF assms(2), of "2 ^ j"] by linarith
qed

lemma div_pow_mult:
  "(p :: nat) div 2 ^ j * 2 ^ j = p div 2 ^ Suc j * 2 ^ Suc j + (if bit p j then 2 ^ j else 0)"
  by (simp only: div_pow_digit [of p j]) (simp add: algebra_simps del: div_mult_self1)

lemma top_foundI:
  assumes "bit b T" "\<And>p. bit b p \<Longrightarrow> p < 32 \<and> p div 2 ^ j = T div 2 ^ j \<and> p \<le> T"
    "i = int (T div 2 ^ j * 2 ^ j)"
  shows "top_found T j (b, i)"
  unfolding top_found_def fst_conv snd_conv using assms by blast

lemma top_found_step:
  assumes f: "top_found T (Suc j) (b, i)" and m: "digit_mask m j True"
  shows "top_found T j (keep_bits m (2 ^ j) (b, i))"
proof -
  have f': "bit b T \<and> (\<forall>p. bit b p \<longrightarrow> p < 32 \<and> p div 2 ^ Suc j = T div 2 ^ Suc j \<and> p \<le> T) \<and>
      i = int (T div 2 ^ Suc j * 2 ^ Suc j)"
    by (rule f [unfolded top_found_def fst_conv snd_conv])
  have T: "bit b T" using f' by (rule conjunct1)
  have i: "i = int (T div 2 ^ Suc j * 2 ^ Suc j)"
    by (rule f' [THEN conjunct2, THEN conjunct2])
  have all: "\<And>p. bit b p \<Longrightarrow> p < 32 \<and> p div 2 ^ Suc j = T div 2 ^ Suc j \<and> p \<le> T"
    by (rule f' [THEN conjunct2, THEN conjunct1, THEN spec, THEN mp])
  have le: "bit T j" if "bit b p" "bit p j" for p
    using all [OF that(1)] that(2) digit_le [of p j T] by blast
  have km: "bit (b AND m) p \<longleftrightarrow> bit b p \<and> bit p j" for p
    using m all [of p] by (auto simp: digit_mask_def bit_and_iff)
  have same: "p < 32 \<and> p div 2 ^ j = T div 2 ^ j \<and> p \<le> T" if "bit b p" "bit p j \<longleftrightarrow> bit T j" for p
    using all [OF that(1)] same_digit [OF _ that(2)] by blast
  show ?thesis
  proof (cases "bit T j")
    case True
    have "bit (b AND m) T" using km [of T] T True by blast
    then have "b AND m \<noteq> 0" by (metis bit_0_eq bot_apply bot_bool_def)
    then have k: "keep_bits m (2 ^ j) (b, i) = (b AND m, i + 2 ^ j)" by (simp add: keep_bits_def)
    show ?thesis unfolding k
    proof (rule top_foundI)
      show "bit (b AND m) T" by fact
      show "p < 32 \<and> p div 2 ^ j = T div 2 ^ j \<and> p \<le> T" if "bit (b AND m) p" for p
        using same [of p] that km [of p] True by blast
      show "i + 2 ^ j = int (T div 2 ^ j * 2 ^ j)"
        unfolding div_pow_mult [of T j] i using True by simp
    qed
  next
    case False
    then have no: "\<not> (bit b p \<and> bit p j)" for p using le by blast
    then have "b AND m = 0" using km by (auto intro!: bit_eqI)
    then have k: "keep_bits m (2 ^ j) (b, i) = (b, i)" by (simp add: keep_bits_def)
    show ?thesis unfolding k
    proof (rule top_foundI)
      show "bit b T" by fact
      show "p < 32 \<and> p div 2 ^ j = T div 2 ^ j \<and> p \<le> T" if "bit b p" for p
        using same [of p] that no [of p] False by blast
      show "i = int (T div 2 ^ j * 2 ^ j)"
        unfolding div_pow_mult [of T j] i using False by simp
    qed
  qed
qed

lemma bottom_foundI:
  assumes "bit b B" "\<And>p. bit b p \<Longrightarrow> p < 32 \<and> p div 2 ^ j = B div 2 ^ j \<and> B \<le> p"
    "i = int (B div 2 ^ j * 2 ^ j + 2 ^ j)"
  shows "bottom_found B j (b, i)"
  unfolding bottom_found_def fst_conv snd_conv using assms by blast

lemma bottom_found_step:
  assumes f: "bottom_found B (Suc j) (b, i)" and m: "digit_mask m j False"
  shows "bottom_found B j (keep_bits m (- (2 ^ j)) (b, i))"
proof -
  have f': "bit b B \<and> (\<forall>p. bit b p \<longrightarrow> p < 32 \<and> p div 2 ^ Suc j = B div 2 ^ Suc j \<and> B \<le> p) \<and>
      i = int (B div 2 ^ Suc j * 2 ^ Suc j + 2 ^ Suc j)"
    by (rule f [unfolded bottom_found_def fst_conv snd_conv])
  have B: "bit b B" using f' by (rule conjunct1)
  have i: "i = int (B div 2 ^ Suc j * 2 ^ Suc j + 2 ^ Suc j)"
    by (rule f' [THEN conjunct2, THEN conjunct2])
  have all: "\<And>p. bit b p \<Longrightarrow> p < 32 \<and> p div 2 ^ Suc j = B div 2 ^ Suc j \<and> B \<le> p"
    by (rule f' [THEN conjunct2, THEN conjunct1, THEN spec, THEN mp])
  have le: "bit p j" if "bit b p" "bit B j" for p
    using all [OF that(1)] that(2) digit_le [of B j p] by metis
  have km: "bit (b AND m) p \<longleftrightarrow> bit b p \<and> \<not> bit p j" for p
    using m all [of p] by (auto simp: digit_mask_def bit_and_iff)
  have same: "p < 32 \<and> p div 2 ^ j = B div 2 ^ j \<and> B \<le> p" if "bit b p" "bit p j \<longleftrightarrow> bit B j" for p
    using all [OF that(1)] same_digit [OF _ that(2)] by blast
  show ?thesis
  proof (cases "bit B j")
    case False
    have "bit (b AND m) B" using km [of B] B False by blast
    then have "b AND m \<noteq> 0" by (metis bit_0_eq bot_apply bot_bool_def)
    then have k: "keep_bits m (- (2 ^ j)) (b, i) = (b AND m, i - 2 ^ j)" by (simp add: keep_bits_def)
    show ?thesis unfolding k
    proof (rule bottom_foundI)
      show "bit (b AND m) B" by fact
      show "p < 32 \<and> p div 2 ^ j = B div 2 ^ j \<and> B \<le> p" if "bit (b AND m) p" for p
        using same [of p] that km [of p] False by blast
      show "i - 2 ^ j = int (B div 2 ^ j * 2 ^ j + 2 ^ j)"
        unfolding div_pow_mult [of B j] i using False by simp
    qed
  next
    case True
    then have no: "\<not> (bit b p \<and> \<not> bit p j)" for p using le by blast
    then have "b AND m = 0" using km by (auto intro!: bit_eqI)
    then have k: "keep_bits m (- (2 ^ j)) (b, i) = (b, i)" by (simp add: keep_bits_def)
    show ?thesis unfolding k
    proof (rule bottom_foundI)
      show "bit b B" by fact
      show "p < 32 \<and> p div 2 ^ j = B div 2 ^ j \<and> B \<le> p" if "bit b p" for p
        using same [of p] that no [of p] True by blast
      show "i = int (B div 2 ^ j * 2 ^ j + 2 ^ j)"
        unfolding div_pow_mult [of B j] i using True by simp
    qed
  qed
qed

lemma top_found_next:
  "top_found T k s \<Longrightarrow> digit_mask m j True \<Longrightarrow> 2 ^ j = d \<Longrightarrow> k = Suc j \<Longrightarrow> top_found T j (keep_bits m d s)"
  using top_found_step [of T j "fst s" "snd s" m] by simp

lemma bottom_found_next:
  "bottom_found B k s \<Longrightarrow> digit_mask m j False \<Longrightarrow> - (2 ^ j) = d \<Longrightarrow> k = Suc j
    \<Longrightarrow> bottom_found B j (keep_bits m d s)"
  using bottom_found_step [of B j "fst s" "snd s" m] by simp

lemma top_found_chain:
  assumes s: "top_found T 5 s"
  shows "snd (keep_bits 0xAAAAAAAA 1 (keep_bits 0xCCCCCCCC 2 (keep_bits 0xF0F0F0F0 4
    (keep_bits 0xFF00FF00 8 (keep_bits 0xFFFF0000 16 s))))) = int T"
proof -
  note n1 = top_found_next [OF s digit_masks(1), of 16, simplified]
  note n2 = top_found_next [OF n1 digit_masks(2), of 8, simplified]
  note n3 = top_found_next [OF n2 digit_masks(3), of 4, simplified]
  note n4 = top_found_next [OF n3 digit_masks(4), of 2, simplified]
  show ?thesis
    using top_found_next [OF n4 digit_masks(5), of 1] by (simp add: top_found_def)
qed

lemma bottom_found_chain:
  assumes s: "bottom_found B 5 s"
  shows "snd (keep_bits 0x55555555 (- 1) (keep_bits 0x33333333 (- 2) (keep_bits 0x0F0F0F0F (- 4)
    (keep_bits 0x00FF00FF (- 8) (keep_bits 0x0000FFFF (- 16) s))))) = int B + 1"
proof -
  note n1 = bottom_found_next [OF s digit_masks(6), of "- 16", simplified]
  note n2 = bottom_found_next [OF n1 digit_masks(7), of "- 8", simplified]
  note n3 = bottom_found_next [OF n2 digit_masks(8), of "- 4", simplified]
  note n4 = bottom_found_next [OF n3 digit_masks(9), of "- 2", simplified]
  show ?thesis
    using bottom_found_next [OF n4 digit_masks(10), of "- 1"] by (simp add: bottom_found_def)
qed

text \<open>The index of the highest set bit.\<close>

lemma top_bit_eq:
  assumes "2 ^ T \<le> b" "b < 2 ^ Suc T" "T < 32"
  shows "top_bit b = int T"
proof -
  have "b div 2 ^ T = 1"
    using assms(1,2) sar_less_iff [of b T 2] sar_ge_iff [of 1 b T] by (simp add: sar_def)
  then have T: "bit b T" by (simp add: bit_iff_odd)
  have b: "take_bit (Suc T) b = b"
    using assms(1,2) zero_le_power [of "2 :: int" T] by (intro take_bit_int_eq_self) simp_all
  have all: "p \<le> T" if "bit b p" for p
  proof (rule ccontr)
    assume "\<not> p \<le> T"
    then have "\<not> bit (take_bit (Suc T) b) p" by (simp add: bit_take_bit_iff)
    then show False using that b by simp
  qed
  have "top_found T 5 (b, 0)"
  proof (rule top_foundI)
    show "p < 32 \<and> p div 2 ^ 5 = T div 2 ^ 5 \<and> p \<le> T" if "bit b p" for p
      using all [OF that] assms(3) by simp
  qed (use T assms(3) in simp_all)
  moreover have "b \<noteq> 0" using T by auto
  ultimately show ?thesis
    by (simp add: top_bit_def top_found_chain)
qed

text \<open>The index of the lowest set bit, plus one: the count starts at 32, not 31.\<close>

lemma bottom_bit_eq:
  assumes "b mod 2 ^ B = 0" "odd (b div 2 ^ B)" "0 \<le> b" "b < 2 ^ 32"
  shows "bottom_bit b = int B + 1"
proof -
  have B: "bit b B" using assms(2) by (simp add: bit_iff_odd)
  have b: "take_bit 32 b = b" using assms(3,4) by (simp add: take_bit_int_eq_self)
  have all: "p < 32 \<and> B \<le> p" if "bit b p" for p
  proof (rule ccontr)
    assume "\<not> (p < 32 \<and> B \<le> p)"
    then have "\<not> bit (take_bit 32 b) p \<or> bit (take_bit B b) p"
      using that by (auto simp: bit_take_bit_iff)
    then show False using that b assms(1) by (auto simp: take_bit_eq_mod)
  qed
  have "bottom_found B 5 (b, 32)"
  proof (rule bottom_foundI)
    show "p < 32 \<and> p div 2 ^ 5 = B div 2 ^ 5 \<and> B \<le> p" if "bit b p" for p
      using all [OF that] all [OF B] by simp
  qed (use B all [OF B] in simp_all)
  moreover have "b \<noteq> 0" using B by auto
  ultimately show ?thesis
    by (simp add: bottom_bit_def bottom_found_chain)
qed

section \<open>Segments and codes\<close>

text \<open>The segment of a magnitude: segment 0 holds all below 256, segment \<open>s\<close> one octave.\<close>

definition in_segment :: "int \<Rightarrow> nat \<Rightarrow> bool" where
  "in_segment m s \<longleftrightarrow> (if s = 0 then 0 \<le> m else 2 ^ (s + 7) \<le> m) \<and> m < 2 ^ (s + 8)"

lemma in_segment_exists:
  assumes "0 \<le> m" "m < 65536"
  obtains s where "s \<le> 8" "in_segment m s"
proof -
  have "\<exists>s\<in>set [0..<9]. in_segment m s"
    using assms by (simp add: in_segment_def upt_rec del: upt_Suc) linarith
  then obtain s where "s < 9" "in_segment m s" by auto
  then show ?thesis using that [of s] by simp
qed

lemma segment_nonneg: "in_segment m s \<Longrightarrow> 0 \<le> m"
  using zero_le_power [of "2 :: int" "s + 7"] by (auto simp: in_segment_def split: if_splits
      elim: order_trans [rotated])

lemma or_FF: "0 \<le> (m :: int) \<Longrightarrow> m OR 255 = 256 * (m div 256) + 255"
proof -
  have "m AND 255 = m mod 256"
    using take_bit_eq_mask [of 8 m] by (simp add: take_bit_eq_mod mask_eq_exp_minus_1)
  moreover have "(m AND 255) + (m OR 255) = m + 255" by (rule plus_and_or)
  moreover have "m = 256 * (m div 256) + m mod 256" by simp
  ultimately show ?thesis by linarith
qed

lemma segment_found:
  assumes "in_segment m s" "s \<le> 8"
  shows "top_bit (m OR 255) - 7 = int s"
proof -
  have m: "0 \<le> m" "m < 256 * 2 ^ s" using assms(1) segment_nonneg
    by (auto simp: in_segment_def power_add mult.commute)
  then have "m div 256 < 2 ^ s" by (intro int_div_lt) (simp_all add: mult.commute)
  then have up: "m OR 255 < 2 ^ Suc (s + 7)" using or_FF [OF m(1)] by (simp add: power_add)
  have "2 ^ (s + 7) \<le> m OR 255"
  proof (cases "s = 0")
    case True
    then show ?thesis using or_FF [OF m(1)] m(1) by (simp add: pos_imp_zdiv_nonneg_iff)
  next
    case False
    then have "2 ^ (s + 7) \<le> m" using assms(1) by (simp add: in_segment_def)
    moreover have "m \<le> m OR 255"
      using or_FF [OF m(1)] pos_mod_bound [of 256 m] div_mult_mod_eq [of m 256] by simp
    ultimately show ?thesis by linarith
  qed
  then show ?thesis using top_bit_eq [OF _ up] assms(2) by simp
qed

lemma xor_mask:
  assumes "0 \<le> (v :: int)" "v < 2 ^ n"
  shows "v XOR mask n = mask n - v"
proof -
  have "bit v k \<Longrightarrow> k < n" for k
    using assms take_bit_int_eq_self [of v n] by (metis bit_take_bit_iff)
  then have "(v XOR mask n) AND v = 0" "(v XOR mask n) OR v = mask n"
    by (auto intro!: bit_eqI simp: bit_xor_iff bit_and_iff bit_or_iff bit_mask_iff)
  then show ?thesis using plus_and_or [of "v XOR mask n" v] by simp
qed

text \<open>The code of segment \<open>s\<close> and step \<open>q\<close>, before the sign and the line mask.\<close>

lemma code_bits:
  assumes "s \<le> 7"
  shows "shl32 (int s) 4 OR (x AND 15) = 16 * int s + x mod 16"
proof -
  have a: "x AND 15 = x mod 16"
    using take_bit_eq_mask [of 4 x] by (simp add: take_bit_eq_mod mask_eq_exp_minus_1)
  have "shl32 (int s) 4 = push_bit 4 (int s)"
    using assms by (simp add: shl32_def push_bit_eq_mult s32_eqI)
  moreover have "push_bit 4 (int s) AND take_bit 4 x = 0"
    by (rule bit_eqI) (auto simp: bit_and_iff bit_push_bit_iff bit_take_bit_iff)
  ultimately show ?thesis
    using plus_and_or [of "push_bit 4 (int s)" "take_bit 4 x"] a
    by (simp add: take_bit_eq_mod push_bit_eq_mult)
qed

text \<open>
  Every code stands for an interval of magnitudes of length \<open>d\<close> and decodes to its midpoint; \<open>d\<close>
  doubles from one segment to the next.
\<close>

definition midpoint :: "int \<Rightarrow> int \<Rightarrow> int" where
  "midpoint d m = d * (m div d) + d div 2"

lemma midpoint_close:
  assumes "0 < d"
  shows "midpoint d m \<le> m + d div 2" "m - midpoint d m < d - d div 2"
  using pos_mod_bound [OF assms, of m] pos_mod_sign [OF assms, of m] mult_div_mod_eq [of d m]
  unfolding midpoint_def by linarith+

lemma midpoint_mono: "0 < d \<Longrightarrow> m \<le> n \<Longrightarrow> midpoint d m \<le> midpoint d n"
  by (simp add: midpoint_def zdiv_mono1)

lemma midpoint_below:
  assumes "m < d * k" "0 < d"
  shows "midpoint d m \<le> d * k"
proof -
  have "m div d < k" using assms by (intro int_div_lt) (simp_all add: mult.commute)
  then have "d * (m div d + 1) \<le> d * k" using assms(2) by (intro mult_left_mono) simp_all
  then show ?thesis using assms(2) by (simp add: midpoint_def distrib_left)
qed

lemma midpoint_above:
  assumes "d * k \<le> m" "0 < d"
  shows "d * k \<le> midpoint d m"
proof -
  have "d * k div d \<le> m div d" by (rule zdiv_mono1 [OF assms])
  then have "d * k \<le> d * (m div d)" using assms(2) by simp
  moreover have "0 \<le> d div 2" using assms(2) by simp
  ultimately show ?thesis unfolding midpoint_def by linarith
qed

lemma int_mod_shift: "16 \<le> k \<Longrightarrow> k < 32 \<Longrightarrow> (k :: int) mod 16 = k - 16"
  using mod_pos_pos_trivial [of "k - 16" 16] by simp

lemma step_in_segment:
  fixes m :: int
  assumes "2 ^ (s + 7) \<le> m" "m < 2 ^ (s + 8)"
  shows "m div 2 ^ (s + 3) mod 16 = m div 2 ^ (s + 3) - 16"
proof -
  have "16 \<le> m div 2 ^ (s + 3)"
    using assms(1) sar_ge_iff [of 16 m "s + 3"] by (simp add: sar_def power_add)
  moreover have "m div 2 ^ (s + 3) < 32"
    using assms(2) sar_less_iff [of m "s + 3" 32] by (simp add: sar_def power_add)
  ultimately show ?thesis by (intro int_mod_shift) 
qed

text \<open>
  The interval length of segment \<open>s\<close>: mu-law doubles from segment 0 on (\<open>e = 0\<close>), A-law keeps the
  length of segment 0 in segment 1 (\<open>e = 1\<close>). Decoded values never decrease with the magnitude.
\<close>

definition seg_step :: "nat \<Rightarrow> nat \<Rightarrow> int" where
  "seg_step e s = 2 ^ (max e s + 3)"

lemma seg_step_pos [simp]: "0 < seg_step e s"
  by (simp add: seg_step_def)

lemma segment_order:
  assumes "in_segment m s" "in_segment n t" "m \<le> n"
  shows "s \<le> t"
proof (rule ccontr)
  assume "\<not> s \<le> t"
  then have "t + 8 \<le> s + 7" "s \<noteq> 0" by simp_all
  then have "(2 :: int) ^ (t + 8) \<le> 2 ^ (s + 7)" by (intro power_increasing) simp_all
  moreover have "2 ^ (s + 7) \<le> m" "n < 2 ^ (t + 8)"
    using assms(1,2) \<open>s \<noteq> 0\<close> by (simp_all add: in_segment_def)
  ultimately show False using assms(3) by linarith
qed

lemma segment_value_mono:
  assumes "in_segment m s" "in_segment n t" "m \<le> n" "e \<le> 1"
  shows "midpoint (seg_step e s) m \<le> midpoint (seg_step e t) n"
proof (cases "s = t")
  case True
  then show ?thesis using midpoint_mono [OF seg_step_pos assms(3)] by simp
next
  case False
  then have st: "s + 8 \<le> t + 7" "t \<noteq> 0" using segment_order [OF assms(1-3)] by simp_all
  have k: "2 ^ (s + 8) = seg_step e s * 2 ^ (s + 5 - max e s)"
    using assms(4) by (auto simp: seg_step_def simp flip: power_add)
  have l: "2 ^ (t + 7) = seg_step e t * 2 ^ (t + 4 - max e t)"
  proof -
    have "max e t = t" using assms(4) st(2) by simp
    then show ?thesis by (simp add: seg_step_def power_add)
  qed
  have "midpoint (seg_step e s) m \<le> 2 ^ (s + 8)"
    unfolding k by (rule midpoint_below) (use assms(1) k in \<open>simp_all add: in_segment_def\<close>)
  also have "\<dots> \<le> 2 ^ (t + 7)" using st(1) by (intro power_increasing) simp_all
  also have "\<dots> \<le> midpoint (seg_step e t) n"
    unfolding l by (rule midpoint_above) (use assms(2) l st(2) in \<open>simp_all add: in_segment_def\<close>)
  finally show ?thesis .
qed

section \<open>Mu-law: what the codec computes\<close>

text \<open>The biased magnitude of a sample, clipped at the top of segment 7.\<close>

definition ulaw_magnitude :: "int \<Rightarrow> int" where
  "ulaw_magnitude x = min 32767 (if x < 0 then 131 - x else 132 + x)"

lemma ulaw_segment:
  obtains s where "s \<le> 7" "in_segment (ulaw_magnitude x) s"
proof -
  have "\<exists>s\<in>set [0..<8]. in_segment (ulaw_magnitude x) s"
    unfolding ulaw_magnitude_def by (simp add: in_segment_def upt_rec del: upt_Suc) linarith
  then obtain s where "s < 8" "in_segment (ulaw_magnitude x) s" by auto
  then show ?thesis using that [of s] by simp
qed

lemma ulaw_code:
  assumes "in_segment (ulaw_magnitude x) s" "s \<le> 7" "is16 x"
  shows "linear_to_ulaw x =
    (if x < 0 then 127 else 255) - (16 * int s + ulaw_magnitude x div 2 ^ (s + 3) mod 16)"
proof -
  let ?b = "if x < 0 then 131 - x else 132 + x"
  have m: "(if x < 0 then (ULAW_BIAS - x - 1, 0x7F) else (ULAW_BIAS + x, 0xFF)) =
    (?b, if x < 0 then 127 else 255)"
    by (simp add: ULAW_BIAS_def)
  let ?v = "16 * int s + ulaw_magnitude x div 2 ^ (s + 3) mod 16"
  have v: "0 \<le> ?v" "?v < 128" using assms(2) by (simp_all add: add_nonneg_nonneg)
  have x7: "?v XOR 127 = 127 - ?v" using xor_mask [of ?v 7] v by (simp add: mask_eq_exp_minus_1)
  have x8: "?v XOR 255 = 255 - ?v" using xor_mask [of ?v 8] v by (simp add: mask_eq_exp_minus_1)
  show ?thesis
  proof (cases "?b < 32768")
    case True
    then have b: "?b = ulaw_magnitude x" by (simp add: ulaw_magnitude_def)
    have seg: "top_bit (ulaw_magnitude x OR 0xFF) - 7 = int s"
      by (rule segment_found) (use assms in simp_all)
    have "linear_to_ulaw x = u8 (?v XOR (if x < 0 then 127 else 255))"
      unfolding linear_to_ulaw_def m Let_def prod.case b seg
      using assms(2) code_bits [OF assms(2), of "sar (ulaw_magnitude x) (s + 3)"]
      by (simp add: sar_def nat_add_distrib)
    then show ?thesis using v x7 x8 by (auto simp: u8_def)
  next
    case False
    then have c: "ulaw_magnitude x = 32767" by (simp add: ulaw_magnitude_def)
    have "in_segment 32767 7" by (simp add: in_segment_def)
    then have s: "s = 7"
      using assms(1) segment_order [of 32767 s 32767 7] segment_order [of 32767 7 32767 s] c by simp
    have "in_segment ?b 8" using False assms(3) by (auto simp: in_segment_def is16_def)
    then have seg: "top_bit (?b OR 0xFF) - 7 = 8"
      using segment_found [of ?b 8] by simp
    show ?thesis
      unfolding linear_to_ulaw_def m Let_def prod.case seg c s by (simp add: u8_def)
  qed
qed

lemma ulaw_decode_codes:
  "\<forall>s\<in>set [0..<8]. \<forall>q\<in>set [0..15]. \<forall>b\<in>set [127, 255].
     ulaw_to_linear (b - (16 * int s + q)) =
       (if b = 127 then 132 - (8 * q + 132) * 2 ^ s else (8 * q + 132) * 2 ^ s - 132)"
  by code_simp

lemma ulaw_decode_code:
  assumes "s \<le> 7" "0 \<le> q" "q < 16"
  shows "ulaw_to_linear ((if neg then 127 else 255) - (16 * int s + q)) =
    (if neg then 132 - (8 * q + 132) * 2 ^ s else (8 * q + 132) * 2 ^ s - 132)"
proof -
  have "s \<in> set [0..<8]" "q \<in> set [0..15]" "(if neg then 127 else 255) \<in> set [127, 255 :: int]"
    using assms by auto
  from bspec [OF bspec [OF bspec [OF ulaw_decode_codes this(1)] this(2)] this(3)]
  show ?thesis by (cases neg) simp_all
qed

text \<open>Encoding then decoding moves the biased magnitude to the midpoint of its interval.\<close>

lemma ulaw_quantised:
  assumes "in_segment (ulaw_magnitude x) s" "s \<le> 7" "is16 x"
  shows "ulaw_to_linear (linear_to_ulaw x) =
    (if x < 0 then 132 - midpoint (seg_step 0 s) (ulaw_magnitude x)
     else midpoint (seg_step 0 s) (ulaw_magnitude x) - 132)"
proof -
  let ?m = "ulaw_magnitude x" and ?q = "ulaw_magnitude x div 2 ^ (s + 3) mod 16"
  have "2 ^ (s + 7) \<le> ?m"
    using assms(1) by (cases "s = 0") (simp_all add: in_segment_def ulaw_magnitude_def)
  then have q: "?q = ?m div 2 ^ (s + 3) - 16"
    using assms(1) by (intro step_in_segment) (simp_all add: in_segment_def)
  have "(8 * ?q + 132) * 2 ^ s = midpoint (seg_step 0 s) ?m"
    unfolding q by (simp add: midpoint_def seg_step_def power_add algebra_simps)
  then show ?thesis
    unfolding ulaw_code [OF assms]
    using ulaw_decode_code [OF assms(2), of ?q "x < 0"] by simp
qed

lemma ulaw_midpoint_range:
  assumes "in_segment (ulaw_magnitude x) s" "s \<le> 7"
  shows "132 \<le> midpoint (seg_step 0 s) (ulaw_magnitude x)"
    "midpoint (seg_step 0 s) (ulaw_magnitude x) \<le> 32256"
proof -
  let ?m = "ulaw_magnitude x"
  have lo: "in_segment 128 0" and hi: "in_segment 32767 7"
    by (simp_all add: in_segment_def)
  have "128 \<le> ?m" "?m \<le> 32767" by (simp_all add: ulaw_magnitude_def)
  then show "132 \<le> midpoint (seg_step 0 s) ?m" "midpoint (seg_step 0 s) ?m \<le> 32256"
    using segment_value_mono [OF lo assms(1), of 0] segment_value_mono [OF assms(1) hi, of 0]
    by (simp_all add: midpoint_def seg_step_def)
qed

text \<open>An error of half an interval, which is a 32nd of the lower end of its segment.\<close>

lemma midpoint_error:
  fixes e :: nat
  assumes "in_segment m s" "e \<le> 1"
  obtains h where "midpoint (seg_step e s) m - h \<le> m" "m < midpoint (seg_step e s) m + h"
    "32 * h \<le> max (2 ^ (e + 7)) m"
proof -
  let ?h = "2 ^ (max e s + 2) :: int"
  have "seg_step e s = 2 * ?h"
    unfolding seg_step_def by (simp add: power_add)
  then have "midpoint (seg_step e s) m - ?h \<le> m" "m < midpoint (seg_step e s) m + ?h"
    using midpoint_close [where d = "seg_step e s" and m = m] by simp_all
  moreover have "2 ^ (max e s + 7) \<le> max (2 ^ (e + 7)) m"
  proof (cases "s = 0")
    case False
    then have "max e s = s" "2 ^ (s + 7) \<le> m" using assms by (simp_all add: in_segment_def)
    then show ?thesis by simp
  qed simp
  moreover have "(2 :: int) ^ (max e s + 7) = 32 * ?h"
    by (simp add: power_add)
  ultimately show ?thesis using that [of ?h] by simp
qed

text \<open>
  Mu-law as a quantiser: the decoded sample has the sign of the input, errs by at most a 32nd of
  the biased magnitude, and decoding never reverses the order of two samples.
\<close>

lemma ulaw_sign:
  assumes "is16 x"
  shows "x < 0 \<Longrightarrow> - 32124 \<le> ulaw_to_linear (linear_to_ulaw x) \<and> ulaw_to_linear (linear_to_ulaw x) \<le> 0"
    "0 \<le> x \<Longrightarrow> 0 \<le> ulaw_to_linear (linear_to_ulaw x) \<and> ulaw_to_linear (linear_to_ulaw x) \<le> 32124"
proof -
  obtain s where s: "s \<le> 7" "in_segment (ulaw_magnitude x) s" by (rule ulaw_segment)
  show "x < 0 \<Longrightarrow> - 32124 \<le> ulaw_to_linear (linear_to_ulaw x) \<and> ulaw_to_linear (linear_to_ulaw x) \<le> 0"
    "0 \<le> x \<Longrightarrow> 0 \<le> ulaw_to_linear (linear_to_ulaw x) \<and> ulaw_to_linear (linear_to_ulaw x) \<le> 32124"
    using ulaw_midpoint_range [OF s(2,1)] by (simp_all add: ulaw_quantised [OF s(2,1) assms])
qed

lemma ulaw_error:
  assumes x: "is16 x"
  shows "32 * \<bar>x - ulaw_to_linear (linear_to_ulaw x)\<bar> \<le> \<bar>x\<bar> + 132"
proof -
  obtain s where s: "s \<le> 7" "in_segment (ulaw_magnitude x) s" by (rule ulaw_segment)
  let ?m = "ulaw_magnitude x" and ?w = "midpoint (seg_step 0 s) (ulaw_magnitude x)"
  have y: "ulaw_to_linear (linear_to_ulaw x) = (if x < 0 then 132 - ?w else ?w - 132)"
    by (rule ulaw_quantised [OF s(2,1) x])
  obtain h where h: "?w - h \<le> ?m" "?m < ?w + h" "32 * h \<le> max (2 ^ (0 + 7)) ?m"
    using midpoint_error [OF s(2), of 0] by auto
  have m: "128 \<le> ?m" by (simp add: ulaw_magnitude_def)
  show ?thesis
  proof (cases "?m = 32767")
    case True
    then have "in_segment 32767 s" using s(2) by simp
    moreover have "in_segment 32767 7" by (simp add: in_segment_def)
    ultimately have "s = 7" using segment_order [of 32767 s 32767 7] segment_order [of 32767 7 32767 s] by simp
    then have "?w = 32256" using True by (simp add: midpoint_def seg_step_def)
    then show ?thesis unfolding y using True x by (auto simp: ulaw_magnitude_def is16_def)
  next
    case False
    then have "?m = (if x < 0 then 131 - x else 132 + x)" by (simp add: ulaw_magnitude_def)
    then have "\<bar>x - ulaw_to_linear (linear_to_ulaw x)\<bar> \<le> h" "?m \<le> \<bar>x\<bar> + 132"
      unfolding y using h by (cases "x < 0"; simp)+
    moreover have "32 * h \<le> ?m" using h(3) m by simp
    ultimately show ?thesis by (meson mult_left_mono order_trans zero_le_numeral)
  qed
qed

lemma ulaw_half_step:
  assumes x: "is16 x"
  obtains s where "s \<le> 7" "2 ^ (s + 7) \<le> ulaw_magnitude x" "ulaw_magnitude x < 2 ^ (s + 8)"
    "ulaw_to_linear (linear_to_ulaw x) = (if x < 0 then - 1 else 1) *
       (2 ^ (s + 3) * (ulaw_magnitude x div 2 ^ (s + 3)) + 2 ^ (s + 2) - 132)"
    "\<bar>x - ulaw_to_linear (linear_to_ulaw x)\<bar> \<le> (if - 32636 \<le> x \<and> x \<le> 32635 then 2 ^ (s + 2) else 644)"
proof -
  obtain s where s: "s \<le> 7" "in_segment (ulaw_magnitude x) s" by (rule ulaw_segment)
  define m where "m = ulaw_magnitude x"
  define w where "w = midpoint (2 ^ (s + 3)) m"
  have w: "w = 2 ^ (s + 3) * (m div 2 ^ (s + 3)) + 2 ^ (s + 2)"
    by (simp add: w_def midpoint_def power_add)
  have y: "ulaw_to_linear (linear_to_ulaw x) = (if x < 0 then 132 - w else w - 132)"
    using ulaw_quantised [OF s(2,1) x] by (simp add: seg_step_def w_def m_def)
  have m: "128 \<le> m" "2 ^ (s + 7) \<le> m" "m < 2 ^ (s + 8)"
    using s(2) by (auto simp: in_segment_def m_def ulaw_magnitude_def split: if_splits)
  have c: "w \<le> m + 2 ^ (s + 2)" "m - w < 2 ^ (s + 2)"
    using midpoint_close [of "2 ^ (s + 3)" m] by (simp_all add: w_def power_add)
  have "\<bar>x - (if x < 0 then 132 - w else w - 132)\<bar> \<le> (if - 32636 \<le> x \<and> x \<le> 32635 then 2 ^ (s + 2) else 644)"
  proof (cases "- 32636 \<le> x \<and> x \<le> 32635")
    case True
    then have "m = (if x < 0 then 131 - x else 132 + x)" by (simp add: m_def ulaw_magnitude_def)
    then show ?thesis using True c by (simp add: abs_le_iff split: if_splits)
  next
    case False
    then have f: "m = 32767" by (auto simp: m_def ulaw_magnitude_def split: if_splits)
    have "s = 7"
    proof (rule ccontr)
      assume "s \<noteq> 7"
      then have "(2 :: int) ^ (s + 8) \<le> 2 ^ 14" using s(1) by (intro power_increasing) simp_all
      then show False using m(3) f by simp
    qed
    then have "w = 32256" using w f by simp
    then show ?thesis using False x by (auto simp: is16_def abs_le_iff)
  qed
  then have e: "\<bar>x - ulaw_to_linear (linear_to_ulaw x)\<bar> \<le> (if - 32636 \<le> x \<and> x \<le> 32635 then 2 ^ (s + 2) else 644)"
    unfolding y .
  have "ulaw_to_linear (linear_to_ulaw x) = (if x < 0 then - 1 else 1) * (2 ^ (s + 3) * (m div 2 ^ (s + 3)) + 2 ^ (s + 2) - 132)"
    unfolding y w by simp
  from that [OF s(1) m(2,3) [unfolded m_def] this [unfolded m_def] e] show ?thesis .
qed

lemma ulaw_mono:
  assumes "is16 x" "is16 x'" "x \<le> x'"
  shows "ulaw_to_linear (linear_to_ulaw x) \<le> ulaw_to_linear (linear_to_ulaw x')"
proof (cases "x < 0 \<and> 0 \<le> x'")
  case True
  then show ?thesis using ulaw_sign(1) [OF assms(1)] ulaw_sign(2) [OF assms(2)] by linarith
next
  case False
  obtain s where s: "s \<le> 7" "in_segment (ulaw_magnitude x) s" by (rule ulaw_segment)
  obtain t where t: "t \<le> 7" "in_segment (ulaw_magnitude x') t" by (rule ulaw_segment)
  note q = ulaw_quantised [OF s(2,1) assms(1)] ulaw_quantised [OF t(2,1) assms(2)]
  show ?thesis
  proof (cases "x < 0")
    case True
    then have "ulaw_magnitude x' \<le> ulaw_magnitude x" using False assms(3) by (auto simp: ulaw_magnitude_def)
    from segment_value_mono [OF t(2) s(2) this, of 0] True False show ?thesis by (simp add: q)
  next
    case f: False
    then have "ulaw_magnitude x \<le> ulaw_magnitude x'" using assms(3) by (auto simp: ulaw_magnitude_def)
    from segment_value_mono [OF s(2) t(2) this, of 0] f False assms(3) show ?thesis by (simp add: q)
  qed
qed

lemma ulaw_roundtrips:
  "\<forall>c\<in>set [0..255]. linear_to_ulaw (ulaw_to_linear c) = (if c = 127 then 255 else c)"
  by code_simp

lemma ulaw_codes:
  "\<forall>c\<in>set [0..255]. is16 (ulaw_to_linear c)"
  by code_simp

lemma ulaw_roundtrip:
  assumes "isu8 c"
  shows "linear_to_ulaw (ulaw_to_linear c) = (if c = 127 then 255 else c)"
  using bspec [OF ulaw_roundtrips, of c] assms by (simp add: isu8_def)

lemma isu8_linear_to_ulaw: "isu8 (linear_to_ulaw x)"
  unfolding linear_to_ulaw_def Let_def prod.case_distrib by (auto simp: isu8_def u8_def split: prod.splits)

section \<open>A-law: what the codec computes\<close>

definition alaw_magnitude :: "int \<Rightarrow> int" where
  "alaw_magnitude x = (if x \<ge> 0 then x else - x - 1)"

lemma alaw_segment:
  assumes "is16 x"
  obtains s where "s \<le> 7" "in_segment (alaw_magnitude x) s"
proof -
  have "\<exists>s\<in>set [0..<8]. in_segment (alaw_magnitude x) s"
    using assms unfolding alaw_magnitude_def is16_def
    by (simp add: in_segment_def upt_rec del: upt_Suc) linarith
  then obtain s where "s < 8" "in_segment (alaw_magnitude x) s" by auto
  then show ?thesis using that [of s] by simp
qed

text \<open>The codes before the line mask 0x55 is applied.\<close>

lemma alaw_values:
  "\<forall>s\<in>set [0..<8]. \<forall>q\<in>set [0..15]. \<forall>b\<in>set [85, 213].
     alaw_to_linear (u8 ((16 * int s + q) XOR b)) =
       (let w = (if s = 0 then 16 * q + 8 else (16 * q + 264) * 2 ^ (s - 1)) in if b = 85 then - w else w)"
  by code_simp

lemma alaw_value:
  assumes "s \<le> 7" "0 \<le> q" "q < 16"
  shows "alaw_to_linear (u8 ((16 * int s + q) XOR (if neg then 85 else 213))) =
    (let w = (if s = 0 then 16 * q + 8 else (16 * q + 264) * 2 ^ (s - 1)) in if neg then - w else w)"
proof -
  have "s \<in> set [0..<8]" "q \<in> set [0..15]" "(if neg then 85 else 213) \<in> set [85, 213 :: int]"
    using assms by auto
  from bspec [OF bspec [OF bspec [OF alaw_values this(1)] this(2)] this(3)]
  show ?thesis by (cases neg) simp_all
qed

lemma alaw_code:
  assumes "in_segment (alaw_magnitude x) s" "s \<le> 7"
  shows "linear_to_alaw x =
    u8 ((16 * int s + alaw_magnitude x div seg_step 1 s mod 16) XOR (if x < 0 then 85 else 213))"
proof -
  have m: "(if 0 \<le> x then (x, ALAW_AMI_MASK OR 0x80) else (- x - 1, ALAW_AMI_MASK)) =
    (alaw_magnitude x, if x < 0 then 85 else 213)"
    by (simp add: ALAW_AMI_MASK_def alaw_magnitude_def)
  have seg: "top_bit (alaw_magnitude x OR 0xFF) - 7 = int s"
    by (rule segment_found) (use assms in simp_all)
  have st: "sar (alaw_magnitude x) (nat (if int s \<noteq> 0 then int s + 3 else 4)) = alaw_magnitude x div seg_step 1 s"
    by (cases "s = 0") (simp_all add: sar_def seg_step_def nat_add_distrib max_def)
  show ?thesis
    unfolding linear_to_alaw_def m Let_def prod.case seg st code_bits [OF assms(2)]
    using assms(2) by simp
qed

lemma alaw_quantised:
  assumes "in_segment (alaw_magnitude x) s" "s \<le> 7"
  shows "alaw_to_linear (linear_to_alaw x) =
    (if x < 0 then - midpoint (seg_step 1 s) (alaw_magnitude x)
     else midpoint (seg_step 1 s) (alaw_magnitude x))"
proof -
  let ?m = "alaw_magnitude x" and ?q = "alaw_magnitude x div seg_step 1 s mod 16"
  have "(if s = 0 then 16 * ?q + 8 else (16 * ?q + 264) * 2 ^ (s - 1)) = midpoint (seg_step 1 s) ?m"
  proof (cases "s = 0")
    case True
    then have "0 \<le> ?m div 16" "?m div 16 < 16" using assms(1) int_div_lt [of 16 ?m 16]
      by (simp_all add: in_segment_def pos_imp_zdiv_nonneg_iff)
    then show ?thesis using True by (simp add: seg_step_def midpoint_def)
  next
    case False
    then have d: "seg_step 1 s = 2 ^ (s + 3)" by (simp add: seg_step_def max_def)
    have q: "?q = ?m div 2 ^ (s + 3) - 16"
      unfolding d using assms(1) False by (intro step_in_segment) (simp_all add: in_segment_def)
    obtain k where k: "s = Suc k" using False by (cases s) auto
    show ?thesis unfolding q unfolding d unfolding k by (simp add: midpoint_def power_add algebra_simps)
  qed
  then show ?thesis
    unfolding alaw_code [OF assms] using alaw_value [OF assms(2), of ?q "x < 0"] by simp
qed

lemma alaw_sign:
  assumes "is16 x"
  shows "x < 0 \<Longrightarrow> - 32256 \<le> alaw_to_linear (linear_to_alaw x) \<and> alaw_to_linear (linear_to_alaw x) \<le> - 8"
    "0 \<le> x \<Longrightarrow> 8 \<le> alaw_to_linear (linear_to_alaw x) \<and> alaw_to_linear (linear_to_alaw x) \<le> 32256"
proof -
  obtain s where s: "s \<le> 7" "in_segment (alaw_magnitude x) s" by (rule alaw_segment [OF assms])
  have lo: "in_segment 0 0" and hi: "in_segment 32767 7" by (simp_all add: in_segment_def)
  have "0 \<le> alaw_magnitude x" "alaw_magnitude x \<le> 32767"
    using assms by (auto simp: alaw_magnitude_def is16_def)
  then have "8 \<le> midpoint (seg_step 1 s) (alaw_magnitude x)" "midpoint (seg_step 1 s) (alaw_magnitude x) \<le> 32256"
    using segment_value_mono [OF lo s(2), of 1] segment_value_mono [OF s(2) hi, of 1]
    by (simp_all add: midpoint_def seg_step_def)
  then show "x < 0 \<Longrightarrow> - 32256 \<le> alaw_to_linear (linear_to_alaw x) \<and> alaw_to_linear (linear_to_alaw x) \<le> - 8"
    "0 \<le> x \<Longrightarrow> 8 \<le> alaw_to_linear (linear_to_alaw x) \<and> alaw_to_linear (linear_to_alaw x) \<le> 32256"
    by (simp_all add: alaw_quantised [OF s(2,1)])
qed

lemma alaw_error:
  assumes x: "is16 x"
  shows "32 * \<bar>x - alaw_to_linear (linear_to_alaw x)\<bar> \<le> max 256 \<bar>x\<bar>"
proof -
  obtain s where s: "s \<le> 7" "in_segment (alaw_magnitude x) s" by (rule alaw_segment [OF x])
  let ?m = "alaw_magnitude x" and ?w = "midpoint (seg_step 1 s) (alaw_magnitude x)"
  obtain h where h: "?w - h \<le> ?m" "?m < ?w + h" "32 * h \<le> max (2 ^ (1 + 7)) ?m"
    using midpoint_error [OF s(2), of 1] by auto
  have "\<bar>x - alaw_to_linear (linear_to_alaw x)\<bar> \<le> h" "?m \<le> \<bar>x\<bar>"
    unfolding alaw_quantised [OF s(2,1)] using h by (auto simp: alaw_magnitude_def)
  moreover from this(2) have "32 * h \<le> max 256 \<bar>x\<bar>" using h(3) by simp
  ultimately show ?thesis by (meson mult_left_mono order_trans zero_le_numeral)
qed

lemma alaw_half_step:
  assumes x: "is16 x"
  obtains s d where "s \<le> 7" "d = 2 ^ (max 1 s + 3)" "if s = 0 then 0 \<le> alaw_magnitude x else 2 ^ (s + 7) \<le> alaw_magnitude x"
    "alaw_magnitude x < 2 ^ (s + 8)"
    "alaw_to_linear (linear_to_alaw x) = (if x < 0 then - 1 else 1) * (d * (alaw_magnitude x div d) + d div 2)"
    "\<bar>x - alaw_to_linear (linear_to_alaw x)\<bar> \<le> d div 2"
proof -
  obtain s where s: "s \<le> 7" "in_segment (alaw_magnitude x) s" by (rule alaw_segment [OF x])
  define m where "m = alaw_magnitude x"
  define d where "d = seg_step 1 s"
  define w where "w = midpoint d m"
  have y: "alaw_to_linear (linear_to_alaw x) = (if x < 0 then - w else w)"
    using alaw_quantised [OF s(2,1)] by (simp add: w_def m_def d_def)
  have "d = 2 * (d div 2)" by (simp add: d_def seg_step_def power_add)
  then have c: "w \<le> m + d div 2" "m - w < d div 2"
    using midpoint_close [of d m] by (simp_all add: w_def d_def [symmetric]) (simp_all add: d_def)
  have "\<bar>x - (if x < 0 then - w else w)\<bar> \<le> d div 2"
    using c by (simp add: abs_le_iff m_def alaw_magnitude_def split: if_splits)
  then have e: "\<bar>x - alaw_to_linear (linear_to_alaw x)\<bar> \<le> d div 2" unfolding y .
  have v: "alaw_to_linear (linear_to_alaw x) = (if x < 0 then - 1 else 1) * (d * (m div d) + d div 2)"
    unfolding y w_def midpoint_def by simp
  have "d = 2 ^ (max 1 s + 3)" "if s = 0 then 0 \<le> alaw_magnitude x else 2 ^ (s + 7) \<le> alaw_magnitude x"
    "alaw_magnitude x < 2 ^ (s + 8)" using s(2) by (simp_all add: in_segment_def d_def seg_step_def)
  from that [OF s(1) this v [unfolded m_def] e] show ?thesis .
qed
lemma alaw_mono:
  assumes "is16 x" "is16 x'" "x \<le> x'"
  shows "alaw_to_linear (linear_to_alaw x) \<le> alaw_to_linear (linear_to_alaw x')"
proof (cases "x < 0 \<and> 0 \<le> x'")
  case True
  then show ?thesis using alaw_sign(1) [OF assms(1)] alaw_sign(2) [OF assms(2)] by linarith
next
  case False
  obtain s where s: "s \<le> 7" "in_segment (alaw_magnitude x) s" by (rule alaw_segment [OF assms(1)])
  obtain t where t: "t \<le> 7" "in_segment (alaw_magnitude x') t" by (rule alaw_segment [OF assms(2)])
  note q = alaw_quantised [OF s(2,1)] alaw_quantised [OF t(2,1)]
  show ?thesis
  proof (cases "x < 0")
    case True
    then have "alaw_magnitude x' \<le> alaw_magnitude x" using False assms(3) by (auto simp: alaw_magnitude_def)
    from segment_value_mono [OF t(2) s(2) this, of 1] True False show ?thesis by (simp add: q)
  next
    case f: False
    then have "alaw_magnitude x \<le> alaw_magnitude x'" using assms(3) by (auto simp: alaw_magnitude_def)
    from segment_value_mono [OF s(2) t(2) this, of 1] f False assms(3) show ?thesis by (simp add: q)
  qed
qed

lemma alaw_roundtrips:
  "\<forall>c\<in>set [0..255]. linear_to_alaw (alaw_to_linear c) = c \<and> is16 (alaw_to_linear c)"
  by code_simp

lemma alaw_roundtrip: "isu8 c \<Longrightarrow> linear_to_alaw (alaw_to_linear c) = c"
  using bspec [OF alaw_roundtrips, of c] by (simp add: isu8_def)

section \<open>The interface of a speech codec\<close>

text \<open>
  An 8-bit codec: encoding gives a code, decoding a sample, a second pass through the codec changes
  nothing and the order of samples is kept.
\<close>

locale speech_codec =
  fixes enc :: "int \<Rightarrow> int" and dec :: "int \<Rightarrow> int"
  assumes enc_code: "is16 x \<Longrightarrow> isu8 (enc x)"
    and dec_sample: "isu8 c \<Longrightarrow> is16 (dec c)"
    and stable: "isu8 c \<Longrightarrow> dec (enc (dec c)) = dec c"
    and keeps_order: "is16 x \<Longrightarrow> is16 y \<Longrightarrow> x \<le> y \<Longrightarrow> dec (enc x) \<le> dec (enc y)"
begin

lemma samples: "\<forall>x\<in>set xs. is16 x \<Longrightarrow> \<forall>y\<in>set (map dec (map enc xs)). is16 y"
  by (auto intro: enc_code dec_sample)

lemma tandem: "\<forall>x\<in>set xs. is16 x \<Longrightarrow> map dec (map enc (map dec (map enc xs))) = map dec (map enc xs)"
  by (auto simp: stable enc_code)

lemma sorted_kept: "\<forall>x\<in>set xs. is16 x \<Longrightarrow> sorted xs \<Longrightarrow> sorted (map dec (map enc xs))"
  by (induction xs) (auto intro: keeps_order)

end

locale exact_codec = speech_codec +
  assumes exact: "isu8 c \<Longrightarrow> enc (dec c) = c"
begin

lemma bytes_kept: "\<forall>c\<in>set cs. isu8 c \<Longrightarrow> map enc (map dec cs) = cs"
  by (induction cs) (simp_all add: exact)

end

lemma isu8_linear_to_alaw: "isu8 (linear_to_alaw x)"
  unfolding linear_to_alaw_def Let_def prod.case_distrib by (auto simp: isu8_def u8_def split: prod.splits)

interpretation ulaw: speech_codec linear_to_ulaw ulaw_to_linear
proof
  show "is16 (ulaw_to_linear c)" if "isu8 c" for c
    using bspec [OF ulaw_codes, of c] that by (simp add: isu8_def)
  show "ulaw_to_linear (linear_to_ulaw (ulaw_to_linear c)) = ulaw_to_linear c" if "isu8 c" for c
  proof -
    have "ulaw_to_linear 255 = ulaw_to_linear 127" by code_simp
    then show ?thesis by (simp add: ulaw_roundtrip [OF that])
  qed
qed (rule isu8_linear_to_ulaw ulaw_mono; assumption)+

interpretation alaw: exact_codec linear_to_alaw alaw_to_linear
proof
  show "is16 (alaw_to_linear c)" if "isu8 c" for c
    using bspec [OF alaw_roundtrips, of c] that by (simp add: isu8_def)
qed (simp_all add: isu8_linear_to_alaw alaw_mono alaw_roundtrip)

section \<open>Transcoding\<close>

text \<open>
  The tables keep the sign bit, stay within a 32nd of the decoded value (plus the half step of the
  lowest segment) and, applied back and forth, are stable after the first pass.
\<close>

lemma ulaw_to_alaw_table_ok:
  "\<forall>u\<in>set [0..255]. isu8 (ulaw_to_alaw u) \<and> (128 \<le> ulaw_to_alaw u \<longleftrightarrow> 128 \<le> u) \<and>
     32 * \<bar>ulaw_to_linear u - alaw_to_linear (ulaw_to_alaw u)\<bar> \<le> \<bar>ulaw_to_linear u\<bar> + 256"
  by code_simp

lemma alaw_to_ulaw_table_ok:
  "\<forall>a\<in>set [0..255]. isu8 (alaw_to_ulaw a) \<and> (128 \<le> alaw_to_ulaw a \<longleftrightarrow> 128 \<le> a) \<and>
     32 * \<bar>alaw_to_linear a - ulaw_to_linear (alaw_to_ulaw a)\<bar> \<le> \<bar>alaw_to_linear a\<bar>"
  by code_simp

lemma ulaw_via_alaw:
  "\<forall>u\<in>set [0..255]. alaw_to_ulaw (ulaw_to_alaw u) = (if 112 \<le> u mod 128 \<and> odd u then u - 1 else u)"
  by code_simp

section \<open>PCM\<close>

lemma pcm_sample:
  assumes "is16 x"
  shows "s16 (shl32 (u8 (sar (u16 x) 8)) 8 OR u8 (u16 x)) = x"
proof -
  have r: "0 \<le> u16 x" "u16 x < 65536" by (simp_all add: u16_def)
  then have h: "0 \<le> u16 x div 256" "u16 x div 256 < 256"
    using int_div_lt [of 256 "u16 x" 256] by (simp_all add: pos_imp_zdiv_nonneg_iff)
  have "push_bit 8 (u16 x div 256) AND take_bit 8 (u16 x) = 0"
    by (rule bit_eqI) (auto simp: bit_and_iff bit_push_bit_iff bit_take_bit_iff)
  then have "push_bit 8 (u16 x div 256) OR take_bit 8 (u16 x) = push_bit 8 (u16 x div 256) + take_bit 8 (u16 x)"
    using plus_and_or [of "push_bit 8 (u16 x div 256)" "take_bit 8 (u16 x)"] by simp
  moreover have "push_bit 8 (u16 x div 256) = shl32 (u8 (sar (u16 x) 8)) 8"
    using h by (simp add: shl32_def u8_def sar_def push_bit_eq_mult s32_eqI)
  moreover have "take_bit 8 (u16 x) = u8 (u16 x)" by (simp add: u8_def take_bit_eq_mod)
  ultimately have "shl32 (u8 (sar (u16 x) 8)) 8 OR u8 (u16 x) = 256 * (u16 x div 256) + u16 x mod 256"
    by (simp add: push_bit_eq_mult u8_def)
  also have "\<dots> = u16 x" by simp
  also have "s16 (u16 x) = s16 x" by (rule s16_cong) (simp add: u16_def)
  finally show ?thesis using assms by simp
qed

lemma pcm_bytes:
  assumes "isu8 a" "isu8 b"
  shows "u8 (sar (u16 (s16 (shl32 a 8 OR b))) 8) = a" "u8 (u16 (s16 (shl32 a 8 OR b))) = b"
proof -
  have "push_bit 8 a AND take_bit 8 b = 0"
    by (rule bit_eqI) (auto simp: bit_and_iff bit_push_bit_iff bit_take_bit_iff)
  moreover have "push_bit 8 a = shl32 a 8" "take_bit 8 b = b"
    using assms by (simp_all add: shl32_def isu8_def push_bit_eq_mult s32_eqI take_bit_int_eq_self)
  ultimately have o: "shl32 a 8 OR b = 256 * a + b"
    using plus_and_or [of "shl32 a 8" b] assms by (simp add: shl32_def isu8_def s32_eqI)
  have "u16 (s16 (256 * a + b)) = 256 * a + b"
    using assms by (simp add: u16_def s16_mod isu8_def)
  then show "u8 (sar (u16 (s16 (shl32 a 8 OR b))) 8) = a" "u8 (u16 (s16 (shl32 a 8 OR b))) = b"
    unfolding o using assms by (simp_all add: u8_def sar_def isu8_def)
qed

lemma pairs_nth:
  "i < length xs \<Longrightarrow> concat (map (\<lambda>x. [f x, g x]) xs) ! (2 * i) = f (xs ! i)"
  "i < length xs \<Longrightarrow> concat (map (\<lambda>x. [f x, g x]) xs) ! (2 * i + 1) = g (xs ! i)"
  by (induction xs arbitrary: i) (auto simp: nth_Cons split: nat.splits)

lemma Pcm16b_roundtrip:
  assumes "\<forall>x\<in>set xs. is16 x" "n \<le> length xs"
  shows "WebRtcPcm16b_Decode (fst (WebRtcPcm16b_Encode xs n)) (2 * n) = (take n xs, n)"
proof -
  let ?f = "\<lambda>x. u8 (sar (u16 x) 8)" and ?g = "\<lambda>x. u8 (u16 x)"
  have "s16 (shl32 (concat (map (\<lambda>x. [?f x, ?g x]) (take n xs)) ! (2 * i)) 8
      OR concat (map (\<lambda>x. [?f x, ?g x]) (take n xs)) ! (2 * i + 1)) = xs ! i" if "i < n" for i
    using that assms pairs_nth [of i "take n xs" ?f ?g] by (simp add: pcm_sample)
  then show ?thesis
    using assms(2)
    by (auto simp: WebRtcPcm16b_Decode_def WebRtcPcm16b_Encode_def Let_def intro!: nth_equalityI)
qed

lemma pairs_of_bytes:
  "\<forall>b\<in>set bs. isu8 b \<Longrightarrow> k \<le> length bs div 2 \<Longrightarrow>
    concat (map (\<lambda>x. [u8 (sar (u16 x) 8), u8 (u16 x)])
      (map (\<lambda>i. s16 (shl32 (bs ! (2 * i)) 8 OR bs ! (2 * i + 1))) [0..<k])) = take (2 * k) bs"
proof (induction k)
  case 0
  then show ?case by simp
next
  case (Suc k)
  then have "2 * k + 1 < length bs" by simp
  then have "take (2 * Suc k) bs = take (2 * k) bs @ [bs ! (2 * k), bs ! (2 * k + 1)]"
    by (simp add: take_Suc_conv_app_nth)
  moreover have "isu8 (bs ! (2 * k))" "isu8 (bs ! (2 * k + 1))"
    using Suc.prems(1) \<open>2 * k + 1 < length bs\<close> by simp_all
  ultimately show ?case using Suc pcm_bytes by simp
qed

lemma Pcm16b_bytes_roundtrip:
  assumes "\<forall>b\<in>set bs. isu8 b" "n \<le> length bs"
  shows "WebRtcPcm16b_Encode (fst (WebRtcPcm16b_Decode bs n)) (n div 2) =
    (take (2 * (n div 2)) bs, 2 * (n div 2))"
  using pairs_of_bytes [OF assms(1), of "n div 2"] div_le_mono [OF assms(2), of 2]
  by (simp add: WebRtcPcm16b_Decode_def WebRtcPcm16b_Encode_def Let_def)

text \<open>A version string is terminated when the buffer has room for the NUL.\<close>

lemma Version_terminated:
  "length (fst (WebRtcG711_Version n)) = n"
  "5 < n \<Longrightarrow> fst (WebRtcG711_Version n) ! 5 = CHR 0x00"
  by (simp_all add: WebRtcG711_Version_def nth_append)

end
