(* ===== verification/CodecTheorems.thy ===== *)
theory CodecTheorems imports G711 begin

text \<open>
  What the speech codecs promise: the properties of theory G711 over samples, bytes and buffers.
\<close>

section \<open>Quantisers\<close>

text \<open>C15: Mu-law encoding of any 16-bit sample gives a byte. With \<open>m\<close> the clipped, biased magnitude of the
  sample and \<open>s\<close> its segment, the decoded value is, with the sign of the sample, the middle of the step of size
  \<open>2 ^ (s + 3)\<close> that holds \<open>m\<close>, less the bias. It differs from the sample by at most half a step for the samples
  from \<open>-32636\<close> to \<open>32635\<close>; the larger ones are clipped and decode to \<open>32124\<close> or \<open>-32124\<close>, up to 644 away.
  It never decreases when the sample grows.\<close>

theorem ulaw_quantiser:
  assumes "is16 x" "is16 x'" "x \<le> x'"
  shows "let y = ulaw_to_linear (linear_to_ulaw x); y' = ulaw_to_linear (linear_to_ulaw x');
             m = min 32767 (if x < 0 then 131 - x else 132 + x)
    in isu8 (linear_to_ulaw x) \<and>
       (\<exists>s\<le>7. 2 ^ (s + 7) \<le> m \<and> m < 2 ^ (s + 8) \<and>
          y = (if x < 0 then - 1 else 1) * (2 ^ (s + 3) * (m div 2 ^ (s + 3)) + 2 ^ (s + 2) - 132) \<and>
          \<bar>x - y\<bar> \<le> (if - 32636 \<le> x \<and> x \<le> 32635 then 2 ^ (s + 2) else 644)) \<and>
       32 * \<bar>x - y\<bar> \<le> \<bar>x\<bar> + 132 \<and> 0 \<le> x * y \<and> \<bar>y\<bar> \<le> 32124 \<and> y \<le> y'"
proof -
  obtain s where s: "s \<le> 7" "2 ^ (s + 7) \<le> ulaw_magnitude x" "ulaw_magnitude x < 2 ^ (s + 8)"
    "ulaw_to_linear (linear_to_ulaw x) = (if x < 0 then - 1 else 1) *
       (2 ^ (s + 3) * (ulaw_magnitude x div 2 ^ (s + 3)) + 2 ^ (s + 2) - 132)"
    "\<bar>x - ulaw_to_linear (linear_to_ulaw x)\<bar> \<le> (if - 32636 \<le> x \<and> x \<le> 32635 then 2 ^ (s + 2) else 644)"
    by (rule ulaw_half_step [OF assms(1)])
  from ulaw_error [OF assms(1)] ulaw_sign [OF assms(1)]
  have "32 * \<bar>x - ulaw_to_linear (linear_to_ulaw x)\<bar> \<le> \<bar>x\<bar> + 132 \<and> 0 \<le> x * ulaw_to_linear (linear_to_ulaw x) \<and>
    \<bar>ulaw_to_linear (linear_to_ulaw x)\<bar> \<le> 32124"
    by (cases "x < 0") (simp_all add: mult_nonpos_nonpos abs_le_iff)
  then show ?thesis
    unfolding Let_def ulaw_magnitude_def [symmetric] using s ulaw_mono [OF assms] isu8_linear_to_ulaw [of x] by blast
qed

theorem ulaw_quantiser_witness:
  "let y = ulaw_to_linear (linear_to_ulaw 500); y' = ulaw_to_linear (linear_to_ulaw 1000);
             m = min 32767 (if (500 :: int) < 0 then 131 - 500 else 132 + 500)
    in isu8 (linear_to_ulaw 500) \<and>
       (\<exists>s\<le>7. 2 ^ (s + 7) \<le> m \<and> m < 2 ^ (s + 8) \<and>
          y = (if (500 :: int) < 0 then - 1 else 1) * (2 ^ (s + 3) * (m div 2 ^ (s + 3)) + 2 ^ (s + 2) - 132) \<and>
          \<bar>500 - y\<bar> \<le> (if - 32636 \<le> (500 :: int) \<and> (500 :: int) \<le> 32635 then 2 ^ (s + 2) else 644)) \<and>
       32 * \<bar>500 - y\<bar> \<le> \<bar>500\<bar> + 132 \<and> 0 \<le> 500 * y \<and> \<bar>y\<bar> \<le> 32124 \<and> y \<le> y'"
  by (rule ulaw_quantiser) (simp_all add: is16_def)

text \<open>C16: The same for A-law, which does not clip: with \<open>m\<close> the magnitude of the sample (one less below zero),
  \<open>s\<close> its segment and \<open>d\<close> the step, \<open>16\<close> in the two lowest segments and \<open>2 ^ (s + 3)\<close> above, the decoded value
  is the middle of the step of \<open>m\<close> with the sign of the sample, at most half a step away from it. Every decoded
  value is at least \<open>8\<close> away from zero.\<close>

theorem alaw_quantiser:
  assumes "is16 x" "is16 x'" "x \<le> x'"
  shows "let y = alaw_to_linear (linear_to_alaw x); y' = alaw_to_linear (linear_to_alaw x');
             m = (if x < 0 then - x - 1 else x)
    in isu8 (linear_to_alaw x) \<and>
       (\<exists>s\<le>7. \<exists>d. d = 2 ^ (max 1 s + 3) \<and> (if s = 0 then 0 \<le> m else 2 ^ (s + 7) \<le> m) \<and> m < 2 ^ (s + 8) \<and>
          y = (if x < 0 then - 1 else 1) * (d * (m div d) + d div 2) \<and> \<bar>x - y\<bar> \<le> d div 2) \<and>
       0 \<le> x * y \<and> 8 \<le> \<bar>y\<bar> \<and> \<bar>y\<bar> \<le> 32256 \<and> y \<le> y'"
proof -
  have m: "alaw_magnitude x = (if x < 0 then - x - 1 else x)" by (simp add: alaw_magnitude_def)
  obtain s d where s: "s \<le> 7" "d = 2 ^ (max 1 s + 3)" "if s = 0 then 0 \<le> alaw_magnitude x else 2 ^ (s + 7) \<le> alaw_magnitude x"
    "alaw_magnitude x < 2 ^ (s + 8)"
    "alaw_to_linear (linear_to_alaw x) = (if x < 0 then - 1 else 1) * (d * (alaw_magnitude x div d) + d div 2)"
    "\<bar>x - alaw_to_linear (linear_to_alaw x)\<bar> \<le> d div 2"
    by (rule alaw_half_step [OF assms(1)])
  have "0 \<le> x * alaw_to_linear (linear_to_alaw x) \<and> 8 \<le> \<bar>alaw_to_linear (linear_to_alaw x)\<bar> \<and>
    \<bar>alaw_to_linear (linear_to_alaw x)\<bar> \<le> 32256"
    using alaw_sign [OF assms(1)] by (cases "x < 0") (simp_all add: mult_nonpos_nonpos abs_le_iff)
  then show ?thesis
    unfolding Let_def m [symmetric] using s alaw_mono [OF assms] isu8_linear_to_alaw [of x] by blast
qed

theorem alaw_quantiser_witness:
  "let y = alaw_to_linear (linear_to_alaw (- 7)); y' = alaw_to_linear (linear_to_alaw 32767);
             m = (if (- 7 :: int) < 0 then - (- 7) - 1 else - 7)
    in isu8 (linear_to_alaw (- 7)) \<and>
       (\<exists>s\<le>7. \<exists>d. d = 2 ^ (max 1 s + 3) \<and> (if s = 0 then 0 \<le> m else 2 ^ (s + 7) \<le> m) \<and> m < 2 ^ (s + 8) \<and>
          y = (if (- 7 :: int) < 0 then - 1 else 1) * (d * (m div d) + d div 2) \<and> \<bar>- 7 - y\<bar> \<le> d div 2) \<and>
       0 \<le> - 7 * y \<and> 8 \<le> \<bar>y\<bar> \<and> \<bar>y\<bar> \<le> 32256 \<and> y \<le> y'"
  by (rule alaw_quantiser) (simp_all add: is16_def)

section \<open>Round trips\<close>

text \<open>C17: Decoding a buffer of G.711 bytes and encoding it again returns the same bytes for A-law. For
  mu-law it does so but for the byte of negative zero, \<open>127\<close>, which comes back as \<open>255\<close>.\<close>

theorem g711_bytes:
  assumes "\<forall>c\<in>set bytes. isu8 c" "n \<le> length bytes"
  shows "WebRtcG711_EncodeA (fst (WebRtcG711_DecodeA bytes n)) n = (take n bytes, n) \<and>
    WebRtcG711_EncodeU (fst (WebRtcG711_DecodeU bytes n)) n =
      (map (\<lambda>c. if c = 127 then 255 else c) (take n bytes), n)"
proof -
  have b: "\<forall>c\<in>set (take n bytes). isu8 c" using assms(1) by (meson in_set_takeD)
  have "map linear_to_alaw (map alaw_to_linear (take n bytes)) = take n bytes" by (rule alaw.bytes_kept [OF b])
  moreover have "map linear_to_ulaw (map ulaw_to_linear (take n bytes)) = map (\<lambda>c. if c = 127 then 255 else c) (take n bytes)"
    using b ulaw_roundtrip by (simp cong: map_cong)
  ultimately show ?thesis
    by (simp add: WebRtcG711_EncodeA_def WebRtcG711_DecodeA_def WebRtcG711_EncodeU_def WebRtcG711_DecodeU_def take_map)
qed

theorem g711_bytes_witness:
  "WebRtcG711_EncodeA (fst (WebRtcG711_DecodeA [0, 127, 255, 9] 3)) 3 = (take 3 [0, 127, 255, 9], 3) \<and>
    WebRtcG711_EncodeU (fst (WebRtcG711_DecodeU [0, 127, 255, 9] 3)) 3 =
      (map (\<lambda>c. if c = 127 then 255 else c) (take 3 [0, 127, 255, 9]), 3)"
  by (rule g711_bytes) (simp_all add: isu8_def)

text \<open>A buffer of samples that passed one of the codecs once is not changed by passing it again, and
  what a codec delivers are 16-bit samples.\<close>

theorem codec_tandem:
  assumes "\<forall>x\<in>set samples. is16 x" "n \<le> length samples"
  shows "let passU = (\<lambda>xs. fst (WebRtcG711_DecodeU (fst (WebRtcG711_EncodeU xs n)) n));
             passA = (\<lambda>xs. fst (WebRtcG711_DecodeA (fst (WebRtcG711_EncodeA xs n)) n))
    in passU (passU samples) = passU samples \<and> passA (passA samples) = passA samples \<and>
       list_all is16 (passU samples) \<and> list_all is16 (passA samples)"
proof -
  have b: "\<forall>x\<in>set (take n samples). is16 x" using assms(1) by (meson in_set_takeD)
  show ?thesis
    using ulaw.tandem [OF b] alaw.tandem [OF b] ulaw.samples [OF b] alaw.samples [OF b]
    by (simp add: WebRtcG711_EncodeA_def WebRtcG711_DecodeA_def WebRtcG711_EncodeU_def WebRtcG711_DecodeU_def
        take_map list_all_iff)
qed

theorem codec_tandem_witness:
  "let passU = (\<lambda>xs. fst (WebRtcG711_DecodeU (fst (WebRtcG711_EncodeU xs 4)) 4));
       passA = (\<lambda>xs. fst (WebRtcG711_DecodeA (fst (WebRtcG711_EncodeA xs 4)) 4));
       samples = [- 32768, - 1, 5, 32767]
    in passU (passU samples) = passU samples \<and> passA (passA samples) = passA samples \<and>
       list_all is16 (passU samples) \<and> list_all is16 (passA samples)"
  using codec_tandem [of "[- 32768, - 1, 5, 32767]" 4] by (simp add: Let_def is16_def)

text \<open>Big-endian 16-bit PCM loses nothing: encoding and decoding \<open>n\<close> samples returns them, and decoding
  and encoding \<open>m\<close> bytes returns the bytes of the whole samples among them.\<close>

theorem pcm16b_roundtrip:
  assumes "\<forall>x\<in>set samples. is16 x" "n \<le> length samples" "\<forall>b\<in>set bytes. isu8 b" "m \<le> length bytes"
  shows "WebRtcPcm16b_Decode (fst (WebRtcPcm16b_Encode samples n)) (2 * n) = (take n samples, n) \<and>
    WebRtcPcm16b_Encode (fst (WebRtcPcm16b_Decode bytes m)) (m div 2) =
      (take (2 * (m div 2)) bytes, 2 * (m div 2))"
  using Pcm16b_roundtrip [OF assms(1,2)] Pcm16b_bytes_roundtrip [OF assms(3,4)] ..

theorem pcm16b_roundtrip_witness:
  "WebRtcPcm16b_Decode (fst (WebRtcPcm16b_Encode [- 32768, 256, - 2] 3)) (2 * 3) = (take 3 [- 32768, 256, - 2], 3) \<and>
    WebRtcPcm16b_Encode (fst (WebRtcPcm16b_Decode [255, 1, 7] 3)) (3 div 2) = (take (2 * (3 div 2)) [255, 1, 7], 2 * (3 div 2))"
  by (rule pcm16b_roundtrip) (simp_all add: is16_def isu8_def)

section \<open>Transcoding and bit search\<close>

text \<open>The transcoding tables keep the sign, stay within a 32nd of the decoded value (plus the half
  step \<open>8\<close> of the lowest A-law segment in one direction), and mu-law through A-law and back is exact up
  to the odd codes of the lowest segment, which lose their last bit.\<close>

theorem transcoding:
  assumes "isu8 c"
  shows "let a = ulaw_to_alaw c; u = alaw_to_ulaw c
    in isu8 a \<and> isu8 u \<and> (128 \<le> a \<longleftrightarrow> 128 \<le> c) \<and> (128 \<le> u \<longleftrightarrow> 128 \<le> c) \<and>
       32 * \<bar>ulaw_to_linear c - alaw_to_linear a\<bar> \<le> \<bar>ulaw_to_linear c\<bar> + 256 \<and>
       32 * \<bar>alaw_to_linear c - ulaw_to_linear u\<bar> \<le> \<bar>alaw_to_linear c\<bar> \<and>
       alaw_to_ulaw a = (if 112 \<le> c mod 128 \<and> odd c then c - 1 else c)"
proof -
  have c: "c \<in> set [0..255]" using assms by (simp add: isu8_def)
  show ?thesis
    using bspec [OF ulaw_to_alaw_table_ok c] bspec [OF alaw_to_ulaw_table_ok c] bspec [OF ulaw_via_alaw c]
    by (simp add: Let_def)
qed

theorem transcoding_witness:
  "let a = ulaw_to_alaw 117; u = alaw_to_ulaw 117
    in isu8 a \<and> isu8 u \<and> (128 \<le> a \<longleftrightarrow> 128 \<le> (117 :: int)) \<and> (128 \<le> u \<longleftrightarrow> 128 \<le> (117 :: int)) \<and>
       32 * \<bar>ulaw_to_linear 117 - alaw_to_linear a\<bar> \<le> \<bar>ulaw_to_linear 117\<bar> + 256 \<and>
       32 * \<bar>alaw_to_linear 117 - ulaw_to_linear u\<bar> \<le> \<bar>alaw_to_linear 117\<bar> \<and>
       alaw_to_ulaw a = (if 112 \<le> (117 :: int) mod 128 \<and> odd (117 :: int) then 117 - 1 else 117)"
  by (rule transcoding) (simp add: isu8_def)

text \<open>The halving searches of \<open>g711.h\<close>: \<open>top_bit\<close> is the position of the highest one bit of a 32-bit
  word, and \<open>bottom_bit\<close> is one more than the position of the lowest one, as it starts to count at 32.\<close>

theorem bit_search:
  assumes "0 < b" "b < 4294967296" "bit b T" "bit b B" "\<And>i. bit b i \<Longrightarrow> B \<le> i \<and> i \<le> T"
  shows "top_bit b = int T \<and> bottom_bit b = int B + 1"
proof -
  have "take_bit (Suc T) b = b"
    using assms(5) by (intro bit_eqI) (auto simp: bit_take_bit_iff less_Suc_eq_le)
  then have hi: "b < 2 ^ Suc T" by (metis take_bit_int_less_exp)
  have "0 \<le> b div 2 ^ T" "b div 2 ^ T \<noteq> 0"
    using assms(1,3) by (auto simp: bit_iff_odd pos_imp_zdiv_nonneg_iff)
  then have "1 \<le> b div 2 ^ T" by linarith
  then have lo: "2 ^ T \<le> b" using sar_ge_iff [of 1 b T] by (simp add: sar_def)
  have T: "T < 32"
  proof (rule ccontr)
    assume "\<not> T < 32"
    then have "(2 :: int) ^ 32 \<le> 2 ^ T" by (intro power_increasing) simp_all
    then show False using lo assms(2) by simp
  qed
  have "take_bit B b = 0"
    using assms(5) by (intro bit_eqI) (auto simp: bit_take_bit_iff leD)
  then have "b mod 2 ^ B = 0" by (simp add: take_bit_eq_mod)
  then have "bottom_bit b = int B + 1"
    using assms(1,2,4) by (intro bottom_bit_eq) (simp_all add: bit_iff_odd)
  then show ?thesis using top_bit_eq [OF lo hi T] by simp
qed

theorem bit_search_witness: "top_bit 40 = int 5 \<and> bottom_bit 40 = int 3 + 1"
proof (rule bit_search)
  have b: "bit (40 :: int) i \<longleftrightarrow> i = 3 \<or> i = 5" for i
    by (auto simp: bit_numeral_rec bit_1_iff split: nat.splits)
  show "bit (40 :: int) 5" "bit (40 :: int) 3" "\<And>i. bit (40 :: int) i \<Longrightarrow> 3 \<le> i \<and> i \<le> 5" by (auto simp: b)
qed simp_all

end
