(* ===== verification/SplSqrt.thy ===== *)
theory SplSqrt imports SplInl begin

text \<open>
  The square root of the signal-processing library (\<open>spl_sqrt.c\<close>): normalise to 16 bits, evaluate
  the Taylor polynomial of \<open>sqrt (1 + x)\<close> in Q31, undo the normalisation.
\<close>

definition WebRtcSpl_SqrtLocal :: "int \<Rightarrow> int" where
  "WebRtcSpl_SqrtLocal in32 =
     (let B = in32 sdiv 2;
          B = s32 (B - 0x40000000);
          x_half = s16 (sar B 16);
          B = s32 (B + 0x40000000);
          B = s32 (B + 0x40000000);
          x2 = s32 (x_half * x_half * 2);
          A = s32 (- x2);
          B = s32 (B + sar A 1);
          A = sar A 16;
          A = s32 (A * A * 2);
          t16 = s16 (sar A 16);
          B = s32 (B + s32 (- 20480 * t16 * 2));
          A = s32 (x_half * t16 * 2);
          t16 = s16 (sar A 16);
          B = s32 (B + s32 (28672 * t16 * 2));
          t16 = s16 (sar x2 16);
          A = s32 (x_half * t16 * 2);
          B = s32 (B + sar A 1)
      in s32 (B + 32768))"

definition WebRtcSpl_Sqrt :: "int \<Rightarrow> int" where
  "WebRtcSpl_Sqrt value =
     (if value = 0 then 0
      else
        let A = (if value < 0 then (if value = - 2147483648 then 2147483647 else - value) else value);
            sh = WebRtcSpl_NormW32 A;
            A = shl32 A sh;
            A = (if A < 2147483647 - 32767 then s32 (A + 32768) else 2147483647);
            x_norm = s16 (sar A 16);
            nshift = sh div 2;
            A = shl32 x_norm 16;
            A = (if A \<ge> 0 then A else s32 (- A));
            A = WebRtcSpl_SqrtLocal A;
            A = (if 2 * nshift = sh
                 then sar (s32 (s32 (23170 * s16 (sar A 16) * 2) + 32768) AND 0x7fff0000) 15
                 else sar A 16)
        in sar (A AND 0xffff) nshift)"

section \<open>The polynomial\<close>

text \<open>
  On a normalised argument \<open>N * 2 ^ 16\<close> no step of the polynomial overflows: the result is the
  rounded polynomial in \<open>h = (N - 2 ^ 15) div 2\<close>.
\<close>

definition sqrt_poly :: "int \<Rightarrow> int" where
  "sqrt_poly N =
     (let h = (N - 32768) div 2;
          q4 = (2 * (- (2 * h * h) div 65536) * (- (2 * h * h) div 65536)) div 65536;
          q5 = (2 * h * q4) div 65536;
          q2 = 2 * h * h div 65536
      in N * 32768 + 1073741824 - h * h - 40960 * q4 + 57344 * q5 + h * q2 + 32768)"

lemma mult_bounds:
  fixes a b :: int
  assumes "- p \<le> a" "a \<le> 0" "0 \<le> b" "b \<le> q"
  shows "- (p * q) \<le> a * b" "a * b \<le> 0"
proof -
  have "(- a) * b \<le> p * q" using assms by (intro mult_mono) simp_all
  then show "- (p * q) \<le> a * b" by simp
  show "a * b \<le> 0" using assms by (simp add: mult_nonpos_nonneg)
qed

lemma SqrtLocal_poly:
  assumes "16384 \<le> N" "N \<le> 32767"
  shows "WebRtcSpl_SqrtLocal (N * 65536) = sqrt_poly N"
    "0 \<le> sqrt_poly N" "sqrt_poly N \<le> 2147483647"
proof -
  define h where "h = (N - 32768) div 2"
  define q where "q = - (2 * h * h) div 65536"
  define q4 where "q4 = (2 * q * q) div 65536"
  define q5 where "q5 = (2 * h * q4) div 65536"
  define q2 where "q2 = 2 * h * h div 65536"
  have h: "- 8192 \<le> h" "h \<le> - 1" using assms by (simp_all add: h_def)
  have hh: "1 \<le> h * h" "h * h \<le> 67108864"
    using mult_mono [of "1 :: int" "- h" 1 "- h"] mult_mono [of "- h" "8192 :: int" "- h" 8192] h by simp_all
  have q: "- 2048 \<le> q" "q \<le> - 1" using hh by (simp_all add: q_def)
  have qq: "1 \<le> q * q" "q * q \<le> 4194304"
    using mult_mono [of "1 :: int" "- q" 1 "- q"] mult_mono [of "- q" "2048 :: int" "- q" 2048] q by simp_all
  have q4: "0 \<le> q4" "q4 \<le> 128" using qq by (simp_all add: q4_def)
  have hq4: "- 1048576 \<le> h * q4" "h * q4 \<le> 0" using mult_bounds [of 8192 h q4 128] h q4 by simp_all
  have q5: "- 32 \<le> q5" "q5 \<le> 0" using hq4 by (simp_all add: q5_def)
  have q2: "0 \<le> q2" "q2 \<le> 2048" using hh by (simp_all add: q2_def)
  have hq2: "- 16777216 \<le> h * q2" "h * q2 \<le> 0" using mult_bounds [of 8192 h q2 2048] h q2 by simp_all
  have P: "sqrt_poly N = N * 32768 + 1073741824 - h * h - 40960 * q4 + 57344 * q5 + h * q2 + 32768"
    by (simp add: sqrt_poly_def Let_def h_def q_def q4_def q5_def q2_def)
  show "0 \<le> sqrt_poly N" "sqrt_poly N \<le> 2147483647"
    unfolding P using assms hh q4 q5 hq2 by simp_all
  have 1: "(N * 65536) sdiv 2 = N * 32768" using assms by (simp add: sdiv_pos)
  have 2: "s32 (N * 32768 - 0x40000000) = N * 32768 - 1073741824" using assms by (simp add: s32_eqI)
  have 3: "s16 (sar (N * 32768 - 1073741824) 16) = h"
  proof -
    have "(N * 32768 - 1073741824) div 65536 = ((N - 32768) * 32768) div (2 * 32768)" by simp
    also have "\<dots> = h" unfolding h_def by (rule div_mult_mult2) simp
    finally show ?thesis using h by (simp add: sar_def s16_eqI)
  qed
  have 4: "s32 (h * h * 2) = 2 * h * h" "s32 (- (2 * h * h)) = - (2 * h * h)"
    using hh by (simp_all add: s32_eqI)
  have 5: "sar (- (2 * h * h)) 1 = - (h * h)" "sar (- (2 * h * h)) 16 = q" "sar (2 * h * h) 16 = q2"
    by (simp_all add: sar_def q_def q2_def)
  have 6: "s32 (q * q * 2) = 2 * q * q" "sar (2 * q * q) 16 = q4" "s16 q4 = q4"
    using qq q4 by (simp_all add: s32_eqI s16_eqI sar_def q4_def)
  have 7: "s32 (h * q4 * 2) = 2 * h * q4" "sar (2 * h * q4) 16 = q5" "s16 q5 = q5"
    using hq4 q5 by (simp_all add: s32_eqI s16_eqI sar_def q5_def)
  have 8: "s32 (h * q2 * 2) = 2 * h * q2" "sar (2 * h * q2) 1 = h * q2" "s16 q2 = q2"
    using hq2 q2 by (simp_all add: s32_eqI s16_eqI sar_def)
  have B: "s32 (N * 32768 - 1073741824 + 1073741824) = N * 32768"
    "s32 (N * 32768 + 1073741824) = N * 32768 + 1073741824"
    "s32 (N * 32768 + 1073741824 + - (h * h)) = N * 32768 + 1073741824 - h * h"
    "s32 (- 20480 * q4 * 2) = - 40960 * q4"
    "s32 (N * 32768 + 1073741824 - h * h + - 40960 * q4) = N * 32768 + 1073741824 - h * h - 40960 * q4"
    "s32 (28672 * q5 * 2) = 57344 * q5"
    "s32 (N * 32768 + 1073741824 - h * h - 40960 * q4 + 57344 * q5) =
      N * 32768 + 1073741824 - h * h - 40960 * q4 + 57344 * q5"
    "s32 (N * 32768 + 1073741824 - h * h - 40960 * q4 + 57344 * q5 + h * q2) =
      N * 32768 + 1073741824 - h * h - 40960 * q4 + 57344 * q5 + h * q2"
    "s32 (N * 32768 + 1073741824 - h * h - 40960 * q4 + 57344 * q5 + h * q2 + 32768) = sqrt_poly N"
    unfolding P using assms hh q4 q5 hq2 by (simp_all add: s32_eqI)
  show "WebRtcSpl_SqrtLocal (N * 65536) = sqrt_poly N"
    unfolding WebRtcSpl_SqrtLocal_def Let_def 1 2 3 4 5 6 7 8 B ..
qed

section \<open>Normalisation\<close>

text \<open>The 16-bit mantissa of a normalised positive value.\<close>

definition sqrt_norm :: "int \<Rightarrow> int" where
  "sqrt_norm A = (if A < 2147450880 then (A + 32768) div 65536 else 32767)"

lemma sqrt_norm_range:
  assumes "1073741824 \<le> A" "A < 2147483648"
  shows "16384 \<le> sqrt_norm A" "sqrt_norm A \<le> 32767"
  using assms by (auto simp: sqrt_norm_def)

text \<open>The square root of a positive value with \<open>sh\<close> leading zeros, sign bit aside.\<close>

definition sqrt_pos :: "int \<Rightarrow> nat \<Rightarrow> int" where
  "sqrt_pos v sh =
     (let t = sqrt_poly (sqrt_norm (v * 2 ^ sh)) div 65536
      in (if even sh then 2 * ((46340 * t + 32768) div 65536) else t) div 2 ^ (sh div 2))"

lemma Sqrt_pos:
  assumes "0 < v" "v \<le> 2147483647" "sh = WebRtcSpl_NormW32 v"
  shows "WebRtcSpl_Sqrt v = sqrt_pos v sh"
proof -
  let ?A = "v * 2 ^ sh" and ?N = "sqrt_norm (v * 2 ^ sh)"
  have A: "1073741824 \<le> ?A" "?A < 2147483648"
    using NormW32_pos [of v] assms by simp_all
  note N = sqrt_norm_range [OF A]
  have a1: "shl32 v sh = ?A" using A by (simp add: shl32_def s32_eqI)
  have a2: "s16 (sar (if ?A < 2147483647 - 32767 then s32 (?A + 32768) else 2147483647) 16) = ?N"
    using A N by (auto simp: sqrt_norm_def sar_def s32_eqI s16_eqI)
  have a3: "shl32 ?N 16 = ?N * 65536" using N by (simp add: shl32_def s32_eqI)
  let ?P = "sqrt_poly ?N"
  note P = SqrtLocal_poly [OF N]
  define t where "t = ?P div 65536"
  have t: "0 \<le> t" "t \<le> 32767" using P(2,3) by (simp_all add: t_def)
  have a4: "sar ?P 16 = t" "s16 t = t" using t by (simp_all add: sar_def t_def s16_eqI)
  have a5: "s32 (s32 (23170 * t * 2) + 32768) = 46340 * t + 32768"
    using t by (simp add: s32_eqI)
  have m1: "sar ((46340 * t + 32768) AND 0x7fff0000) 15 = 2 * ((46340 * t + 32768) div 65536)"
  proof -
    have "(0x7fff0000 :: int) = push_bit 16 (mask 15)"
      by (simp add: mask_eq_exp_minus_1 push_bit_eq_mult)
    then have "(46340 * t + 32768) AND 0x7fff0000 =
        push_bit 16 (take_bit 15 (drop_bit 16 (46340 * t + 32768)))"
      by (simp only: and_push_mask_eq)
    also have "take_bit 15 (drop_bit 16 (46340 * t + 32768)) = (46340 * t + 32768) div 65536"
      using t by (simp add: drop_bit_eq_div take_bit_int_eq_self)
    finally show ?thesis by (simp add: sar_def push_bit_eq_mult)
  qed
  have m2: "x AND 0xffff = x" if "0 \<le> x" "x < 65536" for x :: int
    using that take_bit_eq_mask [of 16 x] by (simp add: take_bit_int_eq_self mask_eq_exp_minus_1)
  have v: "(v = 0) = False" "(v < 0) = False" using assms by simp_all
  have e: "(2 * (sh div 2) = sh) = even sh" by presburger
  have n: "(?N * 65536 \<ge> 0) = True" using N by simp
  show ?thesis
    unfolding WebRtcSpl_Sqrt_def v if_False Let_def assms(3) [symmetric] a1 a2 a3 n if_True
      P(1) a4 a5 m1 e
    using t by (simp add: sqrt_pos_def Let_def t_def [symmetric] m2 sar_def)
qed

text \<open>The result is a 16-bit magnitude; below \<open>2 ^ 30\<close> it fits an \<open>int16_t\<close>.\<close>

lemma Sqrt_neg: "value < 0 \<Longrightarrow> - 2147483648 < value \<Longrightarrow> WebRtcSpl_Sqrt value = WebRtcSpl_Sqrt (- value)"
  by (simp add: WebRtcSpl_Sqrt_def)

lemma sqrt_norm_close:
  assumes "A < 2147483648"
  shows "sqrt_norm A * 65536 \<le> A + 32768" "A < sqrt_norm A * 65536 + 65536"
proof -
  have "A + 32768 = 65536 * ((A + 32768) div 65536) + (A + 32768) mod 65536" by simp
  moreover have "0 \<le> (A + 32768) mod 65536" "(A + 32768) mod 65536 < 65536" by simp_all
  ultimately show "sqrt_norm A * 65536 \<le> A + 32768" "A < sqrt_norm A * 65536 + 65536"
    using assms by (auto simp: sqrt_norm_def)
qed

lemma sqrt_pos_range:
  assumes "1073741824 \<le> v * 2 ^ sh" "v * 2 ^ sh < 2147483648"
  shows "0 \<le> sqrt_pos v sh" "sqrt_pos v sh \<le> 46340" "0 < sh \<Longrightarrow> sqrt_pos v sh \<le> 32767"
proof -
  define t where "t = sqrt_poly (sqrt_norm (v * 2 ^ sh)) div 65536"
  define u where "u = (if even sh then 2 * ((46340 * t + 32768) div 65536) else t)"
  have t: "0 \<le> t" "t \<le> 32767"
    using SqrtLocal_poly(2,3) [OF sqrt_norm_range [OF assms]] by (simp_all add: t_def)
  moreover have "(46340 * t + 32768) div 65536 < 23171"
    using t by (intro int_div_lt) simp_all
  ultimately have u: "0 \<le> u" "u \<le> 46340" by (simp_all add: u_def)
  have s: "sqrt_pos v sh = u div 2 ^ (sh div 2)" by (simp add: sqrt_pos_def t_def u_def Let_def)
  have le: "u div 2 ^ (sh div 2) \<le> u"
    using u zdiv_mono2 [of u 1 "2 ^ (sh div 2)"] by simp
  show "0 \<le> sqrt_pos v sh" using u by (simp add: s pos_imp_zdiv_nonneg_iff)
  show "sqrt_pos v sh \<le> 46340" using le u by (simp add: s)
  show "sqrt_pos v sh \<le> 32767" if "0 < sh"
  proof (cases "odd sh")
    case True
    then show ?thesis using le t by (simp add: s u_def)
  next
    case False
    with that obtain k where "sh div 2 = Suc k" by (cases "sh div 2") auto
    then have "u div 2 ^ (sh div 2) \<le> u div 2"
      using u zdiv_mono2 [of u 2 "2 ^ (sh div 2)"] by simp
    then show ?thesis using u by (simp add: s)
  qed
qed

lemma Sqrt_range:
  assumes "is32 v"
  shows "0 \<le> WebRtcSpl_Sqrt v" "WebRtcSpl_Sqrt v \<le> 46340"
    "\<bar>v\<bar> < 1073741824 \<Longrightarrow> WebRtcSpl_Sqrt v \<le> 32767"
proof -
  have min: "WebRtcSpl_Sqrt (- 2147483648) = WebRtcSpl_Sqrt 2147483647"
    by (simp add: WebRtcSpl_Sqrt_def)
  have pos: "0 \<le> WebRtcSpl_Sqrt w \<and> WebRtcSpl_Sqrt w \<le> 46340 \<and> (w < 1073741824 \<longrightarrow> WebRtcSpl_Sqrt w \<le> 32767)"
    if "0 \<le> w" "w \<le> 2147483647" for w
  proof (cases "w = 0")
    case True
    then show ?thesis by (simp add: WebRtcSpl_Sqrt_def)
  next
    case False
    then have w: "0 < w" "w < 2147483648" using that by simp_all
    define sh where "sh = WebRtcSpl_NormW32 w"
    have n: "1073741824 \<le> w * 2 ^ sh" "w * 2 ^ sh < 2147483648"
      using NormW32_pos [OF w] by (simp_all add: sh_def)
    then have "w < 1073741824 \<Longrightarrow> 0 < sh" by (cases sh) simp_all
    then show ?thesis
      using Sqrt_pos [OF w(1) that(2) sh_def] sqrt_pos_range [OF n] by simp
  qed
  consider "v = - 2147483648" | "v < 0" "- 2147483648 < v" | "0 \<le> v"
    using assms unfolding is32_def by linarith
  then have "0 \<le> WebRtcSpl_Sqrt v \<and> WebRtcSpl_Sqrt v \<le> 46340 \<and> (\<bar>v\<bar> < 1073741824 \<longrightarrow> WebRtcSpl_Sqrt v \<le> 32767)"
  proof cases
    case 1
    then show ?thesis using pos [of 2147483647] min by simp
  next
    case 2
    then show ?thesis using pos [of "- v"] Sqrt_neg [of v] by simp
  next
    case 3
    then show ?thesis using pos [of v] assms by (simp add: is32_def)
  qed
  then show "0 \<le> WebRtcSpl_Sqrt v" "WebRtcSpl_Sqrt v \<le> 46340"
    "\<bar>v\<bar> < 1073741824 \<Longrightarrow> WebRtcSpl_Sqrt v \<le> 32767" by simp_all
qed

section \<open>Accuracy\<close>

text \<open>The polynomial grows with the mantissa, so bounds at the ends of short intervals suffice.\<close>

lemma sqrt_poly_mono:
  assumes "16384 \<le> M" "M \<le> N" "N \<le> 32767"
  shows "sqrt_poly M \<le> sqrt_poly N"
proof -
  define g where "g = (M - 32768) div 2"
  define h where "h = (N - 32768) div 2"
  have gh: "g \<le> h" "h \<le> - 1" using assms by (simp_all add: g_def h_def zdiv_mono1)
  have hh: "h * h \<le> g * g" using gh mult_mono [of "- h" "- g" "- h" "- g"] by simp
  define p where "p = - (2 * g * g) div 65536"
  define q where "q = - (2 * h * h) div 65536"
  have pq: "p \<le> q" "q \<le> 0" using hh by (simp_all add: p_def q_def zdiv_mono1 div_nonpos_pos_le0)
  have qq: "q * q \<le> p * p" using pq mult_mono [of "- q" "- p" "- q" "- p"] by simp
  define p4 where "p4 = 2 * p * p div 65536"
  define q4 where "q4 = 2 * q * q div 65536"
  have "0 \<le> q * q" by simp
  then have 4: "q4 \<le> p4" "0 \<le> q4"
    using qq by (simp_all add: p4_def q4_def zdiv_mono1 pos_imp_zdiv_nonneg_iff)
  have "g * p4 \<le> h * q4"
    using gh 4 mult_mono [of "- h" "- g" q4 p4] by simp
  then have 5: "2 * g * p4 div 65536 \<le> 2 * h * q4 div 65536" by (intro zdiv_mono1) simp_all
  have "0 \<le> h * h" by simp
  then have 2: "2 * h * h div 65536 \<le> 2 * g * g div 65536" "0 \<le> 2 * h * h div 65536"
    using hh by (simp_all add: zdiv_mono1 pos_imp_zdiv_nonneg_iff)
  then have 3: "g * (2 * g * g div 65536) \<le> h * (2 * h * h div 65536)"
    using gh mult_mono [of "- h" "- g" "2 * h * h div 65536" "2 * g * g div 65536"] by simp
  show ?thesis
    unfolding sqrt_poly_def Let_def g_def [symmetric] h_def [symmetric]
      p_def [symmetric] q_def [symmetric] p4_def [symmetric] q4_def [symmetric]
    using assms(2) hh 4 5 3 by linarith
qed

definition sqrt_chunk_ok :: "int \<Rightarrow> bool" where
  "sqrt_chunk_ok j =
     (let a = 16384 + 64 * j; b = a + 63;
          s = sqrt_poly a div 65536; t = sqrt_poly b div 65536
      in 128 * (t * t) \<le> 129 * (a * 32768) \<and> 127 * (b * 32768) \<le> 128 * (s * s) \<and> 0 \<le> s)"

lemma sqrt_chunks: "\<forall>j\<in>set [0..255]. sqrt_chunk_ok j"
  by code_simp

lemma sqrt_poly_square:
  assumes N: "16384 \<le> N" "N \<le> 32767"
  defines "t \<equiv> sqrt_poly N div 65536"
  shows "128 * (t * t) \<le> 129 * (N * 32768)" "127 * (N * 32768) \<le> 128 * (t * t)" "0 \<le> t"
proof -
  define j where "j = (N - 16384) div 64"
  define a where "a = 16384 + 64 * j"
  have j: "0 \<le> j" "j \<le> 255" using N by (simp_all add: j_def)
  have "N - 16384 = 64 * j + (N - 16384) mod 64" by (simp add: j_def)
  then have aN: "a \<le> N" "N \<le> a + 63"
    using pos_mod_bound [of 64 "N - 16384"] pos_mod_sign [of 64 "N - 16384"] unfolding a_def by linarith+
  have ab: "16384 \<le> a" "a + 63 \<le> 32767" using j by (simp_all add: a_def)
  define s where "s = sqrt_poly a div 65536"
  define u where "u = sqrt_poly (a + 63) div 65536"
  have "sqrt_chunk_ok j" using bspec [OF sqrt_chunks, of j] j by simp
  then have c: "128 * (u * u) \<le> 129 * (a * 32768)" "127 * ((a + 63) * 32768) \<le> 128 * (s * s)" "0 \<le> s"
    unfolding sqrt_chunk_ok_def Let_def a_def [symmetric] s_def [symmetric] u_def [symmetric] by blast+
  have st: "s \<le> t" "t \<le> u"
    using sqrt_poly_mono [of a N] sqrt_poly_mono [of N "a + 63"] aN ab N
    by (simp_all add: s_def t_def u_def zdiv_mono1)
  then have "s * s \<le> t * t" "t * t \<le> u * u" using c(3) by (simp_all add: mult_mono)
  then show "128 * (t * t) \<le> 129 * (N * 32768)" "127 * (N * 32768) \<le> 128 * (t * t)"
    using c(1,2) aN by simp_all
  show "0 \<le> t" using c(3) st by simp
qed

text \<open>The rounded product with \<open>1 / sqrt 2\<close> (23170 in Q15) doubles the square.\<close>

lemma sqrt_two_step:
  fixes t :: int
  assumes "23000 \<le> t"
  defines "u \<equiv> 2 * ((46340 * t + 32768) div 65536)"
  shows "4294967296 * (u * u) \<le> 8590138489 * (t * t)" "8589026329 * (t * t) \<le> 4294967296 * (u * u)" "0 \<le> u"
proof -
  have "46340 * t + 32768 = 65536 * ((46340 * t + 32768) div 65536) + (46340 * t + 32768) mod 65536" by simp
  moreover have "0 \<le> (46340 * t + 32768) mod 65536" "(46340 * t + 32768) mod 65536 < 65536" by simp_all
  ultimately have b: "65536 * u \<le> 92683 * t" "92677 * t \<le> 65536 * u" using assms(1) by (simp_all add: u_def)
  then show u: "0 \<le> u" using assms(1) by simp
  show "4294967296 * (u * u) \<le> 8590138489 * (t * t)"
    using mult_mono [OF b(1) b(1)] u assms(1) by simp
  show "8589026329 * (t * t) \<le> 4294967296 * (u * u)"
    using mult_mono [OF b(2) b(2)] u assms(1) by simp
qed

lemma sqrt_mantissa_large:
  assumes "127 * (N * 32768) \<le> 128 * (t * t)" "16384 \<le> N" "0 \<le> (t :: int)"
  shows "23000 \<le> t"
proof (rule ccontr)
  assume "\<not> 23000 \<le> t"
  then have "t * t \<le> 23000 * 23000" using assms(3) by (intro mult_mono) simp_all
  then show False using assms(1,2) by simp
qed

text \<open>The square of the result is within a 64th of the argument, one unit of the result aside.\<close>

lemma sqrt_pos_close:
  assumes A: "1073741824 \<le> v * 2 ^ sh" "v * 2 ^ sh < 2147483648"
  defines "r \<equiv> sqrt_pos v sh"
  shows "64 * (r * r) \<le> 65 * v" "63 * v \<le> 64 * ((r + 1) * (r + 1))"
proof -
  define N where "N = sqrt_norm (v * 2 ^ sh)"
  define t where "t = sqrt_poly N div 65536"
  define k where "k = sh div 2"
  define u where "u = (if even sh then 2 * ((46340 * t + 32768) div 65536) else t)"
  note N = sqrt_norm_range [OF A, folded N_def]
  note NA = sqrt_norm_close [OF A(2), folded N_def]
  note t = sqrt_poly_square [OF N, folded t_def]
  have t23: "23000 \<le> t" by (rule sqrt_mantissa_large [OF t(2) N(1) t(3)])
  have sq: "0 \<le> u \<and> 64 * (u * u) \<le> 65 * (v * 4 ^ k) \<and> 63 * (v * 4 ^ k) \<le> 64 * (u * u)"
  proof (cases "even sh")
    case True
    then have "(2 :: int) ^ sh = 4 ^ k" by (auto simp: k_def power_mult)
    then show ?thesis using sqrt_two_step [OF t23] t NA A True by (simp add: u_def)
  next
    case False
    then have "sh = Suc (2 * k)" by (simp add: k_def)
    then have "(2 :: int) ^ sh = 2 * 4 ^ k" by (simp add: power_mult)
    then show ?thesis using t NA A False by (simp add: u_def)
  qed
  have r: "r = u div 2 ^ k" by (simp add: r_def sqrt_pos_def t_def u_def k_def N_def Let_def)
  have u: "u = 2 ^ k * r + u mod 2 ^ k" "0 \<le> u mod 2 ^ k" "u mod 2 ^ k < 2 ^ k"
    by (simp_all add: r)
  have r0: "0 \<le> r" using sq by (simp add: r pos_imp_zdiv_nonneg_iff)
  have lo: "2 ^ k * r \<le> u" and hi: "u \<le> 2 ^ k * (r + 1)" using u unfolding distrib_left mult_1_right by linarith+
  have "(2 ^ k * r) * (2 ^ k * r) \<le> u * u" using lo r0 sq by (intro mult_mono) simp_all
  moreover have "u * u \<le> (2 ^ k * (r + 1)) * (2 ^ k * (r + 1))" using hi sq by (intro mult_mono) simp_all
  moreover have "(2 :: int) ^ k * 2 ^ k = 4 ^ k"
    using power_mult_distrib [of "2 :: int" 2 k] by simp
  then have p: "(2 ^ k * x) * (2 ^ k * x) = (x * x) * (4 :: int) ^ k" for x
    by (simp add: mult_ac flip: mult.assoc)
  ultimately have "64 * (r * r) * 4 ^ k \<le> 65 * v * 4 ^ k" "63 * v * 4 ^ k \<le> 64 * ((r + 1) * (r + 1)) * 4 ^ k"
    using sq by (simp_all only: p mult.assoc) linarith+
  then show "64 * (r * r) \<le> 65 * v" "63 * v \<le> 64 * ((r + 1) * (r + 1))" by simp_all
qed

lemma Sqrt_close:
  assumes "0 < v" "v \<le> 2147483647"
  shows "64 * (WebRtcSpl_Sqrt v)\<^sup>2 \<le> 65 * v" "63 * v \<le> 64 * (WebRtcSpl_Sqrt v + 1)\<^sup>2"
proof -
  have "1073741824 \<le> v * 2 ^ WebRtcSpl_NormW32 v" "v * 2 ^ WebRtcSpl_NormW32 v < 2147483648"
    using NormW32_pos [of v] assms by simp_all
  from sqrt_pos_close [OF this]
  show "64 * (WebRtcSpl_Sqrt v)\<^sup>2 \<le> 65 * v" "63 * v \<le> 64 * (WebRtcSpl_Sqrt v + 1)\<^sup>2"
    by (simp_all add: Sqrt_pos [OF assms refl] power2_eq_square)
qed

end
