(* ===== verification/AgcVad.thy ===== *)
theory AgcVad imports SplResample SplSqrt begin

text \<open>
  The voice activity detector of the automatic gain control (\<open>WebRtcAgc_InitVad\<close> and
  \<open>WebRtcAgc_ProcessVad\<close> of \<open>agc/legacy/digital_agc.c\<close>): ten sub-frames of 1 ms are brought to 4 kHz,
  high-passed and summed into an energy whose logarithm feeds short- and long-term statistics.
\<close>

record AgcVad =
  downState :: two_phase
  HPstate :: int
  counter :: int
  logRatio :: int
  meanLongTerm :: int
  varianceLongTerm :: int
  stdLongTerm :: int
  meanShortTerm :: int
  varianceShortTerm :: int
  stdShortTerm :: int

definition kAvgDecayTime :: int where "kAvgDecayTime = 250"

definition WebRtcAgc_InitVad :: AgcVad where
  "WebRtcAgc_InitVad =
     \<lparr>downState = two_phase_zero, HPstate = 0, counter = 3, logRatio = 0,
      meanLongTerm = 15 * 2 ^ 10, varianceLongTerm = 500 * 2 ^ 8, stdLongTerm = 0,
      meanShortTerm = 15 * 2 ^ 10, varianceShortTerm = 500 * 2 ^ 8, stdShortTerm = 0\<rparr>"

section \<open>Energy of a frame\<close>

text \<open>One sample of the high-pass filter; the squares are summed in 32 bits.\<close>

definition agc_highpass :: "int \<times> int \<Rightarrow> int \<Rightarrow> int \<times> int" where
  "agc_highpass = (\<lambda>(HP, nrg) x.
     let out = s32 (x + HP);
         tmp32 = s32 (600 * out)
     in (s16 (sar tmp32 10 - x), s32 (nrg + sar (s32 (out * out)) 6)))"

text \<open>
  A sub-frame of 8 samples, or of 16 that are averaged in pairs first; the state is the
  down-sampling filter, the high-pass state and the energy so far.
\<close>

definition agc_vad_subframe :: "bool \<Rightarrow> two_phase \<times> int \<times> int \<Rightarrow> int list \<Rightarrow> two_phase \<times> int \<times> int" where
  "agc_vad_subframe wide = (\<lambda>(ds, HP, nrg) ins.
     let buf1 = (if wide then map2 (\<lambda>a b. s16 (sar (a + b) 1)) (evens ins) (odds ins) else ins);
         (ds, buf2) = WebRtcSpl_DownsampleBy2 buf1 ds;
         (HP, nrg) = foldl agc_highpass (HP, nrg) buf2
     in (ds, HP, nrg))"

definition agc_vad_energy :: "nat \<Rightarrow> int list \<Rightarrow> two_phase \<Rightarrow> int \<Rightarrow> two_phase \<times> int \<times> int" where
  "agc_vad_energy nrSamples ins ds HP =
     (let w = (if nrSamples = 160 then 16 else 8)
      in foldl (\<lambda>st subfr. agc_vad_subframe (nrSamples = 160) st (take w (drop (w * subfr) ins)))
           (ds, HP, 0) [0..<10])"

definition agc_vad_zeros :: "int \<Rightarrow> nat" where
  "agc_vad_zeros nrg =
     (let zeros = (if 0xFFFF0000 AND nrg = 0 then 16 else 0);
          zeros = (if 0xFF000000 AND shl32 nrg zeros = 0 then zeros + 8 else zeros);
          zeros = (if 0xF0000000 AND shl32 nrg zeros = 0 then zeros + 4 else zeros);
          zeros = (if 0xC0000000 AND shl32 nrg zeros = 0 then zeros + 2 else zeros)
      in if 0x80000000 AND shl32 nrg zeros = 0 then zeros + 1 else zeros)"

text \<open>The level of a frame in Q10 steps of 2.\<close>

definition agc_vad_level :: "int \<Rightarrow> int" where
  "agc_vad_level nrg = s16 (shl32 (15 - int (agc_vad_zeros nrg)) 11)"

section \<open>Statistics\<close>

definition agc_short_term :: "int \<Rightarrow> AgcVad \<Rightarrow> AgcVad" where
  "agc_short_term dB st =
     (let mean = s16 (sar (s32 (meanShortTerm st * 15 + dB)) 4);
          var = s32 (sar (s32 (dB * dB)) 12 + s32 (varianceShortTerm st * 15)) sdiv 16;
          std = s16 (WebRtcSpl_Sqrt (s32 (shl32 var 12 - s32 (mean * mean))))
      in st\<lparr>meanShortTerm := mean, varianceShortTerm := var, stdShortTerm := std\<rparr>)"

definition agc_long_term :: "int \<Rightarrow> AgcVad \<Rightarrow> AgcVad" where
  "agc_long_term dB st =
     (let n = WebRtcSpl_AddSatW16 (counter st) 1;
          mean = WebRtcSpl_DivW32W16ResW16 (s32 (meanLongTerm st * counter st + dB)) n;
          var = WebRtcSpl_DivW32W16
            (s32 (sar (s32 (dB * dB)) 12 + s32 (varianceLongTerm st * counter st))) n;
          std = s16 (WebRtcSpl_Sqrt (s32 (shl32 var 12 - s32 (mean * mean))))
      in st\<lparr>meanLongTerm := mean, varianceLongTerm := var, stdLongTerm := std\<rparr>)"

definition agc_log_ratio :: "int \<Rightarrow> AgcVad \<Rightarrow> int" where
  "agc_log_ratio dB st =
     (let tmp32 = s32 (3 * 2 ^ 12 * s16 (dB - meanLongTerm st));
          tmp32 = WebRtcSpl_DivW32W16 tmp32 (stdLongTerm st);
          tmp32b = s32 (logRatio st * (13 * 2 ^ 12));
          tmp32 = s32 (tmp32 + sar tmp32b 10);
          lr = s16 (sar tmp32 6);
          lr = (if lr > 2048 then 2048 else lr)
      in if lr < - 2048 then - 2048 else lr)"

definition WebRtcAgc_ProcessVad :: "AgcVad \<Rightarrow> int list \<Rightarrow> nat \<Rightarrow> AgcVad \<times> int" where
  "WebRtcAgc_ProcessVad st ins nrSamples =
     (let (ds, HP, nrg) = agc_vad_energy nrSamples ins (downState st) (HPstate st);
          st = st\<lparr>downState := ds, HPstate := HP\<rparr>;
          dB = agc_vad_level nrg;
          st = (if counter st < kAvgDecayTime then st\<lparr>counter := counter st + 1\<rparr> else st);
          st = agc_short_term dB st;
          st = agc_long_term dB st;
          st = st\<lparr>logRatio := agc_log_ratio dB st\<rparr>
      in (st, logRatio st))"

section \<open>The energy\<close>

text \<open>
  With samples and state inside \<open>\<plusminus> 23170\<close> nothing overflows: the filter keeps its state in this
  range and the energy grows by the exact square. One step further the square leaves 32 bits.
\<close>

lemma highpass_exact:
  assumes "\<bar>x\<bar> \<le> 23170" "\<bar>HP\<bar> \<le> 23170" "0 \<le> nrg" "nrg \<le> 2113929216"
  defines "HP' \<equiv> 600 * (x + HP) div 1024 - x"
  shows "agc_highpass (HP, nrg) x = (HP', nrg + (x + HP)\<^sup>2 div 64)"
    "\<bar>HP'\<bar> \<le> 23170" "0 \<le> (x + HP)\<^sup>2 div 64" "(x + HP)\<^sup>2 div 64 \<le> 33553056"
proof -
  have "HP' = (600 * HP - 424 * x) div 1024"
    using div_mult_self4 [of 1024 "- x" "600 * (x + HP)"] by (simp add: HP'_def algebra_simps)
  moreover have "- 23170 * 1024 \<le> 600 * HP - 424 * x" "600 * HP - 424 * x < 23171 * 1024"
    using assms(1,2) by (simp_all add: abs_le_iff)
  ultimately show HP': "\<bar>HP'\<bar> \<le> 23170"
    using sar_ge_iff [of "- 23170" "600 * HP - 424 * x" 10] sar_less_iff [of "600 * HP - 424 * x" 10 23171]
    by (simp add: sar_def)
  have o: "\<bar>x + HP\<bar> \<le> 46340" using assms(1,2) by simp
  then have sq: "(x + HP)\<^sup>2 \<le> 46340\<^sup>2" using power_mono [OF o, of 2] by simp
  then show n: "0 \<le> (x + HP)\<^sup>2 div 64" "(x + HP)\<^sup>2 div 64 \<le> 33553056"
    using zdiv_mono1 [of "(x + HP)\<^sup>2" "46340\<^sup>2" 64] by (simp_all add: pos_imp_zdiv_nonneg_iff)
  have "s32 (x + HP) = x + HP" "s32 (600 * (x + HP)) = 600 * (x + HP)"
    using o by (simp_all add: s32_eqI abs_le_iff)
  moreover have "s32 ((x + HP) * (x + HP)) = (x + HP)\<^sup>2"
    using sq zero_le_square [of "x + HP"] unfolding power2_eq_square by (intro s32_eqI) linarith+
  moreover have "s32 (nrg + (x + HP)\<^sup>2 div 64) = nrg + (x + HP)\<^sup>2 div 64"
    using n assms(3,4) by (simp add: s32_eqI)
  ultimately show "agc_highpass (HP, nrg) x = (HP', nrg + (x + HP)\<^sup>2 div 64)"
    using HP' by (simp add: agc_highpass_def Let_def sar_def HP'_def s16_eqI)
qed

text \<open>The energy without overflow checks, on the integers.\<close>

fun highpass_energy :: "int \<Rightarrow> int list \<Rightarrow> int" where
  "highpass_energy HP [] = 0"
| "highpass_energy HP (x # xs) = (x + HP)\<^sup>2 div 64 + highpass_energy (600 * (x + HP) div 1024 - x) xs"

lemma energy_exact_run:
  assumes "\<forall>x\<in>set xs. \<bar>x\<bar> \<le> 23170" "\<bar>HP\<bar> \<le> 23170" "0 \<le> nrg" "nrg + 33553056 * int (length xs) \<le> 2147395584"
  shows "snd (foldl agc_highpass (HP, nrg) xs) = nrg + highpass_energy HP xs \<and>
    \<bar>fst (foldl agc_highpass (HP, nrg) xs)\<bar> \<le> 23170"
  using assms
proof (induction xs arbitrary: HP nrg)
  case Nil
  then show ?case by simp
next
  case (Cons x xs)
  have x: "\<bar>x\<bar> \<le> 23170" "nrg \<le> 2113929216" using Cons.prems by simp_all
  note h = highpass_exact [OF x(1) Cons.prems(2,3) x(2)]
  have "\<forall>x\<in>set xs. \<bar>x\<bar> \<le> 23170" "0 \<le> nrg + (x + HP)\<^sup>2 div 64"
    "nrg + (x + HP)\<^sup>2 div 64 + 33553056 * int (length xs) \<le> 2147395584"
    using Cons.prems h(3,4) by simp_all
  from Cons.IH [OF this(1) h(2) this(2,3)] show ?case by (simp add: h(1))
qed

section \<open>The level\<close>

lemma and_s32:
  assumes "take_bit 32 m = m"
  shows "m AND s32 x = m AND (u32 x :: int)"
proof -
  have t: "take_bit 32 (s32 x) = take_bit 32 (u32 x)"
    by (simp add: take_bit_eq_mod s32_mod u32_def)
  have "m AND y = m AND take_bit 32 y" for y
    using assms by (metis take_bit_and and.assoc and.idem and.left_commute take_bit_eq_mask and.commute)
  then show ?thesis using t by metis
qed

lemma zeros_le: "agc_vad_zeros nrg \<le> 31"
  by (simp add: agc_vad_zeros_def Let_def)

text \<open>For a positive energy the search finds the leading zeros; silence counts as 31.\<close>

lemma zeros_norm:
  assumes "0 < nrg" "nrg < 2147483648"
  shows "agc_vad_zeros nrg = WebRtcSpl_NormU32 nrg"
proof -
  have m: "0xFF000000 AND shl32 a z = 0xFF000000 AND shlu32 a z" "0xF0000000 AND shl32 a z = 0xF0000000 AND shlu32 a z"
    "0xC0000000 AND shl32 a z = 0xC0000000 AND shlu32 a z" "0x80000000 AND shl32 a z = 0x80000000 AND shlu32 a z"
    for a z
    unfolding shl32_def shlu32_def by (rule and_s32, simp add: take_bit_int_eq_self)+
  show ?thesis using assms by (simp add: agc_vad_zeros_def WebRtcSpl_NormU32_def Let_def m)
qed

lemma level_range:
  "agc_vad_level nrg = (15 - int (agc_vad_zeros nrg)) * 2048"
  "- 32768 \<le> agc_vad_level nrg" "agc_vad_level nrg \<le> 30720"
proof -
  have "int (agc_vad_zeros nrg) \<le> 31" using zeros_le [of nrg] by simp
  then show "agc_vad_level nrg = (15 - int (agc_vad_zeros nrg)) * 2048"
    by (simp add: agc_vad_level_def shl32_def s32_eqI s16_eqI)
  then show "- 32768 \<le> agc_vad_level nrg" "agc_vad_level nrg \<le> 30720"
    using \<open>int (agc_vad_zeros nrg) \<le> 31\<close> by simp_all
qed

section \<open>The statistics stay in range\<close>

text \<open>
  The slack in the last conjunct but one relates mean and variance: it keeps the difference under
  the square root below \<open>2 ^ 30\<close>, so that the deviation fits an \<open>int16_t\<close>.
\<close>

definition short_term_ok :: "AgcVad \<Rightarrow> bool" where
  "short_term_ok v \<longleftrightarrow> - 32768 \<le> meanShortTerm v \<and> meanShortTerm v \<le> 30720 \<and>
     0 \<le> varianceShortTerm v \<and> varianceShortTerm v \<le> 262143 \<and>
     - 1048575 \<le> 4096 * varianceShortTerm v + 65536 * meanShortTerm v + 1073741824 \<and>
     0 \<le> stdShortTerm v \<and> stdShortTerm v \<le> 32767"

definition long_term_ok :: "AgcVad \<Rightarrow> bool" where
  "long_term_ok v \<longleftrightarrow> - 32767 \<le> meanLongTerm v \<and> meanLongTerm v \<le> 30720 \<and>
     0 \<le> varianceLongTerm v \<and> varianceLongTerm v \<le> 262143 \<and>
     0 \<le> stdLongTerm v \<and> stdLongTerm v \<le> 32767"

definition agc_vad_ok :: "AgcVad \<Rightarrow> bool" where
  "agc_vad_ok v \<longleftrightarrow> is16 (HPstate v) \<and> 3 \<le> counter v \<and> counter v \<le> 250 \<and>
     - 2048 \<le> logRatio v \<and> logRatio v \<le> 2048 \<and> short_term_ok v \<and> long_term_ok v"

lemma square_level:
  assumes "- 32768 \<le> dB" "dB \<le> 30720"
  shows "s32 (dB * dB) = dB * dB" "0 \<le> dB * dB div 4096" "dB * dB div 4096 \<le> 262144"
    "dB * dB - 4095 \<le> 4096 * (dB * dB div 4096)"
proof -
  have "\<bar>dB\<bar> * \<bar>dB\<bar> \<le> 32768 * 32768" using assms by (intro mult_mono) simp_all
  then have sq: "dB * dB \<le> 1073741824" by simp
  then show "s32 (dB * dB) = dB * dB"
    using zero_le_square [of dB] by (intro s32_eqI) linarith+
  show "0 \<le> dB * dB div 4096" by (simp add: pos_imp_zdiv_nonneg_iff)
  show "dB * dB div 4096 \<le> 262144" using zdiv_mono1 [OF sq, of 4096] by simp
  show "dB * dB - 4095 \<le> 4096 * (dB * dB div 4096)"
    using mult_div_mod_eq [of 4096 "dB * dB"] pos_mod_bound [of 4096 "dB * dB"] by linarith
qed

text \<open>A deviation: the square root of variance minus squared mean, below \<open>2 ^ 30\<close> in magnitude.\<close>

lemma deviation_range:
  assumes "- 32768 \<le> mean" "mean \<le> 30720" "0 \<le> var" "var \<le> 262143"
    "mean = - 32768 \<Longrightarrow> 0 < var"
  shows "0 \<le> s16 (WebRtcSpl_Sqrt (s32 (shl32 var 12 - s32 (mean * mean))))"
    "s16 (WebRtcSpl_Sqrt (s32 (shl32 var 12 - s32 (mean * mean)))) \<le> 32767"
proof -
  have m: "mean * mean \<le> 1073741824" "mean \<noteq> - 32768 \<Longrightarrow> mean * mean \<le> 1073676289"
  proof -
    have "\<bar>mean\<bar> * \<bar>mean\<bar> \<le> 32768 * 32768" using assms(1,2) by (intro mult_mono) simp_all
    then show "mean * mean \<le> 1073741824" by simp
    assume "mean \<noteq> - 32768"
    then have "\<bar>mean\<bar> * \<bar>mean\<bar> \<le> 32767 * 32767" using assms(1,2) by (intro mult_mono) simp_all
    then show "mean * mean \<le> 1073676289" by simp
  qed
  have e: "s32 (shl32 var 12 - s32 (mean * mean)) = 4096 * var - mean * mean"
  proof -
    have "shl32 var 12 = 4096 * var" using assms by (simp add: shl32_def s32_eqI)
    moreover have "s32 (mean * mean) = mean * mean"
      using m(1) zero_le_square [of mean] by (intro s32_eqI) linarith+
    moreover have "s32 (4096 * var - mean * mean) = 4096 * var - mean * mean"
      using assms m(1) zero_le_square [of mean] by (intro s32_eqI) linarith+
    ultimately show ?thesis by simp
  qed
  have "\<bar>4096 * var - mean * mean\<bar> < 1073741824"
  proof (cases "mean = - 32768")
    case True
    then show ?thesis using assms by simp
  next
    case False
    then have "mean * mean \<le> 1073676289" by (rule m(2))
    then show ?thesis using assms(3,4) zero_le_square [of mean] unfolding abs_less_iff by linarith
  qed
  moreover from this have "is32 (4096 * var - mean * mean)" by (auto simp: is32_def)
  ultimately have "0 \<le> WebRtcSpl_Sqrt (4096 * var - mean * mean)"
    "WebRtcSpl_Sqrt (4096 * var - mean * mean) \<le> 32767"
    by (simp_all add: Sqrt_range)
  then show "0 \<le> s16 (WebRtcSpl_Sqrt (s32 (shl32 var 12 - s32 (mean * mean))))"
    "s16 (WebRtcSpl_Sqrt (s32 (shl32 var 12 - s32 (mean * mean)))) \<le> 32767"
    unfolding e by (simp_all add: s16_eqI)
qed

lemma short_term_keeps:
  assumes v: "short_term_ok v" and dB: "- 32768 \<le> dB" "dB \<le> 30720"
  shows "short_term_ok (agc_short_term dB v)"
proof -
  note sq = square_level [OF dB]
  define mean where "mean = (meanShortTerm v * 15 + dB) div 16"
  define var where "var = (dB * dB div 4096 + varianceShortTerm v * 15) div 16"
  have v': "- 32768 \<le> meanShortTerm v" "meanShortTerm v \<le> 30720" "0 \<le> varianceShortTerm v"
    "varianceShortTerm v \<le> 262143"
    "- 1048575 \<le> 4096 * varianceShortTerm v + 65536 * meanShortTerm v + 1073741824"
    using v by (simp_all add: short_term_ok_def)
  have mean: "- 32768 \<le> mean" "mean \<le> 30720" using v' dB by (simp_all add: mean_def)
  have var: "0 \<le> var" "var \<le> 262143" using v' sq by (simp_all add: var_def pos_imp_zdiv_nonneg_iff)
  have s: "s16 (sar (s32 (meanShortTerm v * 15 + dB)) 4) = mean"
    "s32 (sar (s32 (dB * dB)) 12 + s32 (varianceShortTerm v * 15)) sdiv 16 = var"
    using v' dB sq mean by (simp_all add: mean_def var_def sar_def s32_eqI s16_eqI sdiv_pos)
  have "0 \<le> (dB + 32768) * (dB + 32768)" by simp
  then have "0 \<le> dB * dB + 65536 * dB + 1073741824" by (simp add: algebra_simps)
  moreover have "meanShortTerm v * 15 + dB - 15 \<le> 16 * mean"
    unfolding mean_def using mult_div_mod_eq [of 16 "meanShortTerm v * 15 + dB"]
      pos_mod_bound [of 16 "meanShortTerm v * 15 + dB"] by linarith
  moreover have "dB * dB div 4096 + varianceShortTerm v * 15 - 15 \<le> 16 * var"
    unfolding var_def using mult_div_mod_eq [of 16 "dB * dB div 4096 + varianceShortTerm v * 15"]
      pos_mod_bound [of 16 "dB * dB div 4096 + varianceShortTerm v * 15"] by linarith
  ultimately have slack: "- 1048575 \<le> 4096 * var + 65536 * mean + 1073741824"
    using v'(5) sq(4) by simp
  then have "mean = - 32768 \<Longrightarrow> 0 < var" by simp
  note std = deviation_range [OF mean var this]
  show ?thesis
    unfolding agc_short_term_def s Let_def short_term_ok_def using mean var slack std by simp
qed

lemma trunc_mean:
  fixes a n :: int
  assumes "0 < n" "- M * n - (n - 1) \<le> a" "a \<le> K * n + (n - 1)" "0 \<le> M" "0 \<le> K"
  shows "- M \<le> a sdiv n" "a sdiv n \<le> K"
proof -
  have "a sdiv n = (if 0 \<le> a then a div n else - (- a div n))"
    using assms(1) by (auto simp: signed_divide_int_def sgn_if)
  moreover have "0 \<le> a \<Longrightarrow> a div n < K + 1 \<and> 0 \<le> a div n"
    using assms int_div_lt [of n a "K + 1"] by (simp add: distrib_right pos_imp_zdiv_nonneg_iff)
  moreover have "a < 0 \<Longrightarrow> - a div n < M + 1 \<and> 0 \<le> - a div n"
    using assms int_div_lt [of n "- a" "M + 1"] by (simp add: distrib_right pos_imp_zdiv_nonneg_iff)
  ultimately show "- M \<le> a sdiv n" "a sdiv n \<le> K"
    using assms(4,5) by (simp_all split: if_splits)
qed

lemma long_term_keeps:
  assumes v: "long_term_ok v" and c: "3 \<le> counter v" "counter v \<le> 250" and dB: "- 32768 \<le> dB" "dB \<le> 30720"
  shows "long_term_ok (agc_long_term dB v)"
proof -
  note sq = square_level [OF dB]
  let ?c = "counter v"
  define a where "a = meanLongTerm v * ?c + dB"
  define b where "b = dB * dB div 4096 + varianceLongTerm v * ?c"
  have v': "- 32767 \<le> meanLongTerm v" "meanLongTerm v \<le> 30720" "0 \<le> varianceLongTerm v"
    "varianceLongTerm v \<le> 262143"
    using v by (simp_all add: long_term_ok_def)
  have m: "- 32767 * ?c \<le> meanLongTerm v * ?c" "meanLongTerm v * ?c \<le> 30720 * ?c"
    "0 \<le> varianceLongTerm v * ?c" "varianceLongTerm v * ?c \<le> 262143 * ?c"
    using v' c mult_right_mono [of "- 32767" "meanLongTerm v" ?c] mult_right_mono [of "meanLongTerm v" 30720 ?c]
      mult_right_mono [of "varianceLongTerm v" 262143 ?c] by simp_all
  have n: "WebRtcSpl_AddSatW16 ?c 1 = ?c + 1"
    using c by (simp add: WebRtcSpl_AddSatW16_def SatW32ToW16_clamp clamp_def)
  define mean where "mean = a sdiv (?c + 1)"
  define var where "var = b sdiv (?c + 1)"
  have mean: "- 32767 \<le> mean" "mean \<le> 30720"
    unfolding mean_def using trunc_mean [of "?c + 1" 32767 a 30720] m c dB
    by (simp_all add: a_def distrib_left)
  have var: "0 \<le> var" "var \<le> 262143"
    unfolding var_def using trunc_mean [of "?c + 1" 0 b 262143] m c sq by (simp_all add: b_def distrib_left)
  have s: "WebRtcSpl_DivW32W16ResW16 (s32 (meanLongTerm v * ?c + dB)) (?c + 1) = mean"
    "WebRtcSpl_DivW32W16 (s32 (sar (s32 (dB * dB)) 12 + s32 (varianceLongTerm v * ?c))) (?c + 1) = var"
  proof -
    have "s32 a = a" "s32 (varianceLongTerm v * ?c) = varianceLongTerm v * ?c" "s32 b = b"
      unfolding a_def b_def using m c dB sq by (intro s32_eqI; linarith)+
    then show "WebRtcSpl_DivW32W16ResW16 (s32 (meanLongTerm v * ?c + dB)) (?c + 1) = mean"
      "WebRtcSpl_DivW32W16 (s32 (sar (s32 (dB * dB)) 12 + s32 (varianceLongTerm v * ?c))) (?c + 1) = var"
      using mean var c sq(1)
      by (simp_all add: WebRtcSpl_DivW32W16ResW16_def WebRtcSpl_DivW32W16_def sar_def s32_eqI s16_eqI
          flip: a_def b_def mean_def var_def)
  qed
  have "mean = - 32768 \<Longrightarrow> 0 < var" "- 32768 \<le> mean" using mean by simp_all
  note std = deviation_range [OF this(2) mean(2) var this(1)]
  show ?thesis
    unfolding agc_long_term_def Let_def n s long_term_ok_def using mean var std by simp
qed

text \<open>The detector keeps its invariant whatever the samples are.\<close>

lemma log_ratio_range: "- 2048 \<le> agc_log_ratio dB v" "agc_log_ratio dB v \<le> 2048"
  by (simp_all add: agc_log_ratio_def Let_def)

lemma short_term_other [simp]:
  "counter (agc_short_term dB v) = counter v" "HPstate (agc_short_term dB v) = HPstate v"
  "logRatio (agc_short_term dB v) = logRatio v" "long_term_ok (agc_short_term dB v) = long_term_ok v"
  by (simp_all add: agc_short_term_def Let_def long_term_ok_def)

lemma long_term_other [simp]:
  "counter (agc_long_term dB v) = counter v" "HPstate (agc_long_term dB v) = HPstate v"
  "short_term_ok (agc_long_term dB v) = short_term_ok v"
  by (simp_all add: agc_long_term_def Let_def short_term_ok_def)

lemma highpass_state16: "is16 HP \<Longrightarrow> is16 (fst (foldl agc_highpass (HP, nrg) xs))"
  by (induction xs arbitrary: HP nrg) (simp_all add: agc_highpass_def Let_def)

lemma subframe_state16:
  "is16 (fst (snd st)) \<Longrightarrow> is16 (fst (snd (agc_vad_subframe w st ins)))"
  using highpass_state16 by (cases st) (simp add: agc_vad_subframe_def Let_def split_beta)

lemma energy_state16:
  "is16 HP \<Longrightarrow> is16 (fst (snd (agc_vad_energy n ins ds HP)))"
proof -
  have run: "is16 (fst (snd st)) \<Longrightarrow> is16 (fst (snd (foldl (\<lambda>st k. agc_vad_subframe w st (f k)) st ks)))"
    for st w f ks
    by (induction ks arbitrary: st) (simp_all add: subframe_state16)
  show "is16 HP \<Longrightarrow> ?thesis"
    unfolding agc_vad_energy_def Let_def by (rule run) simp
qed

lemma ProcessVad_keeps:
  assumes "agc_vad_ok v"
  shows "agc_vad_ok (fst (WebRtcAgc_ProcessVad v ins n))"
    "snd (WebRtcAgc_ProcessVad v ins n) = logRatio (fst (WebRtcAgc_ProcessVad v ins n))"
proof -
  obtain ds HP nrg where e: "agc_vad_energy n ins (downState v) (HPstate v) = (ds, HP, nrg)"
    by (rule prod_cases3)
  have HP: "is16 HP" using energy_state16 [of "HPstate v" n ins "downState v"] assms e by (simp add: agc_vad_ok_def)
  define dB where "dB = agc_vad_level nrg"
  have dB: "- 32768 \<le> dB" "dB \<le> 30720" unfolding dB_def by (rule level_range)+
  define v1 where "v1 = v\<lparr>downState := ds, HPstate := HP\<rparr>"
  define v2 where "v2 = (if counter v1 < kAvgDecayTime then v1\<lparr>counter := counter v1 + 1\<rparr> else v1)"
  define v3 where "v3 = agc_long_term dB (agc_short_term dB v2)"
  have 2: "HPstate v2 = HP" "3 \<le> counter v2" "counter v2 \<le> 250" "short_term_ok v2" "long_term_ok v2"
    using assms by (auto simp: v2_def v1_def agc_vad_ok_def kAvgDecayTime_def short_term_ok_def long_term_ok_def)
  have 3: "short_term_ok v3" "long_term_ok v3" "HPstate v3 = HP" "counter v3 = counter v2"
    using short_term_keeps [OF 2(4) dB] long_term_keeps [of "agc_short_term dB v2", OF _ _ _ dB] 2
    by (simp_all add: v3_def)
  have r: "WebRtcAgc_ProcessVad v ins n = (v3\<lparr>logRatio := agc_log_ratio dB v3\<rparr>, agc_log_ratio dB v3)"
    by (simp add: WebRtcAgc_ProcessVad_def e Let_def v1_def v2_def v3_def dB_def)
  show "agc_vad_ok (fst (WebRtcAgc_ProcessVad v ins n))"
    using 3 2 HP log_ratio_range [of dB v3]
    by (simp add: r agc_vad_ok_def short_term_ok_def long_term_ok_def)
  show "snd (WebRtcAgc_ProcessVad v ins n) = logRatio (fst (WebRtcAgc_ProcessVad v ins n))"
    by (simp add: r)
qed

lemma InitVad_ok: "agc_vad_ok WebRtcAgc_InitVad"
  by (simp add: agc_vad_ok_def WebRtcAgc_InitVad_def short_term_ok_def long_term_ok_def is16_def)

section \<open>Where the arithmetic leaves its range\<close>

text \<open>
  After a full-scale positive signal the high-pass state is -32767; a full-scale negative sample then
  makes \<open>out * out\<close> overflow: the loudest step there is lowers the energy.
\<close>

lemma highpass_overflow:
  "fst (foldl agc_highpass (0, 0) (replicate 24 32767)) = - 32767"
  "agc_highpass (- 32767, 0) (- 32768) = (- 5632, - 2048)"
  by code_simp+

text \<open>The 16-bit cast of the log ratio precedes the limiter: a large positive ratio becomes negative.\<close>

lemma log_ratio_flip:
  "agc_log_ratio 10240 (WebRtcAgc_InitVad\<lparr>meanLongTerm := 7240, stdLongTerm := 10\<rparr>) = - 2048"
  by code_simp

end
