(* ===== verification/AgcGain.thy ===== *)
theory AgcGain imports AgcVad begin

text \<open>
  The compressor gain table of the digital gain control (\<open>WebRtcAgc_CalculateGainTable\<close>): 32 gains in
  Q16, one per 6 dB of input level.
\<close>

definition kGenFuncTable :: "int list" where
  "kGenFuncTable = [
          256,   485,   786,  1126,  1484,  1849,  2217,  2586,
         2955,  3324,  3693,  4063,  4432,  4801,  5171,  5540,
         5909,  6279,  6648,  7017,  7387,  7756,  8125,  8495,
         8864,  9233,  9603,  9972, 10341, 10711, 11080, 11449,
        11819, 12188, 12557, 12927, 13296, 13665, 14035, 14404,
        14773, 15143, 15512, 15881, 16251, 16620, 16989, 17359,
        17728, 18097, 18466, 18836, 19205, 19574, 19944, 20313,
        20682, 21052, 21421, 21790, 22160, 22529, 22898, 23268,
        23637, 24006, 24376, 24745, 25114, 25484, 25853, 26222,
        26592, 26961, 27330, 27700, 28069, 28438, 28808, 29177,
        29546, 29916, 30285, 30654, 31024, 31393, 31762, 32132,
        32501, 32870, 33240, 33609, 33978, 34348, 34717, 35086,
        35456, 35825, 36194, 36564, 36933, 37302, 37672, 38041,
        38410, 38780, 39149, 39518, 39888, 40257, 40626, 40996,
        41365, 41734, 42104, 42473, 42842, 43212, 43581, 43950,
        44320, 44689, 45058, 45428, 45797, 46166, 46536, 46905]"

definition kGenFuncTableSize :: int where "kGenFuncTableSize = 128"
definition kLog10 :: int where "kLog10 = 54426"
definition kLog10_2 :: int where "kLog10_2 = 49321"
definition kLogE_1 :: int where "kLogE_1 = 23637"
definition constLinApprox :: int where "constLinApprox = 22817"

definition WEBRTC_SPL_SHIFT_W32 :: "int \<Rightarrow> int \<Rightarrow> int" where
  "WEBRTC_SPL_SHIFT_W32 x c = (if c \<ge> 0 then shl32 x (nat c) else sar x (nat (- c)))"

section \<open>The logarithm\<close>

text \<open>
  \<open>log2 (1 + 2 ^ x)\<close> of a level in Q14 by interpolation in the table; \<open>None\<close> is a read past its end.
  For a negative level \<open>log2 (1 + 2 ^ -x) = log2 (1 + 2 ^ x) - x\<close> is used.
\<close>

definition agc_neg_log :: "int \<Rightarrow> int \<Rightarrow> int" where
  "agc_neg_log absInLevel tmpU32no1 =
     (let zeros = WebRtcSpl_NormU32 absInLevel;
          (no1, no2, zerosScale) =
            (if zeros < 15
             then let no2 = u32 (sar absInLevel (15 - zeros) * kLogE_1)
                  in if zeros < 9 then (sar tmpU32no1 (9 - zeros), no2, 9 - zeros)
                     else (tmpU32no1, sar no2 (zeros - 9), 0)
             else (tmpU32no1, sar (u32 (absInLevel * kLogE_1)) 6, 0))
      in if no2 < no1 then sar (u32 (no1 - no2)) (8 - zerosScale) else 0)"

definition agc_log_approx :: "int \<Rightarrow> int option" where
  "agc_log_approx inLevel =
     (let absInLevel = u32 (if inLevel \<ge> 0 then inLevel else s32 (- inLevel));
          intPart = u16 (sar absInLevel 14);
          fracPart = u16 (absInLevel AND 0x3FFF)
      in if intPart + 1 \<ge> kGenFuncTableSize then None
         else let tmpU16 = u16 (kGenFuncTable ! nat (intPart + 1) - kGenFuncTable ! nat intPart);
                  tmpU32no1 = u32 (u32 (tmpU16 * fracPart) + shlu32 (kGenFuncTable ! nat intPart) 14)
              in Some (if inLevel < 0 then agc_neg_log absInLevel tmpU32no1 else sar tmpU32no1 8))"

section \<open>The exponential\<close>

text \<open>\<open>2 ^ (x + 16)\<close> of a Q14 exponent (from decibels in Q14), piecewise linear between powers of two.\<close>

definition agc_db_to_exponent :: "int \<Rightarrow> int" where
  "agc_db_to_exponent y32 =
     s32 ((if y32 > 39000 then sar (s32 (s32 (sar y32 1 * kLog10) + 4096)) 13
           else sar (s32 (s32 (y32 * kLog10) + 8192)) 14) + 16 * 2 ^ 14)"

definition agc_power :: "int \<Rightarrow> int" where
  "agc_power tmp32 =
     (if tmp32 > 0
      then let intPart = u16 (s16 (sar tmp32 14));
               fracPart = u16 (tmp32 AND 0x3FFF);
               no2 = (if sar fracPart 13 \<noteq> 0
                      then 2 ^ 14 - sar (s32 ((2 ^ 14 - fracPart) * s16 (2 * 2 ^ 14 - constLinApprox))) 13
                      else sar (s32 (fracPart * s16 (constLinApprox - 2 ^ 14))) 13);
               fracPart = u16 no2
           in s32 (shl32 1 (nat intPart) + WEBRTC_SPL_SHIFT_W32 fracPart (intPart - 14))
      else 0)"

section \<open>The table\<close>

text \<open>The derived constants of a configuration.\<close>

record gain_config =
  maxGain :: int
  diffGain :: int
  limiterOn :: bool
  limiterIdx :: int
  limiterLvl :: int

definition agc_max_gain :: "int \<Rightarrow> int \<Rightarrow> int \<Rightarrow> int" where
  "agc_max_gain digCompGaindB targetLevelDbfs analogTarget =
     (let tmp32no1 = s32 ((digCompGaindB - analogTarget) * (3 - 1));
          tmp16no1 = s16 (analogTarget - targetLevelDbfs);
          tmp16no1 = s16 (tmp16no1 + WebRtcSpl_DivW32W16ResW16 (tmp32no1 + sar 3 1) 3)
      in s16 (if tmp16no1 > analogTarget - targetLevelDbfs then tmp16no1
              else analogTarget - targetLevelDbfs))"

definition agc_diff_gain :: "int \<Rightarrow> int" where
  "agc_diff_gain digCompGaindB =
     WebRtcSpl_DivW32W16ResW16 (s32 (s32 (digCompGaindB * (3 - 1)) + sar 3 1)) 3"

definition agc_gain_config :: "int \<Rightarrow> int \<Rightarrow> bool \<Rightarrow> int \<Rightarrow> gain_config" where
  "agc_gain_config digCompGaindB targetLevelDbfs limiterEnable analogTarget =
     (let limiterOffset = 0;
          limiterLvlX = s16 (analogTarget - limiterOffset);
          limiterIdx = s16 (2 + WebRtcSpl_DivW32W16ResW16 (shl32 limiterLvlX 13) (kLog10_2 div 2));
          tmp16no1 = WebRtcSpl_DivW32W16ResW16 (limiterOffset + sar 3 1) 3
      in \<lparr>maxGain = agc_max_gain digCompGaindB targetLevelDbfs analogTarget,
          diffGain = agc_diff_gain digCompGaindB, limiterOn = limiterEnable,
          limiterIdx = limiterIdx, limiterLvl = targetLevelDbfs + tmp16no1\<rparr>)"

text \<open>The quotient of two numbers scaled to 30 bits, rounded, in Q8.\<close>

definition agc_quotient :: "int \<Rightarrow> int \<Rightarrow> int" where
  "agc_quotient numFIX den =
     (let zeros = (if numFIX > sar den 8 then WebRtcSpl_NormW32 numFIX else WebRtcSpl_NormW32 den + 8);
          numFIX = shl32 numFIX zeros;
          tmp32no1 = WEBRTC_SPL_SHIFT_W32 den (int zeros - 8);
          numFIX = (if numFIX < 0 then s32 (numFIX - tmp32no1 sdiv 2) else s32 (numFIX + tmp32no1 sdiv 2))
      in s32 (numFIX sdiv tmp32no1))"

text \<open>The gain in decibels (Q14) of entry \<open>i\<close>, the quotient of the scaled logarithms or the limiter line.\<close>

definition agc_gain_db :: "gain_config \<Rightarrow> int \<Rightarrow> int option" where
  "agc_gain_db cfg i =
     (let constMaxGain = kGenFuncTable ! nat (diffGain cfg);
          den = s32 (20 * constMaxGain);
          tmp16 = s16 ((3 - 1) * (i - 1));
          tmp32 = s32 (s32 (tmp16 * kLog10_2) + 1);
          inLevel = WebRtcSpl_DivW32W16 tmp32 3;
          inLevel = s32 (shl32 (diffGain cfg) 14 - inLevel)
      in case agc_log_approx inLevel of None \<Rightarrow> None
         | Some logApprox \<Rightarrow>
           let numFIX = shl32 (s32 (maxGain cfg * constMaxGain)) 6;
               numFIX = s32 (numFIX - s32 (s32 logApprox * diffGain cfg));
               y32 = agc_quotient numFIX den
           in Some (if limiterOn cfg \<and> i < limiterIdx cfg
                    then WebRtcSpl_DivW32W16 (s32 (s32 (s32 ((i - 1) * kLog10_2) - shl32 (limiterLvl cfg) 14) + 10)) 20
                    else y32))"

definition agc_gain_entry :: "gain_config \<Rightarrow> int \<Rightarrow> int option" where
  "agc_gain_entry cfg i = map_option (\<lambda>y32. agc_power (agc_db_to_exponent y32)) (agc_gain_db cfg i)"

text \<open>The outcome: the table and 0, the result -1 for a bad configuration, or a read past the table. An
  \<open>assert (0)\<close> precedes the return of -1: \<open>BadConfig\<close> is the result of a release build.\<close>

datatype gain_table_result = GainTable "int list" | BadConfig | BadRead

definition WebRtcAgc_CalculateGainTable :: "int \<Rightarrow> int \<Rightarrow> bool \<Rightarrow> int \<Rightarrow> gain_table_result" where
  "WebRtcAgc_CalculateGainTable digCompGaindB targetLevelDbfs limiterEnable analogTarget =
     (let cfg = agc_gain_config digCompGaindB targetLevelDbfs limiterEnable analogTarget
      in if diffGain cfg < 0 \<or> diffGain cfg \<ge> kGenFuncTableSize then BadConfig
         else case those (map (agc_gain_entry cfg) [0..31]) of None \<Rightarrow> BadRead | Some gt \<Rightarrow> GainTable gt)"

section \<open>What the table computes\<close>

text \<open>The power stays in its octave: between \<open>2 ^ p\<close> and \<open>2 ^ (p + 1)\<close> for the integer part \<open>p\<close>.\<close>

lemma fraction_range:
  assumes "0 \<le> f" "f < 16384"
  defines "g \<equiv> (if sar f 13 \<noteq> 0
    then 2 ^ 14 - sar (s32 ((2 ^ 14 - f) * s16 (2 * 2 ^ 14 - constLinApprox))) 13
    else sar (s32 (f * s16 (constLinApprox - 2 ^ 14))) 13)"
  shows "0 \<le> g" "g < 16384"
proof -
  have c: "s16 (2 * 2 ^ 14 - constLinApprox) = 9951" "s16 (constLinApprox - 2 ^ 14) = 6433"
    by (simp_all add: constLinApprox_def s16_def)
  have "0 \<le> g \<and> g < 16384"
  proof (cases "f < 8192")
    case True
    then have "sar f 13 = 0" using assms(1) by (simp add: sar_def)
    moreover have "s32 (f * 6433) = f * 6433" using True assms(1) by (simp add: s32_eqI)
    moreover have "0 \<le> f * 6433 div 8192" "f * 6433 div 8192 < 16384"
      using True assms(1) int_div_lt [of 8192 "f * 6433" 16384] by (simp_all add: pos_imp_zdiv_nonneg_iff)
    ultimately show ?thesis unfolding g_def c by (simp add: sar_def)
  next
    case False
    then have "sar f 13 \<noteq> 0" using assms(1,2) by (simp add: sar_def)
    moreover have "s32 ((16384 - f) * 9951) = (16384 - f) * 9951" using False assms(2) by (simp add: s32_eqI)
    moreover have "1 \<le> (16384 - f) * 9951 div 8192" "(16384 - f) * 9951 div 8192 < 16384"
      using False assms(2) int_div_lt [of 8192 "(16384 - f) * 9951" 16384]
        sar_ge_iff [of 1 "(16384 - f) * 9951" 13] by (simp_all add: sar_def)
    ultimately show ?thesis unfolding g_def c by (simp add: sar_def)
  qed
  then show "0 \<le> g" "g < 16384" by simp_all
qed

lemma shift_fraction:
  assumes "0 \<le> g" "g < 16384" "p \<le> 29"
  shows "0 \<le> WEBRTC_SPL_SHIFT_W32 g (int p - 14)" "WEBRTC_SPL_SHIFT_W32 g (int p - 14) < 2 ^ p"
proof -
  have "0 \<le> WEBRTC_SPL_SHIFT_W32 g (int p - 14) \<and> WEBRTC_SPL_SHIFT_W32 g (int p - 14) < 2 ^ p"
  proof (cases "14 \<le> p")
    case True
    then obtain k where k: "p = 14 + k" using le_Suc_ex by blast
    have "(2 :: int) ^ k \<le> 2 ^ 15" using k assms(3) by (intro power_increasing) simp_all
    then have "g * 2 ^ k \<le> 16383 * 2 ^ 15" using assms(1,2) by (intro mult_mono) simp_all
    then have "shl32 g k = g * 2 ^ k" using assms(1) by (intro shl32_small) simp_all
    then show ?thesis using assms(1,2) k by (simp add: WEBRTC_SPL_SHIFT_W32_def power_add)
  next
    case False
    then obtain k where k: "14 = p + k" "0 < k" using le_Suc_ex [of p 14] by auto
    then have "(2 :: int) ^ 14 = 2 ^ p * 2 ^ k" by (simp flip: power_add)
    then have "sar g k < 2 ^ p" using sar_less_iff [of g k "2 ^ p"] assms(2) by simp
    moreover have "nat (14 - int p) = k" using k by simp
    ultimately show ?thesis using False sar_nonneg [OF assms(1), of k] k
      by (simp add: WEBRTC_SPL_SHIFT_W32_def)
  qed
  then show "0 \<le> WEBRTC_SPL_SHIFT_W32 g (int p - 14)" "WEBRTC_SPL_SHIFT_W32 g (int p - 14) < 2 ^ p"
    by simp_all
qed

lemma power_octave:
  assumes "0 < e" "e < 30 * 16384" "p = nat (e div 16384)"
  shows "2 ^ p \<le> agc_power e" "agc_power e < 2 ^ (p + 1)"
proof -
  define g where "g = (if sar (u16 (e AND 0x3FFF)) 13 \<noteq> 0
    then 2 ^ 14 - sar (s32 ((2 ^ 14 - u16 (e AND 0x3FFF)) * s16 (2 * 2 ^ 14 - constLinApprox))) 13
    else sar (s32 (u16 (e AND 0x3FFF) * s16 (constLinApprox - 2 ^ 14))) 13)"
  have d: "0 \<le> e div 16384" "e div 16384 \<le> 29" using assms by (simp_all add: pos_imp_zdiv_nonneg_iff)
  then have p: "e div 16384 = int p" "p \<le> 29" using assms(3) by simp_all
  have a: "e AND 0x3FFF = e mod 16384"
    using take_bit_eq_mask [of 14 e] by (simp add: take_bit_eq_mod mask_eq_exp_minus_1)
  then have "0 \<le> u16 (e AND 0x3FFF)" "u16 (e AND 0x3FFF) < 16384" by (simp_all add: u16_def)
  note g = fraction_range [OF this, folded g_def]
  have i: "u16 (s16 (sar e 14)) = int p" "u16 g = g"
    using d p g by (simp_all add: sar_def s16_eqI u16_def)
  have "(2 :: int) ^ p \<le> 2 ^ 29" using p by (intro power_increasing) simp_all
  then have "shl32 1 p = 2 ^ p" "s32 (2 ^ p + WEBRTC_SPL_SHIFT_W32 g (int p - 14)) = 2 ^ p + WEBRTC_SPL_SHIFT_W32 g (int p - 14)"
    using shift_fraction [OF g p(2)] by (simp_all add: shl32_def s32_eqI)
  then have "agc_power e = 2 ^ p + WEBRTC_SPL_SHIFT_W32 g (int p - 14)"
    unfolding agc_power_def Let_def i(1) g_def [symmetric] i(2) using assms(1) by simp
  then show "2 ^ p \<le> agc_power e" "agc_power e < 2 ^ (p + 1)"
    using shift_fraction [OF g p(2)] by simp_all
qed

text \<open>Entry \<open>i\<close> looks up the level \<open>diffGain\<close> minus two thirds of \<open>(i - 1)\<close> octaves.\<close>

lemma entry_level:
  assumes "0 \<le> i" "i \<le> 31"
  shows "WebRtcSpl_DivW32W16 (s32 (s32 (s16 ((3 - 1) * (i - 1)) * kLog10_2) + 1)) 3 = (98642 * (i - 1) + 1) sdiv 3"
    "- 32880 \<le> (98642 * (i - 1) + 1) sdiv 3" "(98642 * (i - 1) + 1) sdiv 3 \<le> 986420"
proof -
  have i: "i \<in> set [0..31]" using assms by simp
  have "\<forall>i\<in>set [0..31]. WebRtcSpl_DivW32W16 (s32 (s32 (s16 ((3 - 1) * (i - 1)) * kLog10_2) + 1)) 3 = (98642 * (i - 1) + 1) sdiv 3 \<and>
    - 32880 \<le> (98642 * (i - 1) + 1) sdiv 3 \<and> (98642 * (i - 1) + 1) sdiv 3 \<le> 986420"
    by code_simp
  from bspec [OF this i] show
    "WebRtcSpl_DivW32W16 (s32 (s32 (s16 ((3 - 1) * (i - 1)) * kLog10_2) + 1)) 3 = (98642 * (i - 1) + 1) sdiv 3"
    "- 32880 \<le> (98642 * (i - 1) + 1) sdiv 3" "(98642 * (i - 1) + 1) sdiv 3 \<le> 986420"
    by simp_all
qed

lemma log_approx_None:
  assumes "\<bar>x\<bar> < 1073741824"
  shows "agc_log_approx x = None \<longleftrightarrow> 127 * 16384 \<le> \<bar>x\<bar>"
proof -
  have a: "u32 (if x \<ge> 0 then x else s32 (- x)) = \<bar>x\<bar>"
    using assms by (auto simp: s32_eqI isu32_def)
  have "0 \<le> \<bar>x\<bar> div 16384" "\<bar>x\<bar> div 16384 < 65536" using assms by (simp_all add: pos_imp_zdiv_nonneg_iff)
  then have "u16 (sar \<bar>x\<bar> 14) = \<bar>x\<bar> div 16384" by (simp add: u16_def sar_def)
  moreover have "127 \<le> \<bar>x\<bar> div 16384 \<longleftrightarrow> 127 * 16384 \<le> \<bar>x\<bar>"
    using sar_ge_iff [of 127 "\<bar>x\<bar>" 14] by (simp add: sar_def)
  ultimately show ?thesis
    unfolding agc_log_approx_def Let_def a kGenFuncTableSize_def by simp
qed

lemma entry_None:
  assumes "0 \<le> diffGain cfg" "diffGain cfg \<le> 127" "0 \<le> i" "i \<le> 31"
  shows "agc_gain_entry cfg i = None \<longleftrightarrow> 127 * 16384 \<le> \<bar>diffGain cfg * 16384 - (98642 * (i - 1) + 1) sdiv 3\<bar>"
proof -
  note l = entry_level [OF assms(3,4)]
  let ?x = "diffGain cfg * 16384 - (98642 * (i - 1) + 1) sdiv 3"
  have x: "\<bar>?x\<bar> < 1073741824" using l(2,3) assms(1,2) by (simp add: abs_less_iff)
  have "s32 (shl32 (diffGain cfg) 14 - (98642 * (i - 1) + 1) sdiv 3) = ?x"
    using x assms(1,2) by (simp add: shl32_def s32_eqI abs_less_iff)
  then have "agc_gain_entry cfg i = None \<longleftrightarrow> agc_log_approx ?x = None"
    unfolding agc_gain_entry_def agc_gain_db_def Let_def l(1) by (simp split: option.splits)
  then show ?thesis using log_approx_None [OF x] by simp
qed

lemma those_None: "those xs = None \<longleftrightarrow> None \<in> set xs"
  by (induction xs) (auto split: option.splits)

lemma those_Some_length: "those xs = Some ys \<Longrightarrow> length ys = length xs"
  by (induction xs arbitrary: ys) (auto split: option.splits)

text \<open>
  The guard against a table overrun is three short: with \<open>diffGain\<close> from 125 to 127 it passes and
  entry 0 reads past the end of \<open>kGenFuncTable\<close>.
\<close>

lemma CalculateGainTable_cases:
  "WebRtcAgc_CalculateGainTable c t l a =
    (if agc_diff_gain c < 0 \<or> 128 \<le> agc_diff_gain c then BadConfig
     else if 125 \<le> agc_diff_gain c then BadRead
     else GainTable (map (the \<circ> agc_gain_entry (agc_gain_config c t l a)) [0..31]))"
proof -
  define cfg where "cfg = agc_gain_config c t l a"
  have d: "diffGain cfg = agc_diff_gain c" by (simp add: cfg_def agc_gain_config_def Let_def)
  have n: "those (map (agc_gain_entry cfg) [0..31]) = None \<longleftrightarrow> 125 \<le> agc_diff_gain c"
    if r: "0 \<le> agc_diff_gain c" "agc_diff_gain c \<le> 127"
  proof -
    have "None \<in> set (map (agc_gain_entry cfg) [0..31]) \<longleftrightarrow> (\<exists>i. 0 \<le> i \<and> i \<le> 31 \<and>
        127 * 16384 \<le> \<bar>agc_diff_gain c * 16384 - (98642 * (i - 1) + 1) sdiv 3\<bar>)"
      using entry_None [of cfg] r d unfolding set_map image_iff set_upto atLeastAtMost_iff Bex_def
      by metis
    also have "\<dots> \<longleftrightarrow> 125 \<le> agc_diff_gain c"
    proof
      assume "125 \<le> agc_diff_gain c"
      moreover have "(98642 * (0 - 1) + 1) sdiv 3 = (- 32880 :: int)" by code_simp
      ultimately show "\<exists>i. 0 \<le> i \<and> i \<le> 31 \<and>
        127 * 16384 \<le> \<bar>agc_diff_gain c * 16384 - (98642 * (i - 1) + 1) sdiv 3\<bar>"
        by (intro exI [of _ 0]) simp
    next
      assume "\<exists>i. 0 \<le> i \<and> i \<le> 31 \<and>
        127 * 16384 \<le> \<bar>agc_diff_gain c * 16384 - (98642 * (i - 1) + 1) sdiv 3\<bar>"
      then obtain i where "0 \<le> i" "i \<le> 31"
        "127 * 16384 \<le> \<bar>agc_diff_gain c * 16384 - (98642 * (i - 1) + 1) sdiv 3\<bar>" by blast
      then show "125 \<le> agc_diff_gain c"
        using entry_level(2,3) [of i] r by (simp add: abs_if split: if_splits)
    qed
    finally show ?thesis by (simp only: those_None)
  qed
  have m: "those xs = Some ys \<Longrightarrow> ys = map the xs" for xs :: "int option list" and ys
    by (induction xs arbitrary: ys) (auto split: option.splits)
  show ?thesis
  proof (cases "agc_diff_gain c < 0 \<or> 128 \<le> agc_diff_gain c")
    case True
    then show ?thesis
      unfolding WebRtcAgc_CalculateGainTable_def Let_def cfg_def [symmetric] d kGenFuncTableSize_def by simp
  next
    case False
    then have r: "0 \<le> agc_diff_gain c" "agc_diff_gain c \<le> 127" by simp_all
    define xs where "xs = map (agc_gain_entry cfg) [0..31]"
    have t: "map (the \<circ> agc_gain_entry cfg) [0..31] = map the xs"
      unfolding xs_def by (rule map_map [symmetric])
    show ?thesis
      unfolding WebRtcAgc_CalculateGainTable_def Let_def cfg_def [symmetric] d kGenFuncTableSize_def
        xs_def [symmetric] t
      using n [OF r, folded xs_def] m [of xs] False by (cases "those xs") simp_all
  qed
qed

end
