(* ===== verification/DigitalAgc.thy ===== *)
theory DigitalAgc imports AgcGain begin

text \<open>
  The digital gain control (\<open>agc/legacy/digital_agc.c\<close>): two envelope followers choose a gain per
  millisecond from the compressor table, a gate and a limiter lower it, and the samples are multiplied
  by a gain that moves linearly from one millisecond to the next.
\<close>

record DigitalAgc =
  capacitorSlow :: int
  capacitorFast :: int
  gain :: int
  gainTable :: "int list"
  gatePrevious :: int
  agcMode :: int
  vadNearend :: AgcVad
  vadFarend :: AgcVad

definition kAgcModeFixedDigital :: int where "kAgcModeFixedDigital = 3"

definition AGC_MUL32 :: "int \<Rightarrow> int \<Rightarrow> int" where
  "AGC_MUL32 A B = s32 (s32 (sar B 13 * A) + sar (s32 ((0x1FFF AND B) * A)) 13)"

definition AGC_SCALEDIFF32 :: "int \<Rightarrow> int \<Rightarrow> int \<Rightarrow> int" where
  "AGC_SCALEDIFF32 A B C = s32 (C + s32 (sar B 16 * A) + sar (s32 ((0xFFFF AND B) * A)) 16)"

definition WebRtcAgc_InitDigital :: "DigitalAgc \<Rightarrow> int \<Rightarrow> DigitalAgc" where
  "WebRtcAgc_InitDigital stt mode =
     stt\<lparr>capacitorSlow := (if mode = kAgcModeFixedDigital then 0 else 134217728),
         capacitorFast := 0, gain := 65536, gatePrevious := 0, agcMode := mode,
         vadNearend := WebRtcAgc_InitVad, vadFarend := WebRtcAgc_InitVad\<rparr>"

definition WebRtcAgc_AddFarendToDigital :: "DigitalAgc \<Rightarrow> int list \<Rightarrow> nat \<Rightarrow> DigitalAgc" where
  "WebRtcAgc_AddFarendToDigital stt in_far nrSamples =
     stt\<lparr>vadFarend := fst (WebRtcAgc_ProcessVad (vadFarend stt) in_far nrSamples)\<rparr>"

section \<open>Decay of the slow envelope\<close>

text \<open>The near-end log ratio, corrected by the far end once that has been heard long enough.\<close>

definition agc_logratio :: "DigitalAgc \<Rightarrow> int \<Rightarrow> int" where
  "agc_logratio stt logratio =
     (if counter (vadFarend stt) > 10
      then s16 (sar (s32 (3 * logratio - logRatio (vadFarend stt))) 2) else logratio)"

definition agc_decay :: "DigitalAgc \<Rightarrow> int \<Rightarrow> int \<Rightarrow> int" where
  "agc_decay stt logratio lowlevelSignal =
     (let upper_thr = 1024; lower_thr = 0;
          decay = (if logratio > upper_thr then - 65
                   else if logratio < lower_thr then 0
                   else s16 (sar (s32 ((lower_thr - logratio) * 65)) 10));
          std = stdLongTerm (vadNearend stt)
      in if agcMode stt \<noteq> kAgcModeFixedDigital
         then let decay = (if std < 4000 then 0
                           else if std < 8096 then s16 (sar (s32 ((std - 4000) * decay)) 12)
                           else decay)
              in if lowlevelSignal \<noteq> 0 then 0 else decay
         else decay)"

section \<open>Envelopes and gains\<close>

definition agc_peak :: "int list \<Rightarrow> int" where
  "agc_peak xs = foldl (\<lambda>max_nrg x. let nrg = s32 (x * x) in if nrg > max_nrg then nrg else max_nrg) 0 xs"

definition agc_env :: "nat \<Rightarrow> int list \<Rightarrow> int list" where
  "agc_env L xs = map (\<lambda>k. agc_peak (take L (drop (k * L) xs))) [0..<10]"

text \<open>Leading zeros of a level, 31 for silence, and the 31 bits after the leading one.\<close>

definition agc_level_zeros :: "int \<Rightarrow> nat" where
  "agc_level_zeros level = (if level = 0 then 31 else WebRtcSpl_NormU32 (u32 level))"

definition agc_level_frac :: "int \<Rightarrow> int" where
  "agc_level_frac level = shl32 level (agc_level_zeros level) AND 0x7FFFFFFF"

definition agc_capacitors :: "int \<Rightarrow> int \<times> int \<Rightarrow> int \<Rightarrow> int \<times> int" where
  "agc_capacitors decay = (\<lambda>(fast, slow) env.
     let fast = AGC_SCALEDIFF32 (- 1000) fast fast;
         fast = (if env > fast then env else fast);
         slow = (if env > slow then AGC_SCALEDIFF32 500 (s32 (env - slow)) slow
                 else AGC_SCALEDIFF32 decay slow slow)
     in (fast, slow))"

definition agc_gain_at :: "int list \<Rightarrow> int \<Rightarrow> int" where
  "agc_gain_at gt level =
     (let zeros = agc_level_zeros level;
          frac = s16 (sar (agc_level_frac level) 19);
          tmp32 = s32 (s32 (gt ! (zeros - 1) - gt ! zeros) * frac)
      in s32 (gt ! zeros + sar tmp32 12))"

definition agc_level :: "int \<times> int \<Rightarrow> int" where
  "agc_level = (\<lambda>(fast, slow). if fast > slow then fast else slow)"

text \<open>One sub-frame: the capacitors follow the envelope and the louder one selects the gain.\<close>

definition agc_subframe :: "int list \<Rightarrow> int \<Rightarrow> int \<times> int \<Rightarrow> int \<Rightarrow> (int \<times> int) \<times> int" where
  "agc_subframe gt decay caps env =
     (let caps = agc_capacitors decay caps env in (caps, agc_gain_at gt (agc_level caps)))"

section \<open>The gate\<close>

text \<open>The level in Q9 below full scale: leading zeros minus the fraction.\<close>

definition agc_log_level :: "int \<Rightarrow> int" where
  "agc_log_level level =
     s16 (shl32 (int (agc_level_zeros level)) 9 - sar (s16 (sar (agc_level_frac level) 19)) 3)"

text \<open>The fast envelope takes its fraction straight from bit 22.\<close>

definition agc_log_fast :: "int \<Rightarrow> int" where
  "agc_log_fast level =
     s16 (s16 (shl32 (int (agc_level_zeros level)) 9) - s16 (sar (agc_level_frac level) 22))"

definition agc_gate :: "int \<Rightarrow> int \<Rightarrow> int \<Rightarrow> int \<Rightarrow> int \<times> int" where
  "agc_gate fast level std gatePrev =
     (let gate = s16 (1000 + agc_log_fast fast - agc_log_level level - std)
      in if gate < 0 then (gate, 0)
         else let gate = s16 (sar (gate + gatePrev * 7) 3) in (gate, gate))"

definition agc_gated :: "int \<Rightarrow> int \<Rightarrow> int \<Rightarrow> int" where
  "agc_gated gain0 gate g =
     (if gate > 0
      then let gain_adj = (if gate < 2500 then sar (2500 - gate) 5 else 0);
               tmp32 = (if s32 (g - gain0) > 8388608
                        then s32 (sar (s32 (g - gain0)) 8 * (178 + gain_adj))
                        else sar (s32 (s32 (g - gain0) * (178 + gain_adj))) 8)
           in s32 (gain0 + tmp32)
      else g)"

section \<open>The limiter\<close>

text \<open>
  The loop \<open>while (AGC_MUL32((env >> 12) + 1, gain32) > ...)\<close>; \<open>None\<close> if it never ends.
\<close>

definition agc_gain32 :: "nat \<Rightarrow> int \<Rightarrow> int" where
  "agc_gain32 zeros g = (let gain32 = s32 (sar g zeros + 1) in s32 (gain32 * gain32))"

definition agc_too_loud :: "int \<Rightarrow> nat \<Rightarrow> int \<Rightarrow> bool" where
  "agc_too_loud env zeros g \<longleftrightarrow>
     AGC_MUL32 (s32 (sar env 12 + 1)) (agc_gain32 zeros g) > WEBRTC_SPL_SHIFT_W32 32767 (2 * (1 - int zeros + 10))"

definition agc_reduce :: "int \<Rightarrow> int" where
  "agc_reduce g = (if g > 8388607 then s32 (g sdiv 256 * 253) else s32 (g * 253) sdiv 256)"

partial_function (option) agc_limit_loop :: "int \<Rightarrow> nat \<Rightarrow> int \<Rightarrow> int option" where
  "agc_limit_loop env zeros g =
     (if agc_too_loud env zeros g then agc_limit_loop env zeros (agc_reduce g) else Some g)"

declare agc_limit_loop.simps [code]

definition agc_limit :: "int \<Rightarrow> int \<Rightarrow> int option" where
  "agc_limit env g =
     agc_limit_loop env (if g > 47453132 then 16 - WebRtcSpl_NormW32 g else 10) g"

section \<open>Applying the gain\<close>

text \<open>Gain reductions come 1 ms early: \<open>gains[k]\<close> never exceeds \<open>gains[k + 1]\<close> for \<open>k \<ge> 1\<close>.\<close>

definition agc_early :: "int list \<Rightarrow> int list" where
  "agc_early gains =
     map (\<lambda>k. if 1 \<le> k \<and> k < 10 \<and> gains ! k > gains ! (k + 1) then gains ! (k + 1) else gains ! k) [0..<11]"

fun agc_ramp :: "nat \<Rightarrow> int \<Rightarrow> int \<Rightarrow> int list" where
  "agc_ramp 0 delta gain32 = []"
| "agc_ramp (Suc n) delta gain32 = gain32 # agc_ramp n delta (s32 (gain32 + delta))"

definition agc_apply :: "int \<Rightarrow> int \<Rightarrow> int" where
  "agc_apply gain32 x = s16 (sar (s32 (x * sar gain32 4)) 16)"

definition agc_apply_sat :: "int \<Rightarrow> int \<Rightarrow> int" where
  "agc_apply_sat gain32 x =
     (let out_tmp = sar (s32 (x * sar (s32 (gain32 + 127)) 7)) 16
      in if out_tmp > 4095 then 32767 else if out_tmp < - 4096 then - 32768 else agc_apply gain32 x)"

definition agc_band :: "nat \<Rightarrow> nat \<Rightarrow> int list \<Rightarrow> int list \<Rightarrow> int list" where
  "agc_band L L2 gains xs =
     concat (map (\<lambda>k. map2 (if k = 0 then agc_apply_sat else agc_apply)
         (agc_ramp L (shl32 (s32 (gains ! (k + 1) - gains ! k)) (4 - L2)) (shl32 (gains ! k) 4))
         (take L (drop (k * L) xs))) [0..<10])"

section \<open>A frame\<close>

definition agc_rate :: "int \<Rightarrow> (nat \<times> nat) option" where
  "agc_rate FS =
     (if FS = 8000 then Some (8, 3)
      else if FS = 16000 \<or> FS = 32000 \<or> FS = 48000 then Some (16, 4) else None)"

text \<open>The eleven gains of a frame, before the reductions are moved.\<close>

definition agc_frame_gains :: "DigitalAgc \<Rightarrow> int \<Rightarrow> int list \<Rightarrow> (DigitalAgc \<times> int list) option" where
  "agc_frame_gains stt decay env =
     (let gt = gainTable stt;
          (caps, gs) = scan (agc_subframe gt decay) (capacitorFast stt, capacitorSlow stt) env;
          (gate, gatePrev) = agc_gate (fst caps) (agc_level caps) (stdShortTerm (vadNearend stt)) (gatePrevious stt);
          gs = map (agc_gated (gt ! 0) gate) gs
      in map_option (\<lambda>gs. (stt\<lparr>capacitorFast := fst caps, capacitorSlow := snd caps, gatePrevious := gatePrev\<rparr>, gs))
           (those (map2 agc_limit env gs)))"

text \<open>
  The outcome of \<open>WebRtcAgc_ProcessDigital\<close>: -1 for an unknown rate, the new state and the output
  bands, or no return (the limiter loop). \<open>in_near\<close> holds \<open>10 * L\<close> samples per band.
\<close>

datatype agc_result = BadRate | Processed DigitalAgc "int list list" | Diverges

definition WebRtcAgc_ProcessDigital :: "DigitalAgc \<Rightarrow> int list list \<Rightarrow> int \<Rightarrow> int \<Rightarrow> agc_result" where
  "WebRtcAgc_ProcessDigital stt in_near FS lowlevelSignal =
     (case agc_rate FS of None \<Rightarrow> BadRate
      | Some (L, L2) \<Rightarrow>
        let out = map (take (10 * L)) in_near;
            (vad, logratio) = WebRtcAgc_ProcessVad (vadNearend stt) (out ! 0) (L * 10);
            stt = stt\<lparr>vadNearend := vad\<rparr>;
            decay = agc_decay stt (agc_logratio stt logratio) lowlevelSignal;
            env = agc_env L (out ! 0)
        in case agc_frame_gains stt decay env of None \<Rightarrow> Diverges
           | Some (stt', gs) \<Rightarrow>
             let gains = agc_early (gain stt # gs)
             in Processed (stt'\<lparr>gain := gains ! 10\<rparr>) (map (agc_band L L2 gains) out))"

section \<open>The envelopes\<close>

definition level_ok :: "int \<Rightarrow> bool" where
  "level_ok c \<longleftrightarrow> 0 \<le> c \<and> c \<le> 1073741824"

lemma and_low16: "0xFFFF AND (x :: int) = x mod 65536" and and_low13: "0x1FFF AND x = x mod 8192"
  using take_bit_eq_mask [of 16 x] take_bit_eq_mask [of 13 x]
  by (simp_all add: take_bit_eq_mod mask_eq_exp_minus_1 and.commute)

lemma split_mult_div:
  fixes A B m :: int
  assumes "0 < m"
  shows "B div m * A + (B mod m * A) div m = (A * B) div m"
proof -
  have "A * B = B mod m * A + m * (B div m * A)"
    by (simp add: algebra_simps flip: distrib_left)
  then show ?thesis using assms by (simp only: div_mult_self2)
qed

text \<open>\<open>AGC_SCALEDIFF32\<close> adds the exact 16.16 product, rounded down.\<close>

lemma SCALEDIFF32_exact:
  assumes "\<bar>A\<bar> \<le> 1000" "level_ok B" "level_ok C"
  shows "AGC_SCALEDIFF32 A B C = C + (A * B) div 65536"
proof -
  have B: "0 \<le> B div 65536" "B div 65536 \<le> 16384" "0 \<le> B mod 65536" "B mod 65536 \<le> 65535"
    using assms(2) zdiv_mono1 [of B 1073741824 65536] by (simp_all add: level_ok_def pos_imp_zdiv_nonneg_iff)
  have p: "\<bar>B div 65536 * A\<bar> \<le> 16384 * 1000" "\<bar>B mod 65536 * A\<bar> \<le> 65535 * 1000"
    unfolding abs_mult using B assms(1) by (intro mult_mono; simp)+
  then have q: "- 1000 \<le> (B mod 65536 * A) div 65536" "(B mod 65536 * A) div 65536 \<le> 1000"
    using sar_ge_iff [of "- 1000" "B mod 65536 * A" 16] sar_less_iff [of "B mod 65536 * A" 16 1001]
    by (simp_all add: sar_def abs_le_iff)
  have a: "s32 (B div 65536 * A) = B div 65536 * A" "s32 (B mod 65536 * A) = B mod 65536 * A"
    using p by (simp_all add: s32_eqI abs_le_iff)
  have b: "s32 (C + B div 65536 * A + (B mod 65536 * A) div 65536) =
      C + B div 65536 * A + (B mod 65536 * A) div 65536"
    using p(1) q assms(3) by (intro s32_eqI) (simp_all add: level_ok_def abs_le_iff)
  have c: "C + B div 65536 * A + (B mod 65536 * A) div 65536 = C + (A * B) div 65536"
    using split_mult_div [of 65536 B A] by simp
  have "AGC_SCALEDIFF32 A B C = s32 (C + s32 (B div 65536 * A) + s32 (B mod 65536 * A) div 65536)"
    by (simp add: AGC_SCALEDIFF32_def and_low16 sar_def)
  also have "\<dots> = C + (A * B) div 65536" unfolding a b by (rule c)
  finally show ?thesis .
qed

lemma scaled_between:
  fixes d w m :: int
  assumes "0 \<le> w" "w \<le> m" "0 < m"
  shows "min 0 d \<le> (d * w) div m" "(d * w) div m \<le> max 0 d"
proof -
  have "min 0 d \<le> (d * w) div m \<and> (d * w) div m \<le> max 0 d"
  proof (cases "0 \<le> d")
    case True
    then have "d * w \<le> d * m" "0 \<le> d * w" using assms by (simp_all add: mult_left_mono)
    then have "(d * w) div m \<le> d" "0 \<le> (d * w) div m"
      using zdiv_mono1 [of "d * w" "d * m" m] assms(3) by (simp_all add: pos_imp_zdiv_nonneg_iff)
    then show ?thesis using True by simp
  next
    case False
    then have "d * m \<le> d * w" "d * w \<le> 0"
      using assms mult_left_mono_neg [of w m d] by (simp_all add: mult_nonpos_nonneg)
    then have "d \<le> (d * w) div m" "(d * w) div m \<le> 0"
      using zdiv_mono1 [of "d * m" "d * w" m] zdiv_mono1 [of "d * w" 0 m] assms(3) by simp_all
    then show ?thesis using False by simp
  qed
  then show "min 0 d \<le> (d * w) div m" "(d * w) div m \<le> max 0 d" by simp_all
qed

lemma scale_down_level:
  assumes "level_ok c" "- 65536 \<le> A" "A \<le> 0" "\<bar>A\<bar> \<le> 1000"
  shows "level_ok (AGC_SCALEDIFF32 A c c)" "AGC_SCALEDIFF32 A c c \<le> c"
proof -
  have "(A * c) div 65536 = (- c * - A) div 65536" by (simp add: mult.commute)
  then have "- c \<le> (A * c) div 65536" "(A * c) div 65536 \<le> 0"
    using scaled_between [of "- A" 65536 "- c"] assms by (simp_all add: level_ok_def)
  then show "level_ok (AGC_SCALEDIFF32 A c c)" "AGC_SCALEDIFF32 A c c \<le> c"
    using assms(1) SCALEDIFF32_exact [OF assms(4,1,1)] by (simp_all add: level_ok_def)
qed

lemma scale_up_level:
  assumes "level_ok c" "level_ok e" "c < e"
  shows "level_ok (AGC_SCALEDIFF32 500 (s32 (e - c)) c)" "AGC_SCALEDIFF32 500 (s32 (e - c)) c \<le> e"
    "c \<le> AGC_SCALEDIFF32 500 (s32 (e - c)) c"
proof -
  have d: "s32 (e - c) = e - c" "level_ok (e - c)" using assms by (simp_all add: level_ok_def s32_eqI)
  have "0 \<le> (500 * (e - c)) div 65536" "(500 * (e - c)) div 65536 \<le> e - c"
    using scaled_between [of 500 65536 "e - c"] assms(3) by (simp_all add: mult.commute)
  then show "level_ok (AGC_SCALEDIFF32 500 (s32 (e - c)) c)" "AGC_SCALEDIFF32 500 (s32 (e - c)) c \<le> e"
    "c \<le> AGC_SCALEDIFF32 500 (s32 (e - c)) c"
    using assms SCALEDIFF32_exact [OF _ d(2) assms(1), of 500] by (simp_all add: d(1) level_ok_def)
qed

text \<open>
  The capacitors stay between 0 and the square of a full-scale sample, and the fast one is never
  below the envelope.
\<close>

lemma capacitors_step:
  assumes "level_ok fast" "level_ok slow" "level_ok env" "- 65 \<le> decay" "decay \<le> 0"
  shows "level_ok (fst (agc_capacitors decay (fast, slow) env))"
    "level_ok (snd (agc_capacitors decay (fast, slow) env))"
    "env \<le> fst (agc_capacitors decay (fast, slow) env)"
  using scale_down_level [of fast "- 1000"] scale_down_level [of slow decay] scale_up_level [of slow env] assms
  by (auto simp: agc_capacitors_def Let_def)

lemma decay_range:
  assumes "long_term_ok (vadNearend stt)" "- 16384 \<le> lr" "lr \<le> 16384"
  shows "- 65 \<le> agc_decay stt lr low" "agc_decay stt lr low \<le> 0"
proof -
  define d where "d = (if lr > 1024 then - 65 else if lr < 0 then 0 else s16 (sar (s32 ((0 - lr) * 65)) 10))"
  have d: "- 65 \<le> d" "d \<le> 0"
  proof -
    have "- 65 \<le> d \<and> d \<le> 0"
    proof (cases "0 \<le> lr \<and> lr \<le> 1024")
      case True
      have "(0 - lr) * 65 = - 65 * lr" by simp
      then have "- 65 \<le> ((0 - lr) * 65) div 1024" "((0 - lr) * 65) div 1024 \<le> 0"
        using scaled_between [of lr 1024 "- 65"] True by simp_all
      then show ?thesis using True by (simp add: d_def sar_def s32_eqI s16_eqI)
    qed (auto simp: d_def)
    then show "- 65 \<le> d" "d \<le> 0" by simp_all
  qed
  let ?std = "stdLongTerm (vadNearend stt)"
  have m: "- 65 \<le> s16 (sar (s32 ((?std - 4000) * d)) 12)" "s16 (sar (s32 ((?std - 4000) * d)) 12) \<le> 0"
    if "4000 \<le> ?std" "?std < 8096"
  proof -
    have b: "min 0 d \<le> (d * (?std - 4000)) div 4096" "(d * (?std - 4000)) div 4096 \<le> max 0 d"
      using scaled_between [of "?std - 4000" 4096 d] that by simp_all
    have "\<bar>(?std - 4000) * d\<bar> \<le> 4096 * 65"
      unfolding abs_mult using that d by (intro mult_mono) simp_all
    then have "s32 ((?std - 4000) * d) = d * (?std - 4000)" by (simp add: s32_eqI abs_le_iff mult.commute)
    then show "- 65 \<le> s16 (sar (s32 ((?std - 4000) * d)) 12)" "s16 (sar (s32 ((?std - 4000) * d)) 12) \<le> 0"
      using b d by (simp_all add: sar_def s16_eqI)
  qed
  have e: "agc_decay stt lr low =
      (if agcMode stt \<noteq> kAgcModeFixedDigital
       then if low \<noteq> 0 then 0
            else if ?std < 4000 then 0 else if ?std < 8096 then s16 (sar (s32 ((?std - 4000) * d)) 12) else d
       else d)"
    by (simp add: agc_decay_def Let_def d_def)
  show "- 65 \<le> agc_decay stt lr low" "agc_decay stt lr low \<le> 0"
    unfolding e using d m by (auto split: if_splits)
qed

lemma foldl_peak:
  assumes "\<forall>x\<in>set xs. is16 x" "level_ok m"
  shows "level_ok (foldl (\<lambda>max_nrg x. let nrg = s32 (x * x) in if nrg > max_nrg then nrg else max_nrg) m xs) \<and>
    m \<le> foldl (\<lambda>max_nrg x. let nrg = s32 (x * x) in if nrg > max_nrg then nrg else max_nrg) m xs \<and>
    (\<forall>x\<in>set xs. x * x \<le> foldl (\<lambda>max_nrg x. let nrg = s32 (x * x) in if nrg > max_nrg then nrg else max_nrg) m xs)"
  using assms
proof (induction xs arbitrary: m)
  case Nil
  then show ?case by simp
next
  case (Cons x xs)
  have "\<bar>x\<bar> * \<bar>x\<bar> \<le> 32768 * 32768" using Cons.prems(1) by (intro mult_mono) (auto simp: is16_def)
  then have x: "level_ok (x * x)" by (simp add: level_ok_def)
  then have s: "s32 (x * x) = x * x" unfolding level_ok_def by (intro s32_eqI) linarith+
  define m' where "m' = (if s32 (x * x) > m then s32 (x * x) else m)"
  have m': "level_ok m'" "m \<le> m'" "x * x \<le> m'" using x Cons.prems(2) by (auto simp: m'_def s)
  show ?case
    using Cons.IH [of m'] Cons.prems(1) m' by (simp add: Let_def flip: m'_def)
qed

lemma peak_bounds:
  assumes "\<forall>x\<in>set xs. is16 x"
  shows "level_ok (agc_peak xs)" "x \<in> set xs \<Longrightarrow> x * x \<le> agc_peak xs"
  using foldl_peak [OF assms, of 0] by (simp_all add: agc_peak_def level_ok_def)

section \<open>From level to gain\<close>

text \<open>The level lies \<open>z\<close> octaves below \<open>2 ^ 32\<close>, with a 31-bit fraction.\<close>

lemma level_zeros:
  assumes "level_ok c"
  shows "1 \<le> agc_level_zeros c" "agc_level_zeros c \<le> 31"
    "0 < c \<Longrightarrow> agc_level_frac c = c * 2 ^ agc_level_zeros c - 2147483648"
    "0 \<le> agc_level_frac c" "agc_level_frac c < 2147483648"
proof -
  let ?z = "agc_level_zeros c"
  have "1 \<le> ?z \<and> ?z \<le> 31 \<and> (0 < c \<longrightarrow> agc_level_frac c = c * 2 ^ ?z - 2147483648) \<and>
    0 \<le> agc_level_frac c \<and> agc_level_frac c < 2147483648"
  proof (cases "c = 0")
    case True
    then show ?thesis by (simp add: agc_level_zeros_def agc_level_frac_def shl32_def)
  next
    case False
    then have c: "0 < c" "c < 4294967296" "c \<le> 1073741824" using assms by (simp_all add: level_ok_def)
    then have z: "?z = WebRtcSpl_NormU32 c" by (simp add: agc_level_zeros_def isu32_def)
    have t: "2147483648 \<le> c * 2 ^ ?z" "c * 2 ^ ?z < 4294967296"
      using NormU32_top [OF c(1,2)] by (simp_all add: z)
    have "1 \<le> ?z" using t(1) c(3) by (cases ?z) simp_all
    moreover have "?z \<le> 31"
    proof (rule ccontr)
      assume "\<not> ?z \<le> 31"
      then have "(2 :: int) ^ 32 \<le> 2 ^ ?z" by (intro power_increasing) simp_all
      then have "1 * 2 ^ 32 \<le> c * 2 ^ ?z" using c by (intro mult_mono) simp_all
      then show False using t(2) by simp
    qed
    moreover have "agc_level_frac c = c * 2 ^ ?z - 2147483648"
    proof -
      have "agc_level_frac c = shl32 c ?z mod 2147483648"
        using take_bit_eq_mask [of 31 "shl32 c ?z"]
        by (simp add: agc_level_frac_def take_bit_eq_mod mask_eq_exp_minus_1)
      also have "shl32 c ?z = c * 2 ^ ?z - 4294967296"
        using t by (simp add: shl32_def s32_wrap_high)
      also have "(c * 2 ^ ?z - 4294967296) mod 2147483648 = (c * 2 ^ ?z - 2147483648) mod 2147483648"
        using mod_add_self2 [of "c * 2 ^ ?z - 4294967296" 2147483648] by simp
      also have "\<dots> = c * 2 ^ ?z - 2147483648" by (rule mod_pos_pos_trivial) (use t in simp_all)
      finally show ?thesis .
    qed
    ultimately show ?thesis using t by simp
  qed
  then show "1 \<le> ?z" "?z \<le> 31" "0 < c \<Longrightarrow> agc_level_frac c = c * 2 ^ ?z - 2147483648"
    "0 \<le> agc_level_frac c" "agc_level_frac c < 2147483648" by blast+
qed

definition table_ok :: "int list \<Rightarrow> bool" where
  "table_ok gt \<longleftrightarrow> length gt = 32 \<and> (\<forall>g\<in>set gt. 0 \<le> g \<and> g \<le> 524288)"

lemma table_entry: "table_ok gt \<Longrightarrow> i < 32 \<Longrightarrow> 0 \<le> gt ! i \<and> gt ! i \<le> 524288"
  by (simp add: table_ok_def)

text \<open>
  With gains up to 8.0 the gain is interpolated without overflow between the two table entries of
  the octave, both inside the table.
\<close>

lemma gain_at_interpolates:
  assumes gt: "length gt = 32" "\<forall>g\<in>set gt. 0 \<le> g \<and> g < 2147483648" "\<forall>i<31. \<bar>gt ! i - gt ! Suc i\<bar> \<le> 524288"
    and c: "level_ok c"
  defines "z \<equiv> agc_level_zeros c" and "f \<equiv> agc_level_frac c div 524288"
  shows "agc_gain_at gt c = gt ! z + ((gt ! (z - 1) - gt ! z) * f) div 4096"
    "min (gt ! (z - 1)) (gt ! z) \<le> agc_gain_at gt c" "agc_gain_at gt c \<le> max (gt ! (z - 1)) (gt ! z)"
proof -
  note lz = level_zeros [OF c, folded z_def]
  have f: "0 \<le> f" "f \<le> 4095"
    using lz(4,5) int_div_lt [of 524288 "agc_level_frac c" 4096]
    by (simp_all add: f_def pos_imp_zdiv_nonneg_iff)
  have a: "0 \<le> gt ! z" "gt ! z < 2147483648" "0 \<le> gt ! (z - 1)" "gt ! (z - 1) < 2147483648"
    using gt(1,2) lz(1,2) nth_mem [of z gt] nth_mem [of "z - 1" gt] by simp_all
  define d where "d = gt ! (z - 1) - gt ! z"
  have "z - 1 < 31" "Suc (z - 1) = z" using lz(1,2) by simp_all
  then have d: "\<bar>d\<bar> \<le> 524288" using gt(3) unfolding d_def by metis
  have "\<bar>d * f\<bar> \<le> 524288 * 4095" unfolding abs_mult using d f by (intro mult_mono) simp_all
  then have s: "s32 (d * f) = d * f" "s32 d = d" using d by (simp_all add: s32_eqI abs_le_iff)
  have b: "min 0 d \<le> (d * f) div 4096" "(d * f) div 4096 \<le> max 0 d"
    using scaled_between [of f 4096 d] f by simp_all
  have k: "s16 (sar (agc_level_frac c) 19) = f" using f by (simp add: f_def sar_def s16_eqI)
  have "min (gt ! (z - 1)) (gt ! z) \<le> gt ! z + (d * f) div 4096 \<and> gt ! z + (d * f) div 4096 \<le> max (gt ! (z - 1)) (gt ! z)"
    using b by (simp add: d_def min_def max_def split: if_splits)
  then have m: "min (gt ! (z - 1)) (gt ! z) \<le> gt ! z + (d * f) div 4096" "gt ! z + (d * f) div 4096 \<le> max (gt ! (z - 1)) (gt ! z)"
    by simp_all
  have "agc_gain_at gt c = s32 (gt ! z + (d * f) div 4096)"
    unfolding agc_gain_at_def Let_def z_def [symmetric] d_def [symmetric] k s by (simp add: sar_def)
  also have "\<dots> = gt ! z + (d * f) div 4096" using m a by (intro s32_eqI) simp_all
  finally have e: "agc_gain_at gt c = gt ! z + (d * f) div 4096" .
  then show "agc_gain_at gt c = gt ! z + ((gt ! (z - 1) - gt ! z) * f) div 4096" by (simp add: d_def)
  show "min (gt ! (z - 1)) (gt ! z) \<le> agc_gain_at gt c" "agc_gain_at gt c \<le> max (gt ! (z - 1)) (gt ! z)"
    unfolding e by (rule m)+
qed

lemma gain_at_exact:
  assumes gt: "table_ok gt" and c: "level_ok c"
  shows "0 \<le> agc_gain_at gt c" "agc_gain_at gt c \<le> 524288"
proof -
  have e: "0 \<le> gt ! i \<and> gt ! i \<le> 524288" if "i < 32" for i using table_entry [OF gt that] .
  have d: "\<forall>i<31. \<bar>gt ! i - gt ! Suc i\<bar> \<le> 524288"
  proof (intro allI impI)
    fix i :: nat
    assume "i < 31"
    then show "\<bar>gt ! i - gt ! Suc i\<bar> \<le> 524288" using e [of i] e [of "Suc i"] unfolding abs_le_iff by simp
  qed
  have l: "length gt = 32" "\<forall>g\<in>set gt. 0 \<le> g \<and> g < 2147483648" using gt by (auto simp: table_ok_def)
  note g = gain_at_interpolates [OF l d c]
  note z = level_zeros [OF c]
  have "0 \<le> min (gt ! (agc_level_zeros c - 1)) (gt ! agc_level_zeros c)"
    "max (gt ! (agc_level_zeros c - 1)) (gt ! agc_level_zeros c) \<le> 524288"
    using e [of "agc_level_zeros c"] e [of "agc_level_zeros c - 1"] z(1,2) by simp_all
  then show "0 \<le> agc_gain_at gt c" "agc_gain_at gt c \<le> 524288" using g(2,3) by linarith+
qed

section \<open>The gate\<close>

lemma log_level_eq:
  assumes "level_ok c"
  shows "agc_log_level c = 512 * int (agc_level_zeros c) - agc_level_frac c div 4194304"
    "agc_log_fast c = agc_log_level c"
    "0 \<le> agc_level_frac c div 4194304" "agc_level_frac c div 4194304 \<le> 511"
proof -
  note lz = level_zeros [OF assms]
  let ?f = "agc_level_frac c"
  show f: "0 \<le> ?f div 4194304" "?f div 4194304 \<le> 511"
    using lz(4,5) int_div_lt [of 4194304 ?f 512] by (simp_all add: pos_imp_zdiv_nonneg_iff)
  have g: "0 \<le> ?f div 524288" "?f div 524288 \<le> 4095"
    using lz(4,5) int_div_lt [of 524288 ?f 4096] by (simp_all add: pos_imp_zdiv_nonneg_iff)
  have q: "?f div 524288 div 8 = ?f div 4194304" using zdiv_zmult2_eq [of 8 ?f 524288] by simp
  have z: "shl32 (int (agc_level_zeros c)) 9 = 512 * int (agc_level_zeros c)"
    using lz(2) by (simp add: shl32_def s32_eqI)
  show l: "agc_log_level c = 512 * int (agc_level_zeros c) - ?f div 4194304"
    using f g lz(1,2) by (simp add: agc_log_level_def z sar_def s16_eqI q)
  show "agc_log_fast c = agc_log_level c"
    unfolding l using f lz(1,2) by (simp add: agc_log_fast_def z sar_def s16_eqI)
qed

text \<open>A louder signal has a smaller logarithmic level.\<close>

lemma log_level_antimono:
  assumes c: "level_ok c" and d: "level_ok d" and cd: "c \<le> d"
  shows "agc_log_level d \<le> agc_log_level c"
proof (cases "c = 0")
  case True
  then have "agc_log_level c = 15872"
    using log_level_eq(1) [OF c] by (simp add: agc_level_zeros_def agc_level_frac_def shl32_def)
  then show ?thesis using log_level_eq(1,3) [OF d] level_zeros(2) [OF d] by simp
next
  case False
  then have pos: "0 < c" "0 < d" using c cd by (simp_all add: level_ok_def)
  let ?y = "agc_level_zeros c" and ?z = "agc_level_zeros d"
  have b: "2147483648 \<le> c * 2 ^ ?y" "d * 2 ^ ?z < 4294967296"
    using level_zeros(3,4) [OF c] level_zeros(3,5) [OF d] pos by simp_all
  have zy: "?z \<le> ?y"
  proof (rule ccontr)
    assume "\<not> ?z \<le> ?y"
    then have "(2 :: int) ^ Suc ?y \<le> 2 ^ ?z" by (intro power_increasing) simp_all
    then have "c * 2 ^ Suc ?y \<le> d * 2 ^ ?z" using cd pos by (intro mult_mono) simp_all
    then show False using b by simp
  qed
  show ?thesis
  proof (cases "?z = ?y")
    case True
    then have "agc_level_frac c \<le> agc_level_frac d"
      using level_zeros(3) [OF c pos(1)] level_zeros(3) [OF d pos(2)] cd by (simp add: mult_right_mono)
    then have "agc_level_frac c div 4194304 \<le> agc_level_frac d div 4194304" by (rule zdiv_mono1) simp
    then show ?thesis using log_level_eq(1) [OF c] log_level_eq(1) [OF d] True by simp
  next
    case False
    then have "int ?z + 1 \<le> int ?y" using zy by simp
    then show ?thesis
      using log_level_eq(1,4) [OF c] log_level_eq(1,3) [OF d] by simp
  qed
qed

text \<open>The gate value fits 16 bits because the fast envelope is never louder than the level.\<close>

lemma gate_range:
  assumes "level_ok fast" "level_ok level" "fast \<le> level" "0 \<le> std" "std \<le> 32767"
    "0 \<le> gp" "gp \<le> 16872"
  shows "0 \<le> snd (agc_gate fast level std gp)" "snd (agc_gate fast level std gp) \<le> 16872"
    "fst (agc_gate fast level std gp) \<le> 16872"
proof -
  define r where "r = 1000 + agc_log_fast fast - agc_log_level level - std"
  have "agc_log_level level \<le> agc_log_level fast" by (rule log_level_antimono [OF assms(1-3)])
  moreover have "agc_log_level fast \<le> 15872" "0 < agc_log_level level"
    using log_level_eq(1,3) [OF assms(1)] level_zeros(2) [OF assms(1)]
      log_level_eq(1,4) [OF assms(2)] level_zeros(1) [OF assms(2)] by simp_all
  ultimately have r: "- 31767 \<le> r" "r \<le> 16872"
    using assms(4,5) log_level_eq(2) [OF assms(1)] by (simp_all add: r_def)
  then have s: "s16 r = r" by (simp add: s16_eqI)
  have t: "0 \<le> (r + gp * 7) div 8" "(r + gp * 7) div 8 \<le> 16872" if "0 \<le> r"
    using that r assms(6,7) by (simp_all add: pos_imp_zdiv_nonneg_iff)
  have u: "s16 (sar (r + gp * 7) 3) = (r + gp * 7) div 8" if "0 \<le> r"
    using t [OF that] by (simp add: sar_def s16_eqI)
  have e: "agc_gate fast level std gp = (if r < 0 then (r, 0) else ((r + gp * 7) div 8, (r + gp * 7) div 8))"
    using u by (simp add: agc_gate_def Let_def r_def [symmetric] s)
  show "0 \<le> snd (agc_gate fast level std gp)" "snd (agc_gate fast level std gp) \<le> 16872"
    "fst (agc_gate fast level std gp) \<le> 16872"
    unfolding e using t by simp_all
qed

text \<open>A closed gate moves the gain towards the gain at full scale.\<close>

lemma gated_between:
  assumes "0 \<le> g0" "g0 \<le> 524288" "0 \<le> g" "g \<le> 524288" "gate \<le> 16872"
  shows "min g0 g \<le> agc_gated g0 gate g" "agc_gated g0 gate g \<le> max g0 g"
proof -
  define w where "w = 178 + (if gate < 2500 then sar (2500 - gate) 5 else 0)"
  define d where "d = g - g0"
  have "min g0 g \<le> agc_gated g0 gate g \<and> agc_gated g0 gate g \<le> max g0 g"
  proof (cases "gate > 0")
    case True
    then have w: "178 \<le> w" "w \<le> 256" by (auto simp: w_def sar_def)
    have d: "\<bar>d\<bar> \<le> 524288" using assms by (simp add: d_def)
    have "\<bar>d * w\<bar> \<le> 524288 * 256" unfolding abs_mult using d w by (intro mult_mono) simp_all
    then have s: "s32 d = d" "s32 (d * w) = d * w" using d by (simp_all add: s32_eqI abs_le_iff)
    have b: "min 0 d \<le> (d * w) div 256" "(d * w) div 256 \<le> max 0 d"
      using scaled_between [of w 256 d] w by simp_all
    have "\<not> d > 8388608" using d by simp
    then have "agc_gated g0 gate g = s32 (g0 + (d * w) div 256)"
      using True by (simp add: agc_gated_def Let_def w_def [symmetric] d_def [symmetric] s sar_def)
    also have "\<dots> = g0 + (d * w) div 256" using b d assms by (intro s32_eqI) simp_all
    finally show ?thesis using b by (simp add: d_def min_def max_def split: if_splits)
  qed (simp add: agc_gated_def)
  then show "min g0 g \<le> agc_gated g0 gate g" "agc_gated g0 gate g \<le> max g0 g" by simp_all
qed

section \<open>The limiter\<close>

text \<open>\<open>AGC_MUL32\<close> is the product shifted right by 13 while it fits.\<close>

lemma AGC_MUL32_exact:
  assumes "0 \<le> A" "A \<le> 262145" "0 \<le> B" "A * B < 17592186044416"
  shows "AGC_MUL32 A B = (A * B) div 8192"
proof -
  have low: "0 \<le> B mod 8192 * A" "B mod 8192 * A \<le> 8191 * 262145"
    using assms(1,2) by (simp, intro mult_mono) simp_all
  have "B = 8192 * (B div 8192) + B mod 8192" by simp
  then have "8192 * (B div 8192) \<le> B" using pos_mod_sign [of 8192 B] by linarith
  then have "A * (8192 * (B div 8192)) \<le> A * B" using assms(1) by (intro mult_left_mono)
  then have "8192 * (B div 8192 * A) < 17592186044416" using assms(4) by (simp add: mult_ac)
  moreover have "0 \<le> B div 8192 * A" using assms(1,3) by (simp add: pos_imp_zdiv_nonneg_iff)
  ultimately have hi: "0 \<le> B div 8192 * A" "B div 8192 * A \<le> 2147483647" by (simp_all add: mult.commute)
  have p: "0 \<le> (A * B) div 8192" "(A * B) div 8192 \<le> 2147483647"
    using assms int_div_lt [of 8192 "A * B" 2147483648] by (simp_all add: pos_imp_zdiv_nonneg_iff)
  have "AGC_MUL32 A B = s32 (s32 (B div 8192 * A) + s32 (B mod 8192 * A) div 8192)"
    by (simp add: AGC_MUL32_def and_low13 sar_def)
  also have "s32 (B div 8192 * A) = B div 8192 * A" using hi by (intro s32_eqI) linarith+
  also have "s32 (B mod 8192 * A) = B mod 8192 * A" using low by (intro s32_eqI) linarith+
  also have "B div 8192 * A + (B mod 8192 * A) div 8192 = (A * B) div 8192"
    by (rule split_mult_div) simp
  also have "s32 ((A * B) div 8192) = (A * B) div 8192" using p by (intro s32_eqI) linarith+
  finally show ?thesis .
qed

text \<open>The shift of the limiter, and the largest accepted loudness for it.\<close>

definition limiter_shift :: "int \<Rightarrow> nat" where
  "limiter_shift g = (if g > 47453132 then 16 - WebRtcSpl_NormW32 g else 10)"

definition limiter_threshold :: "nat \<Rightarrow> int" where
  "limiter_threshold z = WEBRTC_SPL_SHIFT_W32 32767 (2 * (1 - int z + 10))"

lemma limiter_thresholds:
  assumes "10 \<le> z" "z \<le> 16"
  shows "(limiter_threshold z + 1) * 4 ^ z \<le> 2 ^ 37" "31 \<le> limiter_threshold z" "z < 16 \<Longrightarrow> 127 \<le> limiter_threshold z"
proof -
  have "z = 10 \<or> z = 11 \<or> z = 12 \<or> z = 13 \<or> z = 14 \<or> z = 15 \<or> z = 16" using assms by linarith
  then show "(limiter_threshold z + 1) * 4 ^ z \<le> 2 ^ 37" "31 \<le> limiter_threshold z" "z < 16 \<Longrightarrow> 127 \<le> limiter_threshold z"
    by (auto simp: limiter_threshold_def WEBRTC_SPL_SHIFT_W32_def shl32_def s32_eqI sar_def)
qed

text \<open>Where the loudness test with shift \<open>z\<close> is computed without overflow.\<close>

definition limiter_fits :: "int \<Rightarrow> nat \<Rightarrow> int \<Rightarrow> bool" where
  "limiter_fits env z g \<longleftrightarrow> level_ok env \<and> 10 \<le> z \<and> z \<le> 16 \<and> (z = 16 \<longrightarrow> env div 4096 + 1 < 262144) \<and> 0 \<le> g \<and> g < 2147483648 \<and>
     g div 2 ^ z < 46340 \<and> (env div 4096 + 1) * (g div 2 ^ z + 1)\<^sup>2 < 17592186044416"

lemma too_loud_exact:
  assumes "limiter_fits env z g"
  shows "agc_too_loud env z g \<longleftrightarrow> limiter_threshold z < (env div 4096 + 1) * (g div 2 ^ z + 1)\<^sup>2 div 8192"
proof -
  define b where "b = g div 2 ^ z"
  have r: "0 \<le> env div 4096" "env div 4096 \<le> 262144" "0 \<le> b" "b < 46340"
    using assms zdiv_mono1 [of env 1073741824 4096]
    by (simp_all add: limiter_fits_def level_ok_def pos_imp_zdiv_nonneg_iff b_def)
  have "(b + 1) * (b + 1) \<le> 46340 * 46340" using r by (intro mult_mono) simp_all
  then have "s32 ((b + 1) * (b + 1)) = (b + 1)\<^sup>2"
    unfolding power2_eq_square using zero_le_square [of "b + 1"] by (intro s32_eqI) linarith+
  moreover have "s32 (b + 1) = b + 1" using r by (simp add: s32_eqI)
  ultimately have g: "agc_gain32 z g = (b + 1)\<^sup>2"
    by (simp add: agc_gain32_def sar_def Let_def b_def)
  have a: "s32 (sar env 12 + 1) = env div 4096 + 1" using r by (simp add: sar_def s32_eqI)
  have "AGC_MUL32 (env div 4096 + 1) ((b + 1)\<^sup>2) = (env div 4096 + 1) * (b + 1)\<^sup>2 div 8192"
    using r assms by (intro AGC_MUL32_exact) (simp_all add: limiter_fits_def b_def)
  then show ?thesis unfolding agc_too_loud_def a g limiter_threshold_def [symmetric] b_def by simp
qed

lemma reduce_smaller:
  assumes "0 < g" "g < 2147483648"
  shows "0 \<le> agc_reduce g" "agc_reduce g < g"
proof -
  have "0 \<le> agc_reduce g \<and> agc_reduce g < g"
  proof (cases "g > 8388607")
    case True
    have d: "0 \<le> g div 256" "g div 256 < 8388608"
      using assms int_div_lt [of 256 g 8388608] by (simp_all add: pos_imp_zdiv_nonneg_iff)
    moreover have "256 * (g div 256) \<le> g" using mult_div_mod_eq [of 256 g] pos_mod_sign [of 256 g] by linarith
    moreover have "0 < g div 256" using True sar_ge_iff [of 1 g 8] by (simp add: sar_def)
    ultimately show ?thesis using True assms(1) by (simp add: agc_reduce_def sdiv_pos s32_eqI)
  next
    case False
    then have "agc_reduce g = g * 253 div 256" using assms(1) by (simp add: agc_reduce_def sdiv_pos s32_eqI)
    moreover have "g * 253 div 256 < g" using assms(1) by (intro int_div_lt) simp_all
    ultimately show ?thesis using assms(1) by (simp add: pos_imp_zdiv_nonneg_iff)
  qed
  then show "0 \<le> agc_reduce g" "agc_reduce g < g" by simp_all
qed

lemma limiter_fits_mono:
  assumes "limiter_fits env z g" "0 \<le> g'" "g' \<le> g"
  shows "limiter_fits env z g'"
proof -
  have d: "0 \<le> g' div 2 ^ z" "g' div 2 ^ z \<le> g div 2 ^ z"
    using assms by (simp_all add: zdiv_mono1 pos_imp_zdiv_nonneg_iff)
  then have "(g' div 2 ^ z + 1)\<^sup>2 \<le> (g div 2 ^ z + 1)\<^sup>2" by (intro power_mono) simp_all
  moreover have "0 \<le> env div 4096 + 1"
    using assms(1) by (simp add: limiter_fits_def level_ok_def pos_imp_zdiv_nonneg_iff add_nonneg_nonneg)
  ultimately have "(env div 4096 + 1) * (g' div 2 ^ z + 1)\<^sup>2 \<le> (env div 4096 + 1) * (g div 2 ^ z + 1)\<^sup>2"
    by (intro mult_left_mono)
  then show ?thesis using assms d(2) by (simp add: limiter_fits_def)
qed

text \<open>
  The limiter ends, never raises the gain, and after it no sample of the sub-frame exceeds full scale.
\<close>

lemma silence_not_loud:
  assumes "limiter_fits env z 0" shows "\<not> agc_too_loud env z 0"
proof -
  define A where "A = env div 4096 + 1"
  have A: "A \<le> 262145" "z = 16 \<Longrightarrow> A < 262144"
    using assms zdiv_mono1 [of env 1073741824 4096] by (simp_all add: limiter_fits_def level_ok_def A_def)
  have "A div 8192 \<le> limiter_threshold z"
  proof (cases "z = 16")
    case True
    then show ?thesis using A(2) int_div_lt [of 8192 A 32] limiter_thresholds(2) [of z] by simp
  next
    case False
    have "A div 8192 < 33" using A(1) by (intro int_div_lt) simp_all
    then show ?thesis using False assms limiter_thresholds(3) [of z] by (simp add: limiter_fits_def)
  qed
  then show ?thesis using too_loud_exact [OF assms] by (simp add: A_def)
qed

lemma limit_loop_ends:
  assumes "limiter_fits env z g"
  shows "\<exists>g'. agc_limit_loop env z g = Some g' \<and> 0 \<le> g' \<and> g' \<le> g \<and> \<not> agc_too_loud env z g'"
  using assms
proof (induction "nat g" arbitrary: g rule: less_induct)
  case less
  show ?case
  proof (cases "agc_too_loud env z g")
    case False
    then show ?thesis using less.prems by (subst agc_limit_loop.simps) (simp add: limiter_fits_def)
  next
    case True
    have "g \<noteq> 0" using True silence_not_loud less.prems by blast
    then have g: "0 < g" "g < 2147483648" using less.prems by (simp_all add: limiter_fits_def)
    note red = reduce_smaller [OF g]
    have "nat (agc_reduce g) < nat g" using red g(1) by simp
    from less.hyps [OF this limiter_fits_mono [OF less.prems red(1)]] red(2)
    obtain g' where "agc_limit_loop env z (agc_reduce g) = Some g'" "0 \<le> g'" "g' \<le> agc_reduce g"
      "\<not> agc_too_loud env z g'"
      by auto
    moreover have "agc_limit_loop env z g = agc_limit_loop env z (agc_reduce g)"
      using True by (subst agc_limit_loop.simps) simp
    ultimately show ?thesis using red(2) by auto
  qed
qed

lemma quiet_fits:
  assumes f: "limiter_fits env z g" "\<not> agc_too_loud env z g" "x * x \<le> env"
  shows "\<bar>x\<bar> * g < 2147483648"
proof -
  define A where "A = env div 4096 + 1"
  define b where "b = g div 2 ^ z + 1"
  define T where "T = limiter_threshold z"
  have e: "0 \<le> env" "env \<le> 4096 * A"
    using assms(1) mult_div_mod_eq [of 4096 env] pos_mod_bound [of 4096 env]
    by (simp_all add: limiter_fits_def level_ok_def A_def)
  have p: "(0 :: int) < 2 ^ z" by simp
  have "2 ^ z * (g div 2 ^ z) + g mod 2 ^ z = g" by (rule mult_div_mod_eq)
  moreover have "2 ^ z * b = 2 ^ z * (g div 2 ^ z) + 2 ^ z" by (simp only: b_def distrib_left mult_1_right)
  moreover have "g mod 2 ^ z < 2 ^ z" by (rule pos_mod_bound [OF p])
  ultimately have g: "0 \<le> g" "g \<le> 2 ^ z * b" using assms(1) unfolding limiter_fits_def by linarith+
  have "A * b\<^sup>2 div 8192 < T + 1" using assms(2) too_loud_exact [OF assms(1)] by (simp add: A_def b_def T_def)
  then have AB: "A * b\<^sup>2 < (T + 1) * 8192"
    using sar_less_iff [of "A * b\<^sup>2" 13 "T + 1"] by (simp add: sar_def)
  have "(\<bar>x\<bar> * g)\<^sup>2 = x * x * g\<^sup>2" by (simp add: power_mult_distrib power2_eq_square)
  also have "\<dots> \<le> (4096 * A) * (2 ^ z * b)\<^sup>2"
  proof (rule mult_mono)
    show "x * x \<le> 4096 * A" using assms(3) e by linarith
    show "0 \<le> 4096 * A" using e by linarith
    show "g\<^sup>2 \<le> (2 ^ z * b)\<^sup>2" using g by (intro power_mono)
  qed simp
  also have "\<dots> = 4096 * 4 ^ z * (A * b\<^sup>2)"
    using power_mult_distrib [of "2 :: int" 2 z] by (simp add: power_mult_distrib power2_eq_square)
  also have "\<dots> < 4096 * 4 ^ z * ((T + 1) * 8192)" using AB by (intro mult_strict_left_mono) simp_all
  also have "\<dots> = 33554432 * ((T + 1) * 4 ^ z)" by simp
  also have "\<dots> \<le> 33554432 * 2 ^ 37"
    using limiter_thresholds(1) [of z] f(1) by (intro mult_left_mono) (simp_all add: limiter_fits_def T_def)
  also have "\<dots> = (2147483648 :: int)\<^sup>2" by simp
  finally show ?thesis by (rule power_less_imp_less_base) simp
qed

text \<open>
  The gains and envelopes for which the limiter works. Between \<open>47452160\<close> and \<open>47453132\<close> its squared gain
  overflows.
\<close>

definition limiter_range :: "int \<Rightarrow> int \<Rightarrow> bool" where
  "limiter_range env g \<longleftrightarrow> level_ok env \<and> 0 \<le> g \<and> g < 2147483648 \<and> (g < 47452160 \<or> 47453132 < g) \<and>
     (env div 4096 + 1) * (g div 2 ^ limiter_shift g + 1)\<^sup>2 < 17592186044416"

lemma limiter_shift_ok:
  assumes "0 \<le> g" "g < 2147483648" "g < 47452160 \<or> 47453132 < g"
  shows "10 \<le> limiter_shift g" "limiter_shift g \<le> 16" "g div 2 ^ limiter_shift g < 46340"
    "limiter_shift g = 16 \<Longrightarrow> 16384 \<le> g div 2 ^ limiter_shift g"
proof -
  have "10 \<le> limiter_shift g \<and> limiter_shift g \<le> 16 \<and> g div 2 ^ limiter_shift g < 46340 \<and>
    (limiter_shift g = 16 \<longrightarrow> 16384 \<le> g div 2 ^ limiter_shift g)"
  proof (cases "g > 47453132")
    case True
    define n where "n = WebRtcSpl_NormW32 g"
    have n: "1073741824 \<le> g * 2 ^ n" "g * 2 ^ n < 2147483648" using NormW32_pos [of g] True assms(2) by (simp_all add: n_def)
    have "n \<le> 5"
    proof (rule ccontr)
      assume "\<not> n \<le> 5"
      then have "(2 :: int) ^ 6 \<le> 2 ^ n" by (intro power_increasing) simp_all
      then have "47453132 * 64 \<le> g * 2 ^ n" using True by (intro mult_mono) simp_all
      then show False using n(2) by simp
    qed
    then have z: "limiter_shift g = 16 - n" "n = 0 \<or> n = 1 \<or> n = 2 \<or> n = 3 \<or> n = 4 \<or> n = 5" using True by (auto simp: limiter_shift_def n_def)
    have "g < 32768 * 2 ^ (16 - n)" using n(2) z(2) by auto
    then have "g div 2 ^ (16 - n) < 32768" by (intro int_div_lt) simp_all
    moreover have "16384 \<le> g div 2 ^ (16 - n)" if "n = 0" using n(1) that sar_ge_iff [of 16384 g 16] by (simp add: sar_def)
    ultimately show ?thesis using \<open>n \<le> 5\<close> z(1) by auto
  next
    case False
    then show ?thesis using assms int_div_lt [of 1024 g 46340] by (simp add: limiter_shift_def)
  qed
  then show "10 \<le> limiter_shift g" "limiter_shift g \<le> 16" "g div 2 ^ limiter_shift g < 46340"
    "limiter_shift g = 16 \<Longrightarrow> 16384 \<le> g div 2 ^ limiter_shift g" by simp_all
qed

lemma limiter_range_fits:
  assumes "limiter_range env g" shows "limiter_fits env (limiter_shift g) g"
proof -
  define A where "A = env div 4096 + 1"
  define b where "b = g div 2 ^ limiter_shift g"
  have g: "0 \<le> g" "g < 2147483648" "g < 47452160 \<or> 47453132 < g" and AB: "A * (b + 1)\<^sup>2 < 17592186044416"
    using assms by (simp_all add: limiter_range_def A_def b_def)
  have A: "0 \<le> A" using assms by (simp add: limiter_range_def level_ok_def A_def pos_imp_zdiv_nonneg_iff add_nonneg_nonneg)
  note s = limiter_shift_ok [OF g, folded b_def]
  have "A < 262144" if "limiter_shift g = 16"
  proof (rule ccontr)
    assume "\<not> A < 262144"
    moreover have "16385\<^sup>2 \<le> (b + 1)\<^sup>2" using s(4) [OF that] by (intro power_mono) simp_all
    ultimately have "262144 * 16385\<^sup>2 \<le> A * (b + 1)\<^sup>2" by (intro mult_mono) simp_all
    then show False using AB by simp
  qed
  then show ?thesis using assms s(1-3) AB g by (simp add: limiter_fits_def limiter_range_def A_def b_def)
qed

lemma limit_ends:
  assumes "limiter_range env g"
  obtains g' where "agc_limit env g = Some g'" "0 \<le> g'" "g' \<le> g" "\<And>x. x * x \<le> env \<Longrightarrow> \<bar>x\<bar> * g' < 2147483648"
proof -
  let ?z = "limiter_shift g"
  note f = limiter_range_fits [OF assms]
  obtain g' where g': "agc_limit_loop env ?z g = Some g'" "0 \<le> g'" "g' \<le> g" "\<not> agc_too_loud env ?z g'"
    using limit_loop_ends [OF f] by blast
  have "agc_limit env g = Some g'" using g'(1) by (simp add: agc_limit_def limiter_shift_def)
  moreover have "x * x \<le> env \<Longrightarrow> \<bar>x\<bar> * g' < 2147483648" for x
    using quiet_fits [OF limiter_fits_mono [OF f g'(2,3)] g'(4)] .
  ultimately show ?thesis using that g'(2,3) by blast
qed

text \<open>Gains up to 127.9 are always in the range of the limiter.\<close>

lemma small_gain_range:
  assumes "level_ok env" "0 \<le> g" "g \<le> 8386560"
  shows "limiter_range env g"
proof -
  have b: "0 \<le> g div 1024 + 1" "g div 1024 + 1 \<le> 8191"
    using assms zdiv_mono1 [of g 8386560 1024] by (simp_all add: pos_imp_zdiv_nonneg_iff add_nonneg_nonneg)
  have "(g div 1024 + 1)\<^sup>2 \<le> 8191\<^sup>2" using b by (intro power_mono)
  moreover have "0 \<le> env div 4096 + 1" "env div 4096 + 1 \<le> 262145"
    using assms zdiv_mono1 [of env 1073741824 4096] by (simp_all add: level_ok_def pos_imp_zdiv_nonneg_iff add_nonneg_nonneg)
  ultimately have "(env div 4096 + 1) * (g div 1024 + 1)\<^sup>2 \<le> 262145 * 8191\<^sup>2"
    by (intro mult_mono) simp_all
  then show ?thesis using assms by (simp add: limiter_range_def limiter_shift_def)
qed

section \<open>Applying the gain\<close>

text \<open>The gain of a frame in Q20 at every sample: linear between the gains of successive sub-frames.\<close>

definition agc_curve :: "nat \<Rightarrow> int \<Rightarrow> int \<Rightarrow> nat \<Rightarrow> int" where
  "agc_curve L g h n = 16 * g + int n * ((h - g) * (16 div int L))"

lemma ramp_linear:
  assumes "0 \<le> a" "a + int n * d \<le> 8388608" "0 \<le> a + int n * d" "a \<le> 8388608"
  shows "agc_ramp n d a = map (\<lambda>k. a + int k * d) [0..<n]"
  using assms
proof (induction n arbitrary: a)
  case 0
  then show ?case by simp
next
  case (Suc n)
  have k: "int (Suc n) * d = d + int n * d" by (simp add: algebra_simps)
  have ad: "0 \<le> a + d \<and> a + d \<le> 8388608"
  proof (cases "0 \<le> d")
    case True
    then have "0 \<le> int n * d" by simp
    then show ?thesis using True Suc.prems(1,2) unfolding k by linarith
  next
    case False
    then have "int n * d \<le> 0" by (simp add: mult_nonneg_nonpos)
    then show ?thesis using False Suc.prems(3,4) unfolding k by linarith
  qed
  then have "agc_ramp n d (a + d) = map (\<lambda>k. a + d + int k * d) [0..<n]"
    using Suc.prems unfolding k by (intro Suc.IH) (simp_all only: add.assoc)
  then have "agc_ramp (Suc n) d a = a # map (\<lambda>k. a + d + int k * d) [0..<n]"
    using ad by (simp add: s32_eqI)
  also have "\<dots> = map (\<lambda>k. a + int k * d) [0..<Suc n]"
    by (simp only: map_upt_Suc) (simp add: algebra_simps)
  finally show ?case .
qed

definition gain_ok :: "int \<Rightarrow> bool" where
  "gain_ok g \<longleftrightarrow> 0 \<le> g \<and> g \<le> 524288"

lemma rate_cases:
  assumes "agc_rate FS = Some (L, L2)"
  obtains "L = 8" "L2 = 3" | "L = 16" "L2 = 4"
  using assms by (auto simp: agc_rate_def split: if_splits)

lemma ramp_curve:
  assumes "agc_rate FS = Some (L, L2)" "gain_ok g" "gain_ok h"
  shows "agc_ramp L (shl32 (s32 (h - g)) (4 - L2)) (shl32 g 4) = map (agc_curve L g h) [0..<L]"
proof -
  have s: "s32 (h - g) = h - g" "shl32 g 4 = 16 * g" "shl32 (h - g) (4 - L2) = (h - g) * (16 div int L)"
    "int L * (16 div int L) = 16"
    using assms by (auto simp: gain_ok_def shl32_def s32_eqI elim!: rate_cases)
  have e: "16 * g + int L * ((h - g) * (16 div int L)) = 16 * h"
    using s(4) by (simp add: algebra_simps)
  have "agc_ramp L ((h - g) * (16 div int L)) (16 * g) = map (\<lambda>k. 16 * g + int k * ((h - g) * (16 div int L))) [0..<L]"
    using assms(2,3) e by (intro ramp_linear) (simp_all add: gain_ok_def)
  then show ?thesis unfolding s(1) s(2) s(3) by (simp add: agc_curve_def)
qed

text \<open>At every sample the gain lies between the two ends.\<close>

lemma curve_between:
  assumes "agc_rate FS = Some (L, L2)" "n < L"
  shows "16 * min g h \<le> agc_curve L g h n" "agc_curve L g h n \<le> 16 * max g h"
proof -
  let ?w = "int n * (16 div int L)"
  have w: "0 \<le> ?w" "?w \<le> 16" using assms by (auto elim!: rate_cases)
  have c: "agc_curve L g h n = 16 * g + (h - g) * ?w" by (simp add: agc_curve_def algebra_simps)
  have "16 * min g h \<le> agc_curve L g h n \<and> agc_curve L g h n \<le> 16 * max g h"
  proof (cases "g \<le> h")
    case True
    then have "0 \<le> (h - g) * ?w" "(h - g) * ?w \<le> (h - g) * 16" using w by (simp, intro mult_left_mono) simp_all
    then show ?thesis using True c by simp
  next
    case False
    then have "(h - g) * 16 \<le> (h - g) * ?w" "(h - g) * ?w \<le> 0"
      using w mult_left_mono_neg [of ?w 16 "h - g"] mult_nonpos_nonneg [of "h - g" ?w] by simp_all
    then show ?thesis using False c by simp
  qed
  then show "16 * min g h \<le> agc_curve L g h n" "agc_curve L g h n \<le> 16 * max g h" by simp_all
qed

lemma apply_exact:
  assumes "0 \<le> G" "\<bar>x\<bar> * (G div 16) < 2147483648"
  shows "agc_apply G x = x * (G div 16) div 65536" "is16 (agc_apply G x)"
proof -
  have "\<bar>x * (G div 16)\<bar> < 2147483648"
    using assms by (simp add: abs_mult pos_imp_zdiv_nonneg_iff)
  then have p: "- 2147483648 \<le> x * (G div 16)" "x * (G div 16) \<le> 2147483647" by simp_all
  then have "- 32768 \<le> x * (G div 16) div 65536" "x * (G div 16) div 65536 \<le> 32767"
    using sar_ge_iff [of "- 32768" "x * (G div 16)" 16] sar_less_iff [of "x * (G div 16)" 16 32768]
    by (simp_all add: sar_def)
  then show "agc_apply G x = x * (G div 16) div 65536" using p by (simp add: agc_apply_def sar_def s32_eqI s16_eqI)
  show "is16 (agc_apply G x)" by (simp add: agc_apply_def)
qed

text \<open>
  The first sub-frame saturates. With gains up to 8.0 the product in the overflow test fits: a sample
  that passes the test is multiplied exactly, and one that does not is within four steps of full scale.
\<close>

lemma apply_sat_exact:
  assumes x: "is16 x" and G: "0 \<le> G" "G \<le> 8388608"
  shows "agc_apply_sat G x = x * (G div 16) div 65536 \<and> is16 (x * (G div 16) div 65536) \<or>
    agc_apply_sat G x = 32767 \<and> 32764 \<le> x * (G div 16) div 65536 \<or>
    agc_apply_sat G x = - 32768 \<and> x * (G div 16) div 65536 \<le> - 32765"
proof -
  define c where "c = (G + 127) div 128"
  have c: "0 \<le> c" "c \<le> 65536" using G zdiv_mono1 [of "G + 127" "8388735" 128]
    by (simp_all add: c_def pos_imp_zdiv_nonneg_iff)
  have Gc: "G div 16 \<le> 8 * c" "8 * c \<le> G div 16 + 8"
  proof -
    have "G + 127 = 128 * c + (G + 127) mod 128" "G = 16 * (G div 16) + G mod 16"
      by (simp_all add: c_def)
    moreover have "0 \<le> (G + 127) mod 128" "(G + 127) mod 128 < 128" "0 \<le> G mod 16" "G mod 16 < 16" by simp_all
    ultimately show "G div 16 \<le> 8 * c" "8 * c \<le> G div 16 + 8" by linarith+
  qed
  have G0: "0 \<le> G div 16" using G by (simp add: pos_imp_zdiv_nonneg_iff)
  have "\<bar>x\<bar> * c \<le> 32768 * 65536" using x c by (intro mult_mono) (auto simp: is16_def)
  moreover have "x * c \<le> 32767 * 65536"
    using x c mult_mono [of x 32767 c 65536] mult_nonpos_nonneg [of x c] by (cases "0 \<le> x") (auto simp: is16_def)
  moreover have "- (x * c) \<le> \<bar>x\<bar> * c" using c by (cases "0 \<le> x") simp_all
  ultimately have p: "- 2147483648 \<le> x * c" "x * c \<le> 2147483647" by simp_all
  have t: "sar (s32 (x * sar (s32 (G + 127)) 7)) 16 = x * c div 65536"
    using p G by (simp add: sar_def s32_eqI c_def)
  let ?y = "x * (G div 16) div 65536"
  consider "4095 < x * c div 65536" | "x * c div 65536 < - 4096" | "- 4096 \<le> x * c div 65536" "x * c div 65536 \<le> 4095"
    by linarith
  then show ?thesis
  proof cases
    case 1
    then have xc: "268435456 \<le> x * c" using sar_ge_iff [of 4096 "x * c" 16] by (simp add: sar_def)
    then have "0 < x" using c mult_nonpos_nonneg [of x c] by (cases "x \<le> 0") simp_all
    then have "x * (8 * c) \<le> x * (G div 16 + 8)" using Gc(2) by (intro mult_left_mono) simp_all
    then have "2147221504 \<le> x * (G div 16)" using xc x by (simp add: is16_def distrib_left)
    then have "32764 \<le> ?y" using sar_ge_iff [of 32764 "x * (G div 16)" 16] by (simp add: sar_def)
    then show ?thesis using 1 by (simp add: agc_apply_sat_def t Let_def)
  next
    case 2
    then have xc: "x * c < - 268435456" using sar_less_iff [of "x * c" 16 "- 4096"] by (simp add: sar_def)
    moreover have "0 \<le> x \<Longrightarrow> 0 \<le> x * c" using c by simp
    ultimately have "x < 0" by linarith
    then have "x * (G div 16 + 8) \<le> x * (8 * c)" using Gc(2) by (intro mult_left_mono_neg) simp_all
    then have "x * (G div 16) < - 2147221504" using xc x by (simp add: is16_def distrib_left)
    then have "?y \<le> - 32765" using sar_less_iff [of "x * (G div 16)" 16 "- 32764"] by (simp add: sar_def)
    then show ?thesis using 2 by (simp add: agc_apply_sat_def t Let_def)
  next
    case 3
    then have xc: "- 268435456 \<le> x * c" "x * c < 268435456"
      using sar_ge_iff [of "- 4096" "x * c" 16] sar_less_iff [of "x * c" 16 4096] by (simp_all add: sar_def)
    have b: "- 2147483648 \<le> x * (G div 16) \<and> x * (G div 16) < 2147483648"
    proof (cases "0 \<le> x")
      case True
      then have "x * (G div 16) \<le> x * (8 * c)" "0 \<le> x * (G div 16)"
        using Gc(1) G0 by (simp add: mult_left_mono, simp)
      then show ?thesis using xc by simp
    next
      case False
      then have "x * (8 * c) \<le> x * (G div 16)" "x * (G div 16) \<le> 0"
        using Gc(1) G0 mult_left_mono_neg [of "G div 16" "8 * c" x] mult_nonpos_nonneg [of x "G div 16"] by simp_all
      then show ?thesis using xc by simp
    qed
    then have y: "- 32768 \<le> ?y" "?y \<le> 32767"
      using sar_ge_iff [of "- 32768" "x * (G div 16)" 16] sar_less_iff [of "x * (G div 16)" 16 32768]
      by (simp_all add: sar_def)
    have "agc_apply_sat G x = agc_apply G x" using 3 by (simp add: agc_apply_sat_def t Let_def)
    also have "\<dots> = ?y" using b y by (simp add: agc_apply_def sar_def s32_eqI s16_eqI)
    finally show ?thesis using y by (simp add: is16_def)
  qed
qed

section \<open>A frame keeps the invariant\<close>

definition digital_ok :: "DigitalAgc \<Rightarrow> bool" where
  "digital_ok stt \<longleftrightarrow> level_ok (capacitorFast stt) \<and> level_ok (capacitorSlow stt) \<and> gain_ok (gain stt) \<and>
     table_ok (gainTable stt) \<and> 0 \<le> gatePrevious stt \<and> gatePrevious stt \<le> 16872 \<and>
     agc_vad_ok (vadNearend stt) \<and> agc_vad_ok (vadFarend stt)"

definition caps_ok :: "int \<times> int \<Rightarrow> bool" where
  "caps_ok c \<longleftrightarrow> level_ok (fst c) \<and> level_ok (snd c)"

text \<open>The envelope followers are a filter whose state and gains stay in range.\<close>

lemma follower_filter:
  assumes "table_ok gt" "- 65 \<le> decay" "decay \<le> 0"
  shows "stream_filter (agc_subframe gt decay) caps_ok level_ok gain_ok"
proof
  fix c env
  assume c: "caps_ok c" and env: "level_ok env"
  have k: "caps_ok (agc_capacitors decay c env)"
    using capacitors_step(1,2) [of "fst c" "snd c" env decay] c env assms(2,3) by (simp add: caps_ok_def)
  then show "caps_ok (fst (agc_subframe gt decay c env))" by (simp add: agc_subframe_def Let_def)
  have "level_ok (agc_level (agc_capacitors decay c env))"
    using k by (auto simp: agc_level_def caps_ok_def split: prod.splits)
  then show "gain_ok (snd (agc_subframe gt decay c env))"
    using gain_at_exact [OF assms(1)] by (simp add: agc_subframe_def Let_def gain_ok_def)
qed

lemma limits_end:
  assumes "length env = length gs" "\<forall>e\<in>set env. level_ok e" "\<forall>g\<in>set gs. gain_ok g"
  shows "\<exists>ls. those (map2 agc_limit env gs) = Some ls \<and> length ls = length gs \<and> (\<forall>g\<in>set ls. gain_ok g) \<and>
    (\<forall>i<length ls. ls ! i \<le> gs ! i \<and> (\<forall>x. x * x \<le> env ! i \<longrightarrow> \<bar>x\<bar> * ls ! i < 2147483648))"
  using assms
proof (induction env gs rule: list_induct2)
  case Nil
  then show ?case by simp
next
  case (Cons e env g gs)
  then obtain ls where ls: "those (map2 agc_limit env gs) = Some ls" "length ls = length gs" "\<forall>g\<in>set ls. gain_ok g"
    "\<forall>i<length ls. ls ! i \<le> gs ! i \<and> (\<forall>x. x * x \<le> env ! i \<longrightarrow> \<bar>x\<bar> * ls ! i < 2147483648)"
    by auto
  have "limiter_range e g" using Cons.prems by (simp add: small_gain_range gain_ok_def)
  then obtain g' where g': "agc_limit e g = Some g'" "0 \<le> g'" "g' \<le> g" "\<And>x. x * x \<le> e \<Longrightarrow> \<bar>x\<bar> * g' < 2147483648"
    by (rule limit_ends) blast
  show ?case
  proof (intro exI [of _ "g' # ls"] conjI)
    show "those (map2 agc_limit (e # env) (g # gs)) = Some (g' # ls)" using ls(1) g'(1) by simp
    show "\<forall>g\<in>set (g' # ls). gain_ok g" using ls(3) g'(2,3) Cons.prems by (auto simp: gain_ok_def)
    show "\<forall>i<length (g' # ls). (g' # ls) ! i \<le> (g # gs) ! i \<and>
      (\<forall>x. x * x \<le> (e # env) ! i \<longrightarrow> \<bar>x\<bar> * (g' # ls) ! i < 2147483648)"
      using ls(4) g'(3,4) by (auto simp: nth_Cons split: nat.splits)
  qed (use ls(2) in simp)
qed

text \<open>The gains of a frame, and the state after it.\<close>

lemma frame_gains:
  assumes stt: "digital_ok stt" and d: "- 65 \<le> decay" "decay \<le> 0"
    and env: "length env = 10" "\<forall>e\<in>set env. level_ok e"
  obtains stt' ls where "agc_frame_gains stt decay env = Some (stt', ls)" "digital_ok stt'"
    "length ls = 10" "\<forall>g\<in>set ls. gain_ok g"
    "\<And>i x. i < 10 \<Longrightarrow> x * x \<le> env ! i \<Longrightarrow> \<bar>x\<bar> * ls ! i < 2147483648"
proof -
  let ?gt = "gainTable stt"
  have gt: "table_ok ?gt" using stt by (simp add: digital_ok_def)
  note filter = follower_filter [OF gt d]
  obtain caps gs where sc: "scan (agc_subframe ?gt decay) (capacitorFast stt, capacitorSlow stt) env = (caps, gs)"
    by (rule prod.exhaust)
  have c0: "caps_ok (capacitorFast stt, capacitorSlow stt)" using stt by (simp add: digital_ok_def caps_ok_def)
  have caps: "caps_ok caps" using stream_filter.run_inv [OF filter c0 env(2)] sc by simp
  have gs: "\<forall>g\<in>set gs. gain_ok g" using stream_filter.run_out [OF filter c0 env(2)] sc by simp
  have len: "length gs = 10" using length_scan [of "agc_subframe ?gt decay" "(capacitorFast stt, capacitorSlow stt)" env] sc env(1) by simp
  obtain gate gp where gate: "agc_gate (fst caps) (agc_level caps) (stdShortTerm (vadNearend stt)) (gatePrevious stt) = (gate, gp)"
    by (rule prod.exhaust)
  have lv: "level_ok (fst caps)" "level_ok (agc_level caps)" "fst caps \<le> agc_level caps"
    using caps by (auto simp: caps_ok_def agc_level_def split: prod.splits)
  have "0 \<le> stdShortTerm (vadNearend stt)" "stdShortTerm (vadNearend stt) \<le> 32767" "0 \<le> gatePrevious stt" "gatePrevious stt \<le> 16872"
    using stt by (simp_all add: digital_ok_def agc_vad_ok_def short_term_ok_def)
  from gate_range [OF lv this] gate have g: "0 \<le> gp" "gp \<le> 16872" "gate \<le> 16872" by simp_all
  let ?gs = "map (agc_gated (?gt ! 0) gate) gs"
  have "gain_ok (agc_gated (?gt ! 0) gate x)" if "gain_ok x" for x
    using gated_between [of "?gt ! 0" x gate] table_entry [OF gt, of 0] that g(3)
    by (simp add: gain_ok_def min_def max_def split: if_splits)
  then have "\<forall>g\<in>set ?gs. gain_ok g" using gs by simp
  from limits_end [OF _ env(2) this] env(1) len
  obtain ls where ls: "those (map2 agc_limit env ?gs) = Some ls" "length ls = 10" "\<forall>g\<in>set ls. gain_ok g"
    "\<forall>i<length ls. (\<forall>x. x * x \<le> env ! i \<longrightarrow> \<bar>x\<bar> * ls ! i < 2147483648)"
    by auto
  let ?stt = "stt\<lparr>capacitorFast := fst caps, capacitorSlow := snd caps, gatePrevious := gp\<rparr>"
  have "agc_frame_gains stt decay env = Some (?stt, ls)"
    by (simp add: agc_frame_gains_def Let_def sc gate ls(1))
  moreover have "digital_ok ?stt" using stt caps g by (simp add: digital_ok_def caps_ok_def)
  ultimately show ?thesis using that ls(2-4) by simp
qed

text \<open>After the reductions are moved, a sub-frame starts and ends below its own limited gain.\<close>

lemma early_gains:
  assumes "length gs = 11" "\<forall>g\<in>set gs. gain_ok g"
  shows "length (agc_early gs) = 11" "\<forall>g\<in>set (agc_early gs). gain_ok g"
    "\<And>k. 1 \<le> k \<Longrightarrow> k < 10 \<Longrightarrow> agc_early gs ! k \<le> gs ! (k + 1) \<and> agc_early gs ! (k + 1) \<le> gs ! (k + 1)"
  using assms by (auto simp: agc_early_def nth_append simp del: upt_Suc)

lemma nth_concat_rows:
  assumes "\<forall>r\<in>set rows. length r = L" "k < length rows" "n < L"
  shows "concat rows ! (k * L + n) = rows ! k ! n"
  using assms
proof (induction rows arbitrary: k)
  case Nil
  then show ?case by simp
next
  case (Cons r rows)
  then show ?case by (cases k) (simp_all add: nth_append)
qed

lemma row_fits: "k < 10 \<Longrightarrow> k * L + L \<le> 10 * (L :: nat)"
proof -
  assume "k < 10"
  then have "(k + 1) * L \<le> 10 * L" by (intro mult_le_mono1) simp
  then show ?thesis unfolding distrib_right mult_1 .
qed

lemma band_nth:
  assumes "agc_rate FS = Some (L, L2)" "length gains = 11" "\<forall>g\<in>set gains. gain_ok g" "10 * L \<le> length xs"
  shows "length (agc_band L L2 gains xs) = 10 * L"
    "\<And>k n. k < 10 \<Longrightarrow> n < L \<Longrightarrow> agc_band L L2 gains xs ! (k * L + n) =
      (if k = 0 then agc_apply_sat else agc_apply) (agc_curve L (gains ! k) (gains ! (k + 1)) n) (xs ! (k * L + n))"
proof -
  let ?row = "\<lambda>k. map2 (if k = 0 then agc_apply_sat else agc_apply)
    (map (agc_curve L (gains ! k) (gains ! (k + 1))) [0..<L]) (take L (drop (k * L) xs))"
  have ramp: "agc_ramp L (shl32 (s32 (gains ! (k + 1) - gains ! k)) (4 - L2)) (shl32 (gains ! k) 4) =
      map (agc_curve L (gains ! k) (gains ! (k + 1))) [0..<L]" if "k < 10" for k
    using that assms(2,3) by (intro ramp_curve [OF assms(1)]) simp_all
  have b: "agc_band L L2 gains xs = concat (map ?row [0..<10])"
    unfolding agc_band_def by (intro arg_cong [where f = concat] map_cong refl) (simp only: set_upt atLeastLessThan_iff ramp)
  have len: "k < 10 \<Longrightarrow> length (take L (drop (k * L) xs)) = L" for k
  proof -
    assume "k < 10"
    then have "k * L + L \<le> length xs" using assms(4) row_fits [of k L] by linarith
    then show ?thesis by simp
  qed
  then have rows: "\<forall>r\<in>set (map ?row [0..<10]). length r = L" by auto
  then have "map length (map ?row [0..<10]) = map (\<lambda>_. L) [0..<10]" by (auto simp del: upt_conv_Cons)
  then show "length (agc_band L L2 gains xs) = 10 * L"
    by (simp only: b length_concat) (simp add: map_replicate_const sum_list_replicate del: map_map)
  show "agc_band L L2 gains xs ! (k * L + n) =
      (if k = 0 then agc_apply_sat else agc_apply) (agc_curve L (gains ! k) (gains ! (k + 1)) n) (xs ! (k * L + n))"
    if kn: "k < 10" "n < L" for k n
  proof -
    have "agc_band L L2 gains xs ! (k * L + n) = ?row k ! n"
      unfolding b using nth_concat_rows [OF rows, of k n] kn by (simp del: upt_conv_Cons)
    also have "\<dots> = (if k = 0 then agc_apply_sat else agc_apply)
        (agc_curve L (gains ! k) (gains ! (k + 1)) n) (xs ! (k * L + n))"
      using kn len [OF kn(1)] by simp
    finally show ?thesis .
  qed
qed

text \<open>
  A frame: the state stays well formed, the output has the length of the input and every sample is the
  input times the gain curve. In the first millisecond the product saturates; in the others the
  limiter has made sure that it fits, for the band the envelope was measured on.
\<close>

definition frame_in_ok :: "nat \<Rightarrow> int list list \<Rightarrow> bool" where
  "frame_in_ok L bands \<longleftrightarrow> bands \<noteq> [] \<and> (\<forall>b\<in>set bands. 10 * L \<le> length b \<and> (\<forall>x\<in>set b. is16 x))"

definition frame_out_ok :: "nat \<Rightarrow> int list \<Rightarrow> int list \<Rightarrow> int list \<Rightarrow> bool" where
  "frame_out_ok L gains xs ys \<longleftrightarrow> length ys = 10 * L \<and> (\<forall>y\<in>set ys. is16 y) \<and>
     (\<forall>k\<in>{1..<10}. \<forall>n<L.
        let G = agc_curve L (gains ! k) (gains ! (k + 1)) n div 16; x = xs ! (k * L + n)
        in 0 \<le> G \<and> G \<le> max (gains ! k) (gains ! (k + 1)) \<and> \<bar>x\<bar> * G < 2147483648 \<and>
           ys ! (k * L + n) = x * G div 65536)"

lemma curve_gain:
  assumes "agc_rate FS = Some (L, L2)" "n < L" "gain_ok g" "gain_ok h"
  shows "0 \<le> agc_curve L g h n" "agc_curve L g h n \<le> 8388608" "0 \<le> agc_curve L g h n div 16"
    "agc_curve L g h n div 16 \<le> max g h"
proof -
  note b = curve_between [OF assms(1,2), of g h]
  show "0 \<le> agc_curve L g h n" "agc_curve L g h n \<le> 8388608"
    using b assms(3,4) by (simp_all add: gain_ok_def min_def max_def split: if_splits)
  then show "0 \<le> agc_curve L g h n div 16" by (simp add: pos_imp_zdiv_nonneg_iff)
  show "agc_curve L g h n div 16 \<le> max g h"
    using zdiv_mono1 [OF b(2), of 16] by simp
qed

lemma band_samples16:
  assumes "agc_rate FS = Some (L, L2)" "length gains = 11" "\<forall>g\<in>set gains. gain_ok g" "10 * L \<le> length xs"
    "\<forall>x\<in>set xs. is16 x"
  shows "\<forall>y\<in>set (agc_band L L2 gains xs). is16 y"
proof
  note bn = band_nth [OF assms(1-4)]
  have L: "0 < L" using assms(1) by (auto elim!: rate_cases)
  fix y assume "y \<in> set (agc_band L L2 gains xs)"
  then obtain i where i: "i < 10 * L" "y = agc_band L L2 gains xs ! i" using bn(1) by (auto simp: in_set_conv_nth)
  define k where "k = i div L"
  define n where "n = i mod L"
  have "i < L * 10" using i(1) by (simp add: mult.commute)
  then have kn: "k < 10" "n < L" "i = k * L + n" using L by (simp_all add: k_def n_def less_mult_imp_div_less mult.commute)
  have y: "y = (if k = 0 then agc_apply_sat else agc_apply) (agc_curve L (gains ! k) (gains ! (k + 1)) n) (xs ! i)"
    using bn(2) [OF kn(1,2)] i(2) kn(3) by simp
  have x: "is16 (xs ! i)" using assms(4,5) i(1) by simp
  have "is16 (agc_apply_sat G (xs ! i))" for G
    by (simp add: agc_apply_sat_def Let_def agc_apply_def) (simp add: is16_def)
  then show "is16 y" unfolding y by (simp add: agc_apply_def)
qed

lemma frame_correct:
  assumes stt: "digital_ok stt" and rate: "agc_rate FS = Some (L, L2)" and bands: "frame_in_ok L bands"
  obtains stt' gains outs where "WebRtcAgc_ProcessDigital stt bands FS low = Processed stt' outs"
    "digital_ok stt'" "length outs = length bands" "length gains = 11" "\<forall>g\<in>set gains. gain_ok g"
    "gains ! 0 = gain stt" "gain stt' = gains ! 10" "outs = map (agc_band L L2 gains \<circ> take (10 * L)) bands"
    "frame_out_ok L gains (bands ! 0) (outs ! 0)"
    "\<forall>b\<in>set outs. length b = 10 * L \<and> (\<forall>y\<in>set b. is16 y)"
proof -
  define out where "out = map (take (10 * L)) bands"
  have b0: "bands \<noteq> []" "10 * L \<le> length (bands ! 0)" "\<forall>x\<in>set (bands ! 0). is16 x"
    using bands by (auto simp: frame_in_ok_def)
  have out0: "out ! 0 = take (10 * L) (bands ! 0)" using b0(1) by (simp add: out_def)
  have x16: "\<forall>x\<in>set (out ! 0). is16 x" using b0(3) by (auto simp: out0 dest: in_set_takeD)
  obtain vad lr where v: "WebRtcAgc_ProcessVad (vadNearend stt) (out ! 0) (L * 10) = (vad, lr)"
    by (rule prod.exhaust)
  have vo: "agc_vad_ok vad" "lr = logRatio vad"
    using ProcessVad_keeps [of "vadNearend stt" "out ! 0" "L * 10"] stt v by (simp_all add: digital_ok_def)
  define s1 where "s1 = stt\<lparr>vadNearend := vad\<rparr>"
  have s1: "digital_ok s1" "gain s1 = gain stt" using stt vo by (simp_all add: digital_ok_def s1_def)
  define decay where "decay = agc_decay s1 (agc_logratio s1 lr) low"
  have f: "- 2048 \<le> logRatio (vadFarend s1)" "logRatio (vadFarend s1) \<le> 2048" "- 2048 \<le> lr" "lr \<le> 2048"
    using s1 vo by (simp_all add: digital_ok_def agc_vad_ok_def)
  have q: "- 2048 \<le> (3 * lr - logRatio (vadFarend s1)) div 4" "(3 * lr - logRatio (vadFarend s1)) div 4 \<le> 2048"
    using f by simp_all
  have "agc_logratio s1 lr = (if counter (vadFarend s1) > 10 then (3 * lr - logRatio (vadFarend s1)) div 4 else lr)"
    using f q by (simp add: agc_logratio_def sar_def s32_eqI s16_eqI)
  then have "- 16384 \<le> agc_logratio s1 lr" "agc_logratio s1 lr \<le> 16384" using f q by simp_all
  then have d: "- 65 \<le> decay" "decay \<le> 0"
    using decay_range [of s1 "agc_logratio s1 lr" low] s1 by (simp_all add: decay_def digital_ok_def agc_vad_ok_def)
  have part: "\<forall>x\<in>set (take L (drop (k * L) (out ! 0))). is16 x" for k
    using x16 by (auto dest: in_set_takeD in_set_dropD)
  have env: "length (agc_env L (out ! 0)) = 10" "\<forall>e\<in>set (agc_env L (out ! 0)). level_ok e"
    using peak_bounds(1) [OF part] by (auto simp: agc_env_def)
  from frame_gains [OF s1(1) d env]
  obtain s2 ls where fg: "agc_frame_gains s1 decay (agc_env L (out ! 0)) = Some (s2, ls)" "digital_ok s2"
    "length ls = 10" "\<forall>g\<in>set ls. gain_ok g"
    "\<And>i x. i < 10 \<Longrightarrow> x * x \<le> agc_env L (out ! 0) ! i \<Longrightarrow> \<bar>x\<bar> * ls ! i < 2147483648" by blast
  define gs where "gs = gain stt # ls"
  define gains where "gains = agc_early gs"
  have gs: "length gs = 11" "\<forall>g\<in>set gs. gain_ok g" using fg(3,4) stt by (simp_all add: gs_def digital_ok_def)
  note eg = early_gains [OF gs, folded gains_def]
  define s3 where "s3 = s2\<lparr>gain := gains ! 10\<rparr>"
  have s3: "digital_ok s3" using fg(2) eg(1,2) by (simp add: s3_def digital_ok_def)
  have P: "WebRtcAgc_ProcessDigital stt bands FS low = Processed s3 (map (agc_band L L2 gains) out)"
    by (simp add: WebRtcAgc_ProcessDigital_def rate Let_def out_def [symmetric] v s1_def [symmetric]
        decay_def [symmetric] fg(1) gs_def [symmetric] gains_def [symmetric] s3_def)
      (simp add: s1_def gs_def gains_def s3_def)
  have each: "length (agc_band L L2 gains (take (10 * L) b)) = 10 * L \<and>
      (\<forall>y\<in>set (agc_band L L2 gains (take (10 * L) b)). is16 y)" if "b \<in> set bands" for b
  proof -
    have b: "10 * L \<le> length (take (10 * L) b)" "\<forall>x\<in>set (take (10 * L) b). is16 x"
      using that bands by (auto simp: frame_in_ok_def dest: in_set_takeD)
    show ?thesis using band_nth(1) [OF rate eg(1,2) b(1)] band_samples16 [OF rate eg(1,2) b] by blast
  qed
  have "frame_out_ok L gains (bands ! 0) (agc_band L L2 gains (out ! 0))"
    unfolding frame_out_ok_def Let_def
  proof (intro conjI ballI allI impI)
    show "length (agc_band L L2 gains (out ! 0)) = 10 * L" "\<And>y. y \<in> set (agc_band L L2 gains (out ! 0)) \<Longrightarrow> is16 y"
      using each [of "bands ! 0"] b0(1) by (simp_all add: out0)
    fix k n :: nat assume k: "k \<in> {1..<10}" and n: "n < L"
    let ?c = "agc_curve L (gains ! k) (gains ! (k + 1)) n" and ?x = "bands ! 0 ! (k * L + n)"
    have g: "gain_ok (gains ! k)" "gain_ok (gains ! (k + 1))" using eg(1,2) k by simp_all
    note c = curve_gain [OF rate n g]
    show "0 \<le> ?c div 16" "?c div 16 \<le> max (gains ! k) (gains ! (k + 1))" by (rule c)+
    have "k < 10" using k by simp
    then have kL: "k * L + n < 10 * L" "k * L + L \<le> 10 * L" using n row_fits [of k L] by linarith+
    have xo: "out ! 0 ! (k * L + n) = ?x" using kL by (simp add: out0)
    have "?x \<in> set (take L (drop (k * L) (out ! 0)))"
    proof -
      have l: "k * L + L \<le> length (out ! 0)" using kL(2) b0(2) by (simp add: out0)
      then have "take L (drop (k * L) (out ! 0)) ! n = out ! 0 ! (k * L + n)" using n by simp
      then have "take L (drop (k * L) (out ! 0)) ! n = ?x" by (simp only: xo)
      moreover have "n < length (take L (drop (k * L) (out ! 0)))" using n l by simp
      ultimately show ?thesis by (metis nth_mem)
    qed
    then have "?x * ?x \<le> agc_env L (out ! 0) ! k"
      using peak_bounds(2) [OF part] k by (simp add: agc_env_def del: upt_Suc)
    then have fit: "\<bar>?x\<bar> * ls ! k < 2147483648" using fg(5) k by simp
    have "gains ! k \<le> ls ! k" "gains ! (k + 1) \<le> ls ! k" using eg(3) [of k] k by (simp_all add: gs_def)
    then have "?c div 16 \<le> ls ! k" using c(4) by simp
    then have "\<bar>?x\<bar> * (?c div 16) \<le> \<bar>?x\<bar> * ls ! k" by (intro mult_left_mono) simp_all
    then show fits: "\<bar>?x\<bar> * (?c div 16) < 2147483648" using fit by linarith
    have "10 * L \<le> length (out ! 0)" using b0(2) by (simp add: out0)
    from band_nth(2) [OF rate eg(1,2) this, of k n] k n
    have "agc_band L L2 gains (out ! 0) ! (k * L + n) = agc_apply ?c ?x" by (simp add: xo)
    then show "agc_band L L2 gains (out ! 0) ! (k * L + n) = ?x * (?c div 16) div 65536"
      using apply_exact(1) [OF c(1) fits] by simp
  qed
  moreover have "map (agc_band L L2 gains) out = map (agc_band L L2 gains \<circ> take (10 * L)) bands" by (simp add: out_def)
  moreover have "gains ! 0 = gain stt" by (simp add: gains_def agc_early_def gs_def)
  moreover have "(map (agc_band L L2 gains) out) ! 0 = agc_band L L2 gains (out ! 0)" using b0(1) by (simp add: out_def)
  ultimately show ?thesis
    using that [of s3 "map (agc_band L L2 gains) out" gains] P s3 eg(1,2) each
    by (simp add: s3_def out_def)
qed

end
