(* ===== verification/AgcSession.thy ===== *)
theory AgcSession imports DigitalAgc begin

text \<open>
  The life of a digital gain control: calls with near-end frames and far-end frames in any order.
\<close>

datatype digital_call =
    Far "int list" nat
  | Near "int list list" int int

fun digital_step :: "DigitalAgc \<Rightarrow> digital_call \<Rightarrow> DigitalAgc" where
  "digital_step stt (Far in_far n) = WebRtcAgc_AddFarendToDigital stt in_far n"
| "digital_step stt (Near bands FS low) =
     (case WebRtcAgc_ProcessDigital stt bands FS low of Processed stt' outs \<Rightarrow> stt' | _ \<Rightarrow> stt)"

text \<open>What a caller promises: near-end bands hold a frame of 16-bit samples. The rate may be wrong.\<close>

fun digital_call_ok :: "digital_call \<Rightarrow> bool" where
  "digital_call_ok (Far in_far n) = True"
| "digital_call_ok (Near bands FS low) =
     (case agc_rate FS of None \<Rightarrow> True | Some (L, L2) \<Rightarrow> frame_in_ok L bands)"

lemma AddFarend_ok: "digital_ok stt \<Longrightarrow> digital_ok (WebRtcAgc_AddFarendToDigital stt in_far n)"
  by (simp add: digital_ok_def WebRtcAgc_AddFarendToDigital_def ProcessVad_keeps)

lemma InitDigital_ok:
  assumes "table_ok (gainTable stt)"
  shows "digital_ok (WebRtcAgc_InitDigital stt mode)"
  using assms by (simp add: digital_ok_def WebRtcAgc_InitDigital_def InitVad_ok level_ok_def gain_ok_def)

lemma BadRate_iff: "WebRtcAgc_ProcessDigital stt bands FS low = BadRate \<longleftrightarrow> agc_rate FS = None"
  by (auto simp: WebRtcAgc_ProcessDigital_def Let_def split: option.splits prod.splits)

interpretation agc_digital: event_machine digital_step digital_ok digital_call_ok
proof
  fix stt c
  assume ok: "digital_ok stt" "digital_call_ok c"
  show "digital_ok (digital_step stt c)"
  proof (cases c)
    case (Far in_far n)
    then show ?thesis using AddFarend_ok [OF ok(1)] by simp
  next
    case (Near bands FS low)
    show ?thesis
    proof (cases "agc_rate FS")
      case None
      then have "WebRtcAgc_ProcessDigital stt bands FS low = BadRate" by (simp add: BadRate_iff)
      then show ?thesis using Near ok(1) by simp
    next
      case (Some r)
      obtain L L2 where r: "agc_rate FS = Some (L, L2)" using Some by (cases r) auto
      then have "frame_in_ok L bands" using ok(2) Near by simp
      from frame_correct [OF ok(1) r this, of low] obtain stt' outs where
        "WebRtcAgc_ProcessDigital stt bands FS low = Processed stt' outs" "digital_ok stt'" by metis
      then show ?thesis using Near by simp
    qed
  qed
qed

section \<open>Beyond gains of 8.0\<close>

text \<open>
  The overflow test of the first sub-frame itself overflows just above a gain of 8.0: a full-scale
  sample comes out with the other sign.
\<close>

lemma saturation_flips:
  "agc_apply_sat (16 * 524288) (- 32768) = - 32768" "agc_apply_sat (16 * 524289) (- 32768) = 32767"
  "agc_apply_sat (16 * 524312) 32767 = - 32768"
  by code_simp+

text \<open>
  The constant above which the limiter shifts by more than ten bits is 973 too large: from 47452160 on
  the squared gain overflows and the test lets any level through.
\<close>

lemma limiter_constant:
  "agc_gain32 10 47452159 = 46340\<^sup>2" "agc_gain32 10 47452160 < 0"
  "agc_too_loud 1073741824 10 47452160 = False"
  by code_simp+

text \<open>The other bands have no limiter after the first millisecond: a loud upper band wraps.\<close>

lemma upper_band_wraps: "agc_apply (16 * 131072) 32767 = - 2"
  by code_simp

end
