(* ===== verification/AgcGainBounds.thy ===== *)
theory AgcGainBounds imports DigitalAgc begin

text \<open>
  The gain table of a configuration with at most 18 dB of compression: no quotient overflows into the
  entries, and all 32 gains lie between 0 and 8.0, the range the digital gain control relies on.
\<close>

section \<open>The logarithm is bounded\<close>

lemma kGenFuncTable_steps:
  "\<forall>i\<in>set [0..126]. 0 \<le> kGenFuncTable ! nat i \<and> kGenFuncTable ! nat i \<le> kGenFuncTable ! nat (i + 1) \<and>
     kGenFuncTable ! nat (i + 1) \<le> 46905"
  by code_simp

lemma kGenFuncTable_entries: "\<forall>i\<in>set [0..127]. 256 \<le> kGenFuncTable ! nat i \<and> kGenFuncTable ! nat i \<le> 46905"
  by code_simp

text \<open>Interpolation between two neighbours \<open>a\<close> and \<open>b\<close> of the table.\<close>

lemma interpolated:
  assumes "0 \<le> a" "a \<le> b" "b \<le> 46905" "0 \<le> f" "f < 16384"
  shows "u32 (u32 (u16 (b - a) * f) + shlu32 a 14) = (b - a) * f + a * 16384"
    "0 \<le> (b - a) * f + a * 16384" "(b - a) * f + a * 16384 \<le> 768491520"
proof -
  have m: "(b - a) * f \<le> (b - a) * 16384" "0 \<le> (b - a) * f"
    using assms mult_left_mono [of f 16384 "b - a"] by simp_all
  then show r: "0 \<le> (b - a) * f + a * 16384" "(b - a) * f + a * 16384 \<le> 768491520"
    using assms by (simp_all add: algebra_simps)
  have "u16 (b - a) = b - a" using assms by (simp add: u16_def)
  moreover have "u32 ((b - a) * f) = (b - a) * f" "shlu32 a 14 = a * 16384"
    using m r assms by (simp_all add: u32_def shlu32_def)
  ultimately show "u32 (u32 (u16 (b - a) * f) + shlu32 a 14) = (b - a) * f + a * 16384"
    using r by (simp add: u32_def)
qed

lemma neg_log_range:
  assumes "0 < x" "x < 2097152" "0 \<le> t" "t \<le> 768491520"
  shows "0 \<le> agc_neg_log x t" "agc_neg_log x t \<le> 3001920"
proof -
  have "9 \<le> WebRtcSpl_NormU32 x"
  proof (rule ccontr)
    assume "\<not> 9 \<le> WebRtcSpl_NormU32 x"
    then have "(2 :: int) ^ WebRtcSpl_NormU32 x \<le> 2 ^ 8" by (intro power_increasing) simp_all
    then have "x * 2 ^ WebRtcSpl_NormU32 x \<le> 2097151 * 2 ^ 8" using assms(1,2) by (intro mult_mono) simp_all
    then show False using NormU32_top(1) [of x] assms(1,2) by simp
  qed
  then have z: "\<not> WebRtcSpl_NormU32 x < 9" by simp
  define n where "n = (if WebRtcSpl_NormU32 x < 15
    then sar (u32 (sar x (15 - WebRtcSpl_NormU32 x) * kLogE_1)) (WebRtcSpl_NormU32 x - 9)
    else sar (u32 (x * kLogE_1)) 6)"
  have n: "0 \<le> n" "agc_neg_log x t = (if n < t then sar (u32 (t - n)) 8 else 0)"
  proof -
    show "0 \<le> n" by (simp add: n_def u32_def sar_def pos_imp_zdiv_nonneg_iff)
    show "agc_neg_log x t = (if n < t then sar (u32 (t - n)) 8 else 0)"
      by (cases "WebRtcSpl_NormU32 x < 15") (simp_all add: agc_neg_log_def Let_def n_def z)
  qed
  have "sar (t - n) 8 \<le> 3001920" "0 \<le> sar (t - n) 8" "u32 (t - n) = t - n" if "n < t"
    using that n(1) assms(3,4) sar_mono [of "t - n" 768491520 8]
    by (simp_all add: u32_def sar_def pos_imp_zdiv_nonneg_iff)
  then show "0 \<le> agc_neg_log x t" "agc_neg_log x t \<le> 3001920" unfolding n(2) by simp_all
qed

lemma log_approx_range:
  assumes "\<bar>x\<bar> < 1073741824" "agc_log_approx x = Some y"
  shows "0 \<le> y" "y \<le> 3001920"
proof -
  have x: "\<bar>x\<bar> < 127 * 16384" using log_approx_None [OF assms(1)] assms(2) by force
  have a: "u32 (if x \<ge> 0 then x else s32 (- x)) = \<bar>x\<bar>"
    using assms(1) by (auto simp: s32_eqI isu32_def)
  have i: "0 \<le> \<bar>x\<bar> div 16384" "\<bar>x\<bar> div 16384 \<le> 126" "u16 (sar \<bar>x\<bar> 14) = \<bar>x\<bar> div 16384"
    using x int_div_lt [of 16384 "\<bar>x\<bar>" 127] by (simp_all add: pos_imp_zdiv_nonneg_iff u16_def sar_def)
  define p where "p = kGenFuncTable ! nat (\<bar>x\<bar> div 16384)"
  define q where "q = kGenFuncTable ! nat (\<bar>x\<bar> div 16384 + 1)"
  have pq: "0 \<le> p" "p \<le> q" "q \<le> 46905"
    using bspec [OF kGenFuncTable_steps, of "\<bar>x\<bar> div 16384"] i(1,2) by (simp_all add: p_def q_def)
  have "\<bar>x\<bar> AND 0x3FFF = \<bar>x\<bar> mod 16384"
    using take_bit_eq_mask [of 14 "\<bar>x\<bar>"] by (simp add: take_bit_eq_mod mask_eq_exp_minus_1)
  then have f: "0 \<le> u16 (\<bar>x\<bar> AND 0x3FFF)" "u16 (\<bar>x\<bar> AND 0x3FFF) < 16384" by (simp_all add: u16_def)
  note t = interpolated [OF pq f]
  define T where "T = (q - p) * u16 (\<bar>x\<bar> AND 0x3FFF) + p * 16384"
  have y: "y = (if x < 0 then agc_neg_log \<bar>x\<bar> T else sar T 8)"
    using assms(2) i(2)
    unfolding agc_log_approx_def Let_def a i(3) kGenFuncTableSize_def p_def [symmetric] q_def [symmetric]
      t(1) T_def [symmetric] by simp
  have "0 \<le> sar T 8" "sar T 8 \<le> 3001920"
    using t(2,3) sar_mono [of T 768491520 8] by (simp_all add: T_def sar_def pos_imp_zdiv_nonneg_iff)
  then show "0 \<le> y" "y \<le> 3001920"
    using neg_log_range [of "\<bar>x\<bar>" T] t(2,3) x unfolding y T_def [symmetric] by (cases "x < 0"; simp)+
qed

section \<open>The quotient\<close>

lemma sdiv_abs_le:
  fixes a b c :: int
  assumes "\<bar>a\<bar> \<le> c * b" "0 < b"
  shows "\<bar>a sdiv b\<bar> \<le> c"
proof -
  have "\<bar>a\<bar> div b \<le> c" using zdiv_mono1 [OF assms(1,2)] assms(2) by simp
  moreover have "\<bar>a sdiv b\<bar> = \<bar>a\<bar> div b"
    using assms(2) by (simp add: signed_divide_int_def abs_mult sgn_if pos_imp_zdiv_nonneg_iff)
  ultimately show ?thesis by simp
qed

text \<open>
  The quotient of a normalised numerator \<open>N\<close> and its scaled denominator \<open>T\<close>, rounded. Where adding
  half the denominator wraps, the quotient turns negative but stays bounded.
\<close>

lemma rounded_quotient:
  assumes "0 < T" "T \<le> N" "N \<le> 14746 * T" "1073741824 \<le> N" "N < 2147483648"
  shows "- 29492 \<le> s32 (s32 (N + T sdiv 2) sdiv T)" "s32 (s32 (N + T sdiv 2) sdiv T) \<le> 14746"
proof -
  have h: "T sdiv 2 = T div 2" "0 \<le> T div 2" "2 * (T div 2) \<le> T" using assms(1) by (simp_all add: sdiv_pos)
  have "- 29492 \<le> s32 (N + T div 2) sdiv T \<and> s32 (N + T div 2) sdiv T \<le> 14746"
  proof (cases "N + T div 2 < 2147483648")
    case True
    then have s: "s32 (N + T div 2) = N + T div 2" using h assms by (intro s32_eqI) linarith+
    have "N + T div 2 < 14747 * T" using h assms(1,3) by linarith
    then have "(N + T div 2) div T < 14747" using assms(1) by (intro int_div_lt)
    moreover have "0 \<le> (N + T div 2) div T" using h assms by (simp add: pos_imp_zdiv_nonneg_iff)
    ultimately show ?thesis unfolding s using h assms by (simp add: sdiv_pos)
  next
    case False
    have "s32 (N + T div 2) = s32 (N + T div 2 - 4294967296)" by (rule s32_cong) (simp add: mod_diff_eq)
    also have "\<dots> = N + T div 2 - 4294967296" using False h assms by (intro s32_eqI) linarith+
    finally have s: "s32 (N + T div 2) = N + T div 2 - 4294967296" .
    have "\<bar>N + T div 2 - 4294967296\<bar> \<le> 29492 * T" using False h assms by linarith
    from sdiv_abs_le [OF this assms(1)] have q: "\<bar>s32 (N + T div 2) sdiv T\<bar> \<le> 29492" unfolding s .
    have "s32 (N + T div 2) < 0" unfolding s using False h assms by linarith
    then have "s32 (N + T div 2) sdiv T \<le> 0"
      using assms(1) by (simp add: signed_divide_int_def pos_imp_zdiv_nonneg_iff mult_nonpos_nonneg)
    then show ?thesis using q by simp
  qed
  then show "- 29492 \<le> s32 (s32 (N + T sdiv 2) sdiv T)" "s32 (s32 (N + T sdiv 2) sdiv T) \<le> 14746"
    unfolding h(1) by (simp_all add: s32_eqI)
qed

text \<open>The denominator scaled along with the numerator.\<close>

lemma scaled_denominator:
  assumes "256 \<le> K" "K \<le> 46905" "0 < num" "num \<le> 1152 * K" "20 * K div 256 < num"
  defines "z \<equiv> WebRtcSpl_NormW32 num"
  defines "T \<equiv> WEBRTC_SPL_SHIFT_W32 (20 * K) (int z - 8)"
  shows "0 < T" "T \<le> num * 2 ^ z" "num * 2 ^ z \<le> 14746 * T"
proof -
  have n: "num < 2147483648" using assms(2,4) by simp
  note N = NormW32_pos [OF assms(3) n, folded z_def]
  have d: "20 * K < 256 * num" using assms(5) sar_less_iff [of "20 * K" 8 num] by (simp add: sar_def)
  have "0 < T \<and> T \<le> num * 2 ^ z \<and> num * 2 ^ z \<le> 14746 * T"
  proof (cases "8 \<le> z")
    case True
    then obtain k where k: "z = 8 + k" using le_Suc_ex by blast
    have N2: "num * 2 ^ z = 256 * num * 2 ^ k" by (simp add: k power_add)
    have lt: "20 * K * 2 ^ k < 256 * num * 2 ^ k" using d by simp
    have "256 * num * 2 ^ k < 2147483648" by (rule less_le_trans [OF N(2) [unfolded N2]]) simp
    with lt have "20 * K * 2 ^ k < 2147483648" by (rule less_trans)
    then have s: "shl32 (20 * K) k = 20 * K * 2 ^ k" using assms(1) by (intro shl32_small) simp_all
    have "T = shl32 (20 * K) k" by (simp add: T_def k WEBRTC_SPL_SHIFT_W32_def)
    also note s
    finally have T: "T = 20 * K * 2 ^ k" .
    have "256 * num * 2 ^ k \<le> 256 * (1152 * K) * 2 ^ k" using assms(4) by simp
    also have "\<dots> \<le> 14746 * (20 * K * 2 ^ k)" using assms(1) by simp
    finally show ?thesis using lt assms(1) unfolding N2 T by simp
  next
    case False
    then obtain k where k: "8 = z + k" "0 < k" using le_Suc_ex [of z 8] by auto
    have T: "T = 20 * K div 2 ^ k"
    proof -
      have "nat (- (int z - 8)) = k" "\<not> 0 \<le> int z - 8" using k by simp_all
      then show ?thesis unfolding T_def WEBRTC_SPL_SHIFT_W32_def sar_def by simp
    qed
    have p: "(2 :: int) ^ z * 2 ^ k = 256" using k(1) by (simp flip: power_add)
    have b: "T * 2 ^ k \<le> 20 * K" "20 * K < (T + 1) * 2 ^ k"
      using sar_ge_iff [of T "20 * K" k] sar_less_iff [of "20 * K" k "T + 1"] by (simp_all add: T sar_def)
    have "T * 256 = T * 2 ^ k * 2 ^ z" by (simp add: mult.assoc mult.commute [of "2 ^ k"] p)
    also have "\<dots> \<le> 256 * num * 2 ^ z" using b(1) d by (intro mult_right_mono) simp_all
    finally have lt: "T \<le> num * 2 ^ z" by simp
    have "20 * (num * 2 ^ z) \<le> 1152 * (20 * K) * 2 ^ z" using assms(4) by simp
    also have "\<dots> \<le> 1152 * ((T + 1) * 2 ^ k) * 2 ^ z" using b(2) by simp
    also have "\<dots> = 1152 * (T + 1) * (2 ^ z * 2 ^ k)" by (simp add: ac_simps)
    finally have "20 * (num * 2 ^ z) \<le> 294912 * (T + 1)" by (simp add: p)
    then show ?thesis using lt N(1) by simp
  qed
  then show "0 < T" "T \<le> num * 2 ^ z" "num * 2 ^ z \<le> 14746 * T" by simp_all
qed

text \<open>The quotient for a maximal gain of at most 18 dB.\<close>

lemma quotient_range:
  assumes "256 \<le> K" "K \<le> 46905" "num \<le> 1152 * K"
  shows "- 29492 \<le> agc_quotient num (20 * K)" "agc_quotient num (20 * K) \<le> 14746"
proof -
  have "- 29492 \<le> agc_quotient num (20 * K) \<and> agc_quotient num (20 * K) \<le> 14746"
  proof (cases "num > sar (20 * K) 8")
    case True
    define z where "z = WebRtcSpl_NormW32 num"
    define T where "T = WEBRTC_SPL_SHIFT_W32 (20 * K) (int z - 8)"
    have n: "0 < num" "num < 2147483648" "20 * K div 256 < num"
      using True assms sar_nonneg [of "20 * K" 8] by (simp_all add: sar_def)
    note N = NormW32_pos [OF n(1,2), folded z_def]
    note T = scaled_denominator [OF assms(1,2) n(1) assms(3) n(3), folded z_def, folded T_def]
    have s: "shl32 num z = num * 2 ^ z" using N n(1) by (intro shl32_small) simp_all
    have "agc_quotient num (20 * K) = s32 (s32 (num * 2 ^ z + T sdiv 2) sdiv T)"
      using True N(1) by (simp add: agc_quotient_def Let_def s flip: z_def T_def)
    then show ?thesis using rounded_quotient [OF T] N by simp
  next
    case False
    define z where "z = WebRtcSpl_NormW32 (20 * K)"
    have d: "0 < 20 * K" "20 * K < 2147483648" using assms(1,2) by simp_all
    note N = NormW32_pos [OF d, folded z_def]
    define T where "T = 20 * K * 2 ^ z"
    have T: "1073741824 \<le> T" using N(1) by (simp add: T_def)
    have s: "WEBRTC_SPL_SHIFT_W32 (20 * K) (int z) = T"
      unfolding WEBRTC_SPL_SHIFT_W32_def using N d(1) by (simp add: T_def shl32_small)
    have q: "\<bar>s32 (s32 x sdiv T)\<bar> \<le> 2" for x
    proof -
      have "- 2147483648 \<le> s32 x" "s32 x \<le> 2147483647" by (simp_all add: s32_def)
      then have "\<bar>s32 x\<bar> \<le> 2 * T" using T by linarith
      from sdiv_abs_le [OF this] have "\<bar>s32 x sdiv T\<bar> \<le> 2" using T by simp
      then show ?thesis by (simp add: s32_eqI abs_le_iff)
    qed
    have "\<exists>x. agc_quotient num (20 * K) = s32 (s32 x sdiv T)"
      using False unfolding agc_quotient_def Let_def z_def [symmetric] by (cases "shl32 num (z + 8) < 0") (auto simp: s)
    then have "\<bar>agc_quotient num (20 * K)\<bar> \<le> 2" using q by metis
    then show ?thesis by (simp add: abs_le_iff)
  qed
  then show "- 29492 \<le> agc_quotient num (20 * K)" "agc_quotient num (20 * K) \<le> 14746" by simp_all
qed

section \<open>The entries\<close>

text \<open>A gain between -1.8 and 18 dB in Q14 gives a factor below 8.0.\<close>

lemma entry_power_range:
  assumes "- 30000 \<le> y" "y \<le> 14746"
  shows "0 \<le> agc_power (agc_db_to_exponent y)" "agc_power (agc_db_to_exponent y) \<le> 524288"
proof -
  have "s32 (y * 54426) = y * 54426" "s32 (y * 54426 + 8192) = y * 54426 + 8192"
    using assms by (simp_all add: s32_eqI)
  moreover have "- 99658 \<le> sar (y * 54426 + 8192) 14" "sar (y * 54426 + 8192) 14 < 49152"
    using assms sar_ge_iff [of "- 99658" "y * 54426 + 8192" 14] sar_less_iff [of "y * 54426 + 8192" 14 49152] by simp_all
  ultimately have e: "0 < agc_db_to_exponent y" "agc_db_to_exponent y < 19 * 16384"
    using assms by (simp_all add: agc_db_to_exponent_def kLog10_def s32_eqI)
  then have "agc_db_to_exponent y < 30 * 16384" "nat (agc_db_to_exponent y div 16384) + 1 \<le> 19"
    using int_div_lt [of 16384 "agc_db_to_exponent y" 19] by (simp_all add: pos_imp_zdiv_nonneg_iff)
  from power_octave [OF e(1) this(1) refl] power_increasing [OF this(2), of "2 :: int"]
  show "0 \<le> agc_power (agc_db_to_exponent y)" "agc_power (agc_db_to_exponent y) \<le> 524288"
    by (simp_all add: order_trans [of 0 "2 ^ _"])
qed

text \<open>What the configurations of the table have in common.\<close>

definition config_ok :: "gain_config \<Rightarrow> bool" where
  "config_ok cfg \<longleftrightarrow> 0 \<le> diffGain cfg \<and> diffGain cfg \<le> 12 \<and> - 31 \<le> maxGain cfg \<and> maxGain cfg \<le> 18 \<and>
     limiterIdx cfg \<le> 7 \<and> 0 \<le> limiterLvl cfg \<and> limiterLvl cfg \<le> 31"

lemma gain_config_ok:
  assumes "0 \<le> c" "c \<le> 18" "0 \<le> t" "t \<le> 31" "0 \<le> a" "a \<le> 18"
  shows "config_ok (agc_gain_config c t l a)"
proof -
  have d: "agc_diff_gain c = (2 * c + 1) div 3"
    using assms(1,2) by (simp add: agc_diff_gain_def WebRtcSpl_DivW32W16ResW16_def sar_def s32_eqI s16_eqI sdiv_pos)
  have q: "\<bar>(2 * (c - a) + 1) sdiv 3\<bar> \<le> 13" using assms by (intro sdiv_abs_le) (simp_all add: abs_le_iff)
  have m: "(2 * (c - a) + 1) sdiv 3 \<le> max 0 (c - a)"
  proof (cases "a \<le> c")
    case True
    then have "(2 * (c - a) + 1) sdiv 3 = (2 * (c - a) + 1) div 3" by (simp add: sdiv_pos)
    then show ?thesis using True by simp
  next
    case False
    then show ?thesis by (simp add: signed_divide_int_def sgn_if)
  qed
  have g: "agc_max_gain c t a = max (a - t + (2 * (c - a) + 1) sdiv 3) (a - t)"
    using assms q by (simp add: agc_max_gain_def Let_def WebRtcSpl_DivW32W16ResW16_def sar_def s32_eqI s16_eqI
        abs_le_iff max_def mult.commute)
  have "(a * 8192) div 24660 \<le> 5" "0 \<le> (a * 8192) div 24660" using assms(5,6) by (simp_all add: pos_imp_zdiv_nonneg_iff)
  then have i: "s16 (2 + WebRtcSpl_DivW32W16ResW16 (shl32 (s16 (a - 0)) 13) (kLog10_2 div 2)) \<le> 7"
    using assms(5,6) by (simp add: kLog10_2_def shl32_def WebRtcSpl_DivW32W16ResW16_def s32_eqI s16_eqI sdiv_pos)
  have v: "WebRtcSpl_DivW32W16ResW16 (0 + sar 3 1) 3 = 0"
    by (simp add: WebRtcSpl_DivW32W16ResW16_def sar_def sdiv_pos)
  have "0 \<le> (2 * c + 1) div 3" "(2 * c + 1) div 3 \<le> 12"
    using assms(1,2) by (simp_all add: pos_imp_zdiv_nonneg_iff)
  moreover have "a - t + (2 * (c - a) + 1) sdiv 3 \<le> 18" using m assms by (simp add: max_def split: if_splits)
  ultimately show ?thesis
    using assms(3-6) i unfolding config_ok_def agc_gain_config_def Let_def d g v by (simp add: le_max_iff_disj)
qed

lemma gain_db_range:
  assumes cfg: "config_ok cfg" and i: "0 \<le> i" "i \<le> 31" and y: "agc_gain_db cfg i = Some y"
  shows "- 30000 \<le> y" "y \<le> 14746"
proof -
  define D where "D = diffGain cfg"
  define K where "K = kGenFuncTable ! nat D"
  define M where "M = maxGain cfg"
  have D: "0 \<le> D" "D \<le> 12" and M: "- 31 \<le> M" "M \<le> 18" using cfg by (simp_all add: config_ok_def D_def M_def)
  have K: "256 \<le> K" "K \<le> 46905" using bspec [OF kGenFuncTable_entries, of D] D by (simp_all add: K_def)
  note l = entry_level [OF i]
  let ?x = "D * 16384 - (98642 * (i - 1) + 1) sdiv 3"
  have x: "\<bar>?x\<bar> < 1073741824" using l(2,3) D by (simp add: abs_less_iff)
  then have s: "s32 (shl32 D 14 - (98642 * (i - 1) + 1) sdiv 3) = ?x"
    using D by (simp add: shl32_def s32_eqI abs_less_iff)
  obtain L where L: "agc_log_approx ?x = Some L"
    using y unfolding agc_gain_db_def Let_def l(1) D_def [symmetric] s by (cases "agc_log_approx ?x") auto
  note Lr = log_approx_range [OF x L]
  have LD: "0 \<le> L * D" "L * D \<le> 3001920 * 12" using Lr D mult_mono [of L 3001920 D 12] by simp_all
  have MK: "- 31 * 46905 \<le> M * K" "M * K \<le> 18 * K"
  proof -
    show "M * K \<le> 18 * K" using M K by (intro mult_right_mono) simp_all
    have "- 31 * K \<le> M * K" using M K by (intro mult_right_mono) simp_all
    then show "- 31 * 46905 \<le> M * K" using K by simp
  qed
  have n: "s32 (shl32 (s32 (M * K)) 6 - s32 (s32 L * D)) = M * K * 64 - L * D"
  proof -
    have b: "M * K \<le> 844290" using MK(2) K by linarith
    have "s32 (M * K) = M * K" using MK(1) b by (intro s32_eqI) linarith+
    moreover have "s32 (M * K * 64) = M * K * 64" using MK(1) b by (intro s32_eqI) linarith+
    moreover have "s32 L = L" "s32 (L * D) = L * D" using LD Lr by (simp_all add: s32_eqI)
    moreover have "s32 (M * K * 64 - L * D) = M * K * 64 - L * D"
      using MK(1) b LD by (intro s32_eqI) linarith+
    ultimately show ?thesis by (simp add: shl32_def)
  qed
  have "M * K * 64 - L * D \<le> 1152 * K" using LD MK(2) by simp
  note Q = quotient_range [OF K this]
  have den: "s32 (20 * K) = 20 * K" using K by (simp add: s32_eqI)
  define v where "v = WebRtcSpl_DivW32W16 (s32 (s32 (s32 ((i - 1) * kLog10_2) - shl32 (limiterLvl cfg) 14) + 10)) 20"
  have yy: "y = (if limiterOn cfg \<and> i < limiterIdx cfg then v else agc_quotient (M * K * 64 - L * D) (20 * K))"
    using y unfolding agc_gain_db_def Let_def l(1) D_def [symmetric] s K_def [symmetric] M_def [symmetric]
      L option.case n den v_def [symmetric] by simp
  have "- 30000 \<le> v \<and> v \<le> 14746" if "i < limiterIdx cfg"
  proof -
    have r: "0 \<le> limiterLvl cfg" "limiterLvl cfg \<le> 31" "i \<le> 6" using cfg that by (simp_all add: config_ok_def)
    let ?w = "(i - 1) * 49321 - limiterLvl cfg * 16384 + 10"
    have w: "- 557215 \<le> ?w" "?w \<le> 246615" using r i by simp_all
    have q: "\<bar>?w sdiv 20\<bar> \<le> 27861" using w by (intro sdiv_abs_le) (simp_all add: abs_le_iff)
    have "s32 (?w sdiv 20) = ?w sdiv 20" using q by (intro s32_eqI) linarith+
    moreover have "s32 (s32 (s32 ((i - 1) * 49321) - shl32 (limiterLvl cfg) 14) + 10) = ?w"
      using r i w by (simp add: shl32_def s32_eqI)
    ultimately have "v = ?w sdiv 20" unfolding v_def kLog10_2_def WebRtcSpl_DivW32W16_def by simp
    moreover note q
    moreover have "?w sdiv 20 \<le> 12331"
    proof (cases "0 \<le> ?w")
      case True
      then show ?thesis using w by (simp add: sdiv_pos)
    next
      case False
      then show ?thesis by (simp add: signed_divide_int_def sgn_if)
    qed
    ultimately show ?thesis by simp
  qed
  then show "- 30000 \<le> y" "y \<le> 14746" unfolding yy using Q by auto
qed

lemma gain_table_ok:
  assumes "0 \<le> c" "c \<le> 18" "0 \<le> t" "t \<le> 31" "0 \<le> a" "a \<le> 18"
  obtains gt where "WebRtcAgc_CalculateGainTable c t l a = GainTable gt" "table_ok gt"
proof -
  define cfg where "cfg = agc_gain_config c t l a"
  have cfg: "config_ok cfg" unfolding cfg_def by (rule gain_config_ok [OF assms])
  have d: "diffGain cfg = agc_diff_gain c" by (simp add: cfg_def agc_gain_config_def Let_def)
  have e: "0 \<le> the (agc_gain_entry cfg i) \<and> the (agc_gain_entry cfg i) \<le> 524288" if i: "0 \<le> i" "i \<le> 31" for i
  proof -
    have "\<bar>diffGain cfg * 16384 - (98642 * (i - 1) + 1) sdiv 3\<bar> < 127 * 16384"
      using entry_level(2,3) [OF i] cfg unfolding config_ok_def by (simp add: abs_less_iff)
    then have "agc_gain_entry cfg i \<noteq> None"
      using entry_None [of cfg i] cfg i unfolding config_ok_def by linarith
    then obtain y where y: "agc_gain_db cfg i = Some y" by (auto simp: agc_gain_entry_def)
    from entry_power_range [OF gain_db_range [OF cfg i y]] show ?thesis by (simp add: agc_gain_entry_def y)
  qed
  define gt where "gt = map (the \<circ> agc_gain_entry cfg) [0..31]"
  have "length gt = 32" by (simp add: gt_def)
  moreover have "\<forall>g\<in>set gt. 0 \<le> g \<and> g \<le> 524288" unfolding gt_def set_map set_upto using e by auto
  ultimately have "table_ok gt" by (simp add: table_ok_def)
  moreover have "WebRtcAgc_CalculateGainTable c t l a = GainTable gt"
    using cfg unfolding CalculateGainTable_cases gt_def config_ok_def d by (simp add: cfg_def)
  ultimately show thesis using that by blast
qed

text \<open>
  A configuration whose gains should be negative (target 31 dB below an analog target of 8 dB) gets gains
  of one: the numerator is shifted out of its 32 bits and the quotient is never below -2.
\<close>

lemma attenuation_lost:
  "maxGain (agc_gain_config 9 31 False 8) = - 22"
  "map (agc_gain_db (agc_gain_config 9 31 False 8)) [0, 5, 12, 31] = [Some 0, Some (- 1), Some 1, Some 0]"
  by code_simp+

end
