(* ===== verification/AgcTheorems.thy ===== *)
theory AgcTheorems imports AgcSession AgcGainBounds begin

text \<open>
  What the digital gain control promises: its level statistics, the gain table of a configuration, the
  interpolated gain, the limiter, a frame and a whole session.
\<close>

section \<open>Concrete instances for the witnesses\<close>

text \<open>The digital gain control after \<open>WebRtcAgc_Init\<close> with its default configuration.\<close>

definition default_table :: "int list" where
  "default_table = (case WebRtcAgc_CalculateGainTable 9 3 True 8 of GainTable gt \<Rightarrow> gt | _ \<Rightarrow> [])"

definition sample_agc :: DigitalAgc where
  "sample_agc = WebRtcAgc_InitDigital
     \<lparr>capacitorSlow = 7, capacitorFast = 7, gain = 7, gainTable = default_table, gatePrevious = 7, agcMode = 7,
      vadNearend = WebRtcAgc_InitVad, vadFarend = WebRtcAgc_InitVad\<rparr> 1"

lemma default_table_ok: "table_ok default_table"
proof -
  obtain gt where "WebRtcAgc_CalculateGainTable 9 3 True 8 = GainTable gt" "table_ok gt"
    by (rule gain_table_ok [of 9 3 8 True]) simp_all
  then show ?thesis by (simp add: default_table_def)
qed

lemma sample_agc_ok: "digital_ok sample_agc"
  unfolding sample_agc_def by (rule InitDigital_ok) (simp add: default_table_ok)

definition loud_frame :: "int list" where
  "loud_frame = replicate 80 20000"

lemma loud_frame_ok: "frame_in_ok 8 [loud_frame]"
  and rate8: "agc_rate 8000 = Some (8, 3)"
  by (simp_all add: frame_in_ok_def loud_frame_def is16_def agc_rate_def)

section \<open>The level statistics\<close>

text \<open>C29: Whatever samples a frame holds, and however many, the voice activity detector of the gain
  control keeps its state well formed: the high-pass state a 16-bit sample, the frame counter between
  \<open>3\<close> and \<open>250\<close>, means, variances and deviations in their ranges, and the log ratio it returns between
  \<open>-2048\<close> and \<open>2048\<close>. The initial state is well formed.\<close>

theorem agc_vad_states:
  "agc_vad_ok (foldl (\<lambda>v (xs, n). fst (WebRtcAgc_ProcessVad v xs n)) WebRtcAgc_InitVad frames)"
  by (induction frames rule: rev_induct) (simp_all add: InitVad_ok ProcessVad_keeps split: prod.splits)

text \<open>The level of a frame with positive energy is \<open>2048\<close> per octave relative to \<open>2 ^ 16\<close>: the code's
  masks find the number of leading zeros of the energy, the normalising shift.\<close>

theorem agc_level:
  assumes "0 < nrg" "nrg < 2147483648"
  shows "agc_vad_level nrg = (15 - int (WebRtcSpl_NormU32 nrg)) * 2048 \<and>
    2 ^ 31 \<le> nrg * 2 ^ WebRtcSpl_NormU32 nrg \<and> nrg * 2 ^ WebRtcSpl_NormU32 nrg < 2 ^ 32"
  using level_range(1) [of nrg] zeros_norm [OF assms] NormU32_top [of nrg] assms by simp

theorem agc_level_witness:
  "agc_vad_level 1000 = (15 - int (WebRtcSpl_NormU32 1000)) * 2048 \<and>
    2 ^ 31 \<le> (1000 :: int) * 2 ^ WebRtcSpl_NormU32 1000 \<and> (1000 :: int) * 2 ^ WebRtcSpl_NormU32 1000 < 2 ^ 32"
  by (rule agc_level) simp_all

section \<open>The gain table\<close>

text \<open>C31: The gain table of any configuration: a compression gain outside the table of logarithms gives
  \<open>-1\<close>; the guard is three entries short, so the largest accepted gains read past the table; for every
  other one each entry is computed on its own from the configuration.\<close>

theorem gain_table_outcome:
  "WebRtcAgc_CalculateGainTable c t l a =
    (if agc_diff_gain c < 0 \<or> 128 \<le> agc_diff_gain c then BadConfig
     else if 125 \<le> agc_diff_gain c then BadRead
     else GainTable (map (the \<circ> agc_gain_entry (agc_gain_config c t l a)) [0..31]))"
  by (rule CalculateGainTable_cases)

text \<open>C20: For compression gains up to 18 dB, targets from 0 to 31 and analog targets up to 18, with the
  limiter or without, the table exists and its 32 gains lie between \<open>0\<close> and \<open>8.0\<close> in Q16.\<close>

theorem gain_table_bounds:
  assumes "0 \<le> c" "c \<le> 18" "0 \<le> t" "t \<le> 31" "0 \<le> a" "a \<le> 18"
  shows "\<exists>gt. WebRtcAgc_CalculateGainTable c t l a = GainTable gt \<and> length gt = 32 \<and>
    list_all (\<lambda>g. 0 \<le> g \<and> g \<le> 524288) gt"
proof -
  obtain gt where "WebRtcAgc_CalculateGainTable c t l a = GainTable gt" "table_ok gt" by (rule gain_table_ok [OF assms])
  then show ?thesis by (simp add: table_ok_def list_all_iff)
qed

theorem gain_table_bounds_witness:
  "\<exists>gt. WebRtcAgc_CalculateGainTable 9 3 True 8 = GainTable gt \<and> length gt = 32 \<and>
    list_all (\<lambda>g. 0 \<le> g \<and> g \<le> 524288) gt"
  by (rule gain_table_bounds) simp_all

text \<open>The exponential of the table: for an exponent \<open>e\<close> in Q14 below 30 the power lies in the octave
  of its integer part, from \<open>2 ^ p\<close> up to but without \<open>2 ^ (p + 1)\<close>.\<close>

theorem gain_octave:
  assumes "0 < e" "e < 30 * 16384"
  shows "let p = nat (e div 16384) in 2 ^ p \<le> agc_power e \<and> agc_power e < 2 ^ (p + 1)"
  using power_octave [OF assms refl] by (simp add: Let_def)

theorem gain_octave_witness:
  "let p = nat (300000 div 16384) in 2 ^ p \<le> agc_power 300000 \<and> agc_power 300000 < 2 ^ (p + 1)"
  by (rule gain_octave) simp_all

text \<open>C30: The gain for an input level is the interpolation between the two table entries of the level's
  octave, with both indices inside the table and no overflow, for every table of 32 non-negative gains whose
  neighbours differ by at most \<open>8.0\<close> (524288 in Q16). Tables up to 18 dB of compression are of this kind;
  steeper ones overflow (lemma \<open>steep_table_overflows\<close>).\<close>

theorem gain_interpolation:
  assumes "length gt = 32" "\<forall>g\<in>set gt. 0 \<le> g \<and> g < 2147483648" "\<forall>i<31. \<bar>gt ! i - gt ! Suc i\<bar> \<le> 524288"
    and "0 \<le> level" "level \<le> 1073741824"
  shows "let z = agc_level_zeros level; f = agc_level_frac level div 524288
    in 1 \<le> z \<and> z < length gt \<and> 0 \<le> f \<and> f < 4096 \<and>
       agc_gain_at gt level = gt ! z + (gt ! (z - 1) - gt ! z) * f div 4096 \<and>
       min (gt ! (z - 1)) (gt ! z) \<le> agc_gain_at gt level \<and> agc_gain_at gt level \<le> max (gt ! (z - 1)) (gt ! z)"
proof -
  have c: "level_ok level" using assms by (simp add: level_ok_def)
  show ?thesis
    using gain_at_interpolates [OF assms(1-3) c] level_zeros [OF c] int_div_lt [of 524288 "agc_level_frac level" 4096] assms(1)
    by (simp add: Let_def pos_imp_zdiv_nonneg_iff)
qed

theorem gain_interpolation_witness:
  "let z = agc_level_zeros 5000; f = agc_level_frac 5000 div 524288
    in 1 \<le> z \<and> z < length default_table \<and> 0 \<le> f \<and> f < 4096 \<and>
       agc_gain_at default_table 5000 = default_table ! z + (default_table ! (z - 1) - default_table ! z) * f div 4096 \<and>
       min (default_table ! (z - 1)) (default_table ! z) \<le> agc_gain_at default_table 5000 \<and>
       agc_gain_at default_table 5000 \<le> max (default_table ! (z - 1)) (default_table ! z)"
proof (rule gain_interpolation)
  note t = default_table_ok
  show "length default_table = 32" "\<forall>g\<in>set default_table. 0 \<le> g \<and> g < 2147483648" using t by (auto simp: table_ok_def)
  show "\<forall>i<31. \<bar>default_table ! i - default_table ! Suc i\<bar> \<le> 524288"
  proof (intro allI impI)
    fix i :: nat
    assume "i < 31"
    then show "\<bar>default_table ! i - default_table ! Suc i\<bar> \<le> 524288"
      using table_entry [OF t, of i] table_entry [OF t, of "Suc i"] unfolding abs_le_iff by simp
  qed
qed simp_all

text \<open>
  At 60 dB, inside the documented range of 0 to 90, neighbouring gains differ by more than 34: the product
  with the fraction leaves 32 bits, and the gain of a level is above both of its table entries.
\<close>

lemma steep_table_overflows:
  "case WebRtcAgc_CalculateGainTable 60 3 True 31 of
     GainTable gt \<Rightarrow> agc_level_zeros 1274 = 21 \<and> gt ! 20 = 11489792 \<and> gt ! 21 = 13722112 \<and> agc_gain_at gt 1274 = 14225688
   | _ \<Rightarrow> False"
  by code_simp

section \<open>The limiter\<close>

text \<open>C6: The limiter's loop ends, for every envelope of 16-bit samples and every gain up to full 32-bit
  range, the normalised test for gains above \<open>47453132\<close> (724 in Q16) and the coarse reduction for gains above
  \<open>8388607\<close> included. The gain it leaves is at most the one it was given and not negative, and it multiplies no
  sample of the sub-frame (whose square is at most the envelope) out of 32 bits. Conditions: the gain is not
  between \<open>47452160\<close> and \<open>47453132\<close>, where its square overflows, and the tested loudness, envelope times
  squared gain, is below \<open>2 ^ 44\<close>, so that \<open>AGC_MUL32\<close> does not overflow; gains up to 127.9 meet both at any
  envelope (lemma \<open>small_gain_range\<close>).\<close>

theorem limiter_terminates:
  assumes "0 \<le> env" "env \<le> 1073741824" "0 \<le> g" "g < 2147483648" "g < 47452160 \<or> 47453132 < g"
    and "(env div 4096 + 1) * (g div 2 ^ limiter_shift g + 1)\<^sup>2 < 17592186044416"
  shows "\<exists>g'. agc_limit env g = Some g' \<and> 0 \<le> g' \<and> g' \<le> g \<and> (\<forall>x. x * x \<le> env \<longrightarrow> \<bar>x\<bar> * g' < 2147483648)"
proof -
  have "limiter_range env g" using assms by (simp add: limiter_range_def level_ok_def)
  from limit_ends [OF this] show ?thesis by metis
qed

lemma big_gain_shift: "limiter_shift 1500000000 = 16" by code_simp

theorem limiter_terminates_witness:
  "\<exists>g'. agc_limit 1000000 1500000000 = Some g' \<and> 0 \<le> g' \<and> g' \<le> 1500000000 \<and> \<bar>- 1000\<bar> * g' < 2147483648"
proof -
  obtain g' where "agc_limit 1000000 1500000000 = Some g'" "0 \<le> g'" "g' \<le> 1500000000"
    "\<forall>x. x * x \<le> 1000000 \<longrightarrow> \<bar>x\<bar> * g' < 2147483648"
    using limiter_terminates [of 1000000 1500000000] by (auto simp: big_gain_shift)
  moreover from this(4) have "\<bar>- 1000\<bar> * g' < 2147483648" by (rule allE [of _ "- 1000"]) simp
  ultimately show ?thesis by blast
qed

text \<open>Applying a gain of the first millisecond: up to \<open>8.0\<close> the result is the exact product, or full scale
  with the sign of the sample when the product is within four steps of full scale or beyond; just above
  \<open>8.0\<close> the test for saturation overflows and a full-scale sample changes its sign.\<close>

theorem saturating_gain:
  assumes "is16 x" "0 \<le> G" "G \<le> 8388608"
  shows "(let p = x * (G div 16) div 65536
     in agc_apply_sat G x = p \<and> is16 p \<or> agc_apply_sat G x = 32767 \<and> 32764 \<le> p \<or> agc_apply_sat G x = - 32768 \<and> p \<le> - 32765) \<and>
    agc_apply_sat (16 * 524289) (- 32768) = 32767"
  using apply_sat_exact [OF assms] saturation_flips(2) by (simp add: Let_def)

theorem saturating_gain_witness:
  "(let p = 20000 * (3000000 div 16) div 65536
     in agc_apply_sat 3000000 20000 = p \<and> is16 p \<or> agc_apply_sat 3000000 20000 = 32767 \<and> 32764 \<le> p \<or>
        agc_apply_sat 3000000 20000 = - 32768 \<and> p \<le> - 32765) \<and>
    agc_apply_sat (16 * 524289) (- 32768) = 32767"
  by (rule saturating_gain) (simp_all add: is16_def)

section \<open>Frames and sessions\<close>

text \<open>C5: One frame at a supported rate. The call returns (no limiter loop runs forever), the state stays
  valid, there are eleven gains between 0 and 8.0 that start where the last frame ended, and the frame is
  the input times a gain that moves linearly between them: for every sample after the first millisecond
  of the lowest band the product fits 32 bits and the output is the exact product, rounded down. All
  bands come out as 16-bit samples.\<close>

theorem agc_frame:
  assumes "digital_ok stt" "agc_rate FS = Some (L, L2)" "frame_in_ok L bands"
  shows "\<exists>stt' gains outs. WebRtcAgc_ProcessDigital stt bands FS low = Processed stt' outs \<and> digital_ok stt' \<and>
    length gains = 11 \<and> list_all gain_ok gains \<and> gains ! 0 = gain stt \<and> gain stt' = gains ! 10 \<and>
    outs = map (agc_band L L2 gains \<circ> take (10 * L)) bands \<and> frame_out_ok L gains (bands ! 0) (outs ! 0) \<and>
    list_all (\<lambda>b. length b = 10 * L \<and> list_all is16 b) outs"
proof -
  obtain stt' gains outs where f: "WebRtcAgc_ProcessDigital stt bands FS low = Processed stt' outs"
    "digital_ok stt'" "length gains = 11" "\<forall>g\<in>set gains. gain_ok g"
    "gains ! 0 = gain stt" "gain stt' = gains ! 10" "outs = map (agc_band L L2 gains \<circ> take (10 * L)) bands"
    "frame_out_ok L gains (bands ! 0) (outs ! 0)" "\<forall>b\<in>set outs. length b = 10 * L \<and> (\<forall>y\<in>set b. is16 y)"
    by (rule frame_correct [OF assms, of low])
  show ?thesis by (intro exI conjI) (rule f(1-3,5-8) | simp add: list_all_iff f(4,9))+
qed

theorem agc_frame_witness:
  "\<exists>stt' gains outs. WebRtcAgc_ProcessDigital sample_agc [loud_frame] 8000 0 = Processed stt' outs \<and> digital_ok stt' \<and>
    length gains = 11 \<and> list_all gain_ok gains \<and> gains ! 0 = gain sample_agc \<and> gain stt' = gains ! 10 \<and>
    outs = map (agc_band 8 3 gains \<circ> take (10 * 8)) [loud_frame] \<and> frame_out_ok 8 gains ([loud_frame] ! 0) (outs ! 0) \<and>
    list_all (\<lambda>b. length b = 10 * 8 \<and> list_all is16 b) outs"
  by (rule agc_frame [OF sample_agc_ok rate8 loud_frame_ok])

text \<open>A frame long enough for every rate is never lost in the limiter's loop.\<close>

lemma never_diverges:
  assumes "digital_ok stt" "frame_in_ok 16 bands"
  shows "WebRtcAgc_ProcessDigital stt bands FS low \<noteq> Diverges"
proof (cases "agc_rate FS")
  case None
  then show ?thesis using BadRate_iff [of stt bands FS low] by simp
next
  case (Some r)
  obtain L L2 where r: "agc_rate FS = Some (L, L2)" using Some by (cases r) auto
  then have "L \<le> 16" by (auto simp: agc_rate_def split: if_splits)
  then have "frame_in_ok L bands" using assms(2) by (fastforce simp: frame_in_ok_def)
  from frame_correct [OF assms(1) r this, of low] show ?thesis by (metis agc_result.distinct(5))
qed

text \<open>C4: From initialisation with a gain table of the bounded configurations on, any sequence of near-end
  and far-end frames, of any length, at any rate (unsupported ones are rejected), keeps the digital gain
  control valid, and none of the calls hangs.\<close>

theorem digital_session:
  assumes "0 \<le> c" "c \<le> 18" "0 \<le> t" "t \<le> 31" "0 \<le> a" "a \<le> 18"
    and "WebRtcAgc_CalculateGainTable c t l a = GainTable (gainTable raw)"
    and "\<forall>call\<in>set calls. digital_call_ok call" "frame_in_ok 16 bands"
  shows "let stt = foldl digital_step (WebRtcAgc_InitDigital raw mode) calls
    in digital_ok stt \<and> WebRtcAgc_ProcessDigital stt bands FS low \<noteq> Diverges"
proof -
  have "table_ok (gainTable raw)" using gain_table_ok [OF assms(1-6), of l] assms(7) by auto
  from agc_digital.run_keeps [OF InitDigital_ok [OF this] assms(8), of mode]
  have k: "digital_ok (foldl digital_step (WebRtcAgc_InitDigital raw mode) calls)" .
  from never_diverges [OF this assms(9)]
  show ?thesis using k by (simp add: Let_def)
qed

theorem digital_session_witness:
  "let stt = foldl digital_step (WebRtcAgc_InitDigital (sample_agc\<lparr>gainTable := default_table\<rparr>) 1)
       [Near [loud_frame] 8000 0, Far loud_frame 80, Near [] 44100 1]
    in digital_ok stt \<and> WebRtcAgc_ProcessDigital stt [replicate 160 9] 16000 1 \<noteq> Diverges"
proof (rule digital_session [of 9 3 8 True])
  obtain gt where "WebRtcAgc_CalculateGainTable 9 3 True 8 = GainTable gt"
    by (rule gain_table_ok [of 9 3 8 True]) simp_all
  then show "WebRtcAgc_CalculateGainTable 9 3 True 8 = GainTable (gainTable (sample_agc\<lparr>gainTable := default_table\<rparr>))"
    by (simp add: default_table_def)
  show "frame_in_ok 16 [replicate 160 9]" by (simp add: frame_in_ok_def is16_def)
  show "\<forall>call\<in>set [Near [loud_frame] 8000 0, Far loud_frame 80, Near [] 44100 1]. digital_call_ok call"
    by (simp add: rate8 loud_frame_ok) (simp add: agc_rate_def)
qed simp_all

end
