(* ===== verification/AnalogAgc.thy ===== *)
theory AnalogAgc imports DigitalAgc begin

text \<open>
  The analog level control (\<open>agc/legacy/analog_agc.c\<close>, \<open>analog_agc.h\<close>): it follows the energy of the
  microphone signal and steers the volume of the recording device, or, when there is none, a virtual
  microphone; the digital gain control runs inside it. \<open>scale\<close> is always 0 in the code; the
  alternatives under \<open>MIC_LEVEL_FEEDBACK\<close> and \<open>WEBRTC_AGC_DEBUG_DUMP\<close> are not compiled. Where the code
  would divide by zero or read outside a table the result is \<open>None\<close>.
\<close>

section \<open>State\<close>

record WebRtcAgcConfig =
  cfg_targetLevelDbfs :: int
  cfg_compressionGaindB :: int
  cfg_limiterEnable :: int

record LegacyAgc =
  agc_fs :: int
  compressionGaindB :: int
  targetLevelDbfs :: int
  agc_mode :: int
  limiterEnable :: int
  defaultConfig :: WebRtcAgcConfig
  usedConfig :: WebRtcAgcConfig
  initFlag :: int
  lastError :: int
  analogTargetLevel :: int
  startUpperLimit :: int
  startLowerLimit :: int
  upperPrimaryLimit :: int
  lowerPrimaryLimit :: int
  upperSecondaryLimit :: int
  lowerSecondaryLimit :: int
  targetIdx :: int
  analogTarget :: int
  filterState :: two_phase
  upperLimit :: int
  lowerLimit :: int
  Rxx160w32 :: int
  Rxx16_LPw32 :: int
  Rxx160_LPw32 :: int
  Rxx16_LPw32Max :: int
  Rxx16_vectorw32 :: "int list"
  Rxx16w32_array :: "int list list"
  env_queue :: "int list list"
  Rxx16pos :: int
  envSum :: int
  vadThreshold :: int
  inActive :: int
  msTooLow :: int
  msTooHigh :: int
  changeToSlowMode :: int
  firstCall :: int
  msZero :: int
  msecSpeechOuterChange :: int
  msecSpeechInnerChange :: int
  activeSpeech :: int
  muteGuardMs :: int
  inQueue :: int
  micRef :: int
  gainTableIdx :: int
  micGainIdx :: int
  micVol :: int
  maxLevel :: int
  maxAnalog :: int
  maxInit :: int
  minLevel :: int
  minOutput :: int
  zeroCtrlMax :: int
  lastInMicLevel :: int
  agc_scale :: int
  vadMic :: AgcVad
  digitalAgc :: DigitalAgc
  lowLevelSignal :: int

section \<open>Constants\<close>

definition kAgcModeUnchanged :: int where "kAgcModeUnchanged = 0"
definition kAgcModeAdaptiveAnalog :: int where "kAgcModeAdaptiveAnalog = 1"
definition kAgcModeAdaptiveDigital :: int where "kAgcModeAdaptiveDigital = 2"
definition kAgcInitCheck :: int where "kAgcInitCheck = 42"
definition kMuteGuardTimeMs :: int where "kMuteGuardTimeMs = 8000"
definition kMsecSpeechInner :: int where "kMsecSpeechInner = 520"
definition kMsecSpeechOuter :: int where "kMsecSpeechOuter = 340"
definition kNormalVadThreshold :: int where "kNormalVadThreshold = 400"
definition AGC_UNSPECIFIED_ERROR :: int where "AGC_UNSPECIFIED_ERROR = 18000"
definition AGC_UNINITIALIZED_ERROR :: int where "AGC_UNINITIALIZED_ERROR = 18002"
definition AGC_NULL_POINTER_ERROR :: int where "AGC_NULL_POINTER_ERROR = 18003"
definition AGC_BAD_PARAMETER_ERROR :: int where "AGC_BAD_PARAMETER_ERROR = 18004"

definition kSlope1 :: "int list" where "kSlope1 = [21793, 12517, 7189, 4129, 2372, 1362, 472, 78]"
definition kOffset1 :: "int list" where
  "kOffset1 = [25395, 23911, 22206, 20737, 19612, 18805, 17951, 17367]"
definition kSlope2 :: "int list" where "kSlope2 = [2063, 1731, 1452, 1218, 1021, 857, 597, 337]"
definition kOffset2 :: "int list" where
  "kOffset2 = [18432, 18379, 18290, 18177, 18052, 17920, 17670, 17286]"

definition kGainTableAnalog :: "int list" where
  "kGainTableAnalog = [4096, 4251, 4412, 4579, 4752,
        4932, 5118, 5312, 5513, 5722, 5938, 6163, 6396, 6638, 6889, 7150, 7420, 7701, 7992,
        8295, 8609, 8934, 9273, 9623, 9987, 10365, 10758, 11165, 11587, 12025, 12480, 12953]"

definition kGainTableVirtualMic :: "int list" where
  "kGainTableVirtualMic = [1052, 1081, 1110, 1141, 1172, 1204,
        1237, 1271, 1305, 1341, 1378, 1416, 1454, 1494, 1535, 1577, 1620, 1664, 1710, 1757,
        1805, 1854, 1905, 1957, 2010, 2065, 2122, 2180, 2239, 2301, 2364, 2428, 2495, 2563,
        2633, 2705, 2779, 2855, 2933, 3013, 3096, 3180, 3267, 3357, 3449, 3543, 3640, 3739,
        3842, 3947, 4055, 4166, 4280, 4397, 4517, 4640, 4767, 4898, 5032, 5169, 5311, 5456,
        5605, 5758, 5916, 6078, 6244, 6415, 6590, 6770, 6956, 7146, 7341, 7542, 7748, 7960,
        8178, 8402, 8631, 8867, 9110, 9359, 9615, 9878, 10148, 10426, 10711, 11004, 11305,
        11614, 11932, 12258, 12593, 12938, 13292, 13655, 14029, 14412, 14807, 15212, 15628,
        16055, 16494, 16945, 17409, 17885, 18374, 18877, 19393, 19923, 20468, 21028, 21603,
        22194, 22801, 23425, 24065, 24724, 25400, 26095, 26808, 27541, 28295, 29069, 29864,
        30681, 31520, 32382]"

definition kSuppressionTableVirtualMic :: "int list" where
  "kSuppressionTableVirtualMic = [1024, 1006, 988, 970, 952,
        935, 918, 902, 886, 870, 854, 839, 824, 809, 794, 780, 766, 752, 739, 726, 713, 700,
        687, 675, 663, 651, 639, 628, 616, 605, 594, 584, 573, 563, 553, 543, 533, 524, 514,
        505, 496, 487, 478, 470, 461, 453, 445, 437, 429, 421, 414, 406, 399, 392, 385, 378,
        371, 364, 358, 351, 345, 339, 333, 327, 321, 315, 309, 304, 298, 293, 288, 283, 278,
        273, 268, 263, 258, 254, 249, 244, 240, 236, 232, 227, 223, 219, 215, 211, 208, 204,
        200, 197, 193, 190, 186, 183, 180, 176, 173, 170, 167, 164, 161, 158, 155, 153, 150,
        147, 145, 142, 139, 137, 134, 132, 130, 127, 125, 123, 121, 118, 116, 114, 112, 110,
        108, 106, 104, 102]"

definition kTargetLevelTable :: "int list" where
  "kTargetLevelTable = [134209536, 106606424, 84680493, 67264106,
        53429779, 42440782, 33711911, 26778323, 21270778, 16895980, 13420954, 10660642,
        8468049, 6726411, 5342978, 4244078, 3371191, 2677832, 2127078, 1689598, 1342095,
        1066064, 846805, 672641, 534298, 424408, 337119, 267783, 212708, 168960, 134210,
        106606, 84680, 67264, 53430, 42441, 33712, 26778, 21271, 16896, 13421, 10661, 8468,
        6726, 5343, 4244, 3371, 2678, 2127, 1690, 1342, 1066, 847, 673, 534, 424, 337, 268,
        213, 169, 134, 107, 85, 67]"

section \<open>The microphone signal\<close>

definition agc_samples_ok :: "int \<Rightarrow> nat \<Rightarrow> bool" where
  "agc_samples_ok fs samples \<longleftrightarrow> (if fs = 8000 then samples = 80 else samples = 160)"

definition agc_clip :: "int \<Rightarrow> int" where
  "agc_clip sample = (if sample > 32767 then 32767 else if sample < - 32768 then - 32768 else s16 sample)"

text \<open>The step of the supplementary gain that \<open>micVol\<close> above \<open>maxAnalog\<close> asks for. The code asserts a positive
  divisor and an index inside its table; \<open>None\<close> stands for their failure.\<close>

definition agc_target_idx :: "LegacyAgc \<Rightarrow> int option" where
  "agc_target_idx stt =
     (let tmp32 = s32 (31 * s16 (micVol stt - maxAnalog stt));
          tmp16 = s16 (maxLevel stt - maxAnalog stt)
      in if tmp16 = 0 then None else Some (u16 (tmp32 sdiv tmp16)))"

definition agc_supplementary :: "LegacyAgc \<Rightarrow> int list list \<Rightarrow> nat \<Rightarrow> (LegacyAgc \<times> int list list) option" where
  "agc_supplementary stt in_mic samples =
     (if micVol stt > maxAnalog stt
      then case agc_target_idx stt of None \<Rightarrow> None
           | Some target \<Rightarrow>
             let idx = (if gainTableIdx stt < target then u16 (gainTableIdx stt + 1)
                        else if gainTableIdx stt > target then u16 (gainTableIdx stt - 1)
                        else gainTableIdx stt)
             in if idx \<ge> 32 then None
                else let gain = kGainTableAnalog ! nat idx
                     in Some (stt\<lparr>gainTableIdx := idx\<rparr>,
                          map (\<lambda>band. map (\<lambda>x. agc_clip (sar (s32 (x * gain)) 12)) (take samples band)
                            @ drop samples band) in_mic)
      else Some (stt\<lparr>gainTableIdx := 0\<rparr>, in_mic))"

text \<open>
  Energies of five blocks of 16 samples: at 16 kHz from the down-sampled frame, otherwise from the
  first 80 samples.
\<close>

definition agc_block_energies :: "int \<Rightarrow> int list \<Rightarrow> two_phase \<Rightarrow> two_phase \<times> int list" where
  "agc_block_energies fs xs filt =
     scan (\<lambda>filt i.
       let (filt, tmp_speech) =
             (if fs = 16000 then WebRtcSpl_DownsampleBy2 (take 32 (drop (i * 32) xs)) filt
              else (filt, take 16 (drop (i * 16) xs)))
       in (filt, WebRtcSpl_DotProductWithScale tmp_speech tmp_speech 16 4)) filt [0..<5]"

definition WebRtcAgc_AddMic :: "LegacyAgc \<Rightarrow> int list list \<Rightarrow> nat \<Rightarrow> (LegacyAgc \<times> int list list \<times> int) option" where
  "WebRtcAgc_AddMic stt in_mic samples =
     (if \<not> agc_samples_ok (agc_fs stt) samples then Some (stt, in_mic, - 1)
      else case agc_supplementary stt in_mic samples of None \<Rightarrow> None
      | Some (stt, in_mic) \<Rightarrow>
        let L = (if agc_fs stt = 8000 then 8 else 16);
            q = (if inQueue stt > 0 then 1 else 0);
            stt = stt\<lparr>env_queue := (env_queue stt)[q := agc_env L (in_mic ! 0)]\<rparr>;
            (filt, nrgs) = agc_block_energies (agc_fs stt) (in_mic ! 0) (filterState stt);
            stt = stt\<lparr>filterState := filt, Rxx16w32_array := (Rxx16w32_array stt)[q := nrgs],
                      inQueue := (if inQueue stt = 0 then 1 else 2),
                      vadMic := fst (WebRtcAgc_ProcessVad (vadMic stt) (in_mic ! 0) samples)\<rparr>
        in Some (stt, in_mic, 0))"

definition WebRtcAgc_GetAddFarendError :: "LegacyAgc option \<Rightarrow> nat \<Rightarrow> int" where
  "WebRtcAgc_GetAddFarendError handle samples =
     (case handle of None \<Rightarrow> - 1
      | Some stt \<Rightarrow>
        if agc_fs stt = 8000 then (if samples \<noteq> 80 then - 1 else 0)
        else if agc_fs stt = 16000 \<or> agc_fs stt = 32000 \<or> agc_fs stt = 48000
        then (if samples \<noteq> 160 then - 1 else 0)
        else - 1)"

definition WebRtcAgc_AddFarend :: "LegacyAgc option \<Rightarrow> int list \<Rightarrow> nat \<Rightarrow> LegacyAgc option \<times> int" where
  "WebRtcAgc_AddFarend handle in_far samples =
     (let err = WebRtcAgc_GetAddFarendError handle samples
      in if err \<noteq> 0 then (handle, err)
         else (map_option (\<lambda>stt. stt\<lparr>digitalAgc := WebRtcAgc_AddFarendToDigital (digitalAgc stt) in_far samples\<rparr>) handle, 0))"

section \<open>The virtual microphone\<close>

text \<open>Frame energy, no longer added up above the limit, and the number of sign changes.\<close>

definition agc_frame_energy :: "int \<Rightarrow> int list \<Rightarrow> int" where
  "agc_frame_energy limit xs =
     foldl (\<lambda>frameNrg x. if frameNrg < limit then u32 (frameNrg + u32 (s32 (x * x))) else frameNrg)
       (u32 (s32 (hd xs * hd xs))) (tl xs)"

fun agc_zero_crossings :: "int list \<Rightarrow> int" where
  "agc_zero_crossings (x # y # xs) = (if y XOR x < 0 then 1 else 0) + agc_zero_crossings (y # xs)"
| "agc_zero_crossings xs = 0"

definition agc_low_level :: "int \<Rightarrow> int list \<Rightarrow> int" where
  "agc_low_level fs xs =
     (let limit = (if fs \<noteq> 8000 then 11000 else 5500);
          frameNrg = agc_frame_energy limit xs;
          numZeroCrossing = agc_zero_crossings xs
      in if frameNrg < 500 \<or> numZeroCrossing \<le> 5 then 1
         else if numZeroCrossing \<le> 15 then 0
         else if frameNrg \<le> limit then 1
         else if numZeroCrossing \<ge> 20 then 1 else 0)"

text \<open>The gain of an index at the start of a frame, and after a step down.\<close>

definition agc_table :: "int list \<Rightarrow> int \<Rightarrow> int option" where
  "agc_table table i = (if 0 \<le> i \<and> i < int (length table) then Some (table ! nat i) else None)"

definition agc_virtual_start :: "int \<Rightarrow> int option" where
  "agc_virtual_start gainIdx =
     (if gainIdx > 127 then agc_table kGainTableVirtualMic (gainIdx - 128)
      else agc_table kSuppressionTableVirtualMic (127 - gainIdx))"

definition agc_virtual_next :: "int \<Rightarrow> int option" where
  "agc_virtual_next gainIdx =
     (if gainIdx \<ge> 127 then agc_table kGainTableVirtualMic (gainIdx - 127)
      else agc_table kSuppressionTableVirtualMic (127 - gainIdx))"

text \<open>
  The lowest band: final index, output samples, and the gain the other bands use for each sample.
\<close>

fun agc_virtual_run :: "int \<Rightarrow> int \<Rightarrow> int list \<Rightarrow> (int \<times> int list \<times> int list) option" where
  "agc_virtual_run gainIdx g [] = Some (gainIdx, [], [])"
| "agc_virtual_run gainIdx g (x # xs) =
     (let tmpFlt = sar (s32 (x * g)) 10;
          step = (tmpFlt > 32767 \<or> tmpFlt < - 32768);
          tmpFlt = (if tmpFlt > 32767 then 32767 else if tmpFlt < - 32768 then - 32768 else tmpFlt);
          gainIdx = (if step then s32 (gainIdx - 1) else gainIdx)
      in case (if step then agc_virtual_next gainIdx else Some g) of None \<Rightarrow> None
         | Some g' \<Rightarrow>
           map_option (\<lambda>(idx, ys, gs). (idx, s16 tmpFlt # ys, g' # gs)) (agc_virtual_run gainIdx g' xs))"

definition WebRtcAgc_VirtualMic ::
  "LegacyAgc \<Rightarrow> int list list \<Rightarrow> nat \<Rightarrow> int \<Rightarrow> (LegacyAgc \<times> int list list \<times> int \<times> int) option" where
  "WebRtcAgc_VirtualMic stt in_near samples micLevelIn =
     (let stt = stt\<lparr>lowLevelSignal := agc_low_level (agc_fs stt) (take samples (in_near ! 0))\<rparr>;
          gainIdx = (if micVol stt > maxAnalog stt then maxAnalog stt else micVol stt);
          (stt, gainIdx) =
            (if micLevelIn \<noteq> micRef stt
             then (stt\<lparr>micRef := micLevelIn, micVol := 127, micGainIdx := 127\<rparr>, 127) else (stt, gainIdx))
      in case agc_virtual_start gainIdx of None \<Rightarrow> None
         | Some g \<Rightarrow>
           case agc_virtual_run gainIdx g (take samples (in_near ! 0)) of None \<Rightarrow> None
           | Some (gainIdx, ys, gains) \<Rightarrow>
             let band0 = ys @ drop samples (in_near ! 0);
                 others = map (\<lambda>band. map2 (\<lambda>x g. agc_clip (sar (s32 (x * g)) 10)) (take samples band) gains
                   @ drop samples band) (tl in_near);
                 stt = stt\<lparr>micGainIdx := gainIdx\<rparr>
             in map_option (\<lambda>(stt, in_mic, r). (stt, in_mic, gainIdx, if r \<noteq> 0 then - 1 else 0))
                  (WebRtcAgc_AddMic stt (band0 # others) samples))"

section \<open>Configuration\<close>

definition WebRtcAgc_UpdateAgcThresholds :: "LegacyAgc \<Rightarrow> LegacyAgc" where
  "WebRtcAgc_UpdateAgcThresholds stt =
     (let tmp16 = s16 (5 * compressionGaindB stt + 5);
          tmp16 = WebRtcSpl_DivW32W16ResW16 tmp16 11;
          analog = s16 (4 + tmp16);
          analog = (if analog < 4 then 4 else analog);
          analog = (if agc_mode stt = kAgcModeFixedDigital then compressionGaindB stt else analog);
          target = 11 + 9;
          level = (\<lambda>i. s32 (10 * kTargetLevelTable ! i))
      in stt\<lparr>analogTarget := analog, targetIdx := int target,
             analogTargetLevel := level target,
             startUpperLimit := level (target - 1), startLowerLimit := level (target + 1),
             upperPrimaryLimit := level (target - 2), lowerPrimaryLimit := level (target + 2),
             upperSecondaryLimit := level (target - 5), lowerSecondaryLimit := level (target + 5),
             upperLimit := level (target - 1), lowerLimit := level (target + 1)\<rparr>)"

text \<open>The gain table of the new parameters; \<open>None\<close> is the read past the table of logarithms.\<close>

definition agc_reconfigure :: "LegacyAgc \<Rightarrow> WebRtcAgcConfig \<Rightarrow> (LegacyAgc \<times> int) option" where
  "agc_reconfigure stt config =
     (let stt = WebRtcAgc_UpdateAgcThresholds stt
      in case WebRtcAgc_CalculateGainTable (compressionGaindB stt) (targetLevelDbfs stt)
                (limiterEnable stt \<noteq> 0) (analogTarget stt) of
           BadRead \<Rightarrow> None
         | BadConfig \<Rightarrow> Some (stt, - 1)
         | GainTable gt \<Rightarrow>
           Some (stt\<lparr>digitalAgc := (digitalAgc stt)\<lparr>gainTable := gt\<rparr>, usedConfig := config\<rparr>, 0))"

definition agc_set_config :: "LegacyAgc \<Rightarrow> WebRtcAgcConfig \<Rightarrow> (LegacyAgc \<times> int) option" where
  "agc_set_config stt config =
     (if initFlag stt \<noteq> kAgcInitCheck then Some (stt\<lparr>lastError := AGC_UNINITIALIZED_ERROR\<rparr>, - 1)
      else if cfg_limiterEnable config \<noteq> 0 \<and> cfg_limiterEnable config \<noteq> 1
      then Some (stt\<lparr>lastError := AGC_BAD_PARAMETER_ERROR\<rparr>, - 1)
      else
        let stt = stt\<lparr>limiterEnable := cfg_limiterEnable config, compressionGaindB := cfg_compressionGaindB config\<rparr>
        in if cfg_targetLevelDbfs config < 0 \<or> cfg_targetLevelDbfs config > 31
           then Some (stt\<lparr>lastError := AGC_BAD_PARAMETER_ERROR\<rparr>, - 1)
           else agc_reconfigure
             (stt\<lparr>targetLevelDbfs := cfg_targetLevelDbfs config,
                 compressionGaindB := (if agc_mode stt = kAgcModeFixedDigital
                   then s16 (compressionGaindB stt + cfg_targetLevelDbfs config) else compressionGaindB stt)\<rparr>) config)"

definition WebRtcAgc_set_config ::
  "LegacyAgc option \<Rightarrow> WebRtcAgcConfig \<Rightarrow> (LegacyAgc option \<times> int) option" where
  "WebRtcAgc_set_config handle config =
     (case handle of None \<Rightarrow> Some (None, - 1)
      | Some stt \<Rightarrow> map_option (\<lambda>(stt, r). (Some stt, r)) (agc_set_config stt config))"

text \<open>The caller's structure may be null; it is filled on success.\<close>

definition WebRtcAgc_get_config ::
  "LegacyAgc option \<Rightarrow> WebRtcAgcConfig option \<Rightarrow> LegacyAgc option \<times> WebRtcAgcConfig option \<times> int" where
  "WebRtcAgc_get_config handle config =
     (case handle of None \<Rightarrow> (None, config, - 1)
      | Some stt \<Rightarrow>
        if config = None then (Some (stt\<lparr>lastError := AGC_NULL_POINTER_ERROR\<rparr>), config, - 1)
        else if initFlag stt \<noteq> kAgcInitCheck
        then (Some (stt\<lparr>lastError := AGC_UNINITIALIZED_ERROR\<rparr>), config, - 1)
        else (handle, Some (usedConfig stt), 0))"

text \<open>\<open>raw\<close> is the memory \<open>malloc\<close> returns; the code does not check for failure.\<close>

definition WebRtcAgc_Create :: "LegacyAgc \<Rightarrow> LegacyAgc" where
  "WebRtcAgc_Create raw = raw\<lparr>initFlag := 0, lastError := 0\<rparr>"

definition WebRtcAgc_Free :: "LegacyAgc option \<Rightarrow> LegacyAgc option" where
  "WebRtcAgc_Free state = None"

text \<open>The volume range: \<open>minLevel\<close> to \<open>maxAnalog\<close>, a quarter more with supplementary gain.\<close>

definition agc_init_levels :: "LegacyAgc \<Rightarrow> int \<Rightarrow> int \<Rightarrow> LegacyAgc" where
  "agc_init_levels stt minLev maxLev =
     (let stt = stt\<lparr>minLevel := minLev, maxAnalog := maxLev,
                    maxLevel := s32 (maxLev + s32 (maxLev - minLev) sdiv 4)\<rparr>;
          stt = stt\<lparr>maxInit := maxLevel stt, zeroCtrlMax := maxAnalog stt, lastInMicLevel := 0,
                    micVol := (if agc_mode stt = kAgcModeAdaptiveDigital then 127 else maxAnalog stt)\<rparr>;
          tmp32 = sar (s32 (s32 (maxLevel stt - minLevel stt) * 10)) 8
      in stt\<lparr>micRef := micVol stt, micGainIdx := 127, minOutput := s32 (minLevel stt + tmp32)\<rparr>)"

definition agc_init_state :: "LegacyAgc \<Rightarrow> LegacyAgc" where
  "agc_init_state stt =
     stt\<lparr>msTooLow := 0, msTooHigh := 0, changeToSlowMode := 0, firstCall := 0, msZero := 0,
         muteGuardMs := 0, gainTableIdx := 0, msecSpeechInnerChange := kMsecSpeechInner,
         msecSpeechOuterChange := kMsecSpeechOuter, activeSpeech := 0, Rxx16_LPw32Max := 0,
         vadThreshold := kNormalVadThreshold, inActive := 0, Rxx16_vectorw32 := replicate 10 1000,
         Rxx160w32 := 125 * 10, Rxx16pos := 0, Rxx16_LPw32 := 16284,
         Rxx16w32_array := (Rxx16w32_array stt)[0 := replicate 5 0],
         env_queue := [replicate 10 0, replicate 10 0], inQueue := 0, filterState := two_phase_zero,
         initFlag := kAgcInitCheck,
         defaultConfig := \<lparr>cfg_targetLevelDbfs = 3, cfg_compressionGaindB = 9, cfg_limiterEnable = 1\<rparr>\<rparr>"

definition WebRtcAgc_Init :: "LegacyAgc \<Rightarrow> int \<Rightarrow> int \<Rightarrow> int \<Rightarrow> int \<Rightarrow> (LegacyAgc \<times> int) option" where
  "WebRtcAgc_Init stt minLev maxLev mode fs =
     (let stt = stt\<lparr>digitalAgc := WebRtcAgc_InitDigital (digitalAgc stt) mode, envSum := 0\<rparr>
      in if mode < kAgcModeUnchanged \<or> mode > kAgcModeFixedDigital then Some (stt, - 1)
         else
           let (minLev, maxLev) = (if mode = kAgcModeAdaptiveDigital then (0, 255) else (minLev, maxLev));
               stt = stt\<lparr>agc_mode := mode, agc_fs := fs, vadMic := WebRtcAgc_InitVad, agc_scale := 0\<rparr>;
               stt = agc_init_state (agc_init_levels stt minLev maxLev)
           in case agc_set_config stt (defaultConfig stt) of None \<Rightarrow> None
              | Some (stt, r) \<Rightarrow>
                if r = - 1 then Some (stt\<lparr>lastError := AGC_UNSPECIFIED_ERROR\<rparr>, - 1)
                else let stt = stt\<lparr>Rxx160_LPw32 := analogTargetLevel stt, lowLevelSignal := 0\<rparr>
                     in if minLev \<ge> maxLev \<or> u32 maxLev AND 0xFC000000 \<noteq> 0 then Some (stt, - 1)
                        else Some (stt, 0))"

section \<open>Controls of the analog level\<close>

definition WebRtcAgc_SaturationCtrl :: "LegacyAgc \<Rightarrow> int list \<Rightarrow> LegacyAgc \<times> bool" where
  "WebRtcAgc_SaturationCtrl stt env =
     (let sum = foldl (\<lambda>sum e. let tmpW16 = s16 (sar e 20) in if tmpW16 > 875 then s16 (sum + tmpW16) else sum)
            (envSum stt) (take 10 env);
          saturated = sum > 25000;
          sum = (if saturated then 0 else sum)
      in (stt\<lparr>envSum := s16 (sar (s32 (sum * 32440)) 15)\<rparr>, saturated))"

definition WebRtcAgc_ZeroCtrl :: "LegacyAgc \<Rightarrow> int \<Rightarrow> int list \<Rightarrow> LegacyAgc \<times> int" where
  "WebRtcAgc_ZeroCtrl stt inMicLevel env =
     (let tmp32 = foldl (\<lambda>sum e. s32 (sum + e)) 0 (take 10 env);
          stt = stt\<lparr>msZero := (if tmp32 < 500 then s16 (msZero stt + 10) else 0),
                    muteGuardMs := (if muteGuardMs stt > 0 then s16 (muteGuardMs stt - 10) else muteGuardMs stt)\<rparr>
      in if msZero stt > 500
         then let midVal = s32 (s32 (maxAnalog stt + minLevel stt) + 1) sdiv 2;
                  raised = sar (s32 (1126 * inMicLevel)) 10;
                  raised = (if raised < zeroCtrlMax stt then raised else zeroCtrlMax stt);
                  (stt, inMicLevel) =
                    (if inMicLevel < midVal then (stt\<lparr>micVol := raised\<rparr>, raised) else (stt, inMicLevel))
              in (stt\<lparr>msZero := 0, activeSpeech := 0, Rxx16_LPw32Max := 0, muteGuardMs := kMuteGuardTimeMs\<rparr>, inMicLevel)
         else (stt, inMicLevel))"

definition WebRtcAgc_SpeakerInactiveCtrl :: "LegacyAgc \<Rightarrow> LegacyAgc" where
  "WebRtcAgc_SpeakerInactiveCtrl stt =
     (let std = stdLongTerm (vadMic stt)
      in if std < 2500 then stt\<lparr>vadThreshold := 1500\<rparr>
         else let vadThresh = (if std < 4500 then s16 (kNormalVadThreshold + (4500 - std) sdiv 2) else kNormalVadThreshold);
                  tmp32 = s32 (vadThresh + 31 * vadThreshold stt)
              in stt\<lparr>vadThreshold := s16 (sar tmp32 5)\<rparr>)"

definition WebRtcAgc_ExpCurve :: "int \<Rightarrow> nat" where
  "WebRtcAgc_ExpCurve volume =
     (if volume > 5243
      then if volume > 7864 then (if volume > 12124 then 7 else 6) else if volume > 6554 then 5 else 4
      else if volume > 2621 then (if volume > 3932 then 3 else 2) else if volume > 1311 then 1 else 0)"

section \<open>Analog processing\<close>

text \<open>
  The level the frame starts from: the range of the first call, the supplementary gain, manual
  changes. The result is the new state and the local \<open>inMicLevelTmp\<close>.
\<close>

definition agc_tenth :: "LegacyAgc \<Rightarrow> int" where
  "agc_tenth stt = s32 (minLevel stt + sar (s32 (s32 (maxLevel stt - minLevel stt) * 51)) 9)"

definition agc_first_call :: "LegacyAgc \<Rightarrow> int \<Rightarrow> LegacyAgc \<times> int" where
  "agc_first_call stt tmp =
     (if firstCall stt = 0
      then let tmp = (if tmp < agc_tenth stt \<and> agc_mode stt = kAgcModeAdaptiveAnalog then agc_tenth stt else tmp)
           in (stt\<lparr>firstCall := 1, micVol := tmp\<rparr>, tmp)
      else (stt, tmp))"

definition agc_manual_change :: "LegacyAgc \<Rightarrow> int \<Rightarrow> int \<Rightarrow> LegacyAgc \<times> int" where
  "agc_manual_change stt inMicLevel tmp =
     (let tmp = (if tmp = maxAnalog stt \<and> micVol stt > maxAnalog stt then micVol stt else tmp);
          (stt, tmp) =
            (if tmp \<noteq> micVol stt \<and> tmp < minOutput stt
             then (stt\<lparr>micVol := agc_tenth stt\<rparr>, agc_tenth stt) else (stt, tmp));
          (stt, tmp) =
            (if tmp \<noteq> micVol stt
             then if inMicLevel = lastInMicLevel stt then (stt, micVol stt) else (stt\<lparr>micVol := tmp\<rparr>, tmp)
             else (stt, tmp))
      in (stt\<lparr>maxLevel := (if tmp > maxLevel stt then tmp else maxLevel stt), lastInMicLevel := inMicLevel\<rparr>, tmp))"

text \<open>A level scaled by a factor \<open>w\<close> in Q\<open>sh\<close>, relative to the lowest one.\<close>

definition agc_scaled :: "int \<Rightarrow> nat \<Rightarrow> LegacyAgc \<Rightarrow> int \<Rightarrow> int" where
  "agc_scaled w sh stt tmp = s32 (sar (u32 (u32 w * u32 (s32 (tmp - minLevel stt)))) sh + minLevel stt)"

definition agc_saturated :: "LegacyAgc \<Rightarrow> int \<Rightarrow> int \<Rightarrow> LegacyAgc \<times> int" where
  "agc_saturated stt tmp lastMicVol =
     (let vol = agc_scaled 29591 15 stt tmp;
          vol = (if vol > s32 (lastMicVol - 2) then s32 (lastMicVol - 2) else vol)
      in (stt\<lparr>Rxx160_LPw32 := s32 (Rxx160_LPw32 stt sdiv 8 * 7), zeroCtrlMax := micVol stt, micVol := vol,
             msTooHigh := - 100, activeSpeech := 0, Rxx16_LPw32Max := 0,
             msecSpeechInnerChange := kMsecSpeechInner, msecSpeechOuterChange := kMsecSpeechOuter,
             changeToSlowMode := 0, muteGuardMs := 0,
             upperLimit := startUpperLimit stt, lowerLimit := startLowerLimit stt\<rparr>, vol))"

text \<open>The energy measures of one block.\<close>

definition agc_measure :: "LegacyAgc \<Rightarrow> int \<Rightarrow> LegacyAgc" where
  "agc_measure stt rxx =
     (let pos = nat (Rxx16pos stt);
          tmp32 = sar (s32 (rxx - Rxx16_vectorw32 stt ! pos)) 3;
          next = s16 (Rxx16pos stt + 1)
      in stt\<lparr>Rxx160w32 := s32 (Rxx160w32 stt + tmp32), Rxx16_vectorw32 := (Rxx16_vectorw32 stt)[pos := rxx],
             Rxx16pos := (if next = 10 then 0 else next),
             Rxx16_LPw32 := s32 (Rxx16_LPw32 stt + sar (s32 (rxx - Rxx16_LPw32 stt)) 6)\<rparr>)"

definition agc_speech_energy :: "LegacyAgc \<Rightarrow> LegacyAgc" where
  "agc_speech_energy stt =
     (let stt = (if activeSpeech stt < 250
                 then stt\<lparr>activeSpeech := s16 (activeSpeech stt + 2),
                          Rxx16_LPw32Max := (if Rxx16_LPw32 stt > Rxx16_LPw32Max stt then Rxx16_LPw32 stt else Rxx16_LPw32Max stt)\<rparr>
                 else if activeSpeech stt = 250
                 then stt\<lparr>activeSpeech := s16 (activeSpeech stt + 2), Rxx160_LPw32 := s32 (sar (Rxx16_LPw32Max stt) 3 * 10)\<rparr>
                 else stt)
      in stt\<lparr>Rxx160_LPw32 := s32 (Rxx160_LPw32 stt + sar (s32 (Rxx160w32 stt - Rxx160_LPw32 stt)) 10)\<rparr>)"

text \<open>Lowering the level by the factor \<open>w\<close>, and the range of the supplementary gain with it.\<close>

definition agc_lower :: "int \<Rightarrow> int \<Rightarrow> LegacyAgc \<Rightarrow> int \<Rightarrow> LegacyAgc \<times> int" where
  "agc_lower w lastMicVol stt tmp =
     (let maxLev = s32 (s32 (15 * maxLevel stt) + micVol stt) sdiv 16;
          maxLev = (if maxLev > maxAnalog stt then maxLev else maxAnalog stt);
          vol = agc_scaled w 15 stt tmp;
          vol = (if vol > s32 (lastMicVol - 1) then s32 (lastMicVol - 1) else vol)
      in (stt\<lparr>msTooHigh := 0, maxLevel := maxLev, zeroCtrlMax := micVol stt, micVol := vol\<rparr>, vol))"

text \<open>Raising it by a factor that depends on the level, by at least \<open>step\<close>.\<close>

definition agc_raise_weight :: "int list \<Rightarrow> int list \<Rightarrow> LegacyAgc \<Rightarrow> int \<Rightarrow> int" where
  "agc_raise_weight offset slope stt tmp =
     (let tmp32 = shl32 (s32 (tmp - minLevel stt)) 14;
          volNormFIX = (if maxInit stt \<noteq> minLevel stt then s16 (tmp32 sdiv s32 (maxInit stt - minLevel stt)) else 16384);
          index = WebRtcAgc_ExpCurve volNormFIX
      in s16 (offset ! index - s16 (sar (s32 (slope ! index * volNormFIX)) 13)))"

definition agc_raise :: "int list \<Rightarrow> int list \<Rightarrow> int \<Rightarrow> int \<Rightarrow> LegacyAgc \<Rightarrow> int \<Rightarrow> LegacyAgc \<times> int" where
  "agc_raise offset slope step lastMicVol stt tmp =
     (let vol = agc_scaled (agc_raise_weight offset slope stt tmp) 14 stt tmp;
          vol = (if vol < s32 (lastMicVol + step) then s32 (lastMicVol + step) else vol)
      in (stt\<lparr>msTooLow := 0, Rxx160_LPw32 := s32 (Rxx160_LPw32 stt sdiv 64 * 67), micVol := vol\<rparr>, vol))"

definition agc_too_high :: "LegacyAgc \<Rightarrow> LegacyAgc" where
  "agc_too_high stt = stt\<lparr>msTooHigh := s16 (msTooHigh stt + 2), msTooLow := 0, changeToSlowMode := 0\<rparr>"

definition agc_too_low :: "LegacyAgc \<Rightarrow> LegacyAgc" where
  "agc_too_low stt = stt\<lparr>msTooHigh := 0, changeToSlowMode := 0, msTooLow := s16 (msTooLow stt + 2)\<rparr>"

definition agc_in_range :: "LegacyAgc \<Rightarrow> int \<Rightarrow> LegacyAgc" where
  "agc_in_range stt tmp =
     (if changeToSlowMode stt > 4000
      then stt\<lparr>msecSpeechInnerChange := 1000, msecSpeechOuterChange := 500,
               upperLimit := upperPrimaryLimit stt, lowerLimit := lowerPrimaryLimit stt,
               msTooLow := 0, msTooHigh := 0, micVol := tmp\<rparr>
      else stt\<lparr>changeToSlowMode := s16 (changeToSlowMode stt + 2), msTooLow := 0, msTooHigh := 0, micVol := tmp\<rparr>)"

text \<open>The level is adapted when the energy has been out of range for long enough.\<close>

definition agc_adapt :: "int \<Rightarrow> LegacyAgc \<Rightarrow> int \<Rightarrow> LegacyAgc \<times> int" where
  "agc_adapt lastMicVol stt tmp =
     (if Rxx160_LPw32 stt > upperSecondaryLimit stt
      then let stt = agc_too_high stt
           in if msTooHigh stt > msecSpeechOuterChange stt
              then let (stt, tmp) = agc_lower 31130 lastMicVol
                           (stt\<lparr>Rxx160_LPw32 := s32 (sar (Rxx160_LPw32 stt) 6 * 53)\<rparr>) tmp
                   in (stt\<lparr>activeSpeech := 0, Rxx16_LPw32Max := 0\<rparr>, tmp)
              else (stt, tmp)
      else if Rxx160_LPw32 stt > upperLimit stt
      then let stt = agc_too_high stt
           in if msTooHigh stt > msecSpeechInnerChange stt
              then agc_lower 31621 lastMicVol (stt\<lparr>Rxx160_LPw32 := s32 (Rxx160_LPw32 stt sdiv 64 * 53)\<rparr>) tmp
              else (stt, tmp)
      else if Rxx160_LPw32 stt < lowerSecondaryLimit stt
      then let stt = agc_too_low stt
           in if msTooLow stt > msecSpeechOuterChange stt
              then agc_raise kOffset1 kSlope1 2 lastMicVol stt tmp else (stt, tmp)
      else if Rxx160_LPw32 stt < lowerLimit stt
      then let stt = agc_too_low stt
           in if msTooLow stt > msecSpeechInnerChange stt
              then agc_raise kOffset2 kSlope2 1 lastMicVol stt tmp else (stt, tmp)
      else (agc_in_range stt tmp, tmp))"

definition agc_block :: "int \<Rightarrow> int \<Rightarrow> LegacyAgc \<times> int \<Rightarrow> int \<Rightarrow> LegacyAgc \<times> int" where
  "agc_block vadLogRatio lastMicVol = (\<lambda>(stt, tmp) rxx.
     let stt = agc_measure stt rxx
     in if vadLogRatio > vadThreshold stt then agc_adapt lastMicVol (agc_speech_energy stt) tmp else (stt, tmp))"

text \<open>No increase in the presence of echo or after muting, and the limits of the level.\<close>

definition agc_limit_level :: "LegacyAgc \<Rightarrow> int \<Rightarrow> int \<Rightarrow> LegacyAgc" where
  "agc_limit_level stt echo lastMicVol =
     (let vol = (if (echo = 1 \<or> muteGuardMs stt > 0 \<and> muteGuardMs stt < kMuteGuardTimeMs) \<and> micVol stt > lastMicVol
                 then lastMicVol else micVol stt)
      in stt\<lparr>micVol := (if vol > maxLevel stt then maxLevel stt else if vol < minOutput stt then minOutput stt else vol)\<rparr>)"

text \<open>
  The out parameters are passed in with their current contents; the result has the new state, the
  recording level, the saturation warning and the return value.
\<close>

definition WebRtcAgc_ProcessAnalog ::
  "LegacyAgc \<Rightarrow> int \<Rightarrow> int \<Rightarrow> int \<Rightarrow> int \<Rightarrow> int \<Rightarrow> LegacyAgc \<times> int \<times> int \<times> int" where
  "WebRtcAgc_ProcessAnalog stt inMicLevel outMicLevel vadLogRatio echo warning =
     (if inMicLevel > maxAnalog stt \<or> inMicLevel < minLevel stt then (stt, outMicLevel, warning, - 1)
      else
        let (stt, tmp) = agc_first_call stt inMicLevel;
            (stt, tmp) = agc_manual_change stt inMicLevel tmp;
            lastMicVol = micVol stt;
            (stt, saturated) = WebRtcAgc_SaturationCtrl stt (env_queue stt ! 0);
            (stt, tmp) = (if saturated then agc_saturated stt tmp lastMicVol else (stt, tmp));
            warning = (if saturated \<and> micVol stt < minOutput stt then 1 else warning);
            (stt, tmp) = WebRtcAgc_ZeroCtrl stt tmp (env_queue stt ! 0);
            stt = WebRtcAgc_SpeakerInactiveCtrl stt;
            (stt, tmp) = foldl (agc_block vadLogRatio lastMicVol) (stt, tmp) (take 5 (Rxx16w32_array stt ! 0));
            stt = agc_limit_level stt echo lastMicVol
        in (stt, (if micVol stt < maxAnalog stt then micVol stt else maxAnalog stt), warning, 0))"

text \<open>
  A frame: rejected before any effect, never returning (the limiter's loop), or done with the output
  bands, the recording level, the saturation warning and the return value.
\<close>

datatype agc_process_result =
    Rejected
  | Hangs
  | Done LegacyAgc "int list list" int int int

definition agc_next_batch :: "LegacyAgc \<Rightarrow> LegacyAgc" where
  "agc_next_batch stt =
     (let stt = (if inQueue stt > 1
                 then stt\<lparr>env_queue := (env_queue stt)[0 := env_queue stt ! 1],
                          Rxx16w32_array := (Rxx16w32_array stt)[0 := Rxx16w32_array stt ! 1]\<rparr>
                 else stt)
      in if inQueue stt > 0 then stt\<lparr>inQueue := s16 (inQueue stt - 1)\<rparr> else stt)"

definition WebRtcAgc_Process ::
  "LegacyAgc option \<Rightarrow> int list list \<Rightarrow> nat \<Rightarrow> int \<Rightarrow> int \<Rightarrow> agc_process_result" where
  "WebRtcAgc_Process handle in_near samples inMicLevel echo =
     (if WebRtcAgc_GetAddFarendError handle samples \<noteq> 0 then Rejected
      else
        let stt = the handle
        in case WebRtcAgc_ProcessDigital (digitalAgc stt) in_near (agc_fs stt) (lowLevelSignal stt) of
             BadRate \<Rightarrow> Done stt in_near inMicLevel 0 (- 1)
           | Diverges \<Rightarrow> Hangs
           | Processed dig outs \<Rightarrow>
             let stt = stt\<lparr>digitalAgc := dig\<rparr>;
                 (stt, level, warning, r) =
                   (if agc_mode stt < kAgcModeFixedDigital \<and>
                       (lowLevelSignal stt = 0 \<or> agc_mode stt \<noteq> kAgcModeAdaptiveDigital)
                    then WebRtcAgc_ProcessAnalog stt inMicLevel inMicLevel (logRatio (vadMic stt)) echo 0
                    else (stt, inMicLevel, 0, 0))
             in if r = - 1 then Done stt outs level warning (- 1)
                else Done (agc_next_batch stt) outs level warning 0)"

end
