(* ===== verification/AnalogInv.thy ===== *)
theory AnalogInv imports AnalogAgc AgcSession begin

text \<open>
  The invariant of the analog level control: the recording level stays between its lowest output and
  its highest value, the supplementary range never grows, and no step of a frame leaves the tables.
\<close>

section \<open>What a frame leaves alone\<close>

definition frozen where
  "frozen stt = (agc_fs stt, agc_mode stt, initFlag stt, digitalAgc stt, vadMic stt, env_queue stt,
     Rxx16w32_array stt, inQueue stt, gainTableIdx stt, minLevel stt, maxAnalog stt, maxInit stt, minOutput stt)"

lemma frozen_steps [simp]:
  "frozen (agc_measure stt r) = frozen stt" "frozen (agc_speech_energy stt) = frozen stt"
  "frozen (agc_too_high stt) = frozen stt" "frozen (agc_too_low stt) = frozen stt"
  "frozen (agc_in_range stt tmp) = frozen stt"
  "frozen (fst (agc_lower w l stt tmp)) = frozen stt" "frozen (fst (agc_raise os sl st l stt tmp)) = frozen stt"
  "frozen (agc_limit_level stt e l) = frozen stt"
  "frozen (fst (agc_first_call stt tmp)) = frozen stt" "frozen (fst (agc_manual_change stt m tmp)) = frozen stt"
  "frozen (fst (WebRtcAgc_SaturationCtrl stt es)) = frozen stt" "frozen (fst (agc_saturated stt tmp l)) = frozen stt"
  "frozen (fst (WebRtcAgc_ZeroCtrl stt tmp es)) = frozen stt" "frozen (WebRtcAgc_SpeakerInactiveCtrl stt) = frozen stt"
  by (simp_all add: frozen_def agc_measure_def agc_speech_energy_def agc_too_high_def agc_too_low_def agc_in_range_def
      agc_lower_def agc_raise_def agc_limit_level_def agc_first_call_def agc_manual_change_def
      WebRtcAgc_SaturationCtrl_def agc_saturated_def WebRtcAgc_ZeroCtrl_def WebRtcAgc_SpeakerInactiveCtrl_def Let_def)

lemma frozen_update [simp]:
  "frozen (stt\<lparr>activeSpeech := a\<rparr>) = frozen stt" "frozen (stt\<lparr>Rxx16_LPw32Max := b\<rparr>) = frozen stt"
  "frozen (stt\<lparr>Rxx160_LPw32 := c\<rparr>) = frozen stt"
  by (simp_all add: frozen_def)

lemma frozen_adapt [simp]: "frozen (fst (agc_adapt l stt tmp)) = frozen stt"
  by (simp add: agc_adapt_def Let_def split_beta)

lemma frozen_block [simp]: "frozen (fst (agc_block v l p r)) = frozen (fst p)"
  by (cases p) (simp add: agc_block_def Let_def)

lemma frozen_blocks [simp]: "frozen (fst (foldl (agc_block v l) p rs)) = frozen (fst p)"
  by (induction rs arbitrary: p) simp_all

lemma frozenD:
  assumes "frozen stt' = frozen stt"
  shows "minLevel stt' = minLevel stt" "maxAnalog stt' = maxAnalog stt" "maxInit stt' = maxInit stt"
    "minOutput stt' = minOutput stt" "env_queue stt' = env_queue stt" "Rxx16w32_array stt' = Rxx16w32_array stt"
    "digitalAgc stt' = digitalAgc stt" "vadMic stt' = vadMic stt" "inQueue stt' = inQueue stt"
    "gainTableIdx stt' = gainTableIdx stt" "initFlag stt' = initFlag stt" "agc_mode stt' = agc_mode stt" "agc_fs stt' = agc_fs stt"
  using assms by (simp_all add: frozen_def)

section \<open>The ring of block energies\<close>

definition ring_ok :: "LegacyAgc \<Rightarrow> bool" where
  "ring_ok stt \<longleftrightarrow> length (Rxx16_vectorw32 stt) = 10 \<and> 0 \<le> Rxx16pos stt \<and> Rxx16pos stt \<le> 9"

lemma ring_steps [simp]:
  "ring_ok (agc_speech_energy stt) = ring_ok stt"
  "ring_ok (agc_too_high stt) = ring_ok stt" "ring_ok (agc_too_low stt) = ring_ok stt"
  "ring_ok (agc_in_range stt tmp) = ring_ok stt"
  "ring_ok (fst (agc_lower w l stt tmp)) = ring_ok stt" "ring_ok (fst (agc_raise os sl st l stt tmp)) = ring_ok stt"
  "ring_ok (agc_limit_level stt e l) = ring_ok stt"
  "ring_ok (fst (agc_first_call stt tmp)) = ring_ok stt" "ring_ok (fst (agc_manual_change stt m tmp)) = ring_ok stt"
  "ring_ok (fst (WebRtcAgc_SaturationCtrl stt es)) = ring_ok stt" "ring_ok (fst (agc_saturated stt tmp l)) = ring_ok stt"
  "ring_ok (fst (WebRtcAgc_ZeroCtrl stt tmp es)) = ring_ok stt" "ring_ok (WebRtcAgc_SpeakerInactiveCtrl stt) = ring_ok stt"
  "ring_ok (stt\<lparr>activeSpeech := a\<rparr>) = ring_ok stt" "ring_ok (stt\<lparr>Rxx16_LPw32Max := b\<rparr>) = ring_ok stt"
  "ring_ok (stt\<lparr>Rxx160_LPw32 := c\<rparr>) = ring_ok stt"
  by (simp_all add: ring_ok_def agc_speech_energy_def agc_too_high_def agc_too_low_def agc_in_range_def
      agc_lower_def agc_raise_def agc_limit_level_def agc_first_call_def agc_manual_change_def
      WebRtcAgc_SaturationCtrl_def agc_saturated_def WebRtcAgc_ZeroCtrl_def WebRtcAgc_SpeakerInactiveCtrl_def Let_def)

lemma ring_measure: "ring_ok stt \<Longrightarrow> ring_ok (agc_measure stt r)"
  by (auto simp: ring_ok_def agc_measure_def Let_def s16_eqI)

lemma ring_adapt [simp]: "ring_ok (fst (agc_adapt l stt tmp)) = ring_ok stt"
  by (simp add: agc_adapt_def Let_def split_beta)

lemma ring_block: "ring_ok (fst p) \<Longrightarrow> ring_ok (fst (agc_block v l p r))"
  by (cases p) (simp add: agc_block_def Let_def ring_measure)

lemma ring_blocks: "ring_ok (fst p) \<Longrightarrow> ring_ok (fst (foldl (agc_block v l) p rs))"
  by (induction rs arbitrary: p) (simp_all add: ring_block)

section \<open>The levels\<close>

definition range_ok :: "LegacyAgc \<Rightarrow> bool" where
  "range_ok stt \<longleftrightarrow> 0 \<le> minLevel stt \<and> minLevel stt < maxAnalog stt \<and> maxAnalog stt < 67108864 \<and>
     maxAnalog stt - minLevel stt \<le> 131071 \<and>
     maxInit stt = maxAnalog stt + (maxAnalog stt - minLevel stt) div 4 \<and>
     minLevel stt \<le> minOutput stt \<and> minOutput stt \<le> maxAnalog stt"

definition timing_ok :: "LegacyAgc \<Rightarrow> bool" where
  "timing_ok stt \<longleftrightarrow> - 100 \<le> msTooHigh stt \<and> msTooHigh stt \<le> 1000 \<and>
     340 \<le> msecSpeechOuterChange stt \<and> msecSpeechOuterChange stt \<le> 1000 \<and>
     340 \<le> msecSpeechInnerChange stt \<and> msecSpeechInnerChange stt \<le> 1000"

definition level_inv :: "LegacyAgc \<Rightarrow> bool" where
  "level_inv stt \<longleftrightarrow> range_ok stt \<and> timing_ok stt \<and> maxAnalog stt \<le> maxLevel stt \<and> maxLevel stt \<le> maxInit stt \<and>
     0 \<le> micVol stt \<and> micVol stt \<le> maxLevel stt \<and>
     - 2147483648 \<le> zeroCtrlMax stt \<and> zeroCtrlMax stt \<le> maxInit stt"

lemma range_frozen: "frozen stt' = frozen stt \<Longrightarrow> range_ok stt' = range_ok stt"
  using frozenD [of stt' stt] by (simp add: range_ok_def)

lemma range_bounds:
  assumes "range_ok stt"
  shows "maxInit stt \<le> 67141631" "maxAnalog stt \<le> maxInit stt" "maxInit stt - maxAnalog stt \<le> 32767"
    "maxInit stt - minLevel stt \<le> 163838" "0 \<le> maxInit stt"
  using assms by (auto simp: range_ok_def)

text \<open>
  Inside a frame, after \<open>k\<close> blocks: the level may be above the range only when it was raised in this
  very frame, which resets \<open>msTooHigh\<close>, so that no later block of the frame lowers it.
\<close>

definition steering :: "nat \<Rightarrow> int \<Rightarrow> LegacyAgc \<times> int \<Rightarrow> bool" where
  "steering k lastMicVol = (\<lambda>(stt, tmp).
     range_ok stt \<and> timing_ok stt \<and> 0 \<le> lastMicVol \<and> lastMicVol \<le> maxInit stt \<and>
     maxAnalog stt \<le> maxLevel stt \<and> maxLevel stt \<le> maxInit stt \<and>
     - 2147483648 \<le> micVol stt \<and> - 2147483648 \<le> tmp \<and>
     - 2147483648 \<le> zeroCtrlMax stt \<and> zeroCtrlMax stt \<le> maxInit stt \<and>
     (micVol stt \<le> maxInit stt \<or> msTooHigh stt \<le> 2 * int k))"

lemma s32_ge: "- 2147483648 \<le> s32 x"
  by (simp add: s32_def)

lemma scaled_ge: "- 2147483648 \<le> agc_scaled w sh stt tmp"
  unfolding agc_scaled_def by (rule s32_ge)

lemma new_max_level:
  assumes "range_ok stt" "0 \<le> maxLevel stt" "maxLevel stt \<le> maxInit stt" "micVol stt \<le> maxInit stt" "- 2147483648 \<le> micVol stt"
  shows "s32 (s32 (15 * maxLevel stt) + micVol stt) sdiv 16 \<le> maxInit stt"
proof -
  note b = range_bounds [OF assms(1)]
  have "s32 (15 * maxLevel stt) = 15 * maxLevel stt" using assms(2,3) b(1) by (intro s32_eqI) linarith+
  moreover have "s32 (15 * maxLevel stt + micVol stt) = 15 * maxLevel stt + micVol stt"
    using assms b(1) by (intro s32_eqI) linarith+
  moreover have "(15 * maxLevel stt + micVol stt) sdiv 16 \<le> maxInit stt"
  proof (cases "0 \<le> 15 * maxLevel stt + micVol stt")
    case True
    then show ?thesis using assms(3,4) by (simp add: sdiv_pos)
  next
    case False
    then show ?thesis using b(5) by (simp add: signed_divide_int_def sgn_if)
  qed
  ultimately show ?thesis by simp
qed

lemma lower_steering:
  assumes "steering k l (stt, tmp)" "micVol stt \<le> maxInit stt"
  shows "steering k' l (agc_lower w l stt tmp)" "micVol (fst (agc_lower w l stt tmp)) \<le> l"
proof -
  have r: "range_ok stt" "0 \<le> l" "l \<le> maxInit stt" "0 \<le> maxLevel stt"
    using assms(1) by (auto simp: steering_def range_ok_def)
  have l: "s32 (l - 1) = l - 1" using r(2,3) range_bounds(1) [OF r(1)] by (intro s32_eqI) linarith+
  have "s32 (s32 (15 * maxLevel stt) + micVol stt) sdiv 16 \<le> maxInit stt"
    using assms r by (intro new_max_level) (simp_all add: steering_def)
  then show "steering k' l (agc_lower w l stt tmp)" "micVol (fst (agc_lower w l stt tmp)) \<le> l"
    using assms scaled_ge [of w 15 stt tmp] range_bounds(2) [OF r(1)] l r(2,3)
    by (auto simp: steering_def agc_lower_def Let_def timing_ok_def range_ok_def)
qed

lemma raise_steering:
  assumes "steering k l (stt, tmp)" "msTooHigh stt = 0"
  shows "steering k' l (agc_raise os sl st l stt tmp)"
  using assms scaled_ge [of "agc_raise_weight os sl stt tmp" 14 stt tmp]
  by (auto simp: steering_def agc_raise_def Let_def timing_ok_def range_ok_def s32_ge)

lemma in_range_steering:
  assumes "steering k l (stt, tmp)"
  shows "steering k' l (agc_in_range stt tmp, tmp)"
  using assms by (auto simp: steering_def agc_in_range_def timing_ok_def range_ok_def)

lemma steering_update [simp]:
  "steering k l (stt\<lparr>activeSpeech := a\<rparr>, tmp) = steering k l (stt, tmp)"
  "steering k l (stt\<lparr>Rxx16_LPw32Max := b\<rparr>, tmp) = steering k l (stt, tmp)"
  "steering k l (stt\<lparr>Rxx160_LPw32 := c\<rparr>, tmp) = steering k l (stt, tmp)"
  "steering k l (agc_measure stt r, tmp) = steering k l (stt, tmp)"
  "steering k l (agc_speech_energy stt, tmp) = steering k l (stt, tmp)"
  by (simp_all add: steering_def range_ok_def timing_ok_def agc_measure_def agc_speech_energy_def Let_def)

lemma steering_mono: "steering k l p \<Longrightarrow> k \<le> k' \<Longrightarrow> steering k' l p"
  by (auto simp: steering_def)

lemma steering_Suc: "steering k l p \<Longrightarrow> steering (Suc k) l p"
  using steering_mono [of k l p "Suc k"] by simp

lemma lower_msTooHigh: "agc_lower w l (stt\<lparr>msTooHigh := x\<rparr>) tmp = agc_lower w l stt tmp"
  by (simp add: agc_lower_def agc_scaled_def Let_def)

text \<open>After \<open>agc_too_high\<close>: either nothing else happens, or the level is lowered.\<close>

lemma too_high_steering:
  assumes "steering k l (stt, tmp)" "k < 5" "th = msecSpeechOuterChange stt \<or> th = msecSpeechInnerChange stt"
  shows "\<not> th < msTooHigh (agc_too_high stt) \<Longrightarrow> steering (Suc k) l (agc_too_high stt, tmp)"
    "th < msTooHigh (agc_too_high stt) \<Longrightarrow> steering k' l (agc_lower w l ((agc_too_high stt)\<lparr>Rxx160_LPw32 := c\<rparr>) tmp)"
proof -
  have t: "- 100 \<le> msTooHigh stt" "msTooHigh stt \<le> 1000" "340 \<le> th" "th \<le> 1000"
    using assms(1,3) by (auto simp: steering_def timing_ok_def)
  then have n: "msTooHigh (agc_too_high stt) = msTooHigh stt + 2" by (simp add: agc_too_high_def s16_eqI)
  show "steering (Suc k) l (agc_too_high stt, tmp)" if "\<not> th < msTooHigh (agc_too_high stt)"
    using assms(1) that t n
    by (auto simp: steering_def timing_ok_def range_ok_def agc_too_high_def)
  show "steering k' l (agc_lower w l ((agc_too_high stt)\<lparr>Rxx160_LPw32 := c\<rparr>) tmp)" if "th < msTooHigh (agc_too_high stt)"
  proof -
    have m: "micVol stt \<le> maxInit stt" using assms(1,2) that t n by (auto simp: steering_def)
    define s where "s = stt\<lparr>msTooLow := 0, changeToSlowMode := 0, Rxx160_LPw32 := c\<rparr>"
    have "steering k l (s, tmp)" "micVol s \<le> maxInit s"
      using assms(1) m by (auto simp: s_def steering_def timing_ok_def range_ok_def)
    then have "steering k' l (agc_lower w l s tmp)" by (rule lower_steering(1))
    moreover have "(agc_too_high stt)\<lparr>Rxx160_LPw32 := c\<rparr> = s\<lparr>msTooHigh := s16 (msTooHigh stt + 2)\<rparr>"
      by (simp add: s_def agc_too_high_def)
    ultimately show ?thesis by (simp add: lower_msTooHigh)
  qed
qed

lemma too_low_steering:
  assumes "steering k l (stt, tmp)"
  shows "steering k' l (agc_too_low stt, tmp)" "msTooHigh (agc_too_low stt) = 0"
  using assms by (auto simp: steering_def timing_ok_def range_ok_def agc_too_low_def)

lemma adapt_steering:
  assumes "steering k l (stt, tmp)" "k < 5"
  shows "steering (Suc k) l (agc_adapt l stt tmp)"
proof -
  note h = too_high_steering [OF assms disjI1 [OF refl]] too_high_steering [OF assms disjI2 [OF refl]]
  have e: "msecSpeechOuterChange (agc_too_high stt) = msecSpeechOuterChange stt"
    "msecSpeechInnerChange (agc_too_high stt) = msecSpeechInnerChange stt" by (simp_all add: agc_too_high_def)
  note r = raise_steering [OF too_low_steering [OF assms(1)]]
  have p: "steering m l (fst q\<lparr>activeSpeech := a, Rxx16_LPw32Max := b\<rparr>, snd q) = steering m l q" for m q a b
    by (cases q) simp
  show ?thesis
    unfolding agc_adapt_def Let_def split_beta
    by (auto simp: p h e r too_low_steering [OF assms(1)] in_range_steering [OF assms(1)])
qed

lemma block_steering:
  assumes "steering k l p" "k < 5"
  shows "steering (Suc k) l (agc_block v l p r)"
proof (cases p)
  case (Pair stt tmp)
  then show ?thesis
    using assms adapt_steering [of k l "agc_speech_energy (agc_measure stt r)" tmp]
      steering_Suc [of k l "(agc_measure stt r, tmp)"] by (simp add: agc_block_def Let_def)
qed

lemma blocks_steering:
  assumes "steering k l p" "k + length rs \<le> 5"
  shows "steering (k + length rs) l (foldl (agc_block v l) p rs)"
  using assms
proof (induction rs arbitrary: k p)
  case Nil
  then show ?case by simp
next
  case (Cons r rs)
  have "steering (Suc k) l (agc_block v l p r)" using Cons.prems by (intro block_steering) simp_all
  from Cons.IH [OF this] Cons.prems(2) show ?case by simp
qed

section \<open>Before the blocks\<close>

lemma tenth_range:
  assumes "range_ok stt" "maxAnalog stt \<le> maxLevel stt" "maxLevel stt \<le> maxInit stt"
  shows "minLevel stt \<le> agc_tenth stt" "agc_tenth stt \<le> maxLevel stt"
proof -
  let ?R = "maxLevel stt - minLevel stt"
  have R: "0 \<le> ?R" "?R \<le> 163838" "maxLevel stt \<le> 67141631" "0 \<le> minLevel stt"
    using assms range_bounds [OF assms(1)] by (auto simp: range_ok_def)
  then have "s32 ?R = ?R" "s32 (?R * 51) = ?R * 51" by (simp_all add: s32_eqI)
  moreover have "0 \<le> sar (?R * 51) 9" "sar (?R * 51) 9 \<le> ?R"
    using R sar_less_iff [of "?R * 51" 9 "?R + 1"] by (simp_all add: sar_nonneg)
  moreover from this have "s32 (minLevel stt + sar (?R * 51) 9) = minLevel stt + sar (?R * 51) 9"
    using R by (intro s32_eqI) linarith+
  ultimately show "minLevel stt \<le> agc_tenth stt" "agc_tenth stt \<le> maxLevel stt" by (simp_all add: agc_tenth_def)
qed

text \<open>The level a frame starts from.\<close>

definition agc_entry :: "LegacyAgc \<Rightarrow> int \<Rightarrow> LegacyAgc \<times> int" where
  "agc_entry stt m = (case agc_first_call stt m of (stt, tmp) \<Rightarrow> agc_manual_change stt m tmp)"

lemma first_call_level:
  assumes "level_inv stt" "minLevel stt \<le> m" "m \<le> maxAnalog stt"
  shows "level_inv (fst (agc_first_call stt m))" "minLevel stt \<le> snd (agc_first_call stt m)"
    "snd (agc_first_call stt m) \<le> maxLevel stt" "maxLevel (fst (agc_first_call stt m)) = maxLevel stt"
  using assms tenth_range [of stt]
  by (auto simp: agc_first_call_def Let_def level_inv_def range_ok_def timing_ok_def)

lemma manual_change_level:
  assumes "level_inv stt" "minLevel stt \<le> t" "t \<le> maxLevel stt"
  shows "level_inv (fst (agc_manual_change stt m t))"
    "snd (agc_manual_change stt m t) = micVol (fst (agc_manual_change stt m t))"
  using assms tenth_range [of stt] range_bounds [of stt]
  by (auto simp: agc_manual_change_def Let_def level_inv_def range_ok_def timing_ok_def)

text \<open>
  The level a frame starts from. The first call of the adaptive analog mode raises a level below a tenth of
  the range to it. Later a level set below \<open>minOutput\<close> is raised in the same way, and the last recommended level
  stays in force when the device did not move, or stands at its end while there is digital gain; otherwise
  the frame starts from the level of the device.
\<close>

definition agc_start_level :: "LegacyAgc \<Rightarrow> int \<Rightarrow> int" where
  "agc_start_level stt m =
     (if firstCall stt = 0 then (if agc_mode stt = kAgcModeAdaptiveAnalog then max m (agc_tenth stt) else m)
      else if m = micVol stt \<or> m = maxAnalog stt \<and> maxAnalog stt < micVol stt then micVol stt
      else if m < minOutput stt then agc_tenth stt
      else if m = lastInMicLevel stt then micVol stt else m)"

lemma manual_change_start:
  assumes "minOutput stt \<le> maxAnalog stt"
  shows "micVol (fst (agc_manual_change stt m t)) =
    (if t = micVol stt \<or> t = maxAnalog stt \<and> maxAnalog stt < micVol stt then micVol stt
     else if t < minOutput stt then agc_tenth stt
     else if m = lastInMicLevel stt then micVol stt else t)"
proof -
  consider "t = micVol stt" | "t \<noteq> micVol stt" "t = maxAnalog stt" "maxAnalog stt < micVol stt"
    | "t \<noteq> micVol stt" "\<not> (t = maxAnalog stt \<and> maxAnalog stt < micVol stt)" "t < minOutput stt"
    | "t \<noteq> micVol stt" "\<not> (t = maxAnalog stt \<and> maxAnalog stt < micVol stt)" "\<not> t < minOutput stt" by blast
  then show ?thesis
  proof cases
    case 1
    then have "\<not> (t = maxAnalog stt \<and> micVol stt > maxAnalog stt)" by simp
    then show ?thesis using 1 by (simp add: agc_manual_change_def Let_def)
  next
    case 2
    then show ?thesis by (simp add: agc_manual_change_def Let_def)
  next
    case 3
    then have "(if t = maxAnalog stt \<and> micVol stt > maxAnalog stt then micVol stt else t) = t" by simp
    then show ?thesis using 3 by (simp add: agc_manual_change_def Let_def del: if_split) auto
  next
    case 4
    then show ?thesis by (simp add: agc_manual_change_def Let_def) auto
  qed
qed

lemma entry_start:
  assumes "minOutput stt \<le> maxAnalog stt"
  shows "micVol (fst (agc_entry stt m)) = agc_start_level stt m"
proof (cases "firstCall stt = 0")
  case True
  define t where "t = snd (agc_first_call stt m)"
  define s where "s = fst (agc_first_call stt m)"
  have "micVol s = t" "minOutput s = minOutput stt" "maxAnalog s = maxAnalog stt"
    "t = (if agc_mode stt = kAgcModeAdaptiveAnalog then max m (agc_tenth stt) else m)"
    using True by (simp_all add: agc_first_call_def t_def s_def Let_def)
  then show ?thesis
    using manual_change_start [of s m t] assms True
    by (simp add: agc_entry_def agc_start_level_def split_beta s_def t_def)
next
  case False
  then show ?thesis
    using manual_change_start [OF assms, of m m] by (simp add: agc_entry_def agc_first_call_def agc_start_level_def)
qed

lemma entry_keeps:
  assumes "level_inv stt" "minLevel stt \<le> m" "m \<le> maxAnalog stt"
  shows "level_inv (fst (agc_entry stt m))" "snd (agc_entry stt m) = micVol (fst (agc_entry stt m))"
    "frozen (fst (agc_entry stt m)) = frozen stt" "ring_ok (fst (agc_entry stt m)) = ring_ok stt"
proof -
  note f = first_call_level [OF assms]
  have fr: "frozen (fst (agc_first_call stt m)) = frozen stt" by simp
  have "minLevel (fst (agc_first_call stt m)) = minLevel stt" by (rule frozenD(1) [OF fr])
  then show "level_inv (fst (agc_entry stt m))" "snd (agc_entry stt m) = micVol (fst (agc_entry stt m))"
    using manual_change_level [OF f(1), of "snd (agc_first_call stt m)" m] f(2-4)
    by (simp_all add: agc_entry_def split_beta)
  show "frozen (fst (agc_entry stt m)) = frozen stt" "ring_ok (fst (agc_entry stt m)) = ring_ok stt"
    by (simp_all add: agc_entry_def split_beta)
qed

lemma level_steering:
  assumes "level_inv stt" "tmp = micVol stt"
  shows "steering k (micVol stt) (stt, tmp)"
  using assms by (auto simp: level_inv_def steering_def)

lemma saturation_steering:
  "steering k l (fst (WebRtcAgc_SaturationCtrl stt es), tmp) = steering k l (stt, tmp)"
  by (simp add: WebRtcAgc_SaturationCtrl_def Let_def steering_def range_ok_def timing_ok_def)

lemma saturated_steering:
  assumes "steering k (micVol stt) (stt, tmp)"
  shows "steering k' (micVol stt) (agc_saturated stt tmp (micVol stt))"
proof -
  have r: "range_ok stt" "0 \<le> micVol stt" "micVol stt \<le> maxInit stt"
    using assms by (auto simp: steering_def)
  have "s32 (micVol stt - 2) = micVol stt - 2" using r range_bounds(1) [OF r(1)] by (intro s32_eqI) linarith+
  then show ?thesis
    using assms r scaled_ge [of 29591 15 stt tmp]
    by (auto simp: steering_def agc_saturated_def Let_def timing_ok_def range_ok_def kMsecSpeechInner_def kMsecSpeechOuter_def)
qed

lemma zero_steering:
  assumes "steering k l (stt, tmp)"
  shows "steering k l (WebRtcAgc_ZeroCtrl stt tmp es)"
proof -
  have "- 2147483648 \<le> sar (s32 x) 10" for x
    using s32_ge [of x] sar_ge_iff [of "- 2147483648" "s32 x" 10] by simp
  then show ?thesis
    using assms by (auto simp: WebRtcAgc_ZeroCtrl_def Let_def steering_def range_ok_def timing_ok_def)
qed

lemma inactive_steering [simp]: "steering k l (WebRtcAgc_SpeakerInactiveCtrl stt, tmp) = steering k l (stt, tmp)"
  by (simp add: WebRtcAgc_SpeakerInactiveCtrl_def Let_def steering_def range_ok_def timing_ok_def)

lemma limit_level:
  assumes "steering k l (stt, tmp)"
  shows "level_inv (agc_limit_level stt e l)" "minOutput stt \<le> micVol (agc_limit_level stt e l)"
    "e = 1 \<Longrightarrow> micVol (agc_limit_level stt e l) \<le> max l (minOutput stt)"
  using assms by (auto simp: agc_limit_level_def Let_def steering_def level_inv_def range_ok_def timing_ok_def)

section \<open>A frame\<close>

text \<open>The steps of \<open>WebRtcAgc_ProcessAnalog\<close> between the entry and the limits.\<close>

definition agc_controls :: "int \<Rightarrow> LegacyAgc \<times> int \<Rightarrow> LegacyAgc \<times> int" where
  "agc_controls vadLogRatio = (\<lambda>(stt, tmp).
     let lastMicVol = micVol stt;
         (stt, saturated) = WebRtcAgc_SaturationCtrl stt (env_queue stt ! 0);
         (stt, tmp) = (if saturated then agc_saturated stt tmp lastMicVol else (stt, tmp));
         (stt, tmp) = WebRtcAgc_ZeroCtrl stt tmp (env_queue stt ! 0);
         stt = WebRtcAgc_SpeakerInactiveCtrl stt
     in foldl (agc_block vadLogRatio lastMicVol) (stt, tmp) (take 5 (Rxx16w32_array stt ! 0)))"

lemma ProcessAnalog_steps:
  assumes "minLevel stt \<le> m" "m \<le> maxAnalog stt"
  obtains w where "WebRtcAgc_ProcessAnalog stt m out v e w0 =
    (let p = agc_entry stt m; stt' = agc_limit_level (fst (agc_controls v p)) e (micVol (fst p))
     in (stt', min (micVol stt') (maxAnalog stt'), w, 0))"
proof -
  have "\<exists>w. WebRtcAgc_ProcessAnalog stt m out v e w0 =
    (let p = agc_entry stt m; stt' = agc_limit_level (fst (agc_controls v p)) e (micVol (fst p))
     in (stt', min (micVol stt') (maxAnalog stt'), w, 0))"
    using assms unfolding WebRtcAgc_ProcessAnalog_def agc_entry_def agc_controls_def Let_def min_def
    by (simp add: split_beta)
  then show thesis using that by blast
qed

lemma saturation_same [simp]: "micVol (fst (WebRtcAgc_SaturationCtrl stt es)) = micVol stt"
  by (simp add: WebRtcAgc_SaturationCtrl_def Let_def)

lemma controls_keep:
  assumes "level_inv stt" "tmp = micVol stt"
  shows "steering 5 (micVol stt) (agc_controls v (stt, tmp))"
    "frozen (fst (agc_controls v (stt, tmp))) = frozen stt"
    "ring_ok stt \<Longrightarrow> ring_ok (fst (agc_controls v (stt, tmp)))"
proof -
  obtain s1 sat where s1: "WebRtcAgc_SaturationCtrl stt (env_queue stt ! 0) = (s1, sat)" by (rule prod.exhaust)
  obtain s2 t2 where s2: "(if sat then agc_saturated s1 tmp (micVol stt) else (s1, tmp)) = (s2, t2)" by (rule prod.exhaust)
  obtain s3 t3 where s3: "WebRtcAgc_ZeroCtrl s2 t2 (env_queue s2 ! 0) = (s3, t3)" by (rule prod.exhaust)
  let ?s = "WebRtcAgc_SpeakerInactiveCtrl s3"
  have e: "agc_controls v (stt, tmp) = foldl (agc_block v (micVol stt)) (?s, t3) (take 5 (Rxx16w32_array ?s ! 0))"
    unfolding agc_controls_def Let_def prod.case s1 s2 s3 ..
  have f1: "micVol s1 = micVol stt" "frozen s1 = frozen stt" "ring_ok s1 = ring_ok stt"
    using saturation_same [of stt "env_queue stt ! 0"] frozen_steps(11) [of stt "env_queue stt ! 0"]
      ring_steps(10) [of stt "env_queue stt ! 0"] unfolding s1 by simp_all
  have "frozen (fst (if sat then agc_saturated s1 tmp (micVol stt) else (s1, tmp))) = frozen s1"
    "ring_ok (fst (if sat then agc_saturated s1 tmp (micVol stt) else (s1, tmp))) = ring_ok s1" by simp_all
  then have f2: "frozen s2 = frozen s1" "ring_ok s2 = ring_ok s1" unfolding s2 by simp_all
  have f3: "frozen s3 = frozen s2" "ring_ok s3 = ring_ok s2"
    using frozen_steps(13) [of s2 t2 "env_queue s2 ! 0"] ring_steps(12) [of s2 t2 "env_queue s2 ! 0"] unfolding s3 by simp_all
  have k1: "steering 0 (micVol stt) (s1, tmp)"
    using level_steering [OF assms, of 0] saturation_steering [of 0 "micVol stt" stt "env_queue stt ! 0" tmp]
    unfolding s1 by simp
  then have "steering 0 (micVol stt) (s2, t2)"
    using s2 saturated_steering [of 0 s1 tmp 0] f1(1) by (auto split: if_splits)
  from zero_steering [OF this, of "env_queue s2 ! 0"] have k3: "steering 0 (micVol stt) (s3, t3)" unfolding s3 .
  have b: "steering (0 + length rs) (micVol stt) (foldl (agc_block v (micVol stt)) (?s, t3) rs)" if "length rs \<le> 5" for rs
    using blocks_steering [of 0 "micVol stt" "(?s, t3)" rs v] k3 that by simp
  show "steering 5 (micVol stt) (agc_controls v (stt, tmp))"
    unfolding e by (rule steering_mono [OF b]) simp_all
  show "frozen (fst (agc_controls v (stt, tmp))) = frozen stt"
    unfolding e using f1(2) f2(1) f3(1) by simp
  show "ring_ok (fst (agc_controls v (stt, tmp)))" if "ring_ok stt"
    unfolding e using that f1(3) f2(2) f3(2) by (intro ring_blocks) simp
qed

lemma ProcessAnalog_ok:
  assumes "level_inv stt" "minLevel stt \<le> m" "m \<le> maxAnalog stt"
  obtains stt' w where
    "WebRtcAgc_ProcessAnalog stt m out v e w0 = (stt', min (micVol stt') (maxAnalog stt'), w, 0)"
    "level_inv stt'" "frozen stt' = frozen stt" "ring_ok stt \<Longrightarrow> ring_ok stt'" "minOutput stt' \<le> micVol stt'"
    "e = 1 \<Longrightarrow> micVol stt' \<le> max (micVol (fst (agc_entry stt m))) (minOutput stt)"
proof -
  note n = entry_keeps [OF assms]
  obtain s t where p: "agc_entry stt m = (s, t)" by (rule prod.exhaust)
  have s: "level_inv s" "t = micVol s" "frozen s = frozen stt" "ring_ok s = ring_ok stt" using n unfolding p by simp_all
  note c = controls_keep [OF s(1,2), of v]
  obtain s' t' where q: "agc_controls v (s, t) = (s', t')" by (rule prod.exhaust)
  have st: "steering 5 (micVol s) (s', t')" and fr: "frozen s' = frozen s" using c(1,2) unfolding q by simp_all
  note L = limit_level [OF st, of e]
  define stt' where "stt' = agc_limit_level s' e (micVol s)"
  obtain w where w: "WebRtcAgc_ProcessAnalog stt m out v e w0 = (stt', min (micVol stt') (maxAnalog stt'), w, 0)"
    using ProcessAnalog_steps [OF assms(2,3), of out v e w0] unfolding p Let_def fst_conv q stt'_def by metis
  have f: "frozen stt' = frozen stt" using fr s(3) by (simp add: stt'_def)
  have f': "frozen s' = frozen stt'" by (simp add: stt'_def)
  show thesis
  proof (rule that [OF w])
    show "level_inv stt'" "frozen stt' = frozen stt" using L(1) f by (simp_all add: stt'_def)
    show "minOutput stt' \<le> micVol stt'" using L(2) frozenD(4) [OF f'] by (simp add: stt'_def)
    show "ring_ok stt' " if "ring_ok stt" using that s(4) c(3) by (simp add: stt'_def q)
    show "micVol stt' \<le> max (micVol (fst (agc_entry stt m))) (minOutput stt)" if "e = 1"
      using L(3) [OF that] frozenD(4) [OF f'] frozenD(4) [OF f] by (simp add: stt'_def p)
  qed
qed

lemma ProcessAnalog_rejects:
  "m < minLevel stt \<or> maxAnalog stt < m \<Longrightarrow> WebRtcAgc_ProcessAnalog stt m out v e w = (stt, out, w, - 1)"
  by (auto simp: WebRtcAgc_ProcessAnalog_def)

end
