(* ===== verification/AnalogSession.thy ===== *)
theory AnalogSession imports AnalogInv AgcGainBounds begin

text \<open>
  The life of an automatic gain control: initialisation, configuration, microphone and far-end frames,
  the virtual microphone and processing, in any order. The state of a caller is \<open>None\<close> once a call has
  read outside a table, divided by zero or not returned; the interpretation at the end says that this
  does not happen.
\<close>

section \<open>The invariant\<close>

definition legacy_ok :: "int \<Rightarrow> LegacyAgc \<Rightarrow> bool" where
  "legacy_ok mode stt \<longleftrightarrow> level_inv stt \<and> ring_ok stt \<and> agc_mode stt = mode \<and> 0 \<le> mode \<and> mode \<le> 3 \<and>
     (mode = kAgcModeAdaptiveDigital \<longrightarrow> minLevel stt = 0 \<and> maxAnalog stt = 255) \<and>
     length (env_queue stt) = 2 \<and> length (Rxx16w32_array stt) = 2 \<and> 0 \<le> inQueue stt \<and> inQueue stt \<le> 2 \<and>
     0 \<le> gainTableIdx stt \<and> gainTableIdx stt \<le> 31 \<and>
     digital_ok (digitalAgc stt) \<and> agc_vad_ok (vadMic stt) \<and> initFlag stt = kAgcInitCheck"

definition bands_ok :: "nat \<Rightarrow> int list list \<Rightarrow> bool" where
  "bands_ok n bands \<longleftrightarrow> bands \<noteq> [] \<and> (\<forall>b\<in>set bands. n \<le> length b \<and> (\<forall>x\<in>set b. is16 x))"

section \<open>The microphone\<close>

lemma is16_clip [simp]: "is16 (agc_clip x)"
  by (simp add: agc_clip_def is16_def s16_def)

lemma target_idx_ok:
  assumes "level_inv stt" "micVol stt > maxAnalog stt"
  obtains t where "agc_target_idx stt = Some t" "0 \<le> t" "t \<le> 31"
proof -
  define D where "D = maxLevel stt - maxAnalog stt"
  define a where "a = micVol stt - maxAnalog stt"
  have r: "range_ok stt" using assms(1) by (simp add: level_inv_def)
  have D: "1 \<le> a" "a \<le> D" "D \<le> 32767"
    using assms range_bounds(3) [OF r] by (auto simp: level_inv_def a_def D_def)
  have s: "s16 D = D" "s16 a = a" "s32 (31 * a) = 31 * a" using D by (simp_all add: s16_eqI s32_eqI)
  have q: "31 * a sdiv D = 31 * a div D" using D by (simp add: sdiv_pos)
  have "31 * a div D \<le> 31" using D zdiv_mono1 [of "31 * a" "31 * D" D] by simp
  moreover have "0 \<le> 31 * a div D" using D by (simp add: pos_imp_zdiv_nonneg_iff)
  ultimately have "agc_target_idx stt = Some (31 * a div D)" "0 \<le> 31 * a div D" "31 * a div D \<le> 31"
    using D by (simp_all add: agc_target_idx_def Let_def s q u16_def flip: D_def a_def)
  then show thesis by (rule that)
qed

text \<open>The gain index moves one step towards the target; only it and the samples change.\<close>

lemma supplementary_ok:
  assumes "level_inv stt" "0 \<le> gainTableIdx stt" "gainTableIdx stt \<le> 31" "bands_ok n bands"
  obtains idx bands' where "agc_supplementary stt bands n = Some (stt\<lparr>gainTableIdx := idx\<rparr>, bands')"
    "0 \<le> idx" "idx \<le> 31" "bands_ok n bands'" "length bands' = length bands"
proof (cases "micVol stt > maxAnalog stt")
  case False
  then show thesis using that [of 0 bands] assms(4) by (simp add: agc_supplementary_def)
next
  case True
  obtain t where t: "agc_target_idx stt = Some t" "0 \<le> t" "t \<le> 31" by (rule target_idx_ok [OF assms(1) True])
  define idx where "idx = (if gainTableIdx stt < t then u16 (gainTableIdx stt + 1)
    else if gainTableIdx stt > t then u16 (gainTableIdx stt - 1) else gainTableIdx stt)"
  define amp where "amp = (\<lambda>band :: int list. map (\<lambda>x. agc_clip (sar (s32 (x * (kGainTableAnalog ! nat idx))) 12)) (take n band) @ drop n band)"
  define g where "g = gainTableIdx stt"
  have u: "u16 x = x" if "0 \<le> x" "x \<le> 31" for x using that by (simp add: u16_def)
  have g: "0 \<le> g" "g \<le> 31" using assms(2,3) by (simp_all add: g_def)
  have "idx = (if g < t then g + 1 else if t < g then g - 1 else g)"
    unfolding idx_def g_def [symmetric] using u [of "g + 1"] u [of "g - 1"] g t(2,3) by (cases "g < t"; cases "t < g") simp_all
  then have i: "0 \<le> idx" "idx \<le> 31" using g t(2,3) by simp_all
  have "agc_supplementary stt bands n = Some (stt\<lparr>gainTableIdx := idx\<rparr>, map amp bands)"
  proof -
    have "\<not> 32 \<le> idx" using i(2) by linarith
    then show ?thesis
      unfolding agc_supplementary_def t(1) option.case Let_def idx_def [symmetric] amp_def if_P [OF True] by (rule if_not_P)
  qed
  moreover have "bands_ok n (map amp bands)"
  proof -
    have "n \<le> length (amp b) \<and> (\<forall>x\<in>set (amp b). is16 x)" if "n \<le> length b" "\<forall>x\<in>set b. is16 x" for b
      using that by (auto simp: amp_def dest: in_set_dropD)
    then show ?thesis using assms(4) unfolding bands_ok_def by auto
  qed
  ultimately show thesis using that [of idx "map amp bands"] i by simp
qed

lemma AddMic_ok:
  assumes "legacy_ok m stt" "bands_ok n bands"
  obtains stt' bands' r where "WebRtcAgc_AddMic stt bands n = Some (stt', bands', r)" "legacy_ok m stt'"
    "bands_ok n bands'" "r = (if agc_samples_ok (agc_fs stt) n then 0 else - 1)"
proof (cases "agc_samples_ok (agc_fs stt) n")
  case False
  then show thesis using that [of stt bands "- 1"] assms by (simp add: WebRtcAgc_AddMic_def)
next
  case True
  have l: "level_inv stt" "0 \<le> gainTableIdx stt" "gainTableIdx stt \<le> 31" using assms(1) by (simp_all add: legacy_ok_def)
  obtain idx bands' where s: "agc_supplementary stt bands n = Some (stt\<lparr>gainTableIdx := idx\<rparr>, bands')"
    "0 \<le> idx" "idx \<le> 31" "bands_ok n bands'" by (rule supplementary_ok [OF l assms(2)])
  have lk: "level_inv (stt\<lparr>gainTableIdx := idx, env_queue := q, filterState := f, Rxx16w32_array := a, inQueue := k, vadMic := v\<rparr>) = level_inv stt"
    "ring_ok (stt\<lparr>gainTableIdx := idx, env_queue := q, filterState := f, Rxx16w32_array := a, inQueue := k, vadMic := v\<rparr>) = ring_ok stt" for q f a k v
    by (simp_all add: level_inv_def range_ok_def timing_ok_def ring_ok_def)
  obtain stt' where r: "WebRtcAgc_AddMic stt bands n = Some (stt', bands', 0)" "legacy_ok m stt'"
    using True assms(1) s(2,3) lk
    by (simp add: WebRtcAgc_AddMic_def s(1) Let_def split_beta legacy_ok_def ProcessVad_keeps)
  then show thesis using that [OF r s(4)] True by simp
qed

section \<open>The virtual microphone\<close>

lemma virtual_tables:
  "\<forall>i\<in>set [0..127]. 1 \<le> kGainTableVirtualMic ! nat i \<and> kGainTableVirtualMic ! nat i \<le> 32767 \<and>
     1 \<le> kSuppressionTableVirtualMic ! nat i \<and> kSuppressionTableVirtualMic ! nat i \<le> 1024"
  "length kGainTableVirtualMic = 128" "length kSuppressionTableVirtualMic = 128"
  by code_simp+

lemma virtual_gains:
  assumes "0 \<le> i" "i \<le> 127"
  obtains g s where "agc_table kGainTableVirtualMic i = Some g" "1 \<le> g" "g \<le> 32767"
    "agc_table kSuppressionTableVirtualMic i = Some s" "1 \<le> s" "s \<le> 1024"
proof -
  have "agc_table kGainTableVirtualMic i = Some (kGainTableVirtualMic ! nat i)"
    "agc_table kSuppressionTableVirtualMic i = Some (kSuppressionTableVirtualMic ! nat i)"
    using assms by (simp_all add: agc_table_def virtual_tables(2,3))
  then show thesis using that bspec [OF virtual_tables(1), of i] assms by simp
qed

lemma virtual_start:
  assumes "0 \<le> idx" "idx \<le> 255"
  shows "\<exists>g. agc_virtual_start idx = Some g \<and> 1 \<le> g \<and> g \<le> 32767 \<and> (idx \<le> 127 \<longrightarrow> g \<le> 1024)"
proof (cases "idx > 127")
  case True
  obtain g s where "agc_table kGainTableVirtualMic (idx - 128) = Some g" "1 \<le> g" "g \<le> 32767"
    by (rule virtual_gains [of "idx - 128"]) (use True assms in simp_all)
  then show ?thesis using True by (simp add: agc_virtual_start_def)
next
  case False
  obtain g s where "agc_table kSuppressionTableVirtualMic (127 - idx) = Some s" "1 \<le> s" "s \<le> 1024"
    by (rule virtual_gains [of "127 - idx"]) (use False assms in simp_all)
  then show ?thesis using False by (simp add: agc_virtual_start_def)
qed

lemma virtual_next:
  assumes "126 \<le> idx" "idx \<le> 254"
  shows "\<exists>g. agc_virtual_next idx = Some g \<and> 1 \<le> g \<and> g \<le> 32767 \<and> (idx \<le> 126 \<longrightarrow> g \<le> 1024)"
proof (cases "idx \<ge> 127")
  case True
  obtain g s where "agc_table kGainTableVirtualMic (idx - 127) = Some g" "1 \<le> g" "g \<le> 32767"
    by (rule virtual_gains [of "idx - 127"]) (use True assms in simp_all)
  then show ?thesis using True by (simp add: agc_virtual_next_def)
next
  case False
  obtain g s where "agc_table kSuppressionTableVirtualMic (127 - idx) = Some s" "1 \<le> s" "s \<le> 1024"
    by (rule virtual_gains [of "127 - idx"]) (use False assms in simp_all)
  then show ?thesis using False by (simp add: agc_virtual_next_def)
qed

text \<open>
  The gain of an index after a step down, the gain a frame starts with, and the number of samples of the
  lowest band that leave 16 bits when each is scaled by the gain in use, each of them taking the gain one
  step down for the next sample. The numbers are exact; an index is only looked up inside the tables.
\<close>

definition virtual_gain :: "int \<Rightarrow> int" where
  "virtual_gain idx = (if 127 \<le> idx then kGainTableVirtualMic ! nat (idx - 127) else kSuppressionTableVirtualMic ! nat (127 - idx))"

definition virtual_first_gain :: "int \<Rightarrow> int" where
  "virtual_first_gain idx = (if 127 < idx then kGainTableVirtualMic ! nat (idx - 128) else kSuppressionTableVirtualMic ! nat (127 - idx))"

fun virtual_clips :: "int \<Rightarrow> int \<Rightarrow> int list \<Rightarrow> nat" where
  "virtual_clips idx g [] = 0"
| "virtual_clips idx g (x # xs) =
     (if is16 (x * g div 1024) then virtual_clips idx g xs
      else Suc (virtual_clips (idx - 1) (virtual_gain (idx - 1)) xs))"

lemma virtual_next_gain: "agc_virtual_next idx = Some g \<Longrightarrow> virtual_gain idx = g"
  and virtual_start_gain: "agc_virtual_start idx = Some g \<Longrightarrow> virtual_first_gain idx = g"
  by (auto simp: agc_virtual_next_def agc_virtual_start_def virtual_gain_def virtual_first_gain_def agc_table_def split: if_splits)

text \<open>
  The index never leaves the tables: a step down needs a gain above one, which an index below 127 does
  not have.
\<close>

lemma virtual_run_ok:
  assumes "\<forall>x\<in>set xs. is16 x" "0 \<le> idx" "idx \<le> 255" "1 \<le> g" "g \<le> 32767" "idx \<le> 126 \<Longrightarrow> g \<le> 1024"
  shows "\<exists>idx' ys gs. agc_virtual_run idx g xs = Some (idx', ys, gs) \<and> min 126 idx \<le> idx' \<and> idx' \<le> idx \<and>
    idx' = idx - int (virtual_clips idx g xs) \<and> length ys = length xs \<and> length gs = length xs \<and> (\<forall>y\<in>set ys. is16 y)"
  using assms
proof (induction xs arbitrary: idx g)
  case Nil
  then show ?case by simp
next
  case (Cons x xs)
  define t where "t = sar (s32 (x * g)) 10"
  have x: "\<bar>x\<bar> \<le> 32768" using Cons.prems(1) by (auto simp: is16_def)
  then have "\<bar>x\<bar> * \<bar>g\<bar> \<le> 32768 * 32767" using Cons.prems(4,5) by (intro mult_mono) simp_all
  then have s: "s32 (x * g) = x * g" by (simp add: s32_eqI abs_le_iff flip: abs_mult)
  show ?case
  proof (cases "t > 32767 \<or> t < - 32768")
    case True
    have "\<not> g \<le> 1024"
    proof
      assume g: "g \<le> 1024"
      have "x * g \<le> 32767 * 1024 \<and> - 32768 * 1024 \<le> x * g"
      proof (cases "0 \<le> x")
        case True
        then have "0 \<le> x * g" "x * g \<le> 32767 * 1024"
          using mult_mono [of x 32767 g 1024] Cons.prems(1,4) g by (simp_all add: is16_def)
        then show ?thesis by simp
      next
        case False
        then have "- x * g \<le> 32768 * 1024" using mult_mono [of "- x" 32768 g 1024] Cons.prems(1,4) g by (simp add: is16_def)
        moreover have "x * g \<le> 0" using False Cons.prems(4) by (simp add: mult_nonpos_nonneg)
        ultimately show ?thesis by simp
      qed
      then have "- 32768 \<le> t" "t \<le> 32767"
        unfolding t_def s using sar_ge_iff [of "- 32768" "x * g" 10] sar_less_iff [of "x * g" 10 32768] by simp_all
      then show False using True by simp
    qed
    then have i: "127 \<le> idx" using Cons.prems(6) by linarith
    have n: "126 \<le> idx - 1" "idx - 1 \<le> 254" using i Cons.prems(3) by simp_all
    obtain g' where g': "agc_virtual_next (idx - 1) = Some g'" "1 \<le> g'" "g' \<le> 32767" "idx - 1 \<le> 126 \<Longrightarrow> g' \<le> 1024"
      using virtual_next [OF n] by blast
    have "\<forall>x\<in>set xs. is16 x" "0 \<le> idx - 1" "idx - 1 \<le> 255" using Cons.prems i by simp_all
    from Cons.IH [OF this g'(2-4)] obtain idx' ys gs where r: "agc_virtual_run (idx - 1) g' xs = Some (idx', ys, gs)"
      "min 126 (idx - 1) \<le> idx'" "idx' \<le> idx - 1" "idx' = idx - 1 - int (virtual_clips (idx - 1) g' xs)" "length ys = length xs" "length gs = length xs" "\<forall>y\<in>set ys. is16 y" by blast
    have "s32 (idx - 1) = idx - 1" using Cons.prems(2,3) by (simp add: s32_eqI)
    then have "agc_virtual_run idx g (x # xs) = Some (idx', s16 (if t > 32767 then 32767 else - 32768) # ys, g' # gs)"
      using True g'(1) r(1) by (auto simp: Let_def simp flip: t_def)
    moreover have "min 126 idx \<le> idx'" using r(2) i by linarith
    moreover have "\<not> is16 (x * g div 1024)" using True s by (auto simp: t_def sar_def is16_def)
    then have "idx' = idx - int (virtual_clips idx g (x # xs))" using r(4) virtual_next_gain [OF g'(1)] by simp
    ultimately show ?thesis using r by (auto simp: is16_def s16_def simp del: virtual_clips.simps)
  next
    case False
    have "\<forall>x\<in>set xs. is16 x" using Cons.prems(1) by simp
    from Cons.IH [OF this Cons.prems(2-6)] obtain idx' ys gs where r: "agc_virtual_run idx g xs = Some (idx', ys, gs)"
      "min 126 idx \<le> idx'" "idx' \<le> idx" "idx' = idx - int (virtual_clips idx g xs)" "length ys = length xs" "length gs = length xs" "\<forall>y\<in>set ys. is16 y" by blast
    have "agc_virtual_run idx g (x # xs) = Some (idx', s16 t # ys, g # gs)"
      using False r(1) by (simp add: Let_def flip: t_def)
    moreover have "is16 (x * g div 1024)" using False s by (auto simp: t_def sar_def is16_def)
    ultimately show ?thesis using r by (auto simp: is16_def s16_def)
  qed
qed

text \<open>The local state before the gain is applied.\<close>

definition agc_virtual_state :: "LegacyAgc \<Rightarrow> int \<Rightarrow> LegacyAgc" where
  "agc_virtual_state stt micLevelIn =
     (if micLevelIn \<noteq> micRef stt then stt\<lparr>micRef := micLevelIn, micVol := 127, micGainIdx := 127\<rparr> else stt)"

definition agc_virtual_index :: "LegacyAgc \<Rightarrow> int \<Rightarrow> int" where
  "agc_virtual_index stt micLevelIn =
     (if micLevelIn \<noteq> micRef stt then 127 else if micVol stt > maxAnalog stt then maxAnalog stt else micVol stt)"

lemma legacy_ok_virtual:
  assumes "legacy_ok kAgcModeAdaptiveDigital stt"
  shows "legacy_ok kAgcModeAdaptiveDigital ((agc_virtual_state (stt\<lparr>lowLevelSignal := s\<rparr>) lvl)\<lparr>micGainIdx := i\<rparr>)"
    "0 \<le> agc_virtual_index stt lvl" "agc_virtual_index stt lvl \<le> 255"
  using assms
  by (auto simp: agc_virtual_state_def agc_virtual_index_def legacy_ok_def level_inv_def range_ok_def timing_ok_def ring_ok_def)

lemma VirtualMic_ok:
  assumes ok: "legacy_ok kAgcModeAdaptiveDigital stt" and b: "bands_ok n bands"
  obtains stt' bands' idx r where "WebRtcAgc_VirtualMic stt bands n lvl = Some (stt', bands', idx, r)"
    "legacy_ok kAgcModeAdaptiveDigital stt'" "bands_ok n bands'"
    "min 126 (agc_virtual_index stt lvl) \<le> idx" "idx \<le> agc_virtual_index stt lvl"
    "idx = agc_virtual_index stt lvl - int (virtual_clips (agc_virtual_index stt lvl)
       (virtual_first_gain (agc_virtual_index stt lvl)) (take n (bands ! 0)))"
    "r = (if agc_samples_ok (agc_fs stt) n then 0 else - 1)"
proof -
  let ?i = "agc_virtual_index stt lvl"
  define s where "s = stt\<lparr>lowLevelSignal := agc_low_level (agc_fs stt) (take n (bands ! 0))\<rparr>"
  have e: "(if lvl \<noteq> micRef s then (s\<lparr>micRef := lvl, micVol := 127, micGainIdx := 127\<rparr>, 127)
      else (s, if micVol s > maxAnalog s then maxAnalog s else micVol s)) = (agc_virtual_state s lvl, ?i)"
    by (simp add: s_def agc_virtual_state_def agc_virtual_index_def)
  have i: "0 \<le> ?i" "?i \<le> 255" by (rule legacy_ok_virtual(2,3) [OF ok])+
  obtain g where g: "agc_virtual_start ?i = Some g" "1 \<le> g" "g \<le> 32767" "?i \<le> 127 \<longrightarrow> g \<le> 1024"
    using virtual_start [OF i] by blast
  have b0: "n \<le> length (bands ! 0)" "\<forall>x\<in>set (bands ! 0). is16 x" using b nth_mem [of 0 bands] unfolding bands_ok_def by auto
  then have x: "\<forall>x\<in>set (take n (bands ! 0)). is16 x" by (auto dest: in_set_takeD)
  obtain idx ys gs where r: "agc_virtual_run ?i g (take n (bands ! 0)) = Some (idx, ys, gs)" "min 126 ?i \<le> idx" "idx \<le> ?i"
    "idx = ?i - int (virtual_clips ?i g (take n (bands ! 0)))" "length ys = length (take n (bands ! 0))" "length gs = length (take n (bands ! 0))" "\<forall>y\<in>set ys. is16 y"
    using virtual_run_ok [OF x i g(2,3)] g(4) by fastforce
  define others where "others = map (\<lambda>band. map2 (\<lambda>x g. agc_clip (sar (s32 (x * g)) 10)) (take n band) gs @ drop n band) (tl bands)"
  define out where "out = (ys @ drop n (bands ! 0)) # others"
  have o: "bands_ok n out"
  proof -
    have l: "length ys = n" "length gs = n" using r(5,6) b0(1) by simp_all
    have "n \<le> length y \<and> (\<forall>x\<in>set y. is16 x)" if y: "y \<in> set others" for y
    proof -
      obtain c where c: "c \<in> set (tl bands)" "y = map2 (\<lambda>x g. agc_clip (sar (s32 (x * g)) 10)) (take n c) gs @ drop n c"
        using y unfolding others_def set_map by (elim imageE) blast
      then have "c \<in> set bands" using b by (cases bands) (auto simp: bands_ok_def)
      then have "n \<le> length c" "\<forall>x\<in>set c. is16 x" using b by (auto simp: bands_ok_def)
      then show ?thesis using l by (auto simp: c(2) dest: in_set_dropD)
    qed
    then show ?thesis using l b0 r(7) by (auto simp: bands_ok_def out_def dest: in_set_dropD)
  qed
  define st where "st = (agc_virtual_state s lvl)\<lparr>micGainIdx := idx\<rparr>"
  have k: "legacy_ok kAgcModeAdaptiveDigital st" unfolding st_def s_def by (rule legacy_ok_virtual(1) [OF ok])
  have f: "agc_fs st = agc_fs stt" by (simp add: st_def s_def agc_virtual_state_def)
  obtain stt' bands' rr where m: "WebRtcAgc_AddMic st out n = Some (stt', bands', rr)"
    "legacy_ok kAgcModeAdaptiveDigital stt'" "bands_ok n bands'" "rr = (if agc_samples_ok (agc_fs st) n then 0 else - 1)"
    by (rule AddMic_ok [OF k o])
  have "WebRtcAgc_VirtualMic stt bands n lvl = Some (stt', bands', idx, if rr \<noteq> 0 then - 1 else 0)"
    unfolding WebRtcAgc_VirtualMic_def Let_def s_def [symmetric]
    using e m(1) by (simp add: g(1) r(1) st_def out_def others_def split_beta)
  then show thesis using that m(2-4) r(2-4) f virtual_start_gain [OF g(1)] by simp
qed

section \<open>Configuration\<close>

text \<open>The compression gain a configuration leads to in a mode, and the gains that keep the table bounded.\<close>

definition agc_compression :: "int \<Rightarrow> WebRtcAgcConfig \<Rightarrow> int" where
  "agc_compression mode config =
     (if mode = kAgcModeFixedDigital then cfg_compressionGaindB config + cfg_targetLevelDbfs config
      else cfg_compressionGaindB config)"

definition config_valid :: "WebRtcAgcConfig \<Rightarrow> bool" where
  "config_valid config \<longleftrightarrow> (cfg_limiterEnable config = 0 \<or> cfg_limiterEnable config = 1) \<and>
     0 \<le> cfg_targetLevelDbfs config \<and> cfg_targetLevelDbfs config \<le> 31"

definition config_bounded :: "int \<Rightarrow> WebRtcAgcConfig \<Rightarrow> bool" where
  "config_bounded mode config \<longleftrightarrow> config_valid config \<longrightarrow>
     0 \<le> agc_compression mode config \<and> agc_compression mode config \<le> 18"

lemma thresholds_target:
  assumes "0 \<le> compressionGaindB stt" "compressionGaindB stt \<le> 18"
  shows "0 \<le> analogTarget (WebRtcAgc_UpdateAgcThresholds stt)" "analogTarget (WebRtcAgc_UpdateAgcThresholds stt) \<le> 18"
proof -
  let ?c = "compressionGaindB stt"
  have q: "WebRtcSpl_DivW32W16ResW16 (s16 (5 * ?c + 5)) 11 = (5 * ?c + 5) div 11"
    "0 \<le> (5 * ?c + 5) div 11" "(5 * ?c + 5) div 11 \<le> 8"
    using assms by (simp_all add: WebRtcSpl_DivW32W16ResW16_def s16_eqI sdiv_pos pos_imp_zdiv_nonneg_iff)
  then have "s16 (4 + WebRtcSpl_DivW32W16ResW16 (s16 (5 * ?c + 5)) 11) = 4 + (5 * ?c + 5) div 11"
    by (simp add: s16_eqI)
  then show "0 \<le> analogTarget (WebRtcAgc_UpdateAgcThresholds stt)" "analogTarget (WebRtcAgc_UpdateAgcThresholds stt) \<le> 18"
    using assms q(2,3) unfolding WebRtcAgc_UpdateAgcThresholds_def Let_def by simp_all
qed

text \<open>What a new gain table and new thresholds leave alone.\<close>

definition settled where
  "settled stt = (frozen (stt\<lparr>digitalAgc := (digitalAgc stt)\<lparr>gainTable := []\<rparr>\<rparr>), Rxx16_vectorw32 stt, Rxx16pos stt,
     msTooHigh stt, msecSpeechOuterChange stt, msecSpeechInnerChange stt, maxLevel stt, micVol stt, zeroCtrlMax stt)"

lemma settled_update [simp]:
  "settled (WebRtcAgc_UpdateAgcThresholds stt) = settled stt" "settled (stt\<lparr>lastError := e\<rparr>) = settled stt"
  "settled (stt\<lparr>limiterEnable := li\<rparr>) = settled stt" "settled (stt\<lparr>compressionGaindB := c\<rparr>) = settled stt"
  "settled (stt\<lparr>targetLevelDbfs := t\<rparr>) = settled stt" "settled (stt\<lparr>usedConfig := u\<rparr>) = settled stt"
  "settled (stt\<lparr>digitalAgc := (digitalAgc stt)\<lparr>gainTable := gt\<rparr>\<rparr>) = settled stt"
  by (simp_all add: settled_def frozen_def WebRtcAgc_UpdateAgcThresholds_def Let_def)

lemma legacy_settled:
  assumes "legacy_ok m stt" "settled stt' = settled stt" "digitalAgc stt' = (digitalAgc stt)\<lparr>gainTable := gt\<rparr>" "table_ok gt"
  shows "legacy_ok m stt'"
  using assms
  by (simp add: settled_def frozen_def legacy_ok_def level_inv_def range_ok_def timing_ok_def ring_ok_def digital_ok_def)

text \<open>A valid configuration is stored and its table computed; any other is refused with an error code.\<close>

lemma set_config_valid:
  assumes "initFlag stt = kAgcInitCheck" "config_valid config"
    and "0 \<le> agc_compression (agc_mode stt) config" "agc_compression (agc_mode stt) config \<le> 18"
  obtains stt' gt where "agc_set_config stt config = Some (stt', 0)" "table_ok gt" "settled stt' = settled stt"
    "digitalAgc stt' = (digitalAgc stt)\<lparr>gainTable := gt\<rparr>" "usedConfig stt' = config"
    "WebRtcAgc_CalculateGainTable (agc_compression (agc_mode stt) config) (cfg_targetLevelDbfs config)
       (cfg_limiterEnable config \<noteq> 0) (analogTarget stt') = GainTable gt"
    "compressionGaindB stt' = agc_compression (agc_mode stt) config"
proof -
  define c where "c = agc_compression (agc_mode stt) config"
  define s where "s = stt\<lparr>limiterEnable := cfg_limiterEnable config, compressionGaindB := cfg_compressionGaindB config,
    targetLevelDbfs := cfg_targetLevelDbfs config, compressionGaindB := c\<rparr>"
  define u where "u = WebRtcAgc_UpdateAgcThresholds s"
  have c: "0 \<le> c" "c \<le> 18" using assms(3,4) by (simp_all add: c_def)
  have t: "0 \<le> cfg_targetLevelDbfs config" "cfg_targetLevelDbfs config \<le> 31"
    "cfg_limiterEnable config = 0 \<or> cfg_limiterEnable config = 1" using assms(2) by (simp_all add: config_valid_def)
  have a: "0 \<le> analogTarget u" "analogTarget u \<le> 18"
    using thresholds_target [of s] c by (simp_all add: u_def s_def)
  obtain gt where g: "WebRtcAgc_CalculateGainTable c (cfg_targetLevelDbfs config) (cfg_limiterEnable config \<noteq> 0) (analogTarget u) = GainTable gt"
    "table_ok gt" by (rule gain_table_ok [OF c t(1,2) a])
  have f: "compressionGaindB u = c" "targetLevelDbfs u = cfg_targetLevelDbfs config" "limiterEnable u = cfg_limiterEnable config"
    "digitalAgc u = digitalAgc stt" "settled u = settled stt"
    by (simp_all add: u_def s_def WebRtcAgc_UpdateAgcThresholds_def Let_def settled_def frozen_def)
  have "s16 c = c" using c by (simp add: s16_eqI)
  then have e: "agc_set_config stt config = agc_reconfigure s config"
    using assms(1) t by (auto simp: agc_set_config_def s_def c_def agc_compression_def)
  define stt' where "stt' = u\<lparr>digitalAgc := (digitalAgc u)\<lparr>gainTable := gt\<rparr>, usedConfig := config\<rparr>"
  have "agc_set_config stt config = Some (stt', 0)"
    unfolding e agc_reconfigure_def Let_def u_def [symmetric] f(1-3) g(1) by (simp add: stt'_def)
  moreover have "settled stt' = settled stt" unfolding stt'_def by (simp add: f(5))
  moreover have "digitalAgc stt' = (digitalAgc stt)\<lparr>gainTable := gt\<rparr>" "usedConfig stt' = config"
    "analogTarget stt' = analogTarget u" "compressionGaindB stt' = c" using f by (simp_all add: stt'_def)
  ultimately show thesis using that [of stt' gt] g unfolding c_def by simp
qed

lemma set_config_invalid:
  assumes "initFlag stt = kAgcInitCheck" "\<not> config_valid config"
  obtains stt' where "agc_set_config stt config = Some (stt', - 1)" "settled stt' = settled stt"
    "digitalAgc stt' = digitalAgc stt" "lastError stt' = AGC_BAD_PARAMETER_ERROR" "usedConfig stt' = usedConfig stt"
proof (cases "cfg_limiterEnable config = 0 \<or> cfg_limiterEnable config = 1")
  case False
  then show thesis using assms(1) by (intro that [of "stt\<lparr>lastError := AGC_BAD_PARAMETER_ERROR\<rparr>"]) (simp_all add: agc_set_config_def)
next
  case True
  then have "cfg_targetLevelDbfs config < 0 \<or> cfg_targetLevelDbfs config > 31" using assms(2) by (auto simp: config_valid_def)
  then show thesis using assms(1) True
    by (intro that [of "stt\<lparr>limiterEnable := cfg_limiterEnable config, compressionGaindB := cfg_compressionGaindB config,
          lastError := AGC_BAD_PARAMETER_ERROR\<rparr>"]) (auto simp: agc_set_config_def Let_def)
qed

text \<open>
  The outcome of a valid configuration by the compression gain it leads to: the three ranges of the gain
  table. A refused gain has changed the parameters and the thresholds already, and sets no error code.
\<close>

lemma diff_gain_ranges:
  assumes "is16 c"
  shows "agc_diff_gain c < 0 \<or> 128 \<le> agc_diff_gain c \<longleftrightarrow> c < - 1 \<or> 191 < c" "125 \<le> agc_diff_gain c \<longleftrightarrow> 187 \<le> c"
proof -
  have c: "- 32768 \<le> c" "c \<le> 32767" using assms by (simp_all add: is16_def)
  have d: "agc_diff_gain c = (2 * c + 1) sdiv 3"
  proof -
    have "s32 (s32 (c * (3 - 1)) + sar 3 1) = 2 * c + 1" using c by (simp add: sar_def s32_eqI)
    moreover have "s16 ((2 * c + 1) sdiv 3) = (2 * c + 1) sdiv 3"
    proof (cases "0 \<le> 2 * c + 1")
      case True
      then show ?thesis using c by (intro s16_eqI) (simp_all add: sdiv_pos)
    next
      case False
      then have "(2 * c + 1) sdiv 3 = - ((- (2 * c + 1)) div 3)" by (simp add: signed_divide_int_def abs_if)
      then show ?thesis using False c by (intro s16_eqI) linarith+
    qed
    ultimately show ?thesis by (simp add: agc_diff_gain_def WebRtcSpl_DivW32W16ResW16_def)
  qed
  have "0 \<le> 2 * c + 1 \<Longrightarrow> agc_diff_gain c = (2 * c + 1) div 3" unfolding d by (simp add: sdiv_pos)
  moreover have "2 * c + 1 < 0 \<Longrightarrow> agc_diff_gain c = - ((- (2 * c + 1)) div 3)" unfolding d by (simp add: signed_divide_int_def abs_if)
  ultimately show "agc_diff_gain c < 0 \<or> 128 \<le> agc_diff_gain c \<longleftrightarrow> c < - 1 \<or> 191 < c" "125 \<le> agc_diff_gain c \<longleftrightarrow> 187 \<le> c"
    by linarith+
qed

lemma set_config_outcome:
  assumes init: "initFlag stt = kAgcInitCheck" and v: "config_valid config" and "is16 (cfg_compressionGaindB config)"
  defines "c \<equiv> s16 (agc_compression (agc_mode stt) config)"
  obtains u gt where "settled u = settled stt" "digitalAgc u = digitalAgc stt" "usedConfig u = usedConfig stt" "lastError u = lastError stt"
    "compressionGaindB u = c" "targetLevelDbfs u = cfg_targetLevelDbfs config" "limiterEnable u = cfg_limiterEnable config"
    "agc_set_config stt config =
      (if c < - 1 \<or> 191 < c then Some (u, - 1) else if 187 \<le> c then None
       else Some (u\<lparr>digitalAgc := (digitalAgc stt)\<lparr>gainTable := gt\<rparr>, usedConfig := config\<rparr>, 0))"
    "- 1 \<le> c \<and> c \<le> 186 \<longrightarrow> WebRtcAgc_CalculateGainTable c (cfg_targetLevelDbfs config)
       (cfg_limiterEnable config \<noteq> 0) (analogTarget u) = GainTable gt"
proof -
  define s where "s = stt\<lparr>limiterEnable := cfg_limiterEnable config, compressionGaindB := cfg_compressionGaindB config,
    targetLevelDbfs := cfg_targetLevelDbfs config, compressionGaindB := c\<rparr>"
  define u where "u = WebRtcAgc_UpdateAgcThresholds s"
  have t: "0 \<le> cfg_targetLevelDbfs config" "cfg_targetLevelDbfs config \<le> 31"
    "cfg_limiterEnable config = 0 \<or> cfg_limiterEnable config = 1" using v by (simp_all add: config_valid_def)
  have f: "compressionGaindB u = c" "targetLevelDbfs u = cfg_targetLevelDbfs config" "limiterEnable u = cfg_limiterEnable config"
    "digitalAgc u = digitalAgc stt" "usedConfig u = usedConfig stt" "lastError u = lastError stt" "settled u = settled stt"
    by (simp_all add: u_def s_def WebRtcAgc_UpdateAgcThresholds_def Let_def settled_def frozen_def)
  have "s16 (cfg_compressionGaindB config) = cfg_compressionGaindB config" using assms(3) by (simp add: is16_def s16_eqI)
  then have e: "agc_set_config stt config = agc_reconfigure s config"
    using init t by (auto simp: agc_set_config_def s_def c_def agc_compression_def)
  define T where "T = WebRtcAgc_CalculateGainTable c (cfg_targetLevelDbfs config) (cfg_limiterEnable config \<noteq> 0) (analogTarget u)"
  define gt where "gt = (case T of GainTable gt \<Rightarrow> gt | _ \<Rightarrow> [])"
  have "is16 c" by (simp add: c_def)
  note d = diff_gain_ranges [OF this]
  have T: "T = (if c < - 1 \<or> 191 < c then BadConfig else if 187 \<le> c then BadRead else GainTable gt)"
    using CalculateGainTable_cases [of c] d by (simp add: T_def gt_def)
  have a: "agc_reconfigure s config =
      (case T of BadRead \<Rightarrow> None | BadConfig \<Rightarrow> Some (u, - 1)
       | GainTable g \<Rightarrow> Some (u\<lparr>digitalAgc := (digitalAgc u)\<lparr>gainTable := g\<rparr>, usedConfig := config\<rparr>, 0))"
    unfolding agc_reconfigure_def Let_def u_def [symmetric] f(1-3) T_def by (rule refl)
  have "agc_set_config stt config =
      (if c < - 1 \<or> 191 < c then Some (u, - 1) else if 187 \<le> c then None
       else Some (u\<lparr>digitalAgc := (digitalAgc stt)\<lparr>gainTable := gt\<rparr>, usedConfig := config\<rparr>, 0))"
    unfolding e a T f(4) by simp
  moreover have "- 1 \<le> c \<and> c \<le> 186 \<longrightarrow> T = GainTable gt" by (simp add: T)
  ultimately show thesis unfolding T_def by (rule that [OF f(7,4,5,6,1,2,3)])
qed

section \<open>Initialisation\<close>

text \<open>The volume ranges the initialisation is given; the adaptive digital mode has its own.\<close>

definition volume_ok :: "int \<Rightarrow> int \<Rightarrow> bool" where
  "volume_ok minLev maxLev \<longleftrightarrow> 0 \<le> minLev \<and> minLev < maxLev \<and> maxLev < 67108864 \<and> maxLev - minLev \<le> 131071"

lemma init_levels:
  assumes "volume_ok minLev maxLev" "agc_mode stt = kAgcModeAdaptiveDigital \<Longrightarrow> maxLev = 255"
  defines "s \<equiv> agc_init_state (agc_init_levels stt minLev maxLev)"
  shows "level_inv s" "ring_ok s" "minLevel s = minLev" "maxAnalog s = maxLev" "inQueue s = 0" "gainTableIdx s = 0"
    "initFlag s = kAgcInitCheck" "agc_mode s = agc_mode stt" "agc_fs s = agc_fs stt" "digitalAgc s = digitalAgc stt"
    "vadMic s = vadMic stt" "length (env_queue s) = 2" "length (Rxx16w32_array s) = length (Rxx16w32_array stt)"
    "defaultConfig s = \<lparr>cfg_targetLevelDbfs = 3, cfg_compressionGaindB = 9, cfg_limiterEnable = 1\<rparr>"
proof -
  have v: "0 \<le> minLev" "minLev < maxLev" "maxLev < 67108864" "maxLev - minLev \<le> 131071"
    using assms(1) by (simp_all add: volume_ok_def)
  define R where "R = maxLev - minLev"
  have R: "1 \<le> R" "R \<le> 131071" "s32 R = R" using v by (simp_all add: R_def s32_eqI)
  have q: "0 \<le> R div 4" "R div 4 \<le> 32767" "4 * (R div 4) \<le> R" "R sdiv 4 = R div 4"
    using R by (simp_all add: sdiv_pos pos_imp_zdiv_nonneg_iff)
  have m: "s32 (maxLev + R div 4) = maxLev + R div 4" "s32 (maxLev + R div 4 - minLev) = R + R div 4"
    using q v by (simp_all add: s32_eqI R_def)
  define X where "X = sar (s32 (s32 (maxLev + R div 4 - minLev) * 10)) 8"
  have "s32 ((R + d) * 10) = (R + d) * 10" if "0 \<le> d" "d \<le> 32767" for d
    using that R(1,2) by (intro s32_eqI) simp_all
  from this [OF q(1,2)] have t: "s32 ((R + R div 4) * 10) = (R + R div 4) * 10" .
  have X: "X = sar ((R + R div 4) * 10) 8" unfolding X_def m(2) t ..
  have "(R + R div 4) * 10 < (R + 1) * 2 ^ 8" using q R by simp
  then have "X \<le> R" using sar_less_iff [of "(R + R div 4) * 10" 8 "R + 1"] unfolding X by simp
  moreover have "0 \<le> X" unfolding X using q R by (intro sar_nonneg) simp
  moreover from calculation have "s32 (minLev + X) = minLev + X" using v R by (intro s32_eqI) linarith+
  moreover have "minOutput s = s32 (minLev + X)"
    by (simp add: s_def agc_init_state_def agc_init_levels_def Let_def R(3) q(4) m(1) X_def flip: R_def)
  ultimately have "minLev \<le> minOutput s" "minOutput s \<le> maxLev" using R_def by simp_all
  then show "level_inv s"
    using v q assms(2) by (simp add: s_def agc_init_state_def agc_init_levels_def Let_def R(3) q(4) m R_def [symmetric]
        level_inv_def range_ok_def timing_ok_def kMsecSpeechInner_def kMsecSpeechOuter_def)
qed (simp_all add: s_def agc_init_state_def agc_init_levels_def Let_def ring_ok_def)

lemma high_bits_clear:
  assumes "0 \<le> x" "x < 67108864"
  shows "u32 x AND 0xFC000000 = 0"
proof -
  have "push_bit 26 (mask 6) = (0xFC000000 :: int)" by code_simp
  then show ?thesis using high_mask_clear [of x 26 6] assms by (simp add: u32_def)
qed

lemma Init_ok:
  assumes m: "0 \<le> mode" "mode \<le> 3" and v: "mode = kAgcModeAdaptiveDigital \<or> volume_ok minLev maxLev"
    and "length (Rxx16w32_array raw) = 2"
  obtains stt where "WebRtcAgc_Init raw minLev maxLev mode fs = Some (stt, 0)" "legacy_ok mode stt"
    "agc_fs stt = fs" "usedConfig stt = \<lparr>cfg_targetLevelDbfs = 3, cfg_compressionGaindB = 9, cfg_limiterEnable = 1\<rparr>"
proof -
  define lo hi where "lo = (if mode = kAgcModeAdaptiveDigital then 0 else minLev)"
    and "hi = (if mode = kAgcModeAdaptiveDigital then 255 else maxLev)"
  have lh: "(if mode = kAgcModeAdaptiveDigital then (0, 255) else (minLev, maxLev)) = (lo, hi)"
    by (simp add: lo_def hi_def)
  have vol: "volume_ok lo hi" using v by (auto simp: lo_def hi_def volume_ok_def)
  define s0 where "s0 = raw\<lparr>digitalAgc := WebRtcAgc_InitDigital (digitalAgc raw) mode, envSum := 0,
    agc_mode := mode, agc_fs := fs, vadMic := WebRtcAgc_InitVad, agc_scale := 0\<rparr>"
  define s where "s = agc_init_state (agc_init_levels s0 lo hi)"
  have h: "hi = 255" if "agc_mode s0 = kAgcModeAdaptiveDigital" using that by (simp add: s0_def hi_def)
  note L = init_levels [where stt = s0, OF vol h, folded s_def]
  have z: "agc_mode s = mode" "agc_fs s = fs" "digitalAgc s = WebRtcAgc_InitDigital (digitalAgc raw) mode"
    "vadMic s = WebRtcAgc_InitVad" "length (Rxx16w32_array s) = 2"
    using L(8-11,13) assms(4) by (simp_all add: s0_def)
  have c: "config_valid (defaultConfig s)" "0 \<le> agc_compression (agc_mode s) (defaultConfig s)"
    "agc_compression (agc_mode s) (defaultConfig s) \<le> 18"
    by (simp_all add: L(14) config_valid_def agc_compression_def)
  obtain s' gt where s': "agc_set_config s (defaultConfig s) = Some (s', 0)" "table_ok gt" "settled s' = settled s"
    "digitalAgc s' = (digitalAgc s)\<lparr>gainTable := gt\<rparr>" "usedConfig s' = defaultConfig s"
    by (rule set_config_valid [OF L(7) c])
  define stt where "stt = s'\<lparr>Rxx160_LPw32 := analogTargetLevel s', lowLevelSignal := 0\<rparr>"
  have "WebRtcAgc_Init raw minLev maxLev mode fs = Some (stt, 0)"
  proof -
    have "\<not> (mode < kAgcModeUnchanged \<or> mode > kAgcModeFixedDigital)"
      using m by (simp add: kAgcModeUnchanged_def kAgcModeFixedDigital_def)
    moreover have "\<not> (lo \<ge> hi \<or> u32 hi AND 0xFC000000 \<noteq> 0)"
      using vol high_bits_clear [of hi] by (simp add: volume_ok_def)
    moreover have "agc_init_state (agc_init_levels (raw\<lparr>digitalAgc := WebRtcAgc_InitDigital (digitalAgc raw) mode, envSum := 0\<rparr>
        \<lparr>agc_mode := mode, agc_fs := fs, vadMic := WebRtcAgc_InitVad, agc_scale := 0\<rparr>) lo hi) = s"
      by (simp add: s_def s0_def)
    ultimately show ?thesis
      unfolding WebRtcAgc_Init_def Let_def lh prod.case stt_def by (simp add: s'(1))
  qed
  moreover have "legacy_ok mode stt"
  proof -
    have d: "digital_ok ((digitalAgc s)\<lparr>gainTable := gt\<rparr>)"
      using s'(2) by (simp add: z(3) WebRtcAgc_InitDigital_def digital_ok_def InitVad_ok level_ok_def gain_ok_def)
    have k: "minLevel s = 0 \<and> maxAnalog s = 255" if "mode = kAgcModeAdaptiveDigital"
      using L(3,4) that by (simp add: lo_def hi_def)
    show ?thesis
      using s'(3,4) d L z m k
      by (simp add: stt_def settled_def frozen_def legacy_ok_def level_inv_def range_ok_def timing_ok_def ring_ok_def InitVad_ok)
  qed
  moreover have "agc_fs stt = fs" "usedConfig stt = defaultConfig s"
    using s'(3,5) z(2) by (simp_all add: stt_def settled_def frozen_def)
  ultimately show thesis using that [of stt] L(14) by simp
qed

section \<open>A frame\<close>

lemma legacy_frozen:
  assumes "legacy_ok m stt" "frozen stt' = frozen stt" "level_inv stt'" "ring_ok stt'"
  shows "legacy_ok m stt'"
  using assms frozenD [OF assms(2)] by (simp add: legacy_ok_def)

lemma legacy_digital: "legacy_ok m stt \<Longrightarrow> digital_ok dig \<Longrightarrow> legacy_ok m (stt\<lparr>digitalAgc := dig\<rparr>)"
  by (simp add: legacy_ok_def level_inv_def range_ok_def timing_ok_def ring_ok_def)

lemma legacy_next_batch: "legacy_ok m stt \<Longrightarrow> legacy_ok m (agc_next_batch stt)"
  by (auto simp: agc_next_batch_def Let_def legacy_ok_def level_inv_def range_ok_def timing_ok_def ring_ok_def s16_eqI)

lemma farend_error_rate:
  assumes "WebRtcAgc_GetAddFarendError (Some stt) n = 0"
  obtains L L2 where "agc_rate (agc_fs stt) = Some (L, L2)" "n = 10 * L"
  using assms by (auto simp: WebRtcAgc_GetAddFarendError_def agc_rate_def split: if_splits)

text \<open>When the analog level is controlled, and what becomes of it.\<close>

definition agc_steers :: "LegacyAgc \<Rightarrow> bool" where
  "agc_steers stt \<longleftrightarrow> agc_mode stt < kAgcModeFixedDigital \<and>
     (lowLevelSignal stt = 0 \<or> agc_mode stt \<noteq> kAgcModeAdaptiveDigital)"

definition agc_level_ok :: "LegacyAgc \<Rightarrow> int \<Rightarrow> int \<Rightarrow> int \<Rightarrow> bool" where
  "agc_level_ok stt inMicLevel level r \<longleftrightarrow>
     (if \<not> agc_steers stt then r = 0 \<and> level = inMicLevel
      else if minLevel stt \<le> inMicLevel \<and> inMicLevel \<le> maxAnalog stt
      then r = 0 \<and> minOutput stt \<le> level \<and> level \<le> maxAnalog stt
      else r = - 1 \<and> level = inMicLevel)"

lemma frame_keeps:
  assumes ok: "legacy_ok m stt" and n: "WebRtcAgc_GetAddFarendError (Some stt) n = 0" and b: "bands_ok n bands"
  obtains stt' outs level w r where "WebRtcAgc_Process (Some stt) bands n lvl echo = Done stt' outs level w r"
    "legacy_ok m stt'" "length outs = length bands" "\<forall>b\<in>set outs. length b = n \<and> (\<forall>y\<in>set b. is16 y)"
    "agc_level_ok stt lvl level r"
proof -
  obtain L L2 where r: "agc_rate (agc_fs stt) = Some (L, L2)" "n = 10 * L" by (rule farend_error_rate [OF n])
  have f: "frame_in_ok L bands" using b by (simp add: frame_in_ok_def bands_ok_def r(2))
  have d: "digital_ok (digitalAgc stt)" using ok by (simp add: legacy_ok_def)
  obtain dig outs where p: "WebRtcAgc_ProcessDigital (digitalAgc stt) bands (agc_fs stt) (lowLevelSignal stt) = Processed dig outs"
    "digital_ok dig" "length outs = length bands" "\<forall>b\<in>set outs. length b = n \<and> (\<forall>y\<in>set b. is16 y)"
    by (rule frame_correct [OF d r(1) f, of "lowLevelSignal stt"]) (use r(2) in blast)
  define s where "s = stt\<lparr>digitalAgc := dig\<rparr>"
  have s: "legacy_ok m s" "level_inv s" "ring_ok s" "agc_steers s = agc_steers stt" "minLevel s = minLevel stt" "maxAnalog s = maxAnalog stt"
    "minOutput s = minOutput stt"
    using legacy_digital [OF ok p(2)] by (simp_all add: s_def legacy_ok_def agc_steers_def)
  define R where "R = (if agc_steers s then WebRtcAgc_ProcessAnalog s lvl lvl (logRatio (vadMic s)) echo 0 else (s, lvl, 0, 0))"
  have e: "WebRtcAgc_Process (Some stt) bands n lvl echo =
    (case R of (stt, level, warning, r) \<Rightarrow>
       if r = - 1 then Done stt outs level warning (- 1) else Done (agc_next_batch stt) outs level warning 0)"
    using n unfolding WebRtcAgc_Process_def R_def agc_steers_def s_def by (simp add: p(1) Let_def)
  have "\<exists>stt' level w r. R = (stt', level, w, r) \<and> legacy_ok m stt' \<and> agc_level_ok s lvl level r"
  proof (cases "agc_steers s")
    case False
    then show ?thesis using s(1) by (simp add: R_def agc_level_ok_def)
  next
    case steers: True
    show ?thesis
    proof (cases "minLevel s \<le> lvl \<and> lvl \<le> maxAnalog s")
      case True
      obtain stt' w where a: "WebRtcAgc_ProcessAnalog s lvl lvl (logRatio (vadMic s)) echo 0 =
          (stt', min (micVol stt') (maxAnalog stt'), w, 0)"
        "level_inv stt'" "frozen stt' = frozen s" "ring_ok stt'" "minOutput stt' \<le> micVol stt'"
        using ProcessAnalog_ok [OF s(2) conjunct1 [OF True] conjunct2 [OF True]] s(3) by metis
      have "minOutput s \<le> maxAnalog s" using s(2) by (simp add: level_inv_def range_ok_def)
      then have "agc_level_ok s lvl (min (micVol stt') (maxAnalog stt')) 0"
        using True steers a(5) frozenD(2,4) [OF a(3)] by (simp add: agc_level_ok_def)
      then show ?thesis using legacy_frozen [OF s(1) a(3,2,4)] a(1) steers by (simp add: R_def)
    next
      case False
      then have "lvl < minLevel s \<or> maxAnalog s < lvl" by linarith
      then have "R = (s, lvl, 0, - 1)" using steers by (simp add: R_def ProcessAnalog_rejects)
      then show ?thesis using False steers s(1) by (simp add: agc_level_ok_def)
    qed
  qed
  then obtain stt' level w r where q: "R = (stt', level, w, r)" "legacy_ok m stt'" "agc_level_ok s lvl level r" by blast
  have l: "agc_level_ok stt lvl level r" using q(3) unfolding agc_level_ok_def s(4-7) .
  show thesis
  proof (cases "r = - 1")
    case True
    then show thesis using that [of stt' outs level w r] e q(1,2) l p(3,4) by simp
  next
    case False
    then have "r = 0" using l by (auto simp: agc_level_ok_def split: if_splits)
    then show thesis using that [of "agc_next_batch stt'" outs level w 0] e q(1) legacy_next_batch [OF q(2)] l p(3,4) by simp
  qed
qed

section \<open>The life of a gain control\<close>

datatype agc_call =
    AddMic "int list list" nat
  | VirtualMic "int list list" nat int
  | AddFarend "int list" nat
  | Process "int list list" nat int int
  | SetConfig WebRtcAgcConfig
  | GetConfig

fun agc_step :: "LegacyAgc option \<Rightarrow> agc_call \<Rightarrow> LegacyAgc option" where
  "agc_step None call = None"
| "agc_step (Some stt) (AddMic bands n) = map_option fst (WebRtcAgc_AddMic stt bands n)"
| "agc_step (Some stt) (VirtualMic bands n lvl) = map_option fst (WebRtcAgc_VirtualMic stt bands n lvl)"
| "agc_step (Some stt) (AddFarend xs n) = fst (WebRtcAgc_AddFarend (Some stt) xs n)"
| "agc_step (Some stt) (Process bands n lvl echo) =
     (case WebRtcAgc_Process (Some stt) bands n lvl echo of
        Rejected \<Rightarrow> Some stt | Hangs \<Rightarrow> None | Done stt' outs level warning r \<Rightarrow> Some stt')"
| "agc_step (Some stt) (SetConfig config) = map_option fst (agc_set_config stt config)"
| "agc_step (Some stt) GetConfig = fst (WebRtcAgc_get_config (Some stt) (Some (usedConfig stt)))"

text \<open>
  What a caller promises: the bands hold the samples announced, the virtual microphone is used in the
  adaptive digital mode only, and compression gains are those the gain table is built for.
\<close>

fun agc_call_ok :: "int \<Rightarrow> agc_call \<Rightarrow> bool" where
  "agc_call_ok m (AddMic bands n) = bands_ok n bands"
| "agc_call_ok m (VirtualMic bands n lvl) = (m = kAgcModeAdaptiveDigital \<and> 0 < n \<and> bands_ok n bands)"
| "agc_call_ok m (AddFarend xs n) = (n \<le> length xs)"
| "agc_call_ok m (Process bands n lvl echo) = bands_ok n bands"
| "agc_call_ok m (SetConfig config) = config_bounded m config"
| "agc_call_ok m GetConfig = True"

definition agc_live :: "int \<Rightarrow> LegacyAgc option \<Rightarrow> bool" where
  "agc_live m s \<longleftrightarrow> (case s of None \<Rightarrow> False | Some stt \<Rightarrow> legacy_ok m stt)"

lemma agc_live_simps [simp]: "agc_live m (Some stt) = legacy_ok m stt" "\<not> agc_live m None"
  by (simp_all add: agc_live_def)

lemma AddFarend_live:
  assumes "legacy_ok m stt"
  shows "agc_live m (fst (WebRtcAgc_AddFarend (Some stt) xs n))"
proof -
  have "digital_ok (WebRtcAgc_AddFarendToDigital (digitalAgc stt) xs n)"
    using assms by (intro AddFarend_ok) (simp add: legacy_ok_def)
  then show ?thesis using assms legacy_digital [OF assms] by (simp add: WebRtcAgc_AddFarend_def Let_def)
qed

lemma set_config_live:
  assumes "legacy_ok m stt" "config_bounded m config"
  shows "agc_live m (map_option fst (agc_set_config stt config))"
proof -
  have f: "initFlag stt = kAgcInitCheck" "agc_mode stt = m" "digital_ok (digitalAgc stt)" using assms(1) by (simp_all add: legacy_ok_def)
  show ?thesis
  proof (cases "config_valid config")
    case True
    then have c: "0 \<le> agc_compression (agc_mode stt) config" "agc_compression (agc_mode stt) config \<le> 18"
      using assms(2) f(2) by (simp_all add: config_bounded_def)
    obtain stt' gt where "agc_set_config stt config = Some (stt', 0)" "table_ok gt" "settled stt' = settled stt"
      "digitalAgc stt' = (digitalAgc stt)\<lparr>gainTable := gt\<rparr>" by (rule set_config_valid [OF f(1) True c])
    then show ?thesis using legacy_settled [OF assms(1)] by simp
  next
    case False
    obtain stt' where s: "agc_set_config stt config = Some (stt', - 1)" "settled stt' = settled stt" "digitalAgc stt' = digitalAgc stt"
      by (rule set_config_invalid [OF f(1) False])
    have "digitalAgc stt' = (digitalAgc stt)\<lparr>gainTable := gainTable (digitalAgc stt)\<rparr>" using s(3) by simp
    from legacy_settled [OF assms(1) s(2) this] f(3) show ?thesis by (simp add: s(1) digital_ok_def)
  qed
qed

lemma frame_live:
  assumes "legacy_ok m stt" "bands_ok n bands"
  shows "agc_live m (agc_step (Some stt) (Process bands n lvl echo))"
proof (cases "WebRtcAgc_GetAddFarendError (Some stt) n = 0")
  case True
  obtain stt' outs level w r where "WebRtcAgc_Process (Some stt) bands n lvl echo = Done stt' outs level w r" "legacy_ok m stt'"
    by (rule frame_keeps [OF assms(1) True assms(2)])
  then show ?thesis by simp
next
  case False
  then show ?thesis using assms(1) by (simp add: WebRtcAgc_Process_def)
qed

interpretation agc_machine: event_machine agc_step "agc_live m" "agc_call_ok m" for m
proof
  fix s call
  assume live: "agc_live m s" and call: "agc_call_ok m call"
  obtain stt where stt: "s = Some stt" "legacy_ok m stt" using live by (cases s) simp_all
  show "agc_live m (agc_step s call)"
  proof (cases call)
    case (AddMic bands n)
    then have "bands_ok n bands" using call by simp
    from AddMic_ok [OF stt(2) this] obtain stt' bands' r where "WebRtcAgc_AddMic stt bands n = Some (stt', bands', r)" "legacy_ok m stt'" .
    then show ?thesis by (simp add: AddMic stt(1))
  next
    case (VirtualMic bands n lvl)
    then have c: "m = kAgcModeAdaptiveDigital" "bands_ok n bands" using call by simp_all
    from VirtualMic_ok [OF stt(2) [unfolded c(1)] c(2)] obtain stt' bands' idx r
      where "WebRtcAgc_VirtualMic stt bands n lvl = Some (stt', bands', idx, r)" "legacy_ok kAgcModeAdaptiveDigital stt'" .
    then show ?thesis by (simp add: VirtualMic stt(1) c(1))
  next
    case (AddFarend xs n)
    then show ?thesis using AddFarend_live [OF stt(2)] by (simp add: stt(1))
  next
    case (Process bands n lvl echo)
    then have "bands_ok n bands" using call by simp
    from frame_live [OF stt(2) this] show ?thesis by (simp only: Process stt(1))
  next
    case (SetConfig config)
    then show ?thesis using set_config_live [OF stt(2), of config] call by (simp add: stt(1))
  next
    case GetConfig
    then show ?thesis using stt by (simp add: WebRtcAgc_get_config_def legacy_ok_def)
  qed
qed

end
