(* ===== verification/AnalogTheorems.thy ===== *)
theory AnalogTheorems imports AnalogSession AgcTheorems begin

text \<open>
  What the analog level control promises: its whole life, a frame, the behaviour under echo, the virtual
  microphone, configuration and error codes, and the two detectors of saturation and silence with the
  overflows they have.
\<close>

section \<open>Concrete instances for the witnesses\<close>

text \<open>Memory as \<open>malloc\<close> may return it, and an instance after creation and initialisation.\<close>

definition raw_legacy :: LegacyAgc where
  "raw_legacy =
     \<lparr>agc_fs = 7, compressionGaindB = 7, targetLevelDbfs = 7, agc_mode = 7, limiterEnable = 7,
      defaultConfig = \<lparr>cfg_targetLevelDbfs = 7, cfg_compressionGaindB = 7, cfg_limiterEnable = 7\<rparr>,
      usedConfig = \<lparr>cfg_targetLevelDbfs = 7, cfg_compressionGaindB = 7, cfg_limiterEnable = 7\<rparr>,
      initFlag = 7, lastError = 7, analogTargetLevel = 7, startUpperLimit = 7, startLowerLimit = 7,
      upperPrimaryLimit = 7, lowerPrimaryLimit = 7, upperSecondaryLimit = 7, lowerSecondaryLimit = 7,
      targetIdx = 7, analogTarget = 7, filterState = two_phase_zero, upperLimit = 7, lowerLimit = 7, Rxx160w32 = 7,
      Rxx16_LPw32 = 7, Rxx160_LPw32 = 7, Rxx16_LPw32Max = 7, Rxx16_vectorw32 = replicate 10 7,
      Rxx16w32_array = replicate 2 (replicate 5 7), env_queue = replicate 2 (replicate 10 7), Rxx16pos = 7, envSum = 7,
      vadThreshold = 7, inActive = 7, msTooLow = 7, msTooHigh = 7, changeToSlowMode = 7, firstCall = 7, msZero = 7,
      msecSpeechOuterChange = 7, msecSpeechInnerChange = 7, activeSpeech = 7, muteGuardMs = 7, inQueue = 7, micRef = 7,
      gainTableIdx = 7, micGainIdx = 7, micVol = 7, maxLevel = 7, maxAnalog = 7, maxInit = 7, minLevel = 7, minOutput = 7,
      zeroCtrlMax = 7, lastInMicLevel = 7, agc_scale = 7, vadMic = WebRtcAgc_InitVad, digitalAgc = sample_agc,
      lowLevelSignal = 7\<rparr>"

lemma raw_legacy_array: "length (Rxx16w32_array (WebRtcAgc_Create raw_legacy)) = 2"
  by (simp add: WebRtcAgc_Create_def raw_legacy_def)

definition sample_legacy :: "int \<Rightarrow> LegacyAgc" where
  "sample_legacy mode = fst (the (WebRtcAgc_Init (WebRtcAgc_Create raw_legacy) 0 255 mode 8000))"

lemma sample_legacy_ok:
  assumes "0 \<le> mode" "mode \<le> 3"
  shows "legacy_ok mode (sample_legacy mode)" "agc_fs (sample_legacy mode) = 8000"
proof -
  have v: "mode = kAgcModeAdaptiveDigital \<or> volume_ok 0 255" by (simp add: volume_ok_def)
  obtain stt where "WebRtcAgc_Init (WebRtcAgc_Create raw_legacy) 0 255 mode 8000 = Some (stt, 0)" "legacy_ok mode stt"
    "agc_fs stt = 8000" by (rule Init_ok [OF assms v raw_legacy_array])
  then show "legacy_ok mode (sample_legacy mode)" "agc_fs (sample_legacy mode) = 8000" by (simp_all add: sample_legacy_def)
qed

lemma sample_legacy_frame: "0 \<le> mode \<Longrightarrow> mode \<le> 3 \<Longrightarrow> WebRtcAgc_GetAddFarendError (Some (sample_legacy mode)) 80 = 0"
  by (simp add: WebRtcAgc_GetAddFarendError_def sample_legacy_ok(2))

lemma loud_bands: "bands_ok 80 [loud_frame]"
  by (simp add: bands_ok_def loud_frame_def is16_def)

section \<open>The life of a gain control\<close>

text \<open>C3: Whatever memory \<open>WebRtcAgc_Create\<close> received, initialised for any mode and any sensible volume
  range (in the adaptive digital mode for any range at all): through any sequence of microphone frames,
  frames of the virtual microphone, far-end frames, processed frames, configurations and queries, as long
  as bands hold the announced samples and compression stays within \<open>18\<close> dB, no call divides by zero, reads
  outside a table or hangs, and the invariant holds, so the next frame cannot hang either.\<close>

theorem analog_session:
  assumes "0 \<le> mode" "mode \<le> 3" "mode = kAgcModeAdaptiveDigital \<or> volume_ok minLev maxLev"
    and "length (Rxx16w32_array raw) = 2" "\<forall>call\<in>set calls. agc_call_ok mode call" "bands_ok n bands"
  shows "case WebRtcAgc_Init (WebRtcAgc_Create raw) minLev maxLev mode fs of None \<Rightarrow> False
    | Some (stt, r) \<Rightarrow> r = 0 \<and> agc_live mode (foldl agc_step (Some stt) calls) \<and>
        WebRtcAgc_Process (foldl agc_step (Some stt) calls) bands n lvl echo \<noteq> Hangs"
proof -
  have "length (Rxx16w32_array (WebRtcAgc_Create raw)) = 2" using assms(4) by (simp add: WebRtcAgc_Create_def)
  from Init_ok [OF assms(1-3) this, of fs] obtain stt where
    i: "WebRtcAgc_Init (WebRtcAgc_Create raw) minLev maxLev mode fs = Some (stt, 0)" "legacy_ok mode stt" by blast
  have "agc_live mode (foldl agc_step (Some stt) calls)"
    using agc_machine.run_keeps [of mode "Some stt" calls] i(2) assms(5) by simp
  moreover from this obtain s where s: "foldl agc_step (Some stt) calls = Some s" "legacy_ok mode s"
    by (cases "foldl agc_step (Some stt) calls") simp_all
  ultimately show ?thesis using frame_live [OF s(2) assms(6), of lvl echo] i(1)
    by (cases "WebRtcAgc_Process (Some s) bands n lvl echo") (simp_all add: s(1))
qed

theorem analog_session_witness:
  "case WebRtcAgc_Init (WebRtcAgc_Create raw_legacy) 0 255 1 8000 of None \<Rightarrow> False
    | Some (stt, r) \<Rightarrow> r = 0 \<and>
        agc_live 1 (foldl agc_step (Some stt) [AddMic [loud_frame] 80, Process [loud_frame] 80 100 0, Process [[]] 0 300 1, GetConfig]) \<and>
        WebRtcAgc_Process (foldl agc_step (Some stt)
          [AddMic [loud_frame] 80, Process [loud_frame] 80 100 0, Process [[]] 0 300 1, GetConfig]) [loud_frame] 80 90 1 \<noteq> Hangs"
  by (rule analog_session) (simp_all add: volume_ok_def loud_bands, simp_all add: raw_legacy_def bands_ok_def)

section \<open>A frame\<close>

text \<open>C13: A frame of the right length is processed: the bands come out with the samples announced, in range;
  the invariant is kept; and where the analog level is controlled the recommended level lies between
  \<open>minOutput\<close> and \<open>maxAnalog\<close>, while a current level outside the range is answered with \<open>-1\<close> and the level
  itself. In the fixed digital mode and for low-level virtual microphones the level passes through.\<close>

theorem analog_frame:
  assumes "legacy_ok m stt" "WebRtcAgc_GetAddFarendError (Some stt) n = 0" "bands_ok n bands"
  shows "case WebRtcAgc_Process (Some stt) bands n lvl echo of
      Done stt' outs level warning r \<Rightarrow> legacy_ok m stt' \<and> agc_level_ok stt lvl level r \<and>
        length outs = length bands \<and> (\<forall>b\<in>set outs. length b = n \<and> (\<forall>y\<in>set b. is16 y))
    | _ \<Rightarrow> False"
  by (rule frame_keeps [OF assms, of lvl echo]) simp

theorem analog_frame_witness:
  "case WebRtcAgc_Process (Some (sample_legacy 1)) [loud_frame] 80 100 0 of
      Done stt' outs level warning r \<Rightarrow> legacy_ok 1 stt' \<and> agc_level_ok (sample_legacy 1) 100 level r \<and>
        length outs = length [loud_frame] \<and> (\<forall>b\<in>set outs. length b = 80 \<and> (\<forall>y\<in>set b. is16 y))
    | _ \<Rightarrow> False"
  by (rule analog_frame) (simp_all add: sample_legacy_ok sample_legacy_frame loud_bands)

text \<open>C23: In the presence of echo the recommended level does not rise above the level the frame starts
  from, or the lowest output if that is higher. That is the level of the device, but for the adjustments the
  code makes before it looks at the echo flag: a first call in the adaptive analog mode raises a level below
  a tenth of the range to it, a level set below \<open>minOutput\<close> is raised in the same way, and the last
  recommended level stays in force when the device did not move or stands at its end under digital gain.\<close>

theorem no_rise_under_echo:
  assumes "level_inv stt" "minLevel stt \<le> lvl" "lvl \<le> maxAnalog stt"
  shows "case WebRtcAgc_ProcessAnalog stt lvl out v 1 w of
    (stt', level, warning, r) \<Rightarrow> r = 0 \<and> level \<le> max (minOutput stt)
      (if firstCall stt = 0 then (if agc_mode stt = kAgcModeAdaptiveAnalog then max lvl (agc_tenth stt) else lvl)
       else if lvl = micVol stt \<or> lvl = maxAnalog stt \<and> maxAnalog stt < micVol stt then micVol stt
       else if lvl < minOutput stt then agc_tenth stt
       else if lvl = lastInMicLevel stt then micVol stt else lvl)"
proof -
  obtain stt' w' where "WebRtcAgc_ProcessAnalog stt lvl out v 1 w = (stt', min (micVol stt') (maxAnalog stt'), w', 0)"
    "micVol stt' \<le> max (micVol (fst (agc_entry stt lvl))) (minOutput stt)"
    using ProcessAnalog_ok [OF assms, of out v 1 w] by metis
  moreover have "micVol (fst (agc_entry stt lvl)) = agc_start_level stt lvl"
    using assms(1) by (intro entry_start) (simp add: level_inv_def range_ok_def)
  ultimately show ?thesis unfolding agc_start_level_def [symmetric] by auto
qed

theorem no_rise_under_echo_witness:
  "case WebRtcAgc_ProcessAnalog (sample_legacy 2) 100 0 500 1 0 of
    (stt', level, warning, r) \<Rightarrow> r = 0 \<and> level \<le> max (minOutput (sample_legacy 2))
      (if firstCall (sample_legacy 2) = 0
       then (if agc_mode (sample_legacy 2) = kAgcModeAdaptiveAnalog then max 100 (agc_tenth (sample_legacy 2)) else 100)
       else if 100 = micVol (sample_legacy 2) \<or> 100 = maxAnalog (sample_legacy 2) \<and> maxAnalog (sample_legacy 2) < micVol (sample_legacy 2)
       then micVol (sample_legacy 2)
       else if 100 < minOutput (sample_legacy 2) then agc_tenth (sample_legacy 2)
       else if 100 = lastInMicLevel (sample_legacy 2) then micVol (sample_legacy 2) else 100)"
proof (rule no_rise_under_echo)
  have "legacy_ok 2 (sample_legacy 2)" by (rule sample_legacy_ok) simp_all
  then show "level_inv (sample_legacy 2)" "minLevel (sample_legacy 2) \<le> 100" "100 \<le> maxAnalog (sample_legacy 2)"
    by (simp_all add: legacy_ok_def kAgcModeAdaptiveDigital_def)
qed

text \<open>The first call raises the level in spite of echo: with the volume range \<open>0..255\<close> from \<open>0\<close> to \<open>31\<close>.\<close>

lemma first_call_rises:
  "fst (snd (WebRtcAgc_ProcessAnalog (sample_legacy 1) 0 0 500 1 0)) = 31"
  by code_simp

section \<open>The virtual microphone\<close>

text \<open>C18: The virtual microphone never leaves its gain tables. The index starts in \<open>0..255\<close> and ends as
  many steps lower as samples of the lowest band were clipped, each sample counted with the gain in use when
  its turn comes (\<open>virtual_clips\<close>); below \<open>126\<close> no sample can saturate. The samples of all bands stay 16-bit
  values, and a frame of the wrong length is reported with \<open>-1\<close>, after the gain has been applied. It serves
  the adaptive digital mode.\<close>

theorem virtual_microphone:
  assumes "legacy_ok kAgcModeAdaptiveDigital stt" "bands_ok n bands"
  shows "let start = agc_virtual_index stt lvl in
    case WebRtcAgc_VirtualMic stt bands n lvl of None \<Rightarrow> False
    | Some (stt', bands', idx, r) \<Rightarrow> legacy_ok kAgcModeAdaptiveDigital stt' \<and> bands_ok n bands' \<and>
        idx = start - int (virtual_clips start (virtual_first_gain start) (take n (bands ! 0))) \<and>
        min 126 start \<le> idx \<and> idx \<le> start \<and> 0 \<le> start \<and> start \<le> 255 \<and>
        r = (if agc_samples_ok (agc_fs stt) n then 0 else - 1)"
  by (rule VirtualMic_ok [OF assms, of lvl]) (simp add: Let_def legacy_ok_virtual(2,3) [OF assms(1)])

theorem virtual_microphone_witness:
  "let start = agc_virtual_index (sample_legacy kAgcModeAdaptiveDigital) 200 in
    case WebRtcAgc_VirtualMic (sample_legacy kAgcModeAdaptiveDigital) [loud_frame] 80 200 of None \<Rightarrow> False
    | Some (stt', bands', idx, r) \<Rightarrow> legacy_ok kAgcModeAdaptiveDigital stt' \<and> bands_ok 80 bands' \<and>
        idx = start - int (virtual_clips start (virtual_first_gain start) (take 80 ([loud_frame] ! 0))) \<and>
        min 126 start \<le> idx \<and> idx \<le> start \<and> 0 \<le> start \<and> start \<le> 255 \<and>
        r = (if agc_samples_ok (agc_fs (sample_legacy kAgcModeAdaptiveDigital)) 80 then 0 else - 1)"
  by (rule virtual_microphone) (simp_all add: sample_legacy_ok loud_bands kAgcModeAdaptiveDigital_def)

section \<open>Configuration\<close>

text \<open>C24: What becomes of any configuration with a 16-bit compression gain, in any mode. A limiter flag
  other than \<open>0\<close> or \<open>1\<close> or a target level outside \<open>0..31\<close> gives \<open>-1\<close> and the error code
  \<open>AGC_BAD_PARAMETER_ERROR\<close>. With both valid, let \<open>c\<close> be the compression gain, plus the target level in the
  fixed digital mode, kept in 16 bits. From \<open>-1\<close> to \<open>186\<close> dB the configuration is accepted:
  \<open>WebRtcAgc_get_config\<close> returns it from now on and the gain table in use is the one computed from it. From
  \<open>187\<close> to \<open>191\<close> the computation reads past its table (\<open>None\<close>). Every other gain gives \<open>-1\<close> as well, but without
  an error code and after the parameters were stored. All rejections leave the configuration that is
  reported and the gain table in use as they were.\<close>

theorem configuration:
  assumes "initFlag stt = kAgcInitCheck" "is16 (cfg_compressionGaindB config)"
  shows "let c = s16 (agc_compression (agc_mode stt) config) in
    case WebRtcAgc_set_config (Some stt) config of
      None \<Rightarrow> config_valid config \<and> 187 \<le> c \<and> c \<le> 191
    | Some (None, r) \<Rightarrow> False
    | Some (Some stt', r) \<Rightarrow>
        snd (WebRtcAgc_get_config (Some stt') (Some old)) = (Some (if r = 0 then config else usedConfig stt), 0) \<and>
        (if \<not> config_valid config
         then r = - 1 \<and> lastError stt' = AGC_BAD_PARAMETER_ERROR \<and> digitalAgc stt' = digitalAgc stt
         else lastError stt' = lastError stt \<and> compressionGaindB stt' = c \<and>
           targetLevelDbfs stt' = cfg_targetLevelDbfs config \<and> limiterEnable stt' = cfg_limiterEnable config \<and>
           (if - 1 \<le> c \<and> c \<le> 186
            then r = 0 \<and> WebRtcAgc_CalculateGainTable c (cfg_targetLevelDbfs config) (cfg_limiterEnable config \<noteq> 0)
                   (analogTarget stt') = GainTable (gainTable (digitalAgc stt'))
            else r = - 1 \<and> (c < - 1 \<or> 191 < c) \<and> digitalAgc stt' = digitalAgc stt))"
proof -
  have i: "initFlag s = kAgcInitCheck" if "settled s = settled stt" for s
    using that assms(1) by (simp add: settled_def frozen_def)
  define c where "c = s16 (agc_compression (agc_mode stt) config)"
  show ?thesis
  proof (cases "config_valid config")
    case True
    obtain u gt where u: "settled u = settled stt" "digitalAgc u = digitalAgc stt" "usedConfig u = usedConfig stt"
      "lastError u = lastError stt" "compressionGaindB u = c" "targetLevelDbfs u = cfg_targetLevelDbfs config"
      "limiterEnable u = cfg_limiterEnable config"
      "agc_set_config stt config =
        (if c < - 1 \<or> 191 < c then Some (u, - 1) else if 187 \<le> c then None
         else Some (u\<lparr>digitalAgc := (digitalAgc stt)\<lparr>gainTable := gt\<rparr>, usedConfig := config\<rparr>, 0))"
      "- 1 \<le> c \<and> c \<le> 186 \<longrightarrow> WebRtcAgc_CalculateGainTable c (cfg_targetLevelDbfs config)
         (cfg_limiterEnable config \<noteq> 0) (analogTarget u) = GainTable gt"
      unfolding c_def by (rule set_config_outcome [OF assms(1) True assms(2)])
    consider "c < - 1 \<or> 191 < c" | "187 \<le> c" "c \<le> 191" | "- 1 \<le> c" "c \<le> 186" by linarith
    then show ?thesis
    proof cases
      case 1
      then have "\<not> (- 1 \<le> c \<and> c \<le> 186)" by linarith
      then show ?thesis using 1 u True i [OF u(1)]
        by (simp add: WebRtcAgc_set_config_def WebRtcAgc_get_config_def Let_def flip: c_def)
    next
      case 2
      then show ?thesis using u(8) True by (simp add: WebRtcAgc_set_config_def Let_def flip: c_def)
    next
      case 3
      then show ?thesis using u True i [OF u(1)]
        by (simp add: WebRtcAgc_set_config_def WebRtcAgc_get_config_def Let_def flip: c_def)
    qed
  next
    case False
    obtain stt' where "agc_set_config stt config = Some (stt', - 1)" "settled stt' = settled stt"
      "digitalAgc stt' = digitalAgc stt" "lastError stt' = AGC_BAD_PARAMETER_ERROR" "usedConfig stt' = usedConfig stt"
      by (rule set_config_invalid [OF assms(1) False])
    then show ?thesis using False i by (simp add: WebRtcAgc_set_config_def WebRtcAgc_get_config_def Let_def)
  qed
qed

theorem configuration_witness:
  "case WebRtcAgc_set_config (Some (sample_legacy 3)) \<lparr>cfg_targetLevelDbfs = 6, cfg_compressionGaindB = 200, cfg_limiterEnable = 0\<rparr> of
      Some (Some stt', r) \<Rightarrow> r = (- 1 :: int) \<and> lastError stt' = lastError (sample_legacy 3) \<and> compressionGaindB stt' = 206 \<and>
        digitalAgc stt' = digitalAgc (sample_legacy 3)
    | _ \<Rightarrow> False"
proof -
  let ?c = "\<lparr>cfg_targetLevelDbfs = 6, cfg_compressionGaindB = 200, cfg_limiterEnable = 0\<rparr>"
  have l: "legacy_ok 3 (sample_legacy 3)" by (rule sample_legacy_ok) simp_all
  then have "initFlag (sample_legacy 3) = kAgcInitCheck" by (simp add: legacy_ok_def)
  moreover have "is16 (cfg_compressionGaindB ?c)" by (simp add: is16_def)
  moreover have "config_valid ?c" by (simp add: config_valid_def)
  moreover have "s16 (agc_compression (agc_mode (sample_legacy 3)) ?c) = 206"
    using l by (simp add: legacy_ok_def agc_compression_def kAgcModeFixedDigital_def s16_eqI)
  ultimately show ?thesis
    using configuration [of "sample_legacy 3" ?c "usedConfig raw_legacy"]
    by (auto simp: Let_def split: option.splits)
qed

section \<open>Saturation and silence\<close>

text \<open>The sum of the loud envelopes of a frame, in units of \<open>2 ^ 20\<close>.\<close>

definition agc_loudness :: "int list \<Rightarrow> int" where
  "agc_loudness env = (\<Sum>e\<leftarrow>take 10 env. if 875 < e div 1048576 then e div 1048576 else 0)"

lemma loudness_fold:
  assumes "\<forall>e\<in>set es. 0 \<le> e \<and> e \<le> 1073741824"
  shows "foldl (\<lambda>sum e. let tmpW16 = s16 (sar e 20) in if tmpW16 > 875 then s16 (sum + tmpW16) else sum) (s16 s) es
    = s16 (s + (\<Sum>e\<leftarrow>es. if 875 < e div 1048576 then e div 1048576 else 0))"
  using assms
proof (induction es arbitrary: s)
  case Nil
  then show ?case by simp
next
  case (Cons e es)
  have "0 \<le> e div 1048576" "e div 1048576 \<le> 1024" using Cons.prems by (auto simp: pos_imp_zdiv_nonneg_iff)
  then have e: "s16 (sar e 20) = e div 1048576" by (simp add: sar_def s16_eqI)
  show ?case
    using Cons.IH [of s] Cons.IH [of "s + e div 1048576"] Cons.prems by (simp add: e Let_def add.assoc)
qed

lemma loudness_range:
  assumes "\<forall>e\<in>set es. 0 \<le> e \<and> e \<le> 1073741824"
  shows "0 \<le> agc_loudness es" "agc_loudness es \<le> 10240"
proof -
  have "0 \<le> (\<Sum>e\<leftarrow>xs. if 875 < e div 1048576 then e div 1048576 else 0) \<and>
    (\<Sum>e\<leftarrow>xs. if 875 < e div 1048576 then e div 1048576 else 0) \<le> 1024 * int (length xs)"
    if "\<forall>e\<in>set xs. 0 \<le> e \<and> e \<le> 1073741824" for xs :: "int list"
    using that by (induction xs) auto
  moreover have "\<forall>e\<in>set (take 10 es). 0 \<le> e \<and> e \<le> 1073741824" using assms by (auto dest: in_set_takeD)
  moreover have "int (length (take 10 es)) \<le> 10" by simp
  ultimately have "0 \<le> agc_loudness es \<and> agc_loudness es \<le> 1024 * int (length (take 10 es))" "int (length (take 10 es)) \<le> 10"
    unfolding agc_loudness_def by blast+
  then show "0 \<le> agc_loudness es" "agc_loudness es \<le> 10240" by linarith+
qed

text \<open>What the accumulator becomes: it is kept in 16 bits.\<close>

lemma saturation_step:
  assumes "- 32768 \<le> envSum stt" "envSum stt \<le> 25000" "\<forall>e\<in>set env. 0 \<le> e \<and> e \<le> 1073741824"
    and "T = envSum stt + agc_loudness env" "W = (if T \<le> 32767 then T else T - 65536)"
  shows "WebRtcAgc_SaturationCtrl stt env = (stt\<lparr>envSum := (if W > 25000 then 0 else W * 32440 div 32768)\<rparr>, W > 25000)"
    "W > 25000 \<longleftrightarrow> 25000 < T \<and> T \<le> 32767"
proof -
  have t: "- 32768 \<le> T" "T \<le> 35240" using assms(1,2,4) loudness_range [OF assms(3)] by simp_all
  have "\<forall>e\<in>set (take 10 env). 0 \<le> e \<and> e \<le> 1073741824" using assms(3) by (auto dest: in_set_takeD)
  from loudness_fold [OF this, of "envSum stt"]
  have f: "foldl (\<lambda>sum e. let tmpW16 = s16 (sar e 20) in if tmpW16 > 875 then s16 (sum + tmpW16) else sum)
      (envSum stt) (take 10 env) = s16 T"
    using assms(1,2) by (simp add: assms(4) agc_loudness_def s16_eqI)
  have w: "s16 T = W"
  proof (cases "T \<le> 32767")
    case True
    then show ?thesis using t by (simp add: s16_eqI assms(5))
  next
    case False
    have "s16 T = s16 (T - 65536)" by (rule s16_cong) simp
    then show ?thesis using False t by (simp add: s16_eqI assms(5))
  qed
  have W: "- 32768 \<le> W" "W \<le> 32767" using t by (simp_all add: assms(5))
  have s: "s32 (W * 32440) = W * 32440" using W by (intro s32_eqI) simp_all
  have d: "W * 32440 div 32768 \<le> 32767" "- 32768 \<le> W * 32440 div 32768" using W by linarith+
  show "W > 25000 \<longleftrightarrow> 25000 < T \<and> T \<le> 32767" using t by (auto simp: assms(5))
  show "WebRtcAgc_SaturationCtrl stt env = (stt\<lparr>envSum := (if W > 25000 then 0 else W * 32440 div 32768)\<rparr>, W > 25000)"
    unfolding WebRtcAgc_SaturationCtrl_def Let_def f [unfolded Let_def] w
    using s d by (simp add: s16_eqI sar_def)
qed

text \<open>C32: A frame is reported as saturated when the accumulated loudness exceeds \<open>25000\<close>, but only as long
  as it fits the \<open>int16_t\<close> it is kept in: from \<open>32768\<close> on it wraps, nothing is reported, and the accumulator
  starts the next frame far below zero. Full-scale frames reach that value.\<close>

theorem saturation_detection:
  assumes "- 32768 \<le> envSum stt" "envSum stt \<le> 25000" "\<forall>e\<in>set env. 0 \<le> e \<and> e \<le> 1073741824"
  shows "let acc = envSum stt + agc_loudness env; (stt', saturated) = WebRtcAgc_SaturationCtrl stt env
    in saturated = (25000 < acc \<and> acc \<le> 32767) \<and>
       envSum stt' = (if saturated then 0 else (if acc \<le> 32767 then acc else acc - 65536) * 32440 div 32768)"
  using saturation_step [OF assms refl refl] by (simp add: Let_def)

theorem saturation_detection_witness:
  "let acc = envSum (raw_legacy\<lparr>envSum := 22989\<rparr>) + agc_loudness (replicate 10 1073741824);
      (stt', saturated) = WebRtcAgc_SaturationCtrl (raw_legacy\<lparr>envSum := 22989\<rparr>) (replicate 10 1073741824)
    in saturated = (25000 < acc \<and> acc \<le> 32767) \<and>
       envSum stt' = (if saturated then 0 else (if acc \<le> 32767 then acc else acc - 65536) * 32440 div 32768)"
  by (rule saturation_detection) simp_all

text \<open>
  A reachable overflow: two full-scale frames, one with three full-scale blocks, and another full-scale
  frame. None of them is reported.
\<close>

lemma saturation_missed:
  "foldl (\<lambda>(acc, reports) env.
       let (stt', saturated) = WebRtcAgc_SaturationCtrl (stt\<lparr>envSum := acc\<rparr>) env in (envSum stt', reports @ [saturated]))
     (0, []) [replicate 10 1073741824, replicate 10 1073741824, replicate 3 1073741824 @ replicate 7 0, replicate 10 1073741824]
   = (- 31961, [False, False, False, False])"
proof -
  define loud mixed where "loud = replicate 10 (1073741824 :: int)" and "mixed = replicate 3 (1073741824 :: int) @ replicate 7 0"
  have l: "agc_loudness loud = 10240" "agc_loudness mixed = 3072" unfolding loud_def mixed_def by code_simp+
  have r: "\<forall>e\<in>set loud. 0 \<le> e \<and> e \<le> 1073741824" "\<forall>e\<in>set mixed. 0 \<le> e \<and> e \<le> 1073741824"
    unfolding loud_def mixed_def by auto
  have step: "WebRtcAgc_SaturationCtrl (stt\<lparr>envSum := a\<rparr>) env = (stt\<lparr>envSum := v\<rparr>, False)"
    if "- 32768 \<le> a" "a \<le> 25000" "\<forall>e\<in>set env. 0 \<le> e \<and> e \<le> 1073741824" "W \<le> 25000"
      "W = (if a + agc_loudness env \<le> 32767 then a + agc_loudness env else a + agc_loudness env - 65536)"
      "v = W * 32440 div 32768" for a W v env
  proof -
    have "\<not> 25000 < W" using that(4) by simp
    moreover have "WebRtcAgc_SaturationCtrl (stt\<lparr>envSum := a\<rparr>) env =
        (stt\<lparr>envSum := a, envSum := (if W > 25000 then 0 else W * 32440 div 32768)\<rparr>, W > 25000)"
      using that(1,2) by (intro saturation_step(1) [OF _ _ that(3) _ that(5)]) simp_all
    ultimately show ?thesis by (simp add: that(6))
  qed
  have "WebRtcAgc_SaturationCtrl (stt\<lparr>envSum := 0\<rparr>) loud = (stt\<lparr>envSum := 10137\<rparr>, False)"
    by (rule step [OF _ _ r(1), where W = 10240]) (simp_all add: l)
  moreover have "WebRtcAgc_SaturationCtrl (stt\<lparr>envSum := 10137\<rparr>) loud = (stt\<lparr>envSum := 20173\<rparr>, False)"
    by (rule step [OF _ _ r(1), where W = 20377]) (simp_all add: l)
  moreover have "WebRtcAgc_SaturationCtrl (stt\<lparr>envSum := 20173\<rparr>) mixed = (stt\<lparr>envSum := 23012\<rparr>, False)"
    by (rule step [OF _ _ r(2), where W = 23245]) (simp_all add: l)
  moreover have "WebRtcAgc_SaturationCtrl (stt\<lparr>envSum := 23012\<rparr>) loud = (stt\<lparr>envSum := - 31961\<rparr>, False)"
    by (rule step [OF _ _ r(1), where W = "- 32284"]) (simp_all add: l)
  ultimately show ?thesis unfolding loud_def [symmetric] mixed_def [symmetric] by simp
qed

lemma silence_fold: "foldl (\<lambda>sum e. s32 (sum + e)) (s32 s) es = s32 (s + sum_list es)"
  by (induction es arbitrary: s) (simp_all add: add.assoc)

lemma sum_list_range:
  assumes "\<forall>e\<in>set es. 0 \<le> e \<and> e \<le> (b :: int)"
  shows "0 \<le> sum_list es" "sum_list es \<le> b * int (length es)"
  using assms by (induction es) (auto simp: algebra_simps)

text \<open>When the 32-bit sum of ten envelopes looks small.\<close>

definition looks_silent :: "int \<Rightarrow> bool" where
  "looks_silent acc \<longleftrightarrow> acc < 500 \<or> 2147483648 \<le> acc \<and> acc < 4294967796 \<or>
     6442450944 \<le> acc \<and> acc < 8589935092 \<or> 10737418240 \<le> acc"

lemma wrapped_sum:
  assumes "0 \<le> x" "x \<le> 10737418240"
  shows "s32 x < 500 \<longleftrightarrow> looks_silent x"
proof -
  have c: "s32 x = s32 (x - 4294967296 * k)" for k by (rule s32_cong) (simp add: mod_diff_eq [symmetric])
  consider "x < 2147483648" | "2147483648 \<le> x" "x < 6442450944" | "6442450944 \<le> x" "x < 10737418240" | "x = 10737418240"
    using assms(2) by linarith
  then show ?thesis
  proof cases
    case 1
    then have "s32 x = x" using assms by (simp add: s32_eqI)
    then show ?thesis using 1 by (simp add: looks_silent_def)
  next
    case 2
    then have "s32 x = x - 4294967296" using c [of 1] by (simp add: s32_eqI)
    then show ?thesis using 2 by (simp add: looks_silent_def)
  next
    case 3
    then have "s32 x = x - 8589934592" using c [of 2] by (simp add: s32_eqI)
    then show ?thesis using 3 by (simp add: looks_silent_def)
  next
    case 4
    then show ?thesis by (simp add: looks_silent_def s32_def)
  qed
qed

text \<open>C33: Silence is counted in steps of \<open>10\<close> ms and after more than half a second the level is raised by
  a tenth, up to the last level known to be in order, if it is in the lower half of the range. A frame
  counts as silent when the sum of its ten envelopes is below \<open>500\<close>; but the sum is 32 bits wide, so frames
  with a sum in \<open>[2 ^ 31, 2 ^ 32 + 500)\<close> and two more intervals, which are the loud ones, count as silent too.\<close>

theorem silence_detection:
  assumes "0 \<le> msZero stt" "msZero stt \<le> 500" "length env = 10" "\<forall>e\<in>set env. 0 \<le> e \<and> e \<le> 1073741824"
  shows "let ms = (if looks_silent (sum_list env) then msZero stt + 10 else 0);
      (stt', level) = WebRtcAgc_ZeroCtrl stt lvl env
    in msZero stt' = (if ms > 500 then 0 else ms) \<and>
       level = (if ms > 500 \<and> lvl < s32 (s32 (maxAnalog stt + minLevel stt) + 1) sdiv 2
                then min (sar (s32 (1126 * lvl)) 10) (zeroCtrlMax stt) else lvl) \<and>
       micVol stt' = (if level = lvl \<and> \<not> (ms > 500 \<and> lvl < s32 (s32 (maxAnalog stt + minLevel stt) + 1) sdiv 2)
                      then micVol stt else level)"
proof -
  have "0 \<le> sum_list env" "sum_list env \<le> 10737418240"
    using sum_list_range [OF assms(4)] assms(3) by simp_all
  note w = wrapped_sum [OF this]
  have f: "foldl (\<lambda>sum e. s32 (sum + e)) 0 (take 10 env) = s32 (sum_list env)"
    using silence_fold [of 0 env] assms(3) by simp
  define ms where "ms = (if looks_silent (sum_list env) then msZero stt + 10 else 0)"
  have m: "(if s32 (sum_list env) < 500 then s16 (msZero stt + 10) else 0) = ms"
    using assms(1,2) by (simp add: ms_def w s16_eqI)
  show ?thesis
    unfolding WebRtcAgc_ZeroCtrl_def f Let_def m ms_def [symmetric] by (simp add: min_def)
qed

theorem silence_detection_witness:
  "let ms = (if looks_silent (sum_list (replicate 10 268435456)) then msZero (raw_legacy\<lparr>msZero := 500\<rparr>) + 10 else 0);
      (stt', level) = WebRtcAgc_ZeroCtrl (raw_legacy\<lparr>msZero := 500\<rparr>) 2 (replicate 10 268435456)
    in msZero stt' = (if ms > 500 then 0 else ms) \<and>
       level = (if ms > 500 \<and> 2 < s32 (s32 (maxAnalog (raw_legacy\<lparr>msZero := 500\<rparr>) + minLevel (raw_legacy\<lparr>msZero := 500\<rparr>)) + 1) sdiv 2
                then min (sar (s32 (1126 * 2)) 10) (zeroCtrlMax (raw_legacy\<lparr>msZero := 500\<rparr>)) else 2) \<and>
       micVol stt' = (if level = 2 \<and> \<not> (ms > 500 \<and> 2 < s32 (s32 (maxAnalog (raw_legacy\<lparr>msZero := 500\<rparr>) + minLevel (raw_legacy\<lparr>msZero := 500\<rparr>)) + 1) sdiv 2)
                      then micVol (raw_legacy\<lparr>msZero := 500\<rparr>) else level)"
  by (rule silence_detection) (simp_all add: raw_legacy_def)

end
