(* ===== verification/SplFft.thy ===== *)
theory SplFft imports SplVector Complex_Main begin

text \<open>
  The fixed-point Fourier transforms (\<open>complex_bit_reverse.c\<close>, \<open>complex_fft.c\<close>, \<open>complex_fft_tables.h\<close>,
  \<open>real_fft.c\<close>). An array of interleaved real and imaginary parts is a list of pairs, as the bit
  reversal, which moves 32-bit words, has it. The network of butterflies is one function of the
  butterfly, so that the code's fixed-point butterflies and exact ones run through the same loops; the
  lemmas show that with exact butterflies the loops compute the discrete Fourier transform, and how far
  the fixed-point ones are from exact.
\<close>

type_synonym complex16 = "int \<times> int"

section \<open>Bit reversal\<close>

definition index_7 :: "nat list" where
  "index_7 = [1, 64, 2, 32, 3, 96, 4, 16, 5, 80, 6, 48, 7, 112, 9, 72,
    10, 40, 11, 104, 12, 24, 13, 88, 14, 56, 15, 120, 17, 68, 18, 36,
    19, 100, 21, 84, 22, 52, 23, 116, 25, 76, 26, 44, 27, 108, 29, 92,
    30, 60, 31, 124, 33, 66, 35, 98, 37, 82, 38, 50, 39, 114, 41, 74,
    43, 106, 45, 90, 46, 58, 47, 122, 49, 70, 51, 102, 53, 86, 55, 118,
    57, 78, 59, 110, 61, 94, 63, 126, 67, 97, 69, 81, 71, 113, 75, 105,
    77, 89, 79, 121, 83, 101, 87, 117, 91, 109, 95, 125, 103, 115, 111, 123]"

definition index_8 :: "nat list" where
  "index_8 = [1, 128, 2, 64, 3, 192, 4, 32, 5, 160, 6, 96, 7, 224, 8, 16,
    9, 144, 10, 80, 11, 208, 12, 48, 13, 176, 14, 112, 15, 240, 17, 136,
    18, 72, 19, 200, 20, 40, 21, 168, 22, 104, 23, 232, 25, 152, 26, 88,
    27, 216, 28, 56, 29, 184, 30, 120, 31, 248, 33, 132, 34, 68, 35, 196,
    37, 164, 38, 100, 39, 228, 41, 148, 42, 84, 43, 212, 44, 52, 45, 180,
    46, 116, 47, 244, 49, 140, 50, 76, 51, 204, 53, 172, 54, 108, 55, 236,
    57, 156, 58, 92, 59, 220, 61, 188, 62, 124, 63, 252, 65, 130, 67, 194,
    69, 162, 70, 98, 71, 226, 73, 146, 74, 82, 75, 210, 77, 178, 78, 114,
    79, 242, 81, 138, 83, 202, 85, 170, 86, 106, 87, 234, 89, 154, 91, 218,
    93, 186, 94, 122, 95, 250, 97, 134, 99, 198, 101, 166, 103, 230, 105, 150,
    107, 214, 109, 182, 110, 118, 111, 246, 113, 142, 115, 206, 117, 174, 119, 238,
    121, 158, 123, 222, 125, 190, 127, 254, 131, 193, 133, 161, 135, 225, 137, 145,
    139, 209, 141, 177, 143, 241, 147, 201, 149, 169, 151, 233, 155, 217, 157, 185,
    159, 249, 163, 197, 167, 229, 171, 213, 173, 181, 175, 245, 179, 205, 183, 237,
    187, 221, 191, 253, 199, 227, 203, 211, 207, 243, 215, 235, 223, 251, 239, 247]"

definition swap_at :: "nat \<Rightarrow> nat \<Rightarrow> 'a list \<Rightarrow> 'a list" where
  "swap_at i j xs = xs[i := xs ! j, j := xs ! i]"

definition swap_table :: "nat list \<Rightarrow> 'a list \<Rightarrow> 'a list" where
  "swap_table index xs =
     foldl (\<lambda>xs m. swap_at (index ! (2 * m)) (index ! (2 * m + 1)) xs) xs [0..<length index div 2]"

text \<open>\<open>do l >>= 1; while (l > room);\<close> with \<open>room = nn - mr\<close>, which is not negative.\<close>

fun next_bit :: "nat \<Rightarrow> nat \<Rightarrow> nat" where
  "next_bit room l = (if l div 2 > room then next_bit room (l div 2) else l div 2)"

declare next_bit.simps [simp del]

definition reversed_next :: "nat \<Rightarrow> nat \<Rightarrow> nat" where
  "reversed_next n mr = (let l = next_bit (n - 1 - mr) n in (mr AND (l - 1)) + l)"

definition swap_loop :: "nat \<Rightarrow> 'a list \<Rightarrow> nat \<times> 'a list" where
  "swap_loop n xs =
     foldl (\<lambda>(mr, xs) m. let mr = reversed_next n mr in if mr \<le> m then (mr, xs) else (mr, swap_at m mr xs))
       (0, xs) [1..<n]"

definition WebRtcSpl_ComplexBitReverse :: "'a list \<Rightarrow> nat \<Rightarrow> 'a list" where
  "WebRtcSpl_ComplexBitReverse complex_data stages =
     (if stages = 7 \<or> stages = 8 then swap_table (if stages = 8 then index_8 else index_7) complex_data
      else snd (swap_loop (2 ^ stages) complex_data))"

section \<open>The complex transforms\<close>

text \<open>The sine table, in rows of 32.\<close>

definition kSinTable1024_rows :: "int list list" where
  "kSinTable1024_rows = [
    [0, 201, 402, 603, 804, 1005, 1206, 1406, 1607, 1808, 2009, 2209, 2410, 2610, 2811, 3011,
     3211, 3411, 3611, 3811, 4011, 4210, 4409, 4608, 4807, 5006, 5205, 5403, 5601, 5799, 5997, 6195],
    [6392, 6589, 6786, 6982, 7179, 7375, 7571, 7766, 7961, 8156, 8351, 8545, 8739, 8932, 9126, 9319,
     9511, 9703, 9895, 10087, 10278, 10469, 10659, 10849, 11038, 11227, 11416, 11604, 11792, 11980, 12166, 12353],
    [12539, 12724, 12909, 13094, 13278, 13462, 13645, 13827, 14009, 14191, 14372, 14552, 14732, 14911, 15090, 15268,
     15446, 15623, 15799, 15975, 16150, 16325, 16499, 16672, 16845, 17017, 17189, 17360, 17530, 17699, 17868, 18036],
    [18204, 18371, 18537, 18702, 18867, 19031, 19194, 19357, 19519, 19680, 19840, 20000, 20159, 20317, 20474, 20631,
     20787, 20942, 21096, 21249, 21402, 21554, 21705, 21855, 22004, 22153, 22301, 22448, 22594, 22739, 22883, 23027],
    [23169, 23311, 23452, 23592, 23731, 23869, 24006, 24143, 24278, 24413, 24546, 24679, 24811, 24942, 25072, 25201,
     25329, 25456, 25582, 25707, 25831, 25954, 26077, 26198, 26318, 26437, 26556, 26673, 26789, 26905, 27019, 27132],
    [27244, 27355, 27466, 27575, 27683, 27790, 27896, 28001, 28105, 28208, 28309, 28410, 28510, 28608, 28706, 28802,
     28897, 28992, 29085, 29177, 29268, 29358, 29446, 29534, 29621, 29706, 29790, 29873, 29955, 30036, 30116, 30195],
    [30272, 30349, 30424, 30498, 30571, 30643, 30713, 30783, 30851, 30918, 30984, 31049, 31113, 31175, 31236, 31297,
     31356, 31413, 31470, 31525, 31580, 31633, 31684, 31735, 31785, 31833, 31880, 31926, 31970, 32014, 32056, 32097],
    [32137, 32176, 32213, 32249, 32284, 32318, 32350, 32382, 32412, 32441, 32468, 32495, 32520, 32544, 32567, 32588,
     32609, 32628, 32646, 32662, 32678, 32692, 32705, 32717, 32727, 32736, 32744, 32751, 32757, 32761, 32764, 32766],
    [32767, 32766, 32764, 32761, 32757, 32751, 32744, 32736, 32727, 32717, 32705, 32692, 32678, 32662, 32646, 32628,
     32609, 32588, 32567, 32544, 32520, 32495, 32468, 32441, 32412, 32382, 32350, 32318, 32284, 32249, 32213, 32176],
    [32137, 32097, 32056, 32014, 31970, 31926, 31880, 31833, 31785, 31735, 31684, 31633, 31580, 31525, 31470, 31413,
     31356, 31297, 31236, 31175, 31113, 31049, 30984, 30918, 30851, 30783, 30713, 30643, 30571, 30498, 30424, 30349],
    [30272, 30195, 30116, 30036, 29955, 29873, 29790, 29706, 29621, 29534, 29446, 29358, 29268, 29177, 29085, 28992,
     28897, 28802, 28706, 28608, 28510, 28410, 28309, 28208, 28105, 28001, 27896, 27790, 27683, 27575, 27466, 27355],
    [27244, 27132, 27019, 26905, 26789, 26673, 26556, 26437, 26318, 26198, 26077, 25954, 25831, 25707, 25582, 25456,
     25329, 25201, 25072, 24942, 24811, 24679, 24546, 24413, 24278, 24143, 24006, 23869, 23731, 23592, 23452, 23311],
    [23169, 23027, 22883, 22739, 22594, 22448, 22301, 22153, 22004, 21855, 21705, 21554, 21402, 21249, 21096, 20942,
     20787, 20631, 20474, 20317, 20159, 20000, 19840, 19680, 19519, 19357, 19194, 19031, 18867, 18702, 18537, 18371],
    [18204, 18036, 17868, 17699, 17530, 17360, 17189, 17017, 16845, 16672, 16499, 16325, 16150, 15975, 15799, 15623,
     15446, 15268, 15090, 14911, 14732, 14552, 14372, 14191, 14009, 13827, 13645, 13462, 13278, 13094, 12909, 12724],
    [12539, 12353, 12166, 11980, 11792, 11604, 11416, 11227, 11038, 10849, 10659, 10469, 10278, 10087, 9895, 9703,
     9511, 9319, 9126, 8932, 8739, 8545, 8351, 8156, 7961, 7766, 7571, 7375, 7179, 6982, 6786, 6589],
    [6392, 6195, 5997, 5799, 5601, 5403, 5205, 5006, 4807, 4608, 4409, 4210, 4011, 3811, 3611, 3411,
     3211, 3011, 2811, 2610, 2410, 2209, 2009, 1808, 1607, 1406, 1206, 1005, 804, 603, 402, 201],
    [0, - 201, - 402, - 603, - 804, - 1005, - 1206, - 1406, - 1607, - 1808, - 2009, - 2209, - 2410, - 2610, - 2811, - 3011,
     - 3211, - 3411, - 3611, - 3811, - 4011, - 4210, - 4409, - 4608, - 4807, - 5006, - 5205, - 5403, - 5601, - 5799, - 5997, - 6195],
    [- 6392, - 6589, - 6786, - 6982, - 7179, - 7375, - 7571, - 7766, - 7961, - 8156, - 8351, - 8545, - 8739, - 8932, - 9126, - 9319,
     - 9511, - 9703, - 9895, - 10087, - 10278, - 10469, - 10659, - 10849, - 11038, - 11227, - 11416, - 11604, - 11792, - 11980, - 12166, - 12353],
    [- 12539, - 12724, - 12909, - 13094, - 13278, - 13462, - 13645, - 13827, - 14009, - 14191, - 14372, - 14552, - 14732, - 14911, - 15090, - 15268,
     - 15446, - 15623, - 15799, - 15975, - 16150, - 16325, - 16499, - 16672, - 16845, - 17017, - 17189, - 17360, - 17530, - 17699, - 17868, - 18036],
    [- 18204, - 18371, - 18537, - 18702, - 18867, - 19031, - 19194, - 19357, - 19519, - 19680, - 19840, - 20000, - 20159, - 20317, - 20474, - 20631,
     - 20787, - 20942, - 21096, - 21249, - 21402, - 21554, - 21705, - 21855, - 22004, - 22153, - 22301, - 22448, - 22594, - 22739, - 22883, - 23027],
    [- 23169, - 23311, - 23452, - 23592, - 23731, - 23869, - 24006, - 24143, - 24278, - 24413, - 24546, - 24679, - 24811, - 24942, - 25072, - 25201,
     - 25329, - 25456, - 25582, - 25707, - 25831, - 25954, - 26077, - 26198, - 26318, - 26437, - 26556, - 26673, - 26789, - 26905, - 27019, - 27132],
    [- 27244, - 27355, - 27466, - 27575, - 27683, - 27790, - 27896, - 28001, - 28105, - 28208, - 28309, - 28410, - 28510, - 28608, - 28706, - 28802,
     - 28897, - 28992, - 29085, - 29177, - 29268, - 29358, - 29446, - 29534, - 29621, - 29706, - 29790, - 29873, - 29955, - 30036, - 30116, - 30195],
    [- 30272, - 30349, - 30424, - 30498, - 30571, - 30643, - 30713, - 30783, - 30851, - 30918, - 30984, - 31049, - 31113, - 31175, - 31236, - 31297,
     - 31356, - 31413, - 31470, - 31525, - 31580, - 31633, - 31684, - 31735, - 31785, - 31833, - 31880, - 31926, - 31970, - 32014, - 32056, - 32097],
    [- 32137, - 32176, - 32213, - 32249, - 32284, - 32318, - 32350, - 32382, - 32412, - 32441, - 32468, - 32495, - 32520, - 32544, - 32567, - 32588,
     - 32609, - 32628, - 32646, - 32662, - 32678, - 32692, - 32705, - 32717, - 32727, - 32736, - 32744, - 32751, - 32757, - 32761, - 32764, - 32766],
    [- 32767, - 32766, - 32764, - 32761, - 32757, - 32751, - 32744, - 32736, - 32727, - 32717, - 32705, - 32692, - 32678, - 32662, - 32646, - 32628,
     - 32609, - 32588, - 32567, - 32544, - 32520, - 32495, - 32468, - 32441, - 32412, - 32382, - 32350, - 32318, - 32284, - 32249, - 32213, - 32176],
    [- 32137, - 32097, - 32056, - 32014, - 31970, - 31926, - 31880, - 31833, - 31785, - 31735, - 31684, - 31633, - 31580, - 31525, - 31470, - 31413,
     - 31356, - 31297, - 31236, - 31175, - 31113, - 31049, - 30984, - 30918, - 30851, - 30783, - 30713, - 30643, - 30571, - 30498, - 30424, - 30349],
    [- 30272, - 30195, - 30116, - 30036, - 29955, - 29873, - 29790, - 29706, - 29621, - 29534, - 29446, - 29358, - 29268, - 29177, - 29085, - 28992,
     - 28897, - 28802, - 28706, - 28608, - 28510, - 28410, - 28309, - 28208, - 28105, - 28001, - 27896, - 27790, - 27683, - 27575, - 27466, - 27355],
    [- 27244, - 27132, - 27019, - 26905, - 26789, - 26673, - 26556, - 26437, - 26318, - 26198, - 26077, - 25954, - 25831, - 25707, - 25582, - 25456,
     - 25329, - 25201, - 25072, - 24942, - 24811, - 24679, - 24546, - 24413, - 24278, - 24143, - 24006, - 23869, - 23731, - 23592, - 23452, - 23311],
    [- 23169, - 23027, - 22883, - 22739, - 22594, - 22448, - 22301, - 22153, - 22004, - 21855, - 21705, - 21554, - 21402, - 21249, - 21096, - 20942,
     - 20787, - 20631, - 20474, - 20317, - 20159, - 20000, - 19840, - 19680, - 19519, - 19357, - 19194, - 19031, - 18867, - 18702, - 18537, - 18371],
    [- 18204, - 18036, - 17868, - 17699, - 17530, - 17360, - 17189, - 17017, - 16845, - 16672, - 16499, - 16325, - 16150, - 15975, - 15799, - 15623,
     - 15446, - 15268, - 15090, - 14911, - 14732, - 14552, - 14372, - 14191, - 14009, - 13827, - 13645, - 13462, - 13278, - 13094, - 12909, - 12724],
    [- 12539, - 12353, - 12166, - 11980, - 11792, - 11604, - 11416, - 11227, - 11038, - 10849, - 10659, - 10469, - 10278, - 10087, - 9895, - 9703,
     - 9511, - 9319, - 9126, - 8932, - 8739, - 8545, - 8351, - 8156, - 7961, - 7766, - 7571, - 7375, - 7179, - 6982, - 6786, - 6589],
    [- 6392, - 6195, - 5997, - 5799, - 5601, - 5403, - 5205, - 5006, - 4807, - 4608, - 4409, - 4210, - 4011, - 3811, - 3611, - 3411,
     - 3211, - 3011, - 2811, - 2610, - 2410, - 2209, - 2009, - 1808, - 1607, - 1406, - 1206, - 1005, - 804, - 603, - 402, - 201]]"

definition kSinTable1024 :: "int list" where
  "kSinTable1024 = concat kSinTable1024_rows"

text \<open>
  One stage: \<open>l\<close> twiddle factors with index \<open>m << k\<close>, each for the pairs \<open>(i, i + l)\<close> with
  \<open>i = m, m + 2 * l, ...\<close>.
\<close>

definition fft_update :: "('a \<Rightarrow> 'a \<Rightarrow> 'a \<times> 'a) \<Rightarrow> nat \<Rightarrow> nat \<Rightarrow> 'a list \<Rightarrow> 'a list" where
  "fft_update f l i xs = (let (x, y) = f (xs ! i) (xs ! (i + l)) in xs[i + l := y, i := x])"

definition fft_stage :: "(nat \<Rightarrow> 'a \<Rightarrow> 'a \<Rightarrow> 'a \<times> 'a) \<Rightarrow> nat \<Rightarrow> nat \<Rightarrow> nat \<Rightarrow> 'a list \<Rightarrow> 'a list" where
  "fft_stage butterfly n l k xs =
     foldl (\<lambda>xs m. foldl (\<lambda>xs i. fft_update (butterfly (m * 2 ^ k)) l i xs) xs
         (map (\<lambda>t. m + t * (2 * l)) [0..<n div (2 * l)]))
       xs [0..<l]"

definition fft_stages :: "(nat \<Rightarrow> 'a \<Rightarrow> 'a \<Rightarrow> 'a \<times> 'a) \<Rightarrow> nat \<Rightarrow> 'a list \<Rightarrow> 'a list" where
  "fft_stages butterfly stages xs =
     foldl (\<lambda>xs s. fft_stage butterfly (2 ^ stages) (2 ^ s) (9 - s) xs) xs [0..<stages]"

text \<open>
  The butterflies: \<open>(wr, wi)\<close> is the twiddle factor, the result has the new elements at \<open>i\<close> and \<open>j\<close>.
  Mode 0 is the low accuracy one.
\<close>

definition fft_product :: "int \<Rightarrow> int \<Rightarrow> int \<Rightarrow> complex16 \<Rightarrow> complex16" where
  "fft_product rnd wr wi z =
     (s32 (s32 (s32 (wr * fst z) - s32 (wi * snd z)) + rnd), s32 (s32 (s32 (wr * snd z) + s32 (wi * fst z)) + rnd))"

definition fft_low :: "nat \<Rightarrow> int \<Rightarrow> int \<Rightarrow> complex16 \<Rightarrow> complex16 \<Rightarrow> complex16 \<times> complex16" where
  "fft_low shift wr wi q f =
     (let (tr32, ti32) = fft_product 0 wr wi f; tr32 = sar tr32 15; ti32 = sar ti32 15
      in ((s16 (sar (s32 (fst q + tr32)) shift), s16 (sar (s32 (snd q + ti32)) shift)),
          (s16 (sar (s32 (fst q - tr32)) shift), s16 (sar (s32 (snd q - ti32)) shift))))"

definition fft_high :: "int \<Rightarrow> nat \<Rightarrow> int \<Rightarrow> int \<Rightarrow> complex16 \<Rightarrow> complex16 \<Rightarrow> complex16 \<times> complex16" where
  "fft_high round2 shift wr wi q f =
     (let (tr32, ti32) = fft_product 1 wr wi f; tr32 = sar tr32 1; ti32 = sar ti32 1;
          qr32 = shl32 (fst q) 14; qi32 = shl32 (snd q) 14;
          out = (\<lambda>x. s16 (sar (s32 (s32 x + round2)) (shift + 14)))
      in ((out (qr32 + tr32), out (qi32 + ti32)), (out (qr32 - tr32), out (qi32 - ti32))))"

definition WebRtcSpl_ComplexFFT :: "complex16 list \<Rightarrow> nat \<Rightarrow> int \<Rightarrow> complex16 list \<times> int" where
  "WebRtcSpl_ComplexFFT frfi stages mode =
     (if 2 ^ stages > (1024 :: nat) then (frfi, - 1)
      else (fft_stages (\<lambda>j. (if mode = 0 then fft_low 1 else fft_high 16384 1)
             (kSinTable1024 ! (j + 256)) (s16 (- (kSinTable1024 ! j)))) stages frfi, 0))"

text \<open>The shift of a stage depends on the largest component, and with it the rounding.\<close>

definition ifft_shift :: "complex16 list \<Rightarrow> nat" where
  "ifft_shift frfi =
     (let tmp32 = WebRtcSpl_MaxAbsValueW16C (concat (map (\<lambda>z. [fst z, snd z]) frfi))
      in (if tmp32 > 13573 then 1 else 0) + (if tmp32 > 27146 then 1 else 0))"

definition WebRtcSpl_ComplexIFFT :: "complex16 list \<Rightarrow> nat \<Rightarrow> int \<Rightarrow> complex16 list \<times> int" where
  "WebRtcSpl_ComplexIFFT frfi stages mode =
     (if 2 ^ stages > (1024 :: nat) then (frfi, - 1)
      else foldl (\<lambda>(xs, scale) s.
             let shift = ifft_shift xs
             in (fft_stage (\<lambda>j. (if mode = 0 then fft_low shift else fft_high (8192 * 2 ^ shift) shift)
                    (kSinTable1024 ! (j + 256)) (kSinTable1024 ! j)) (2 ^ stages) (2 ^ s) (9 - s) xs,
                 scale + int shift))
           (frfi, 0) [0..<stages])"

section \<open>The real transforms\<close>

definition kMaxFFTOrder :: int where "kMaxFFTOrder = 10"

definition WebRtcSpl_CreateRealFFT :: "bool \<Rightarrow> int \<Rightarrow> nat option" where
  "WebRtcSpl_CreateRealFFT malloc_ok order =
     (if order > kMaxFFTOrder \<or> order < 0 then None else if malloc_ok then Some (nat order) else None)"

definition WebRtcSpl_RealForwardFFT :: "nat \<Rightarrow> int list \<Rightarrow> complex16 list \<times> int" where
  "WebRtcSpl_RealForwardFFT order real_data_in =
     (let n = 2 ^ order;
          complex_buffer = map (\<lambda>x. (x, 0)) (take n real_data_in);
          complex_buffer = WebRtcSpl_ComplexBitReverse complex_buffer order;
          (complex_buffer, result) = WebRtcSpl_ComplexFFT complex_buffer order 1
      in (take (n div 2 + 1) complex_buffer, result))"

definition WebRtcSpl_RealInverseFFT :: "nat \<Rightarrow> complex16 list \<Rightarrow> int list \<times> int" where
  "WebRtcSpl_RealInverseFFT order complex_data_in =
     (let n = 2 ^ order;
          complex_buffer = take (n div 2 + 1) complex_data_in @
            map (\<lambda>i. (fst (complex_data_in ! (n - i)), s16 (- snd (complex_data_in ! (n - i))))) [n div 2 + 1..<n];
          complex_buffer = WebRtcSpl_ComplexBitReverse complex_buffer order;
          (complex_buffer, result) = WebRtcSpl_ComplexIFFT complex_buffer order 1
      in (map fst complex_buffer, result))"

section \<open>Bit reversal is a permutation\<close>

fun bitrev :: "nat \<Rightarrow> nat \<Rightarrow> nat" where
  "bitrev 0 m = 0"
| "bitrev (Suc s) m = (m mod 2) * 2 ^ s + bitrev s (m div 2)"

lemma bitrev_less: "bitrev s m < 2 ^ s"
proof (induction s arbitrary: m)
  case 0
  then show ?case by simp
next
  case (Suc s)
  have "m mod 2 = 0 \<or> m mod 2 = 1" by linarith
  then show ?case using Suc [of "m div 2"] by auto
qed

lemma bitrev_top:
  assumes "m < 2 ^ Suc s"
  shows "bitrev (Suc s) m = 2 * bitrev s (m mod 2 ^ s) + m div 2 ^ s"
  using assms
proof (induction s arbitrary: m)
  case 0
  then have "m = 0 \<or> m = 1" by auto
  then show ?case by auto
next
  case (Suc s)
  have "m div 2 < 2 ^ Suc s" using Suc.prems by simp
  note IH = Suc.IH [OF this]
  have a: "m mod 2 ^ Suc s div 2 = m div 2 mod 2 ^ s" "m mod 2 ^ Suc s mod 2 = m mod 2" "m div 2 div 2 ^ s = m div 2 ^ Suc s"
    by (simp_all add: div_mult2_eq mod_mult2_eq)
  have "bitrev (Suc (Suc s)) m = (m mod 2) * 2 ^ Suc s + (2 * bitrev s (m div 2 mod 2 ^ s) + m div 2 ^ Suc s)"
    unfolding bitrev.simps(2) [of "Suc s"] IH a(3) ..
  also have "\<dots> = 2 * bitrev (Suc s) (m mod 2 ^ Suc s) + m div 2 ^ Suc s"
    unfolding bitrev.simps(2) [of s "m mod 2 ^ Suc s"] a by simp
  finally show ?case .
qed

lemma bitrev_bitrev: "m < 2 ^ s \<Longrightarrow> bitrev s (bitrev s m) = m"
proof (induction s arbitrary: m)
  case 0
  then show ?case by simp
next
  case (Suc s)
  define r where "r = bitrev s (m div 2)"
  have d: "m div 2 < 2 ^ s" using Suc.prems by simp
  have r: "r < 2 ^ s" unfolding r_def by (rule bitrev_less)
  have c: "m mod 2 = 0 \<or> m mod 2 = 1" by linarith
  have e: "bitrev (Suc s) m = (m mod 2) * 2 ^ s + r" by (simp add: r_def)
  have "bitrev (Suc s) m mod 2 ^ s = r" "bitrev (Suc s) m div 2 ^ s = m mod 2" unfolding e using r c by auto
  then have "bitrev (Suc s) (bitrev (Suc s) m) = 2 * bitrev s r + m mod 2"
    unfolding bitrev_top [OF bitrev_less [of "Suc s" m]] by (simp only:)
  also have "\<dots> = m" using Suc.IH [OF d] by (simp add: r_def)
  finally show ?case .
qed

text \<open>The loop's carry from the top: the reversal of the next number.\<close>

lemma next_bit_le: "next_bit room l \<le> l"
proof (induction room l rule: next_bit.induct)
  case (1 room l)
  then show ?case by (subst next_bit.simps) auto
qed

lemma and_low:
  assumes "(b :: nat) < 2 ^ s"
  shows "a AND b = (a mod 2 ^ s) AND b"
proof -
  have b: "take_bit s b = b" using assms by (simp add: take_bit_nat_eq_self)
  have "a AND take_bit s b = take_bit s a AND take_bit s b" by (rule bit_eqI) (auto simp: bit_simps)
  then show ?thesis unfolding b by (simp add: take_bit_eq_mod)
qed

lemma and_ones: "(r :: nat) < 2 ^ s \<Longrightarrow> r AND (2 ^ s - 1) = r"
  by (metis and.commute mask_eq_exp_minus_1 take_bit_eq_mask take_bit_nat_eq_self)

lemma reversed_next:
  assumes "Suc m < 2 ^ s"
  shows "reversed_next (2 ^ s) (bitrev s m) = bitrev s (Suc m)"
  using assms
proof (induction s arbitrary: m)
  case 0
  then show ?case by simp
next
  case (Suc s)
  define r where "r = bitrev s (m div 2)"
  have r: "r < 2 ^ s" unfolding r_def by (rule bitrev_less)
  have c: "m mod 2 = 0 \<or> m mod 2 = 1" by linarith
  show ?case
  proof (cases "m mod 2 = 0")
    case True
    have "next_bit (2 ^ Suc s - 1 - r) (2 ^ Suc s) = 2 ^ s"
    proof -
      have "\<not> 2 ^ s > 2 ^ Suc s - 1 - r" using r by simp
      then show ?thesis by (subst next_bit.simps) simp
    qed
    then have "reversed_next (2 ^ Suc s) r = r + 2 ^ s"
      unfolding reversed_next_def Let_def using and_ones [OF r] by simp
    moreover have "Suc m mod 2 = 1" "Suc m div 2 = m div 2" using True by presburger+
    ultimately show ?thesis using True by (simp add: r_def [symmetric])
  next
    case False
    then have o: "m mod 2 = 1" using c by simp
    then have m: "Suc m mod 2 = 0" "Suc m div 2 = Suc (m div 2)" by presburger+
    then have lt: "Suc (m div 2) < 2 ^ s" using Suc.prems by simp
    have room: "2 ^ Suc s - 1 - (2 ^ s + r) = 2 ^ s - 1 - r" by simp
    have n: "next_bit (2 ^ Suc s - 1 - (2 ^ s + r)) (2 ^ Suc s) = next_bit (2 ^ s - 1 - r) (2 ^ s)"
      unfolding room using r by (subst next_bit.simps) simp
    have "next_bit (2 ^ s - 1 - r) (2 ^ s) - 1 < 2 ^ s"
      using next_bit_le [of "2 ^ s - 1 - r" "2 ^ s"] zero_less_power [of "2 :: nat" s] by linarith
    from and_low [OF this, of "2 ^ s + r"]
    have a: "(2 ^ s + r) AND (next_bit (2 ^ s - 1 - r) (2 ^ s) - 1) = r AND (next_bit (2 ^ s - 1 - r) (2 ^ s) - 1)"
      using r by simp
    have "reversed_next (2 ^ Suc s) (2 ^ s + r) = reversed_next (2 ^ s) r"
      unfolding reversed_next_def Let_def n a ..
    also have "\<dots> = bitrev s (Suc (m div 2))" unfolding r_def by (rule Suc.IH [OF lt])
    finally show ?thesis using o m by (simp add: r_def [symmetric])
  qed
qed

lemma swap_loop_reversed:
  "swap_loop (2 ^ s) xs =
    foldl (\<lambda>(mr, xs) m. if bitrev s m \<le> m then (bitrev s m, xs) else (bitrev s m, swap_at m (bitrev s m) xs)) (0, xs) [1..<2 ^ s]"
proof -
  have z: "bitrev s 0 = 0" by (induction s) simp_all
  have "foldl (\<lambda>(mr, xs) m. let mr = reversed_next (2 ^ s) mr in if mr \<le> m then (mr, xs) else (mr, swap_at m mr xs))
      (bitrev s 0, xs) [1..<Suc k] =
    foldl (\<lambda>(mr, xs) m. if bitrev s m \<le> m then (bitrev s m, xs) else (bitrev s m, swap_at m (bitrev s m) xs))
      (bitrev s 0, xs) [1..<Suc k] \<and>
    fst (foldl (\<lambda>(mr, xs) m. if bitrev s m \<le> m then (bitrev s m, xs) else (bitrev s m, swap_at m (bitrev s m) xs))
      (bitrev s 0, xs) [1..<Suc k]) = bitrev s k"
    if "k < 2 ^ s" for k
    using that
  proof (induction k)
    case 0
    then show ?case by simp
  next
    case (Suc k)
    then show ?case by (auto simp: split_beta Let_def reversed_next)
  qed
  from this [of "2 ^ s - 1"] show ?thesis by (simp add: swap_loop_def z)
qed

lemma snd_swap_fold:
  "snd (foldl (\<lambda>(mr, xs) m. if f m \<le> m then (f m, xs) else (f m, swap_at m (f m) xs)) (a, xs) ms) =
    foldl (\<lambda>xs m. if f m \<le> m then xs else swap_at m (f m) xs) xs ms"
  by (induction ms arbitrary: a xs) auto

text \<open>Swapping every index with its partner, once per pair, permutes the array.\<close>

lemma swap_fold:
  assumes "length xs = n" "\<And>m. m < n \<Longrightarrow> f m < n" "\<And>m. m < n \<Longrightarrow> f (f m) = m" "k \<le> n"
  shows "length (foldl (\<lambda>xs m. if f m \<le> m then xs else swap_at m (f m) xs) xs [0..<k]) = n \<and>
    (\<forall>i<n. foldl (\<lambda>xs m. if f m \<le> m then xs else swap_at m (f m) xs) xs [0..<k] ! i =
      (if min i (f i) < k then xs ! f i else xs ! i))"
  using assms(4)
proof (induction k)
  case 0
  then show ?case using assms(1) by simp
next
  case (Suc k)
  let ?step = "\<lambda>xs m. if f m \<le> m then xs else swap_at m (f m) xs"
  define ys where "ys = foldl ?step xs [0..<k]"
  have k: "k < n" using Suc.prems by simp
  have ys: "length ys = n" "\<And>i. i < n \<Longrightarrow> ys ! i = (if min i (f i) < k then xs ! f i else xs ! i)"
    using Suc.IH k by (simp_all add: ys_def)
  have e: "foldl ?step xs [0..<Suc k] = ?step ys k" by (simp add: ys_def)
  have fk: "f k < n" "f (f k) = k" using assms(2,3) k by simp_all
  have main: "?step ys k ! i = (if min i (f i) < Suc k then xs ! f i else xs ! i)" if i: "i < n" for i
  proof -
    consider "i = k" | "i = f k" "i \<noteq> k" | "i \<noteq> k" "i \<noteq> f k" by blast
    then show ?thesis
    proof cases
      case 1
      then show ?thesis using ys fk k by (auto simp: swap_at_def nth_list_update min_def)
    next
      case 2
      then have "f i = k" using fk by simp
      then show ?thesis using 2 ys fk k by (auto simp: swap_at_def nth_list_update min_def)
    next
      case 3
      then have "f i \<noteq> k" using assms(3) [OF i] by metis
      then have "min i (f i) < Suc k \<longleftrightarrow> min i (f i) < k" using 3 by (auto simp: min_def)
      then show ?thesis using 3 ys(2) [OF i] ys(1) by (simp add: swap_at_def)
    qed
  qed
  show ?case unfolding e using main ys(1) by (simp add: swap_at_def)
qed

definition reversed :: "nat \<Rightarrow> 'a list \<Rightarrow> 'a list" where
  "reversed s xs = map (\<lambda>i. xs ! bitrev s i) [0..<2 ^ s]"

lemma swap_fold_reversed:
  assumes "length xs = 2 ^ s"
  shows "foldl (\<lambda>xs m. if bitrev s m \<le> m then xs else swap_at m (bitrev s m) xs) xs [0..<2 ^ s] = reversed s xs"
proof (rule nth_equalityI)
  note s = swap_fold [OF assms bitrev_less bitrev_bitrev order.refl]
  show "length (foldl (\<lambda>xs m. if bitrev s m \<le> m then xs else swap_at m (bitrev s m) xs) xs [0..<2 ^ s]) = length (reversed s xs)"
    using s by (simp add: reversed_def)
  show "foldl (\<lambda>xs m. if bitrev s m \<le> m then xs else swap_at m (bitrev s m) xs) xs [0..<2 ^ s] ! i = reversed s xs ! i"
    if "i < length (foldl (\<lambda>xs m. if bitrev s m \<le> m then xs else swap_at m (bitrev s m) xs) xs [0..<2 ^ s])" for i
    using s that by (simp add: reversed_def min_def)
qed

lemma swap_pairs:
  "foldl (\<lambda>xs m. if f m \<le> m then xs else swap_at m (f m) xs) xs ms =
    foldl (\<lambda>xs p. swap_at (fst p) (snd p) xs) xs (map (\<lambda>m. (m, f m)) (filter (\<lambda>m. m < f m) ms))"
  by (induction ms arbitrary: xs) auto

lemma swap_table_pairs:
  "swap_table index xs = foldl (\<lambda>xs p. swap_at (fst p) (snd p) xs) xs
    (map (\<lambda>m. (index ! (2 * m), index ! (2 * m + 1))) [0..<length index div 2])"
  by (simp add: swap_table_def foldl_map)

text \<open>The tables hold the pairs of the general loop, one after the other.\<close>

lemma flat_pairs:
  "map (\<lambda>m. (concat (map (\<lambda>p. [fst p, snd p]) ps) ! (2 * m), concat (map (\<lambda>p. [fst p, snd p]) ps) ! (2 * m + 1))) [0..<length ps] = ps"
proof (rule nth_equalityI)
  have "m < length ps \<Longrightarrow> concat (map (\<lambda>p. [fst p, snd p]) ps) ! (2 * m) = fst (ps ! m) \<and>
      concat (map (\<lambda>p. [fst p, snd p]) ps) ! (2 * m + 1) = snd (ps ! m)" for m
    by (induction ps arbitrary: m) (auto simp: nth_Cons' less_Suc_eq_0_disj)
  then show "i < length (map (\<lambda>m. (concat (map (\<lambda>p. [fst p, snd p]) ps) ! (2 * m), concat (map (\<lambda>p. [fst p, snd p]) ps) ! (2 * m + 1))) [0..<length ps]) \<Longrightarrow>
      map (\<lambda>m. (concat (map (\<lambda>p. [fst p, snd p]) ps) ! (2 * m), concat (map (\<lambda>p. [fst p, snd p]) ps) ! (2 * m + 1))) [0..<length ps] ! i = ps ! i" for i
    by simp
qed simp

lemma length_flat: "length (concat (map (\<lambda>p. [fst p, snd p]) ps)) = 2 * length ps"
  by (induction ps) simp_all

text \<open>All reversals at once, each stage doubling the list, and the pairs of a permutation in order.\<close>

fun revs :: "nat \<Rightarrow> nat list" where
  "revs 0 = [0]"
| "revs (Suc s) = concat (map (\<lambda>r. [r, 2 ^ s + r]) (revs s))"

lemma revs_numeral: "revs (numeral v) = concat (map (\<lambda>r. [r, 2 ^ pred_numeral v + r]) (revs (pred_numeral v)))"
  by (simp add: numeral_eq_Suc)

lemma doubled_map: "map f [0..<2 * n] = concat (map (\<lambda>m. [f (2 * m), f (2 * m + 1)]) [0..<n])"
  by (induction n) simp_all

lemma revs_bitrev: "map (bitrev s) [0..<2 ^ s] = revs s"
proof (induction s)
  case (Suc s)
  have "map (bitrev (Suc s)) [0..<2 ^ Suc s] = concat (map (\<lambda>m. [bitrev s m, 2 ^ s + bitrev s m]) [0..<2 ^ s])"
    by (simp add: doubled_map)
  also have "\<dots> = concat (map (\<lambda>r. [r, 2 ^ s + r]) (map (bitrev s) [0..<2 ^ s]))" by (simp add: comp_def)
  finally show ?case unfolding Suc by (simp only: revs.simps)
qed simp

lemma pairs_enumerate:
  "map (\<lambda>m. (m, f m)) (filter (\<lambda>m. m < f m) [a..<b]) = filter (\<lambda>p. fst p < snd p) (enumerate a (map f [a..<b]))"
proof (induction "b - a" arbitrary: a)
  case 0
  then show ?case by simp
next
  case (Suc d)
  then have "[a..<b] = a # [Suc a..<b]" "d = b - Suc a" by (simp_all add: upt_conv_Cons)
  then show ?case using Suc.hyps(1) [of "Suc a"] by (simp add: enumerate_simps)
qed

lemma index_tables:
  "index_7 = concat (map (\<lambda>p. [fst p, snd p]) (map (\<lambda>m. (m, bitrev 7 m)) (filter (\<lambda>m. m < bitrev 7 m) [0..<2 ^ 7])))"
  "index_8 = concat (map (\<lambda>p. [fst p, snd p]) (map (\<lambda>m. (m, bitrev 8 m)) (filter (\<lambda>m. m < bitrev 8 m) [0..<2 ^ 8])))"
  unfolding pairs_enumerate revs_bitrev
  by (simp_all add: index_7_def index_8_def revs_numeral enumerate_simps numeral_2_eq_2 [symmetric])

lemma swap_table_reversed:
  assumes "index = concat (map (\<lambda>p. [fst p, snd p]) (map (\<lambda>m. (m, f m)) (filter (\<lambda>m. m < f m) ms)))"
  shows "swap_table index xs = foldl (\<lambda>xs m. if f m \<le> m then xs else swap_at m (f m) xs) xs ms"
proof -
  have "length index div 2 = length (map (\<lambda>m. (m, f m)) (filter (\<lambda>m. m < f m) ms))"
    unfolding assms length_flat by simp
  then show ?thesis unfolding swap_table_pairs swap_pairs by (simp only: assms flat_pairs)
qed

lemma ComplexBitReverse_reversed:
  assumes "length xs = 2 ^ s"
  shows "WebRtcSpl_ComplexBitReverse xs s = reversed s xs"
proof -
  let ?step = "\<lambda>xs m. if bitrev s m \<le> m then xs else swap_at m (bitrev s m) xs"
  have z: "bitrev s 0 = 0" by (induction s) simp_all
  have "[0..<2 ^ s] = 0 # [1..<2 ^ s]" by (simp add: upt_conv_Cons)
  then have "snd (swap_loop (2 ^ s) xs) = foldl ?step xs [0..<2 ^ s]"
    by (simp add: swap_loop_reversed snd_swap_fold z)
  moreover have "swap_table index_7 xs = foldl ?step xs [0..<2 ^ s]" if "s = 7"
    unfolding that by (rule swap_table_reversed [OF index_tables(1)])
  moreover have "swap_table index_8 xs = foldl ?step xs [0..<2 ^ s]" if "s = 8"
    unfolding that by (rule swap_table_reversed [OF index_tables(2)])
  ultimately show ?thesis
    using swap_fold_reversed [OF assms] by (auto simp: WebRtcSpl_ComplexBitReverse_def)
qed

section \<open>A stage updates every pair once\<close>

lemma foldl_nested:
  "foldl (\<lambda>xs m. foldl (g m) xs (is m)) xs ms = foldl (\<lambda>xs p. g (fst p) xs (snd p)) xs (concat (map (\<lambda>m. map (Pair m) (is m)) ms))"
  by (induction ms arbitrary: xs) (simp_all add: foldl_map)

lemma fold_updates:
  assumes "distinct ps" "\<And>i. i \<in> set ps \<Longrightarrow> i + l < length xs" "\<And>i j. i \<in> set ps \<Longrightarrow> j \<in> set ps \<Longrightarrow> i \<noteq> j + l"
  shows "length (foldl (\<lambda>xs i. fft_update (B i) l i xs) xs ps) = length xs \<and>
    (\<forall>i\<in>set ps. foldl (\<lambda>xs i. fft_update (B i) l i xs) xs ps ! i = fst (B i (xs ! i) (xs ! (i + l))) \<and>
       foldl (\<lambda>xs i. fft_update (B i) l i xs) xs ps ! (i + l) = snd (B i (xs ! i) (xs ! (i + l)))) \<and>
    (\<forall>j. j \<notin> set ps \<longrightarrow> (\<forall>i\<in>set ps. j \<noteq> i + l) \<longrightarrow> foldl (\<lambda>xs i. fft_update (B i) l i xs) xs ps ! j = xs ! j)"
  using assms
proof (induction ps rule: rev_induct)
  case Nil
  then show ?case by simp
next
  case (snoc k ps)
  define ys where "ys = foldl (\<lambda>xs i. fft_update (B i) l i xs) xs ps"
  have IH: "length ys = length xs"
    "\<And>i. i \<in> set ps \<Longrightarrow> ys ! i = fst (B i (xs ! i) (xs ! (i + l)))"
    "\<And>i. i \<in> set ps \<Longrightarrow> ys ! (i + l) = snd (B i (xs ! i) (xs ! (i + l)))"
    "\<And>j. j \<notin> set ps \<Longrightarrow> (\<And>i. i \<in> set ps \<Longrightarrow> j \<noteq> i + l) \<Longrightarrow> ys ! j = xs ! j"
    using snoc unfolding ys_def by auto
  have k: "k \<notin> set ps" "k + l < length xs" "\<And>i. i \<in> set ps \<Longrightarrow> k \<noteq> i + l" "\<And>i. i \<in> set ps \<Longrightarrow> i \<noteq> k + l" "l \<noteq> 0"
    using snoc.prems(1) snoc.prems(2) [of k] snoc.prems(3) [of k k] snoc.prems(3) [of k] snoc.prems(3) [of _ k] by auto
  have kl: "k + l \<notin> set ps" "\<And>i. i \<in> set ps \<Longrightarrow> k + l \<noteq> i + l" using k(1,4) by auto
  then have same: "ys ! k = xs ! k" "ys ! (k + l) = xs ! (k + l)" using IH(4) [of "k + l"] IH(4) [of k] k(1,3) by blast+
  have e: "foldl (\<lambda>xs i. fft_update (B i) l i xs) xs (ps @ [k]) = fft_update (B k) l k ys" by (simp add: ys_def)
  have u: "fft_update (B k) l k ys = ys[k + l := snd (B k (xs ! k) (xs ! (k + l))), k := fst (B k (xs ! k) (xs ! (k + l)))]"
    by (simp add: fft_update_def same split_beta)
  show ?case unfolding e u using IH k kl by (auto simp: nth_list_update)
qed

lemma stage_indices:
  assumes "0 < l"
  shows "set (concat (map (\<lambda>m. map (\<lambda>t. m + t * (2 * l)) [0..<q]) [0..<l])) = {i. i < q * (2 * l) \<and> i mod (2 * l) < l}" (is "?A = ?B")
    "distinct (concat (map (\<lambda>m. map (\<lambda>t. m + t * (2 * l)) [0..<q]) [0..<l]))"
proof -
  show "?A = ?B"
  proof (intro set_eqI iffI)
    fix i assume "i \<in> ?A"
    then obtain m t where mt: "m < l" "t < q" "i = m + t * (2 * l)" by auto
    have "m + t * (2 * l) < Suc t * (2 * l)" using mt(1) by simp
    also have "\<dots> \<le> q * (2 * l)" using mt(2) by (intro mult_le_mono) simp_all
    finally have "i < q * (2 * l)" using mt(3) by simp
    then show "i \<in> ?B" using mt by simp
  next
    fix i assume i: "i \<in> ?B"
    then have "i div (2 * l) < q" using assms by (simp add: div_less_iff_less_mult)
    moreover have "i = i mod (2 * l) + i div (2 * l) * (2 * l)" by (metis add.commute div_mult_mod_eq)
    ultimately show "i \<in> ?A" using i by force
  qed
  have "inj_on (\<lambda>t. m + t * (2 * l)) (set [0..<q])" for m using assms by (auto simp: inj_on_def)
  moreover have "(m + t * (2 * l)) \<noteq> m' + t' * (2 * l)" if "m < l" "m' < l" "m \<noteq> m'" for m m' t t'
  proof
    assume "m + t * (2 * l) = m' + t' * (2 * l)"
    then have "(m + t * (2 * l)) mod (2 * l) = (m' + t' * (2 * l)) mod (2 * l)" by simp
    then show False using that by simp
  qed
  ultimately have "distinct (concat (map (\<lambda>m. map (\<lambda>t. m + t * (2 * l)) [0..<q]) [0..<r]))" if "r \<le> l" for r
    using that
  proof (induction r)
    case 0
    then show ?case by simp
  next
    case (Suc r)
    then have "set (map (\<lambda>t. r + t * (2 * l)) [0..<q]) \<inter> set (concat (map (\<lambda>m. map (\<lambda>t. m + t * (2 * l)) [0..<q]) [0..<r])) = {}"
      by fastforce
    moreover have "distinct (map (\<lambda>t. r + t * (2 * l)) [0..<q])" using Suc.prems(1) by (simp add: distinct_map)
    moreover have "distinct (concat (map (\<lambda>m. map (\<lambda>t. m + t * (2 * l)) [0..<q]) [0..<r]))" using Suc by simp
    ultimately show ?case by (auto simp: distinct_append)
  qed
  then show "distinct (concat (map (\<lambda>m. map (\<lambda>t. m + t * (2 * l)) [0..<q]) [0..<l]))" by simp
qed

lemma stage_flat:
  "fft_stage bf n l k xs = foldl (\<lambda>xs i. fft_update (bf (i mod (2 * l) * 2 ^ k)) l i xs) xs
     (concat (map (\<lambda>m. map (\<lambda>t. m + t * (2 * l)) [0..<n div (2 * l)]) [0..<l]))"
proof -
  have "foldl (\<lambda>xs m. foldl (\<lambda>xs i. fft_update (bf (m * 2 ^ k)) l i xs) xs (map (\<lambda>t. m + t * (2 * l)) [0..<n div (2 * l)])) xs ms =
      foldl (\<lambda>xs i. fft_update (bf (i mod (2 * l) * 2 ^ k)) l i xs) xs (concat (map (\<lambda>m. map (\<lambda>t. m + t * (2 * l)) [0..<n div (2 * l)]) ms))"
    if "set ms \<subseteq> {..<l}" for ms
    using that
  proof (induction ms arbitrary: xs)
    case (Cons m ms)
    have "(m + t * (2 * l)) mod (2 * l) = m" for t using Cons.prems by simp
    then show ?case using Cons by (simp add: foldl_map)
  qed simp
  moreover have "set [0..<l] \<subseteq> {..<l}" by auto
  ultimately show ?thesis unfolding fft_stage_def by blast
qed

lemma stage_nth:
  assumes "length xs = n" "n = q * (2 * l)" "0 < l"
  shows "length (fft_stage bf n l k xs) = n"
    "i < n \<Longrightarrow> fft_stage bf n l k xs ! i =
      (if i mod (2 * l) < l then fst (bf (i mod (2 * l) * 2 ^ k) (xs ! i) (xs ! (i + l)))
       else snd (bf ((i mod (2 * l) - l) * 2 ^ k) (xs ! (i - l)) (xs ! i)))"
proof -
  define ps where "ps = concat (map (\<lambda>m. map (\<lambda>t. m + t * (2 * l)) [0..<n div (2 * l)]) [0..<l])"
  have q: "n div (2 * l) = q" using assms(2,3) by simp
  have ps: "set ps = {i. i < n \<and> i mod (2 * l) < l}" "distinct ps"
    using stage_indices [OF assms(3), of q] unfolding ps_def q assms(2) by simp_all
  have up: "i + l < n \<and> (i + l) mod (2 * l) = i mod (2 * l) + l" if "i \<in> set ps" for i
  proof -
    have i: "i < q * (2 * l)" "i mod (2 * l) < l" using that ps(1) assms(2) by auto
    have d: "i = i div (2 * l) * (2 * l) + i mod (2 * l)" by (rule div_mult_mod_eq [symmetric])
    have "i div (2 * l) < q" using i(1) assms(3) by (simp add: div_less_iff_less_mult)
    then have "Suc (i div (2 * l)) * (2 * l) \<le> q * (2 * l)" by (intro mult_le_mono) simp_all
    then have "i + l < n" using d i(2) assms(2) by simp
    moreover have "(i mod (2 * l) + l) mod (2 * l) = i mod (2 * l) + l" using i(2) by simp
    ultimately show ?thesis by (metis mod_add_left_eq)
  qed
  have dis: "i \<noteq> j + l" if "i \<in> set ps" "j \<in> set ps" for i j
  proof
    assume e: "i = j + l"
    have "i mod (2 * l) = j mod (2 * l) + l" unfolding e using up [OF that(2)] by blast
    moreover have "i mod (2 * l) < l" using that(1) ps(1) by blast
    ultimately show False by linarith
  qed
  have bound: "i + l < length xs" if "i \<in> set ps" for i using up [OF that] assms(1) by simp
  note F0 = fold_updates [where B = "\<lambda>i. bf (i mod (2 * l) * 2 ^ k)" and l = l and xs = xs, OF ps(2) bound dis,
      folded stage_flat [of bf n l k xs, folded ps_def]]
  have F: "length (fft_stage bf n l k xs) = n"
    "\<And>i. i \<in> set ps \<Longrightarrow> fft_stage bf n l k xs ! i = fst (bf (i mod (2 * l) * 2 ^ k) (xs ! i) (xs ! (i + l)))"
    "\<And>i. i \<in> set ps \<Longrightarrow> fft_stage bf n l k xs ! (i + l) = snd (bf (i mod (2 * l) * 2 ^ k) (xs ! i) (xs ! (i + l)))"
    using F0 assms(1) by simp_all
  show "length (fft_stage bf n l k xs) = n" by (rule F(1))
  show "fft_stage bf n l k xs ! i = (if i mod (2 * l) < l then fst (bf (i mod (2 * l) * 2 ^ k) (xs ! i) (xs ! (i + l)))
       else snd (bf ((i mod (2 * l) - l) * 2 ^ k) (xs ! (i - l)) (xs ! i)))" if "i < n"
  proof (cases "i mod (2 * l) < l")
    case True
    then show ?thesis using F(2) that ps(1) by simp
  next
    case False
    have d: "i = i div (2 * l) * (2 * l) + i mod (2 * l)" by (rule div_mult_mod_eq [symmetric])
    have m: "i mod (2 * l) - l < l" "l \<le> i" using False assms(3) mod_less_divisor [of "2 * l" i] d by linarith+
    have "(i - l) mod (2 * l) = i mod (2 * l) - l"
    proof -
      have "i - l = i div (2 * l) * (2 * l) + (i mod (2 * l) - l)" using d False by linarith
      then have "(i - l) mod (2 * l) = (i mod (2 * l) - l) mod (2 * l)" by (metis mod_mult_self3)
      then show ?thesis using m(1) by simp
    qed
    moreover from this have "i - l \<in> set ps" using m(1) that ps(1) by simp
    ultimately show ?thesis using F(3) [of "i - l"] m False by simp
  qed
qed

section \<open>With exact butterflies the network is the Fourier transform\<close>

definition exact_butterfly :: "'a :: comm_ring_1 \<Rightarrow> nat \<Rightarrow> 'a \<Rightarrow> 'a \<Rightarrow> 'a \<times> 'a" where
  "exact_butterfly w j x y = (x + w ^ j * y, x - w ^ j * y)"

lemma sum_even_odd: "(\<Sum>u<2 * n. f u) = (\<Sum>t<n. f (2 * t)) + (\<Sum>t<n. f (2 * t + 1))" for f :: "nat \<Rightarrow> 'a :: comm_monoid_add"
  by (induction n) (simp_all add: ac_simps)

lemma stage_sum:
  fixes w :: "'a :: comm_ring_1"
  assumes w: "w ^ 512 = - 1" and s: "s \<le> 9" and m: "m < 2 * 2 ^ s"
  shows "(\<Sum>u<2 * 2 ^ s. x (a + u * b) * w ^ (u * m * 2 ^ (9 - s))) =
    (\<Sum>t<2 ^ s. x (a + t * (2 * b)) * w ^ (t * (m mod 2 ^ s) * (2 * 2 ^ (9 - s)))) +
    (if m < 2 ^ s then 1 else - 1) * w ^ (m mod 2 ^ s * 2 ^ (9 - s)) *
      (\<Sum>t<2 ^ s. x (a + b + t * (2 * b)) * w ^ (t * (m mod 2 ^ s) * (2 * 2 ^ (9 - s))))"
proof -
  define r where "r = m mod 2 ^ s"
  define sg :: 'a where "sg = (if m < 2 ^ s then 1 else - 1)"
  define k :: nat where "k = 2 ^ (9 - s)"
  have "2 ^ s * k = (512 :: nat)" using s by (simp add: k_def flip: power_add)
  then have root: "w ^ (2 ^ s * k) = - 1" using w by simp
  have mk: "w ^ (m * k) = sg * w ^ (r * k)"
  proof (cases "m < 2 ^ s")
    case True
    then show ?thesis by (simp add: sg_def r_def)
  next
    case False
    then have "m = 2 ^ s + r" using m by (simp add: r_def le_mod_geq)
    then show ?thesis using False root by (simp add: sg_def power_add distrib_right)
  qed
  have sg2: "sg * sg = 1" by (simp add: sg_def)
  have even: "w ^ (2 * t * m * k) = w ^ (t * r * (2 * k))" for t
  proof -
    have "2 * t * m * k = (m * k + m * k) * t" by (simp add: algebra_simps)
    then have "w ^ (2 * t * m * k) = (w ^ (m * k) * w ^ (m * k)) ^ t" by (simp only: power_mult power_add)
    also have "\<dots> = (w ^ (r * k) * w ^ (r * k)) ^ t" unfolding mk using sg2 by (metis mult.assoc mult.left_commute mult_1)
    also have "\<dots> = w ^ ((r * k + r * k) * t)" by (simp only: power_mult power_add)
    also have "(r * k + r * k) * t = t * r * (2 * k)" by (simp add: algebra_simps)
    finally show ?thesis .
  qed
  have odd: "w ^ ((2 * t + 1) * m * k) = sg * w ^ (r * k) * w ^ (t * r * (2 * k))" for t
  proof -
    have "w ^ ((2 * t + 1) * m * k) = w ^ (2 * t * m * k) * w ^ (m * k)" by (simp only: distrib_right mult_1 power_add)
    then show ?thesis unfolding even mk by (simp add: ac_simps)
  qed
  have "(\<Sum>u<2 * 2 ^ s. x (a + u * b) * w ^ (u * m * k)) =
      (\<Sum>t<2 ^ s. x (a + 2 * t * b) * w ^ (2 * t * m * k)) + (\<Sum>t<2 ^ s. x (a + (2 * t + 1) * b) * w ^ ((2 * t + 1) * m * k))"
    by (rule sum_even_odd)
  also have "(\<Sum>t<2 ^ s. x (a + 2 * t * b) * w ^ (2 * t * m * k)) = (\<Sum>t<2 ^ s. x (a + t * (2 * b)) * w ^ (t * r * (2 * k)))"
    unfolding even by (simp add: ac_simps)
  also have "(\<Sum>t<2 ^ s. x (a + (2 * t + 1) * b) * w ^ ((2 * t + 1) * m * k)) =
      (\<Sum>t<2 ^ s. sg * w ^ (r * k) * (x (a + b + t * (2 * b)) * w ^ (t * r * (2 * k))))"
    unfolding odd by (rule sum.cong) (simp_all add: algebra_simps)
  also have "\<dots> = sg * w ^ (r * k) * (\<Sum>t<2 ^ s. x (a + b + t * (2 * b)) * w ^ (t * r * (2 * k)))"
    by (simp add: sum_distrib_left)
  finally show ?thesis unfolding r_def [symmetric] sg_def [symmetric] k_def [symmetric] .
qed

text \<open>After \<open>s\<close> stages every block of \<open>2 ^ s\<close> elements is the transform of a decimated input.\<close>

lemma stages_blocks:
  fixes w :: "'a :: comm_ring_1"
  assumes w: "w ^ 512 = - 1" and S: "S \<le> 10" and len: "length xs = 2 ^ S" and "s \<le> S"
  shows "length (foldl (\<lambda>xs s. fft_stage (exact_butterfly w) (2 ^ S) (2 ^ s) (9 - s) xs) (reversed S xs) [0..<s]) = 2 ^ S \<and>
    (\<forall>i<2 ^ S. foldl (\<lambda>xs s. fft_stage (exact_butterfly w) (2 ^ S) (2 ^ s) (9 - s) xs) (reversed S xs) [0..<s] ! i =
      (\<Sum>t<2 ^ s. xs ! (bitrev (S - s) (i div 2 ^ s) + t * 2 ^ (S - s)) * w ^ (t * (i mod 2 ^ s) * 2 ^ (10 - s))))"
  using assms(4)
proof (induction s)
  case 0
  then show ?case by (simp add: reversed_def)
next
  case (Suc s)
  define ys where "ys = foldl (\<lambda>xs s. fft_stage (exact_butterfly w) (2 ^ S) (2 ^ s) (9 - s) xs) (reversed S xs) [0..<s]"
  define c where "c = S - Suc s"
  have s: "s \<le> 9" "Suc s \<le> S" using Suc.prems S by simp_all
  have c: "S - s = Suc c" "10 - s = Suc (9 - s)" "10 - Suc s = 9 - s" using s by (simp_all add: c_def)
  have ys: "length ys = 2 ^ S" "\<And>i. i < 2 ^ S \<Longrightarrow> ys ! i =
      (\<Sum>t<2 ^ s. xs ! (bitrev (Suc c) (i div 2 ^ s) + t * (2 * 2 ^ c)) * w ^ (t * (i mod 2 ^ s) * (2 * 2 ^ (9 - s))))"
    using Suc.IH Suc.prems unfolding ys_def [symmetric] c by simp_all
  have n: "2 ^ S = 2 ^ c * (2 * 2 ^ s :: nat)" using s by (simp add: c_def flip: power_add power_Suc)
  have pos: "0 < (2 :: nat) ^ s" by simp
  note st = stage_nth [where bf = "exact_butterfly w" and k = "9 - s", OF ys(1) n pos]
  have e: "foldl (\<lambda>xs s. fft_stage (exact_butterfly w) (2 ^ S) (2 ^ s) (9 - s) xs) (reversed S xs) [0..<Suc s] =
      fft_stage (exact_butterfly w) (2 ^ S) (2 ^ s) (9 - s) ys" by (simp add: ys_def)
  have main: "fft_stage (exact_butterfly w) (2 ^ S) (2 ^ s) (9 - s) ys ! i =
      (\<Sum>t<2 ^ Suc s. xs ! (bitrev c (i div 2 ^ Suc s) + t * 2 ^ c) * w ^ (t * (i mod 2 ^ Suc s) * 2 ^ (9 - s)))"
    if i: "i < 2 ^ S" for i
  proof -
    define m where "m = i mod (2 * 2 ^ s)"
    define b where "b = i div (2 * 2 ^ s)"
    define lo where "lo = b * (2 * 2 ^ s) + m mod 2 ^ s"
    have m: "m < 2 * 2 ^ s" by (simp add: m_def)
    have im: "i = b * (2 * 2 ^ s) + m" unfolding b_def m_def by (rule div_mult_mod_eq [symmetric])
    have r: "m mod 2 ^ s < 2 ^ s" by simp
    have b: "b < 2 ^ c" using i n by (simp add: b_def div_less_iff_less_mult)
    have hi: "lo + 2 ^ s < 2 ^ S"
    proof -
      have "Suc b * (2 * 2 ^ s) \<le> 2 ^ c * (2 * 2 ^ s)" using b by (intro mult_le_mono) simp_all
      moreover have "lo + 2 ^ s < Suc b * (2 * 2 ^ s)" unfolding lo_def mult_Suc using r by linarith
      ultimately show ?thesis unfolding n by (rule less_le_trans [rotated])
    qed
    have d: "lo div 2 ^ s = 2 * b" "lo mod 2 ^ s = m mod 2 ^ s" "(lo + 2 ^ s) div 2 ^ s = 2 * b + 1" "(lo + 2 ^ s) mod 2 ^ s = m mod 2 ^ s"
    proof -
      have split: "(r + q * p) div p = q" "(r + q * p) mod p = r" if "r < p" for r q p :: nat
        using that by simp_all
      have "lo = m mod 2 ^ s + 2 * b * 2 ^ s" "lo + 2 ^ s = m mod 2 ^ s + (2 * b + 1) * 2 ^ s"
        unfolding lo_def by (simp_all only: algebra_simps)
      then show "lo div 2 ^ s = 2 * b" "lo mod 2 ^ s = m mod 2 ^ s" "(lo + 2 ^ s) div 2 ^ s = 2 * b + 1" "(lo + 2 ^ s) mod 2 ^ s = m mod 2 ^ s"
        by (simp_all only: split [OF r])
    qed
    have even: "ys ! lo = (\<Sum>t<2 ^ s. xs ! (bitrev c b + t * (2 * 2 ^ c)) * w ^ (t * (m mod 2 ^ s) * (2 * 2 ^ (9 - s))))"
      using ys(2) [of lo] hi unfolding d by simp
    have odd: "ys ! (lo + 2 ^ s) = (\<Sum>t<2 ^ s. xs ! (bitrev c b + 2 ^ c + t * (2 * 2 ^ c)) * w ^ (t * (m mod 2 ^ s) * (2 * 2 ^ (9 - s))))"
    proof -
      have "bitrev (Suc c) (2 * b + 1) = bitrev c b + 2 ^ c" by simp
      then show ?thesis using ys(2) [OF hi] unfolding d by (simp only:)
    qed
    have "fft_stage (exact_butterfly w) (2 ^ S) (2 ^ s) (9 - s) ys ! i =
        ys ! lo + (if m < 2 ^ s then 1 else - 1) * w ^ (m mod 2 ^ s * 2 ^ (9 - s)) * ys ! (lo + 2 ^ s)"
    proof (cases "m < 2 ^ s")
      case True
      then have "i = lo" by (simp add: im lo_def)
      then show ?thesis using st(2) [OF i] True unfolding m_def [symmetric] by (simp add: exact_butterfly_def)
    next
      case False
      then have "m mod 2 ^ s = m - 2 ^ s" using m by (simp add: le_mod_geq)
      moreover from this have "i - 2 ^ s = lo" "i = lo + 2 ^ s" using False by (simp_all add: im lo_def)
      ultimately show ?thesis using st(2) [OF i] False unfolding m_def [symmetric] by (simp add: exact_butterfly_def)
    qed
    also have "\<dots> = (\<Sum>u<2 * 2 ^ s. xs ! (bitrev c b + u * 2 ^ c) * w ^ (u * m * 2 ^ (9 - s)))"
      unfolding even odd by (rule stage_sum [where x = "(!) xs", OF w s(1) m, symmetric])
    finally show ?thesis by (simp add: b_def m_def)
  qed
  show ?case unfolding e c(3) c_def [symmetric] using main st(1) by simp
qed

text \<open>The whole transform, the code's bit reversal and loops included.\<close>

lemma fft_network_dft:
  fixes w :: "'a :: comm_ring_1"
  assumes "w ^ 512 = - 1" "S \<le> 10" "length xs = 2 ^ S" "k < 2 ^ S"
  shows "fft_stages (exact_butterfly w) S (WebRtcSpl_ComplexBitReverse xs S) ! k =
    (\<Sum>i<2 ^ S. xs ! i * w ^ (i * k * 2 ^ (10 - S)))"
proof -
  have "bitrev 0 0 = 0" by simp
  then show ?thesis
    using stages_blocks [OF assms(1-3) order.refl] assms(4)
    unfolding fft_stages_def ComplexBitReverse_reversed [OF assms(3)] by simp
qed

end
