(* ===== verification/SplFftTwiddle.thy ===== *)
theory SplFftTwiddle imports SplFft begin

text \<open>
  How close the 1024-point sine table of \<open>complex_fft_tables.h\<close> is to the sine: every entry is within
  2.05 units of \<open>32768\<close> times the sine. Two points of the unit circle come from halving a right angle;
  their multiples, up to 32 of each, from rotations in 28-bit fixed point with a bound on the error of
  each step; and every angle of the table is a sum of one multiple of either.
\<close>

section \<open>Halving a right angle\<close>

lemma cos_half_bounds:
  fixes l u l' u' x :: real
  assumes "l \<le> cos x" "cos x \<le> u" "0 \<le> x" "x \<le> pi" "0 \<le> l'" "0 \<le> u'"
    and "l'\<^sup>2 \<le> (1 + l) / 2" "(1 + u) / 2 \<le> u'\<^sup>2"
  shows "l' \<le> cos (x / 2) \<and> cos (x / 2) \<le> u'"
proof -
  have sq: "(cos (x / 2))\<^sup>2 = (1 + cos x) / 2" using cos_double_cos [of "x / 2"] by simp
  have nn: "0 \<le> cos (x / 2)" using assms(3,4) by (intro cos_ge_zero) simp_all
  have "(1 + l) / 2 \<le> (1 + cos x) / 2" "(1 + cos x) / 2 \<le> (1 + u) / 2" using assms(1,2) by (simp_all add: divide_right_mono)
  then have "l'\<^sup>2 \<le> (cos (x / 2))\<^sup>2" "(cos (x / 2))\<^sup>2 \<le> u'\<^sup>2" unfolding sq using assms(7,8) by (blast intro: order_trans)+
  then show ?thesis using nn assms(6) by (blast intro: power2_le_imp_le)
qed

text \<open>Bounds of successive halvings, in units of \<open>10 ^ 24\<close>.\<close>

abbreviation unit :: int where "unit \<equiv> 1000000000000000000000000"

fun halving_ok :: "int \<Rightarrow> int \<Rightarrow> (int \<times> int) list \<Rightarrow> bool" where
  "halving_ok l u [] = True"
| "halving_ok l u (b # bs) =
     (0 \<le> fst b \<and> 0 \<le> snd b \<and> 2 * (fst b * fst b) \<le> (unit + l) * unit \<and> (unit + u) * unit \<le> 2 * (snd b * snd b) \<and>
      halving_ok (fst b) (snd b) bs)"

lemma halving_bounds:
  assumes "halving_ok l u bs" "real_of_int l / unit \<le> cos x \<and> cos x \<le> real_of_int u / unit" "0 \<le> x" "x \<le> pi" "bs \<noteq> []"
  shows "real_of_int (fst (last bs)) / unit \<le> cos (x / 2 ^ length bs) \<and>
    cos (x / 2 ^ length bs) \<le> real_of_int (snd (last bs)) / unit"
  using assms
proof (induction bs arbitrary: l u x)
  case Nil
  then show ?case by simp
next
  case (Cons b bs)
  have ok: "0 \<le> fst b" "0 \<le> snd b" "2 * (fst b * fst b) \<le> (unit + l) * unit" "(unit + u) * unit \<le> 2 * (snd b * snd b)"
    "halving_ok (fst b) (snd b) bs"
    using Cons.prems(1) by simp_all
  have "real_of_int (2 * (fst b * fst b)) \<le> real_of_int ((unit + l) * unit)" "real_of_int ((unit + u) * unit) \<le> real_of_int (2 * (snd b * snd b))"
    using ok(3,4) by (simp_all only: of_int_le_iff)
  then have sq: "(real_of_int (fst b) / unit)\<^sup>2 \<le> (1 + real_of_int l / unit) / 2" "(1 + real_of_int u / unit) / 2 \<le> (real_of_int (snd b) / unit)\<^sup>2"
    by (simp_all add: field_simps power2_eq_square)
  have half: "real_of_int (fst b) / unit \<le> cos (x / 2) \<and> cos (x / 2) \<le> real_of_int (snd b) / unit"
    using cos_half_bounds [OF conjunct1 [OF Cons.prems(2)] conjunct2 [OF Cons.prems(2)] Cons.prems(3,4) _ _ sq] ok(1,2)
    by simp
  show ?case
  proof (cases "bs = []")
    case True
    then show ?thesis using half by simp
  next
    case False
    have x: "0 \<le> x / 2" "x / 2 \<le> pi" using Cons.prems(3,4) by simp_all
    have "x / 2 / 2 ^ length bs = x / 2 ^ length (b # bs)" by simp
    then show ?thesis using Cons.IH [OF ok(5) half x False] False by simp
  qed
qed

lemma sin_of_cos:
  fixes l u l' u' x :: real
  assumes "l \<le> cos x \<and> cos x \<le> u" "0 \<le> x" "x \<le> pi" "0 \<le> l" "0 \<le> u'"
    and "l'\<^sup>2 \<le> 1 - u\<^sup>2" "1 - l\<^sup>2 \<le> u'\<^sup>2"
  shows "l' \<le> sin x \<and> sin x \<le> u'"
proof -
  have nn: "0 \<le> sin x" using assms(2,3) by (rule sin_ge_zero)
  have "l\<^sup>2 \<le> (cos x)\<^sup>2" "(cos x)\<^sup>2 \<le> u\<^sup>2" using assms(1,4) by (intro power_mono; linarith)+
  then have "l'\<^sup>2 \<le> (sin x)\<^sup>2" "(sin x)\<^sup>2 \<le> u'\<^sup>2" unfolding sin_squared_eq [of x] using assms(6,7) by linarith+
  then show ?thesis using nn assms(5) by (blast intro: power2_le_imp_le)
qed

definition halvings :: "(int \<times> int) list" where
  "halvings = [
    (707106781186547524400844, 707106781186547524400845),
    (923879532511286756128183, 923879532511286756128184),
    (980785280403230449126182, 980785280403230449126183),
    (995184726672196886244836, 995184726672196886244838),
    (998795456205172392714771, 998795456205172392714772),
    (999698818696204220115765, 999698818696204220115766),
    (999924701839144540921646, 999924701839144540921647),
    (999981175282601142656990, 999981175282601142656991)]"

lemma right_angle: "real_of_int 0 / unit \<le> cos (pi / 2) \<and> cos (pi / 2) \<le> real_of_int 0 / unit" "0 \<le> pi / 2" "pi / 2 \<le> pi"
  by simp_all

lemma coarse_angle:
  "980785280403230449126182 / unit \<le> cos (pi / 16) \<and> cos (pi / 16) \<le> 980785280403230449126183 / unit"
  "195090322016128267848281 / unit \<le> sin (pi / 16) \<and> sin (pi / 16) \<le> 195090322016128267848287 / unit"
proof -
  have "halving_ok 0 0 (take 3 halvings)" by (simp add: halvings_def)
  from halving_bounds [OF this right_angle]
  show c: "980785280403230449126182 / unit \<le> cos (pi / 16) \<and> cos (pi / 16) \<le> 980785280403230449126183 / unit"
    by (simp add: halvings_def)
  show "195090322016128267848281 / unit \<le> sin (pi / 16) \<and> sin (pi / 16) \<le> 195090322016128267848287 / unit"
    by (rule sin_of_cos [OF c]) (simp_all add: power_divide)
qed

lemma fine_angle:
  "999981175282601142656990 / unit \<le> cos (pi / 512) \<and> cos (pi / 512) \<le> 999981175282601142656991 / unit"
  "6135884649154475359548 / unit \<le> sin (pi / 512) \<and> sin (pi / 512) \<le> 6135884649154475359712 / unit"
proof -
  have "halving_ok 0 0 halvings" by (simp add: halvings_def)
  from halving_bounds [OF this right_angle]
  show c: "999981175282601142656990 / unit \<le> cos (pi / 512) \<and> cos (pi / 512) \<le> 999981175282601142656991 / unit"
    by (simp add: halvings_def)
  show "6135884649154475359548 / unit \<le> sin (pi / 512) \<and> sin (pi / 512) \<le> 6135884649154475359712 / unit"
    by (rule sin_of_cos [OF c]) (simp_all add: power_divide)
qed

section \<open>Multiples of an angle\<close>

lemma cmod_parts:
  assumes "\<bar>Re z\<bar> \<le> e" "\<bar>Im z\<bar> \<le> e" "2 * e\<^sup>2 \<le> d\<^sup>2" "0 \<le> d"
  shows "cmod z \<le> d"
proof -
  have "0 \<le> e" using assms(1) by linarith
  then have "(Re z)\<^sup>2 \<le> e\<^sup>2" "(Im z)\<^sup>2 \<le> e\<^sup>2" using assms(1,2) by (simp_all add: power2_le_iff_abs_le)
  then have "(cmod z)\<^sup>2 \<le> d\<^sup>2" unfolding cmod_power2 using assms(3) by linarith
  then show ?thesis using assms(4) by (rule power2_le_imp_le)
qed

abbreviation scale28 :: int where "scale28 \<equiv> 268435456"

definition point28 :: "int \<times> int \<Rightarrow> complex" where
  "point28 z = Complex (real_of_int (fst z) / scale28) (real_of_int (snd z) / scale28)"

fun rotation_ok :: "int \<times> int \<Rightarrow> (int \<times> int) list \<Rightarrow> bool" where
  "rotation_ok r (z # z' # zs) =
     (\<bar>fst z' * scale28 - (fst z * fst r - snd z * snd r)\<bar> \<le> scale28 \<and>
      \<bar>snd z' * scale28 - (snd z * fst r + fst z * snd r)\<bar> \<le> scale28 \<and> rotation_ok r (z' # zs))"
| "rotation_ok r zs = True"

lemma round_part:
  assumes "\<bar>x * scale28 - p\<bar> \<le> scale28"
  shows "\<bar>real_of_int x / scale28 - real_of_int p / scale28 / scale28\<bar> \<le> 1 / scale28"
proof -
  have "real_of_int \<bar>x * scale28 - p\<bar> \<le> real_of_int scale28" using assms by (simp only: of_int_le_iff)
  then show ?thesis by (simp add: abs_le_iff field_simps)
qed

lemma rotation_step:
  assumes re: "\<bar>fst z' * scale28 - (fst z * fst r - snd z * snd r)\<bar> \<le> scale28"
    and im: "\<bar>snd z' * scale28 - (snd z * fst r + fst z * snd r)\<bar> \<le> scale28"
    and "cmod (point28 z - cis \<phi>) \<le> e" "cmod (point28 r - cis \<psi>) \<le> d" "cmod (point28 r) \<le> 1"
  shows "cmod (point28 z' - cis (\<phi> + \<psi>)) \<le> e + d + 2 / scale28"
proof -
  define q where "q = point28 z' - point28 z * point28 r"
  have "Re q = real_of_int (fst z') / scale28 - real_of_int (fst z * fst r - snd z * snd r) / scale28 / scale28"
    "Im q = real_of_int (snd z') / scale28 - real_of_int (snd z * fst r + fst z * snd r) / scale28 / scale28"
    by (simp_all add: q_def point28_def diff_divide_distrib add_divide_distrib)
  then have "\<bar>Re q\<bar> \<le> 1 / scale28" "\<bar>Im q\<bar> \<le> 1 / scale28" using round_part [OF re] round_part [OF im] by simp_all
  then have 1: "cmod q \<le> 2 / scale28" using cmod_le [of q] by simp
  have "cmod (point28 z - cis \<phi>) * cmod (point28 r) \<le> e * 1"
    using assms(3,5) by (intro mult_mono) (auto intro: order_trans [OF norm_ge_zero])
  then have 2: "cmod ((point28 z - cis \<phi>) * point28 r) \<le> e" by (simp add: norm_mult)
  have 3: "cmod (cis \<phi> * (point28 r - cis \<psi>)) \<le> d" using assms(4) by (simp add: norm_mult)
  have "point28 z' - cis (\<phi> + \<psi>) = q + (point28 z - cis \<phi>) * point28 r + cis \<phi> * (point28 r - cis \<psi>)"
    by (simp add: q_def cis_mult [symmetric] algebra_simps)
  then show ?thesis using norm_triangle_ineq [of "q + (point28 z - cis \<phi>) * point28 r" "cis \<phi> * (point28 r - cis \<psi>)"]
      norm_triangle_ineq [of q "(point28 z - cis \<phi>) * point28 r"] 1 2 3 by simp
qed

lemma rotation_points:
  assumes "rotation_ok r zs" "zs \<noteq> []" "cmod (point28 (hd zs) - cis \<phi>) \<le> e"
    "cmod (point28 r - cis \<psi>) \<le> d" "cmod (point28 r) \<le> 1" "i < length zs"
  shows "cmod (point28 (zs ! i) - cis (\<phi> + real i * \<psi>)) \<le> e + real i * (d + 2 / scale28)"
  using assms
proof (induction r zs arbitrary: \<phi> e i rule: rotation_ok.induct)
  case (1 r z z' zs)
  show ?case
  proof (cases i)
    case 0
    then show ?thesis using 1(4) by simp
  next
    case (Suc k)
    have ok: "\<bar>fst z' * scale28 - (fst z * fst r - snd z * snd r)\<bar> \<le> scale28"
      "\<bar>snd z' * scale28 - (snd z * fst r + fst z * snd r)\<bar> \<le> scale28" "rotation_ok r (z' # zs)"
      using 1(2) by simp_all
    have z: "cmod (point28 z - cis \<phi>) \<le> e" using 1(4) by simp
    have hd: "cmod (point28 (hd (z' # zs)) - cis (\<phi> + \<psi>)) \<le> e + d + 2 / scale28"
      using rotation_step [OF ok(1,2) z 1(5,6)] by simp
    have "k < length (z' # zs)" using 1(7) Suc by simp
    from 1(1) [OF ok(3) _ hd 1(5,6) this]
    have "cmod (point28 ((z' # zs) ! k) - cis (\<phi> + \<psi> + real k * \<psi>)) \<le> e + d + 2 / scale28 + real k * (d + 2 / scale28)" by simp
    moreover have "\<phi> + \<psi> + real k * \<psi> = \<phi> + real i * \<psi>" "e + d + 2 / scale28 + real k * (d + 2 / scale28) = e + real i * (d + 2 / scale28)"
      by (simp_all add: Suc algebra_simps)
    ultimately show ?thesis using Suc by simp
  qed
qed simp_all

definition coarse_points :: "(int \<times> int) list" where
  "coarse_points = [
    (268435456, 0), (263277543, 52369159), (248002022, 102725800), (223195923, 149134746),
    (189812530, 189812527), (149134748, 223195919), (102725802, 248002017), (52369161, 263277536),
    (3, 268435447), (- 52369154, 263277535), (- 102725794, 248002015), (- 149134739, 223195917),
    (- 189812519, 189812525), (- 223195910, 149134745), (- 248002007, 102725801), (- 263277526, 52369162),
    (- 268435438, 6), (- 263277527, - 52369150), (- 248002008, - 102725788), (- 223195911, - 149134732),
    (- 189812521, - 189812511), (- 149134742, - 223195902), (- 102725799, - 248001999),
    (- 52369162, - 263277518)]"

definition fine_points :: "(int \<times> int) list" where
  "fine_points =
   [(268435456, 0), (268430402, 1647088), (268415242, 3294114), (268389976, 4941016), (268354605, 6587732),
    (268309131, 8234200), (268253555, 9880358), (268187880, 11526144), (268112108, 13171496),
    (268026241, 14816352), (267930283, 16460650), (267824238, 18104328), (267708110, 19747325),
    (267581902, 21389578), (267445620, 23031026), (267299269, 24671607), (267142854, 26311259),
    (266976382, 27949920), (266799858, 29587529), (266613289, 31224024), (266416682, 32859344),
    (266210045, 34493426), (265993385, 36126210), (265766711, 37757634), (265530031, 39387636),
    (265283354, 41016155), (265026689, 42643130), (264760046, 44268499), (264483435, 45892202),
    (264196866, 47514177), (263900350, 49134363), (263593899, 50752699)]"

lemma point28_close:
  assumes "\<bar>real_of_int (fst r) / scale28 - cos \<psi>\<bar> \<le> 1 / scale28" "\<bar>real_of_int (snd r) / scale28 - sin \<psi>\<bar> \<le> 1 / scale28"
  shows "cmod (point28 r - cis \<psi>) \<le> 2 / scale28"
  using assms cmod_le [of "point28 r - cis \<psi>"] by (simp add: point28_def)

lemma coarse_points:
  "length coarse_points = 24" "i < 24 \<Longrightarrow> cmod (point28 (coarse_points ! i) - cis (real i * (pi / 16))) \<le> real i * (4 / scale28)"
proof -
  have c: "coarse_points = (268435456, 0) # (263277543, 52369159) # drop 2 coarse_points" by (simp add: coarse_points_def)
  show n: "length coarse_points = 24" by (simp add: coarse_points_def)
  have ok: "rotation_ok (263277543, 52369159) coarse_points" unfolding coarse_points_def by code_simp
  have "cmod (point28 (263277543, 52369159) - cis (pi / 16)) \<le> 2 / scale28"
    using coarse_angle by (intro point28_close) (simp_all add: abs_le_iff)
  moreover have "cmod (point28 (263277543, 52369159)) \<le> 1" by (simp add: point28_def cmod_def power_divide)
  moreover have "cmod (point28 (hd coarse_points) - cis 0) \<le> 0" by (subst c) (simp add: point28_def complex_eq_iff)
  ultimately show "i < 24 \<Longrightarrow> cmod (point28 (coarse_points ! i) - cis (real i * (pi / 16))) \<le> real i * (4 / scale28)"
    using rotation_points [OF ok, of 0 0 "pi / 16" "2 / scale28" i] n by (cases "coarse_points = []") simp_all
qed

lemma fine_points:
  "length fine_points = 32" "i < 32 \<Longrightarrow> cmod (point28 (fine_points ! i) - cis (real i * (pi / 512))) \<le> real i * (4 / scale28)"
proof -
  have c: "fine_points = (268435456, 0) # (268430402, 1647088) # drop 2 fine_points" by (simp add: fine_points_def)
  show n: "length fine_points = 32" by (simp add: fine_points_def)
  have ok: "rotation_ok (268430402, 1647088) fine_points" unfolding fine_points_def by code_simp
  have "cmod (point28 (268430402, 1647088) - cis (pi / 512)) \<le> 2 / scale28"
    using fine_angle by (intro point28_close) (simp_all add: abs_le_iff)
  moreover have "cmod (point28 (268430402, 1647088)) \<le> 1" by (simp add: point28_def cmod_def power_divide)
  moreover have "cmod (point28 (hd fine_points) - cis 0) \<le> 0" by (subst c) (simp add: point28_def complex_eq_iff)
  ultimately show "i < 32 \<Longrightarrow> cmod (point28 (fine_points ! i) - cis (real i * (pi / 512))) \<le> real i * (4 / scale28)"
    using rotation_points [OF ok, of 0 0 "pi / 512" "2 / scale28" i] n by (cases "fine_points = []") simp_all
qed

section \<open>The table\<close>

text \<open>
  One row of sums for each coarse multiple: \<open>p\<close> is \<open>sin (x + y) = sin x * cos y + cos x * sin y\<close>. The
  entries are \<open>32767\<close> times the sine, cut off towards zero.
\<close>

abbreviation scale56 :: int where "scale56 \<equiv> 72057594037927936"

definition cut_off :: "int \<Rightarrow> int \<Rightarrow> bool" where
  "cut_off x p =
     (let d = 32767 * p - x * 72057594037927936
      in if 0 \<le> p then if 0 \<le> x then if - 720575940379279 \<le> d then d \<le> 72057594037927936 else False else False
         else if x \<le> 0 then if - 72057594037927936 \<le> d then d \<le> 720575940379279 else False else False)"

fun sine_row :: "int \<Rightarrow> int \<Rightarrow> (int \<times> int) list \<Rightarrow> int list \<Rightarrow> bool" where
  "sine_row s c [] xs = (xs = [])"
| "sine_row s c (b # bs) xs = (case xs of [] \<Rightarrow> False | x # xs \<Rightarrow>
     (if cut_off x (s * fst b + c * snd b) then sine_row s c bs xs else False))"

fun sine_rows :: "(int \<times> int) list \<Rightarrow> (int \<times> int) list \<Rightarrow> int list list \<Rightarrow> bool" where
  "sine_rows [] bs xss = True"
| "sine_rows (a # as) bs xss = (case xss of [] \<Rightarrow> False | xs # xss \<Rightarrow>
     (if sine_row (snd a) (fst a) bs xs then sine_rows as bs xss else False))"

lemma sine_row_nth:
  assumes "sine_row s c bs xs"
  shows "length xs = length bs \<and> (\<forall>b<length bs. cut_off (xs ! b) (s * fst (bs ! b) + c * snd (bs ! b)))"
  using assms
proof (induction s c bs xs rule: sine_row.induct)
  case (2 s c b bs xs)
  then obtain x zs where xs: "xs = x # zs" by (auto split: list.splits)
  have ok: "cut_off x (s * fst b + c * snd b)" "sine_row s c bs zs" using 2(2) unfolding xs by (auto split: if_splits)
  note IH = 2(1) [OF xs ok]
  have "cut_off ((x # zs) ! k) (s * fst ((b # bs) ! k) + c * snd ((b # bs) ! k))" if "k < length (b # bs)" for k
    using that IH ok(1) by (cases k) simp_all
  then show ?case using IH unfolding xs by simp
qed simp

lemma sine_rows_nth:
  assumes "sine_rows as bs xss" "a < length as" "b < length bs"
  shows "cut_off (concat xss ! (a * length bs + b)) (snd (as ! a) * fst (bs ! b) + fst (as ! a) * snd (bs ! b))"
  using assms(1,2)
proof (induction as arbitrary: a xss)
  case (Cons z as)
  then obtain xs yss where ys: "xss = xs # yss" "sine_row (snd z) (fst z) bs xs" "sine_rows as bs yss"
    by (auto split: list.splits if_splits)
  note row = sine_row_nth [OF ys(2)]
  show ?case
  proof (cases a)
    case 0
    then show ?thesis using row assms(3) by (simp add: ys(1) nth_append)
  next
    case (Suc k)
    have "concat xss ! (a * length bs + b) = concat yss ! (k * length bs + b)" using row Suc by (simp add: ys(1) nth_append add.assoc)
    moreover have "k < length as" using Cons.prems(2) Suc by simp
    ultimately show ?thesis using Cons.IH [OF ys(3)] Suc by simp
  qed
qed simp

lemma table_sines: "sine_rows coarse_points fine_points kSinTable1024_rows"
  unfolding kSinTable1024_rows_def coarse_points_def fine_points_def by code_simp

lemma cut_off_real:
  assumes "cut_off x p"
  shows "\<bar>32767 * (real_of_int p / scale28 / scale28) - real_of_int x\<bar> \<le> 1"
    "\<bar>real_of_int x\<bar> \<le> 32767 * \<bar>real_of_int p / scale28 / scale28\<bar> + 1 / 100"
proof -
  define P where "P = real_of_int p / scale28 / scale28"
  define d where "d = 32767 * p - x * scale56"
  have P: "real_of_int d = (32767 * P - real_of_int x) * scale56" by (simp add: d_def P_def field_simps)
  have T: "real_of_int d \<le> real_of_int 720575940379279 \<Longrightarrow> 32767 * P - real_of_int x \<le> 1 / 100"
    "real_of_int (- 720575940379279) \<le> real_of_int d \<Longrightarrow> - (1 / 100) \<le> 32767 * P - real_of_int x"
    "real_of_int d \<le> real_of_int scale56 \<Longrightarrow> 32767 * P - real_of_int x \<le> 1"
    "real_of_int (- scale56) \<le> real_of_int d \<Longrightarrow> - 1 \<le> 32767 * P - real_of_int x"
    unfolding P by simp_all
  have "(0 \<le> p \<and> 0 \<le> x \<and> - 720575940379279 \<le> d \<and> d \<le> scale56) \<or> (p < 0 \<and> x \<le> 0 \<and> - scale56 \<le> d \<and> d \<le> 720575940379279)"
    using assms unfolding cut_off_def d_def [symmetric] by (auto split: if_splits)
  then have "\<bar>32767 * P - real_of_int x\<bar> \<le> 1 \<and> \<bar>real_of_int x\<bar> \<le> 32767 * \<bar>P\<bar> + 1 / 100"
  proof (elim disjE)
    assume c: "0 \<le> p \<and> 0 \<le> x \<and> - 720575940379279 \<le> d \<and> d \<le> scale56"
    then have "0 \<le> P" "0 \<le> real_of_int x" by (simp_all add: P_def)
    moreover have "- (1 / 100) \<le> 32767 * P - real_of_int x" "32767 * P - real_of_int x \<le> 1"
      using c by (blast intro: T(2,3) [unfolded of_int_le_iff])+
    ultimately show "\<bar>32767 * P - real_of_int x\<bar> \<le> 1 \<and> \<bar>real_of_int x\<bar> \<le> 32767 * \<bar>P\<bar> + 1 / 100" by (intro conjI; linarith)
  next
    assume c: "p < 0 \<and> x \<le> 0 \<and> - scale56 \<le> d \<and> d \<le> 720575940379279"
    then have "P \<le> 0" "real_of_int x \<le> 0" by (simp_all add: P_def)
    moreover have "- 1 \<le> 32767 * P - real_of_int x" "32767 * P - real_of_int x \<le> 1 / 100"
      using c by (blast intro: T(1,4) [unfolded of_int_le_iff])+
    ultimately show "\<bar>32767 * P - real_of_int x\<bar> \<le> 1 \<and> \<bar>real_of_int x\<bar> \<le> 32767 * \<bar>P\<bar> + 1 / 100" by (intro conjI; linarith)
  qed
  then show "\<bar>32767 * (real_of_int p / scale28 / scale28) - real_of_int x\<bar> \<le> 1"
    "\<bar>real_of_int x\<bar> \<le> 32767 * \<bar>real_of_int p / scale28 / scale28\<bar> + 1 / 100"
    unfolding P_def by simp_all
qed

lemma abs_chain:
  fixes x b c :: real
  assumes "\<bar>b - c\<bar> \<le> 308 / 268435456" "\<bar>c\<bar> \<le> 1"
    and "\<bar>32767 * b - x\<bar> \<le> 1" "\<bar>x\<bar> \<le> 32767 * \<bar>b\<bar> + 1 / 100"
  shows "\<bar>x - 32768 * c\<bar> \<le> 41 / 20" "\<bar>x\<bar> \<le> 32767 * \<bar>c\<bar> + 1 / 20"
  using assms by linarith+

lemma table_close:
  assumes "i < 768"
  shows "\<bar>real_of_int (kSinTable1024 ! i) - 32768 * sin (real i * (pi / 512))\<bar> \<le> 41 / 20"
    "\<bar>real_of_int (kSinTable1024 ! i)\<bar> \<le> 32767 * \<bar>sin (real i * (pi / 512))\<bar> + 1 / 20"
proof -
  define a where "a = i div 32"
  define b where "b = i mod 32"
  have ab: "a < 24" "b < 32" "i = a * 32 + b" using assms by (auto simp: a_def b_def)
  define A where "A = point28 (coarse_points ! a)"
  define B where "B = point28 (fine_points ! b)"
  have A: "cmod (A - cis (real a * (pi / 16))) \<le> 92 / scale28" using coarse_points(2) [OF ab(1)] ab(1) by (simp add: A_def)
  have B: "cmod (B - cis (real b * (pi / 512))) \<le> 124 / scale28" using fine_points(2) [OF ab(2)] ab(2) by (simp add: B_def)
  have "cmod B \<le> 2" using norm_triangle_ineq [of "B - cis (real b * (pi / 512))" "cis (real b * (pi / 512))"] B by simp
  then have "cmod (A - cis (real a * (pi / 16))) * cmod B \<le> 92 / scale28 * 2" using A by (intro mult_mono) simp_all
  moreover have "A * B - cis (real i * (pi / 512)) =
      (A - cis (real a * (pi / 16))) * B + cis (real a * (pi / 16)) * (B - cis (real b * (pi / 512)))"
  proof -
    have "real i * (pi / 512) = real a * (pi / 16) + real b * (pi / 512)" unfolding ab(3) by (simp add: field_simps)
    then have "cis (real i * (pi / 512)) = cis (real a * (pi / 16)) * cis (real b * (pi / 512))" unfolding cis_mult by (simp only:)
    then show ?thesis by (simp add: algebra_simps)
  qed
  ultimately have AB: "cmod (A * B - cis (real i * (pi / 512))) \<le> 308 / scale28"
    using norm_triangle_ineq [of "(A - cis (real a * (pi / 16))) * B" "cis (real a * (pi / 16)) * (B - cis (real b * (pi / 512)))"] B
    by (simp add: norm_mult)
  define p where "p = snd (coarse_points ! a) * fst (fine_points ! b) + fst (coarse_points ! a) * snd (fine_points ! b)"
  have "Im (A * B) = real_of_int p / scale28 / scale28" by (simp add: A_def B_def point28_def p_def add_divide_distrib)
  then have "real_of_int p / scale28 / scale28 - sin (real i * (pi / 512)) = Im (A * B - cis (real i * (pi / 512)))"
    by (simp only: minus_complex.sel cis.sel)
  then have p: "\<bar>real_of_int p / scale28 / scale28 - sin (real i * (pi / 512))\<bar> \<le> 308 / scale28"
    using abs_Im_le_cmod [of "A * B - cis (real i * (pi / 512))"] AB by (simp only:)
  have "cut_off (kSinTable1024 ! i) p"
    using sine_rows_nth [OF table_sines, folded kSinTable1024_def, of a b] ab by (simp add: p_def coarse_points(1) fine_points(1))
  note c = cut_off_real [OF this]
  have "308 / scale28 \<le> 308 / (268435456 :: real)" by simp
  from abs_chain [OF order_trans [OF p this] _ c]
  show "\<bar>real_of_int (kSinTable1024 ! i) - 32768 * sin (real i * (pi / 512))\<bar> \<le> 41 / 20"
    "\<bar>real_of_int (kSinTable1024 ! i)\<bar> \<le> 32767 * \<bar>sin (real i * (pi / 512))\<bar> + 1 / 20"
    by simp_all
qed

text \<open>A twiddle factor as the transforms read it, and the bound that keeps their products in range.\<close>

definition twiddle16 :: "nat \<Rightarrow> complex" where
  "twiddle16 j = Complex (real_of_int (kSinTable1024 ! (j + 256)) / 32768) (real_of_int (kSinTable1024 ! j) / 32768)"

lemma sin_quarter: "sin (real (j + 256) * (pi / 512)) = cos (real j * (pi / 512))"
proof -
  have "real (j + 256) * (pi / 512) = real j * (pi / 512) + pi / 2" by (simp add: field_simps)
  then show ?thesis by (simp only: sin_add sin_pi_half cos_pi_half)
qed

lemma twiddle_close:
  assumes "j < 512"
  shows "cmod (twiddle16 j - cis (real j * (pi / 512))) \<le> 3 / 32768"
proof -
  have "\<bar>Re (twiddle16 j - cis (real j * (pi / 512)))\<bar> \<le> 41 / 20 / 32768"
    using table_close(1) [of "j + 256", unfolded sin_quarter] assms by (simp add: twiddle16_def abs_le_iff field_simps)
  moreover have "\<bar>Im (twiddle16 j - cis (real j * (pi / 512)))\<bar> \<le> 41 / 20 / 32768"
    using table_close(1) [of j] assms by (simp add: twiddle16_def abs_le_iff field_simps)
  ultimately show ?thesis by (rule cmod_parts) (simp_all add: power2_eq_square)
qed

text \<open>A factor has at most modulus 1, and its parts add up to at most \<open>46339 / 32768\<close>.\<close>

lemma twiddle_norm:
  assumes "j < 512"
  shows "cmod (twiddle16 j) \<le> 1"
proof -
  define x where "x = real j * (pi / 512)"
  define z where "z = Complex (32767 * \<bar>cos x\<bar> + 1 / 20) (32767 * \<bar>sin x\<bar> + 1 / 20)"
  have c: "\<bar>real_of_int (kSinTable1024 ! (j + 256))\<bar> \<le> Re z" "\<bar>real_of_int (kSinTable1024 ! j)\<bar> \<le> Im z"
    using table_close(2) [of "j + 256", unfolded sin_quarter] table_close(2) [of j] assms by (simp_all add: x_def z_def)
  have sq: "(real_of_int (kSinTable1024 ! (j + 256)))\<^sup>2 \<le> (Re z)\<^sup>2" "(real_of_int (kSinTable1024 ! j))\<^sup>2 \<le> (Im z)\<^sup>2"
    using power2_le_iff_abs_le [OF order_trans [OF abs_ge_zero c(1)]] power2_le_iff_abs_le [OF order_trans [OF abs_ge_zero c(2)]] c
    by simp_all
  have "z = complex_of_real 32767 * Complex \<bar>cos x\<bar> \<bar>sin x\<bar> + Complex (1 / 20) (1 / 20)" by (simp add: z_def complex_eq_iff)
  then have "cmod z \<le> cmod (complex_of_real 32767 * Complex \<bar>cos x\<bar> \<bar>sin x\<bar>) + cmod (Complex (1 / 20) (1 / 20))"
    by (simp only: norm_triangle_ineq)
  moreover have "cmod (Complex \<bar>cos x\<bar> \<bar>sin x\<bar>) = 1" by (simp add: cmod_def)
  moreover have "cmod (Complex (1 / 20) (1 / 20)) \<le> 1" by (rule cmod_parts [where e = "1 / 20"]) (simp_all add: power2_eq_square)
  ultimately have "cmod z \<le> 32768" by (simp add: norm_mult)
  then have "(cmod z)\<^sup>2 \<le> 32768\<^sup>2" by (intro power_mono) simp_all
  then have "(cmod (twiddle16 j))\<^sup>2 \<le> 1\<^sup>2" using sq unfolding cmod_power2 by (simp add: twiddle16_def power_divide field_simps)
  then show ?thesis by (rule power2_le_imp_le) simp
qed

lemma twiddle_parts:
  assumes "j < 512"
  shows "\<bar>kSinTable1024 ! (j + 256)\<bar> + \<bar>kSinTable1024 ! j\<bar> \<le> 46339" "\<bar>kSinTable1024 ! j\<bar> \<le> 32767"
proof -
  define x where "x = real j * (pi / 512)"
  have c: "\<bar>real_of_int (kSinTable1024 ! (j + 256))\<bar> \<le> 32767 * \<bar>cos x\<bar> + 1 / 20" "\<bar>real_of_int (kSinTable1024 ! j)\<bar> \<le> 32767 * \<bar>sin x\<bar> + 1 / 20"
    using table_close(2) [of "j + 256", unfolded sin_quarter] table_close(2) [of j] assms by (simp_all add: x_def)
  have "(\<bar>cos x\<bar> + \<bar>sin x\<bar>)\<^sup>2 \<le> 2"
  proof -
    have "(\<bar>cos x\<bar> + \<bar>sin x\<bar>)\<^sup>2 + (\<bar>cos x\<bar> - \<bar>sin x\<bar>)\<^sup>2 = 2 * ((sin x)\<^sup>2 + (cos x)\<^sup>2)"
      by (simp add: power2_sum power2_diff del: sin_cos_squared_add sin_cos_squared_add2)
    moreover have "p \<le> 2" if "p + q\<^sup>2 = 2 * r" "r = 1" for p q r :: real using that zero_le_power2 [of q] by linarith
    ultimately show ?thesis using sin_cos_squared_add [of x] by blast
  qed
  also have "2 \<le> (14142137 / 10000000 :: real)\<^sup>2" by (simp add: power2_eq_square)
  finally have "\<bar>cos x\<bar> + \<bar>sin x\<bar> \<le> 14142137 / 10000000" by (rule power2_le_imp_le) simp
  then have "real_of_int (\<bar>kSinTable1024 ! (j + 256)\<bar> + \<bar>kSinTable1024 ! j\<bar>) < real_of_int 46340" using c by simp
  then show "\<bar>kSinTable1024 ! (j + 256)\<bar> + \<bar>kSinTable1024 ! j\<bar> \<le> 46339" by (simp only: of_int_less_iff)
  have "\<bar>sin x\<bar> \<le> 1" by simp
  then have "\<bar>real_of_int (kSinTable1024 ! j)\<bar> < 32768" using c(2) by linarith
  then have "real_of_int \<bar>kSinTable1024 ! j\<bar> < real_of_int 32768" by simp
  then show "\<bar>kSinTable1024 ! j\<bar> \<le> 32767" by (simp only: of_int_less_iff)
qed

lemma table_length: "length kSinTable1024 = 1024"
  by (simp add: kSinTable1024_def kSinTable1024_rows_def)

end
