(* ===== verification/SplFftBounds.thy ===== *)
theory SplFftBounds imports SplFftTwiddle begin

text \<open>
  The fixed-point butterflies of \<open>complex_fft.c\<close>. A reference butterfly without any wrap-around; the
  inverse transform's scaling, which keeps every stage in 16 bits, so that the code computes the
  reference; and for the forward transform the distance from the exact transform.
\<close>

section \<open>Butterflies without wrap-around\<close>

definition part_ref :: "int \<Rightarrow> nat \<Rightarrow> int \<Rightarrow> int \<Rightarrow> int" where
  "part_ref mode shift x p =
     (if mode = 0 then (x + p) div 2 ^ shift else (x * 16384 + p + 8192 * 2 ^ shift) div 2 ^ (shift + 14))"

definition turn_ref :: "int \<Rightarrow> int \<Rightarrow> int" where
  "turn_ref mode p = (if mode = 0 then p div 32768 else (p + 1) div 2)"

definition butterfly_ref :: "int \<Rightarrow> nat \<Rightarrow> int \<Rightarrow> int \<Rightarrow> complex16 \<Rightarrow> complex16 \<Rightarrow> complex16 \<times> complex16" where
  "butterfly_ref mode shift wr wi q f =
     (let tr = turn_ref mode (wr * fst f - wi * snd f); ti = turn_ref mode (wr * snd f + wi * fst f)
      in ((part_ref mode shift (fst q) tr, part_ref mode shift (snd q) ti),
          (part_ref mode shift (fst q) (- tr), part_ref mode shift (snd q) (- ti))))"

abbreviation is16p :: "complex16 \<Rightarrow> bool" where "is16p z \<equiv> is16 (fst z) \<and> is16 (snd z)"

lemma product_abs:
  fixes wr wi a b M :: int
  assumes "\<bar>wr\<bar> + \<bar>wi\<bar> \<le> 46339" "\<bar>a\<bar> \<le> M" "\<bar>b\<bar> \<le> M"
  shows "\<bar>wr * a\<bar> \<le> \<bar>wr\<bar> * M" "\<bar>wi * b\<bar> \<le> \<bar>wi\<bar> * M" "\<bar>wr * a\<bar> + \<bar>wi * b\<bar> \<le> 46339 * M"
proof -
  show 1: "\<bar>wr * a\<bar> \<le> \<bar>wr\<bar> * M" "\<bar>wi * b\<bar> \<le> \<bar>wi\<bar> * M" unfolding abs_mult using assms by (simp_all add: mult_left_mono)
  have "0 \<le> M" using assms(2) by linarith
  then have "(\<bar>wr\<bar> + \<bar>wi\<bar>) * M \<le> 46339 * M" using assms(1) by (rule mult_right_mono [rotated])
  then show "\<bar>wr * a\<bar> + \<bar>wi * b\<bar> \<le> 46339 * M" using 1 by (simp add: distrib_right)
qed

lemma sar_div: "sar x n = x div 2 ^ n"
  by (simp add: sar_def)

lemma s32_small: "\<bar>x\<bar> \<le> 2000000000 \<Longrightarrow> s32 x = x"
  by (intro s32_eqI) linarith+

text \<open>The code's butterflies are the reference as soon as the reference fits.\<close>

lemma fft_low_ref:
  assumes w: "\<bar>wr\<bar> + \<bar>wi\<bar> \<le> 46339" and z: "is16p q" "is16p f"
  shows "fft_low shift wr wi q f = (map_prod s16 s16 (fst (butterfly_ref 0 shift wr wi q f)), map_prod s16 s16 (snd (butterfly_ref 0 shift wr wi q f)))"
proof -
  have f: "\<bar>fst f\<bar> \<le> 32768" "\<bar>snd f\<bar> \<le> 32768" "\<bar>fst q\<bar> \<le> 32768" "\<bar>snd q\<bar> \<le> 32768" using z by (simp_all add: is16_def abs_le_iff)
  note p1 = product_abs(3) [OF w f(1,2)] and p2 = product_abs(3) [OF w f(2,1)]
  have id: "s32 (wr * fst f) = wr * fst f" "s32 (wi * snd f) = wi * snd f" "s32 (wr * snd f) = wr * snd f" "s32 (wi * fst f) = wi * fst f"
    "s32 (wr * fst f - wi * snd f) = wr * fst f - wi * snd f" "s32 (wr * snd f + wi * fst f) = wr * snd f + wi * fst f"
    using p1 p2 by (intro s32_small; linarith)+
  have "\<bar>(wr * fst f - wi * snd f) div 32768\<bar> \<le> 50000" "\<bar>(wr * snd f + wi * fst f) div 32768\<bar> \<le> 50000" using p1 p2 by linarith+
  then have id2: "s32 (fst q + (wr * fst f - wi * snd f) div 32768) = fst q + (wr * fst f - wi * snd f) div 32768"
    "s32 (snd q + (wr * snd f + wi * fst f) div 32768) = snd q + (wr * snd f + wi * fst f) div 32768"
    "s32 (fst q - (wr * fst f - wi * snd f) div 32768) = fst q - (wr * fst f - wi * snd f) div 32768"
    "s32 (snd q - (wr * snd f + wi * fst f) div 32768) = snd q - (wr * snd f + wi * fst f) div 32768"
    using f(3,4) by (intro s32_small; linarith)+
  show ?thesis by (simp add: fft_low_def fft_product_def id id2 butterfly_ref_def turn_ref_def part_ref_def sar_div Let_def)
qed

lemma fft_high_ref:
  assumes w: "\<bar>wr\<bar> + \<bar>wi\<bar> \<le> 46339" and z: "is16p q" "is16p f" and "mode \<noteq> 0" and shift: "shift \<le> 2"
  shows "fft_high (8192 * 2 ^ shift) shift wr wi q f =
    (map_prod s16 s16 (fst (butterfly_ref mode shift wr wi q f)), map_prod s16 s16 (snd (butterfly_ref mode shift wr wi q f)))"
proof -
  have f: "\<bar>fst f\<bar> \<le> 32768" "\<bar>snd f\<bar> \<le> 32768" "\<bar>fst q\<bar> \<le> 32768" "\<bar>snd q\<bar> \<le> 32768" using z by (simp_all add: is16_def abs_le_iff)
  note p1 = product_abs(3) [OF w f(1,2)] and p2 = product_abs(3) [OF w f(2,1)]
  have id: "s32 (wr * fst f) = wr * fst f" "s32 (wi * snd f) = wi * snd f" "s32 (wr * snd f) = wr * snd f" "s32 (wi * fst f) = wi * fst f"
    "s32 (wr * fst f - wi * snd f) = wr * fst f - wi * snd f" "s32 (wr * snd f + wi * fst f) = wr * snd f + wi * fst f"
    "s32 (wr * fst f - wi * snd f + 1) = wr * fst f - wi * snd f + 1" "s32 (wr * snd f + wi * fst f + 1) = wr * snd f + wi * fst f + 1"
    using p1 p2 by (intro s32_small; linarith)+
  define tr where "tr = (wr * fst f - wi * snd f + 1) div 2"
  define ti where "ti = (wr * snd f + wi * fst f + 1) div 2"
  have t: "\<bar>tr\<bar> \<le> 760000000" "\<bar>ti\<bar> \<le> 760000000" unfolding tr_def ti_def using p1 p2 by linarith+
  have sh: "s32 (fst q * 16384) = fst q * 16384" "s32 (snd q * 16384) = snd q * 16384"
    using f(3,4) by (intro s32_small; linarith)+
  have r: "0 \<le> 8192 * (2 :: int) ^ shift" "8192 * (2 :: int) ^ shift \<le> 32768"
    using power_increasing [OF shift, of "2 :: int"] by simp_all
  define rnd where "rnd = 8192 * (2 :: int) ^ shift"
  have id2: "s32 (fst q * 16384 + tr) = fst q * 16384 + tr" "s32 (snd q * 16384 + ti) = snd q * 16384 + ti"
    "s32 (fst q * 16384 - tr) = fst q * 16384 - tr" "s32 (snd q * 16384 - ti) = snd q * 16384 - ti"
    "s32 (fst q * 16384 + tr + rnd) = fst q * 16384 + tr + rnd" "s32 (snd q * 16384 + ti + rnd) = snd q * 16384 + ti + rnd"
    "s32 (fst q * 16384 - tr + rnd) = fst q * 16384 - tr + rnd" "s32 (snd q * 16384 - ti + rnd) = snd q * 16384 - ti + rnd"
    using f(3,4) t r [folded rnd_def] by (intro s32_small; linarith)+
  have tt: "(wr * fst f - wi * snd f + 1) div 2 = tr" "(wr * snd f + wi * fst f + 1) div 2 = ti" by (simp_all add: tr_def ti_def)
  show ?thesis using \<open>mode \<noteq> 0\<close>
    by (simp add: fft_high_def fft_product_def id tt shl32_def sh id2 butterfly_ref_def turn_ref_def part_ref_def sar_div rnd_def [symmetric] Let_def)
qed

definition fits :: "complex16 \<times> complex16 \<Rightarrow> bool" where
  "fits b \<longleftrightarrow> is16p (fst b) \<and> is16p (snd b)"

lemma butterfly_fits:
  assumes "\<bar>wr\<bar> + \<bar>wi\<bar> \<le> 46339" "is16p q" "is16p f" "shift \<le> 2" "fits (butterfly_ref mode shift wr wi q f)"
  shows "(if mode = 0 then fft_low shift else fft_high (8192 * 2 ^ shift) shift) wr wi q f = butterfly_ref mode shift wr wi q f"
proof -
  have id: "map_prod s16 s16 (fst (butterfly_ref mode shift wr wi q f)) = fst (butterfly_ref mode shift wr wi q f)"
    "map_prod s16 s16 (snd (butterfly_ref mode shift wr wi q f)) = snd (butterfly_ref mode shift wr wi q f)"
    using assms(5) by (simp_all add: fits_def map_prod_def split_beta)
  show ?thesis
  proof (cases "mode = 0")
    case True
    then show ?thesis using fft_low_ref [OF assms(1-3), of shift] id by simp
  next
    case False
    then show ?thesis using fft_high_ref [OF assms(1-3) False assms(4)] id by simp
  qed
qed


section \<open>Every stage of the inverse transform fits\<close>

lemma part_ref_fits:
  assumes "32768 * \<bar>x\<bar> + \<bar>p\<bar> \<le> 79107 * M" "shift = 0 \<and> M \<le> 13573 \<or> shift = 1 \<and> M \<le> 27146 \<or> shift = 2 \<and> M \<le> 32768" "mode \<noteq> 0"
  shows "is16 (part_ref mode shift x (turn_ref mode p))" "is16 (part_ref mode shift x (- turn_ref mode p))"
proof -
  have "- 32768 \<le> part_ref mode shift x (turn_ref mode p)" "part_ref mode shift x (turn_ref mode p) \<le> 32767"
    "- 32768 \<le> part_ref mode shift x (- turn_ref mode p)" "part_ref mode shift x (- turn_ref mode p) \<le> 32767"
    using assms by (elim disjE; simp add: part_ref_def turn_ref_def; linarith)+
  then show "is16 (part_ref mode shift x (turn_ref mode p))" "is16 (part_ref mode shift x (- turn_ref mode p))"
    by (simp_all add: is16_def)
qed

lemma butterfly_ref_fits:
  assumes w: "\<bar>wr\<bar> + \<bar>wi\<bar> \<le> 46339"
    and z: "\<bar>fst q\<bar> \<le> M" "\<bar>snd q\<bar> \<le> M" "\<bar>fst f\<bar> \<le> M" "\<bar>snd f\<bar> \<le> M"
    and M: "shift = 0 \<and> M \<le> 13573 \<or> shift = 1 \<and> M \<le> 27146 \<or> shift = 2 \<and> M \<le> 32768" and mode: "mode \<noteq> 0"
  shows "fits (butterfly_ref mode shift wr wi q f)"
proof -
  have "32768 * \<bar>fst q\<bar> + \<bar>wr * fst f - wi * snd f\<bar> \<le> 79107 * M" "32768 * \<bar>snd q\<bar> + \<bar>wr * snd f + wi * fst f\<bar> \<le> 79107 * M"
    using product_abs(3) [OF w z(3,4)] product_abs(3) [OF w z(4,3)] z(1,2) by linarith+
  from part_ref_fits [OF this(1) M mode] part_ref_fits [OF this(2) M mode]
  show ?thesis by (simp add: butterfly_ref_def fits_def Let_def)
qed

text \<open>A stage only depends on its butterfly at the factors and elements it meets.\<close>

lemma stage_block: "2 ^ S = 2 ^ (S - Suc s) * (2 * 2 ^ s :: nat)" if "s < S"
  using that by (simp flip: power_add power_Suc)

lemma stage_factor: "m * 2 ^ (9 - s) < (512 :: nat)" if "m < 2 ^ s" "s \<le> 9"
proof -
  have "m * 2 ^ (9 - s) < 2 ^ s * 2 ^ (9 - s)" using that(1) by simp
  also have "\<dots> = 512" using that(2) by (simp flip: power_add)
  finally show ?thesis .
qed

lemma stage_partner:
  fixes i l n q :: nat
  assumes "n = q * (2 * l)" "i < n" "i mod (2 * l) < l"
  shows "i + l < n"
proof -
  have d: "i = i div (2 * l) * (2 * l) + i mod (2 * l)" by (rule div_mult_mod_eq [symmetric])
  have "i div (2 * l) < q" using assms by (simp add: div_less_iff_less_mult)
  then have "Suc (i div (2 * l)) * (2 * l) \<le> q * (2 * l)" by (intro mult_le_mono) simp_all
  then show ?thesis using d assms(1,3) by simp
qed

text \<open>What relates the results of the butterflies of two stages relates their elements.\<close>

lemma stage_rel:
  assumes len: "length xs = 2 ^ S" "length ys = 2 ^ S" and s: "s < S" "S \<le> 10"
    and R: "\<And>j i k. j < 512 \<Longrightarrow> i < 2 ^ S \<Longrightarrow> k < 2 ^ S \<Longrightarrow>
      R (fst (bf j (xs ! i) (xs ! k))) (fst (bg j (ys ! i) (ys ! k))) \<and> R (snd (bf j (xs ! i) (xs ! k))) (snd (bg j (ys ! i) (ys ! k)))"
    and i: "i < 2 ^ S"
  shows "R (fft_stage bf (2 ^ S) (2 ^ s) (9 - s) xs ! i) (fft_stage bg (2 ^ S) (2 ^ s) (9 - s) ys ! i)"
proof -
  define l :: nat where "l = 2 ^ s"
  have l: "0 < l" by (simp add: l_def)
  have n: "2 ^ S = 2 ^ (S - Suc s) * (2 * l)" unfolding l_def by (rule stage_block [OF s(1)])
  have "s \<le> 9" using s by simp
  have f: "m * 2 ^ (9 - s) < 512" if "m < l" for m using stage_factor [OF _ \<open>s \<le> 9\<close>] that by (simp add: l_def)
  note e = stage_nth(2) [OF len(1) n l i, of bf "9 - s"] stage_nth(2) [OF len(2) n l i, of bg "9 - s"]
  show ?thesis
  proof (cases "i mod (2 * l) < l")
    case True
    then show ?thesis using R [OF f [OF True] i stage_partner [OF n i True]] e unfolding l_def by simp
  next
    case False
    have m: "i mod (2 * l) - l < l" using False l mod_less_divisor [of "2 * l" i] by linarith
    have "i - l < 2 ^ S" using i by simp
    then show ?thesis using R [OF f [OF m] _ i] e False unfolding l_def by simp
  qed
qed

lemma stage_length: "length xs = 2 ^ S \<Longrightarrow> s < S \<Longrightarrow> length (fft_stage bf (2 ^ S) (2 ^ s) k xs) = 2 ^ S"
  by (rule stage_nth(1) [OF _ stage_block]) simp_all

text \<open>
  The inverse transform with the reference butterflies, that is, without any wrap-around: the scaling of
  each stage keeps it in 16 bits.
\<close>

definition ifft_ref :: "complex16 list \<Rightarrow> nat \<Rightarrow> complex16 list \<times> int" where
  "ifft_ref frfi stages =
     foldl (\<lambda>(xs, scale) s.
         (fft_stage (\<lambda>j. butterfly_ref 1 (ifft_shift xs) (kSinTable1024 ! (j + 256)) (kSinTable1024 ! j))
            (2 ^ stages) (2 ^ s) (9 - s) xs, scale + int (ifft_shift xs)))
       (frfi, 0) [0..<stages]"

lemma ifft_shift_range:
  assumes "xs \<noteq> []" "\<forall>z\<in>set xs. is16p z"
  obtains M where "\<forall>z\<in>set xs. \<bar>fst z\<bar> \<le> M \<and> \<bar>snd z\<bar> \<le> M"
    "ifft_shift xs = 0 \<and> M \<le> 13573 \<or> ifft_shift xs = 1 \<and> M \<le> 27146 \<or> ifft_shift xs = 2 \<and> M \<le> 32768"
proof
  define ys where "ys = concat (map (\<lambda>z. [fst z, snd z]) xs)"
  have ys: "set ys = fst ` set xs \<union> snd ` set xs" by (auto simp: ys_def)
  define M where "M = Max (abs ` set ys)"
  have "ys \<noteq> []" using assms(1) by (cases xs) (simp_all add: ys_def)
  have "\<forall>y\<in>set ys. is16 y" using assms(2) by (auto simp: ys_def)
  then have m: "WebRtcSpl_MaxAbsValueW16C ys = min 32767 M" unfolding M_def using \<open>ys \<noteq> []\<close> \<open>\<forall>y\<in>set ys. is16 y\<close> by (intro MaxAbsValueW16C_Max) simp_all
  have "M \<in> abs ` set ys" unfolding M_def using \<open>ys \<noteq> []\<close> by (intro Max_in) simp_all
  then have "M \<le> 32768" using \<open>\<forall>y\<in>set ys. is16 y\<close> by (auto simp: is16_def)
  moreover have "ifft_shift xs = (if min 32767 M > 13573 then 1 else 0) + (if min 32767 M > 27146 then 1 else 0)"
    by (simp add: ifft_shift_def ys_def [symmetric] m)
  ultimately show "ifft_shift xs = 0 \<and> M \<le> 13573 \<or> ifft_shift xs = 1 \<and> M \<le> 27146 \<or> ifft_shift xs = 2 \<and> M \<le> 32768"
    by (simp add: min_def)
  show "\<forall>z\<in>set xs. \<bar>fst z\<bar> \<le> M \<and> \<bar>snd z\<bar> \<le> M" unfolding M_def ys by (auto intro!: Max_ge)
qed

lemma ifft_stage:
  assumes len: "length xs = 2 ^ S" and S: "s < S" "S \<le> 10" and xs: "\<forall>z\<in>set xs. is16p z" and mode: "mode \<noteq> 0"
  shows "fft_stage (\<lambda>j. fft_high (8192 * 2 ^ ifft_shift xs) (ifft_shift xs) (kSinTable1024 ! (j + 256)) (kSinTable1024 ! j))
      (2 ^ S) (2 ^ s) (9 - s) xs =
    fft_stage (\<lambda>j. butterfly_ref mode (ifft_shift xs) (kSinTable1024 ! (j + 256)) (kSinTable1024 ! j)) (2 ^ S) (2 ^ s) (9 - s) xs"
    (is "fft_stage ?f _ _ _ _ = fft_stage ?g _ _ _ _")
    "\<forall>z\<in>set (fft_stage (\<lambda>j. butterfly_ref mode (ifft_shift xs) (kSinTable1024 ! (j + 256)) (kSinTable1024 ! j)) (2 ^ S) (2 ^ s) (9 - s) xs). is16p z"
proof -
  have "xs \<noteq> []" using len by auto
  then obtain M where M: "\<forall>z\<in>set xs. \<bar>fst z\<bar> \<le> M \<and> \<bar>snd z\<bar> \<le> M"
    and sh: "ifft_shift xs = 0 \<and> M \<le> 13573 \<or> ifft_shift xs = 1 \<and> M \<le> 27146 \<or> ifft_shift xs = 2 \<and> M \<le> 32768"
    using ifft_shift_range [OF _ xs] by blast
  have le2: "ifft_shift xs \<le> 2" using sh by linarith
  have fit: "fits (?g j (xs ! i) (xs ! k))" and eq: "?f j (xs ! i) (xs ! k) = ?g j (xs ! i) (xs ! k)"
    if "j < 512" "i < 2 ^ S" "k < 2 ^ S" for j i k
  proof -
    have m: "xs ! i \<in> set xs" "xs ! k \<in> set xs" using that len by simp_all
    show fit: "fits (?g j (xs ! i) (xs ! k))"
      by (rule butterfly_ref_fits [OF twiddle_parts(1) [OF that(1)] _ _ _ _ sh mode]) (use M m in auto)
    then show "?f j (xs ! i) (xs ! k) = ?g j (xs ! i) (xs ! k)"
      using butterfly_fits [OF twiddle_parts(1) [OF that(1)] _ _ le2 fit] xs m mode by simp
  qed
  have el: "fft_stage ?f (2 ^ S) (2 ^ s) (9 - s) xs ! i = fft_stage ?g (2 ^ S) (2 ^ s) (9 - s) xs ! i" if "i < 2 ^ S" for i
    by (rule stage_rel [where R = "(=)", OF len len S _ that]) (simp add: eq)
  show "fft_stage ?f (2 ^ S) (2 ^ s) (9 - s) xs = fft_stage ?g (2 ^ S) (2 ^ s) (9 - s) xs"
    by (rule nth_equalityI) (simp_all add: stage_length [OF len S(1)] el)
  have "is16p (fft_stage ?g (2 ^ S) (2 ^ s) (9 - s) xs ! i)" if "i < 2 ^ S" for i
    by (rule stage_rel [where R = "\<lambda>x _. is16p x" and ys = xs, OF len len S _ that]) (use fit in \<open>auto simp: fits_def\<close>)
  then show "\<forall>z\<in>set (fft_stage ?g (2 ^ S) (2 ^ s) (9 - s) xs). is16p z"
    unfolding all_set_conv_all_nth by (simp add: stage_length [OF len S(1)])
qed


lemma ifft_fold:
  assumes "length xs = 2 ^ S" "S \<le> 10" "\<forall>z\<in>set xs. is16p z" "mode \<noteq> 0" "n \<le> S"
  defines "F \<equiv> \<lambda>(xs, scale) s. let shift = ifft_shift xs
      in (fft_stage (\<lambda>j. fft_high (8192 * 2 ^ shift) shift (kSinTable1024 ! (j + 256)) (kSinTable1024 ! j)) (2 ^ S) (2 ^ s) (9 - s) xs,
          scale + int shift)"
  defines "G \<equiv> \<lambda>(xs, scale) s.
      (fft_stage (\<lambda>j. butterfly_ref 1 (ifft_shift xs) (kSinTable1024 ! (j + 256)) (kSinTable1024 ! j)) (2 ^ S) (2 ^ s) (9 - s) xs,
       scale + int (ifft_shift xs))"
  shows "foldl F (xs, c) [0..<n] = foldl G (xs, c) [0..<n] \<and>
    length (fst (foldl G (xs, c) [0..<n])) = 2 ^ S \<and> (\<forall>z\<in>set (fst (foldl G (xs, c) [0..<n])). is16p z)"
  using \<open>n \<le> S\<close>
proof (induction n)
  case 0
  then show ?case using assms(1,3) by simp
next
  case (Suc n)
  obtain ys k where ys: "foldl G (xs, c) [0..<n] = (ys, k)" by (cases "foldl G (xs, c) [0..<n]") auto
  have IH: "foldl F (xs, c) [0..<n] = (ys, k)" "length ys = 2 ^ S" "\<forall>z\<in>set ys. is16p z" using Suc ys by simp_all
  have "n < S" using Suc.prems by simp
  note st = ifft_stage [OF IH(2) this assms(2) IH(3), of 1]
  have "F (ys, k) n = G (ys, k) n" using st(1) by (simp add: F_def G_def Let_def)
  moreover have "length (fst (G (ys, k) n)) = 2 ^ S" by (simp add: G_def stage_length [OF IH(2) \<open>n < S\<close>])
  moreover have "\<forall>z\<in>set (fst (G (ys, k) n)). is16p z" using st(2) by (simp add: G_def)
  ultimately show ?case using IH(1) ys by simp
qed

lemma ComplexIFFT_ref:
  assumes "length xs = 2 ^ S" "S \<le> 10" "\<forall>z\<in>set xs. is16p z" "mode \<noteq> 0"
  shows "WebRtcSpl_ComplexIFFT xs S mode = ifft_ref xs S" "length (fst (ifft_ref xs S)) = 2 ^ S" "\<forall>z\<in>set (fst (ifft_ref xs S)). is16p z"
proof -
  have "(2 :: nat) ^ S \<le> 2 ^ 10" using assms(2) by (rule power_increasing) simp
  then show "WebRtcSpl_ComplexIFFT xs S mode = ifft_ref xs S"
    using ifft_fold [OF assms order.refl, of 0] assms(4) by (simp add: WebRtcSpl_ComplexIFFT_def ifft_ref_def Let_def)
  show "length (fst (ifft_ref xs S)) = 2 ^ S" "\<forall>z\<in>set (fst (ifft_ref xs S)). is16p z"
    using ifft_fold [OF assms order.refl, of 0] by (simp_all add: ifft_ref_def Let_def)
qed

section \<open>The forward transform is close to the exact one\<close>

definition point16 :: "complex16 \<Rightarrow> complex" where
  "point16 z = Complex (real_of_int (fst z)) (real_of_int (snd z))"

text \<open>What a butterfly adds by rounding, and what a stage adds in all: the factors are off by \<open>3 / 32768\<close>.\<close>

definition rounding :: "int \<Rightarrow> real" where "rounding mode = (if mode = 0 then 3 / 2 else 3 / 4)"

definition stage_error :: "int \<Rightarrow> real" where "stage_error mode = rounding mode + 3 / 2"

lemma part_error:
  shows "\<bar>real_of_int (part_ref mode 1 x (turn_ref mode p)) - (real_of_int x + real_of_int p / 32768) / 2\<bar> \<le> (if mode = 0 then 1 else 32769 / 65536)"
    "\<bar>real_of_int (part_ref mode 1 x (- turn_ref mode p)) - (real_of_int x - real_of_int p / 32768) / 2\<bar> \<le> (if mode = 0 then 1 else 32769 / 65536)"
proof -
  have scaled: "\<bar>real_of_int v - (real_of_int x + real_of_int r / 32768) / 2\<bar> \<le> real_of_int e / 65536"
    if "- e \<le> 65536 * v - (32768 * x + r)" "65536 * v - (32768 * x + r) \<le> e" for v r e
  proof -
    have "real_of_int (- e) \<le> real_of_int (65536 * v - (32768 * x + r))" "real_of_int (65536 * v - (32768 * x + r)) \<le> real_of_int e"
      using that by (simp_all only: of_int_le_iff)
    then show ?thesis by (simp add: abs_le_iff field_simps)
  qed
  define e :: int where "e = (if mode = 0 then 65536 else 32769)"
  have "- e \<le> 65536 * part_ref mode 1 x (turn_ref mode p) - (32768 * x + p)" "65536 * part_ref mode 1 x (turn_ref mode p) - (32768 * x + p) \<le> e"
    "- e \<le> 65536 * part_ref mode 1 x (- turn_ref mode p) - (32768 * x + - p)" "65536 * part_ref mode 1 x (- turn_ref mode p) - (32768 * x + - p) \<le> e"
    by (cases "mode = 0"; simp add: part_ref_def turn_ref_def e_def; linarith)+
  from scaled [OF this(1,2)] scaled [OF this(3,4)]
  show "\<bar>real_of_int (part_ref mode 1 x (turn_ref mode p)) - (real_of_int x + real_of_int p / 32768) / 2\<bar> \<le> (if mode = 0 then 1 else 32769 / 65536)"
    "\<bar>real_of_int (part_ref mode 1 x (- turn_ref mode p)) - (real_of_int x - real_of_int p / 32768) / 2\<bar> \<le> (if mode = 0 then 1 else 32769 / 65536)"
    by (simp_all add: e_def split: if_splits)
qed

lemma butterfly_error:
  fixes j :: nat and mode :: int and q f :: complex16
  defines "b \<equiv> butterfly_ref mode 1 (kSinTable1024 ! (j + 256)) (- (kSinTable1024 ! j)) q f"
  shows "cmod (point16 (fst b) - (point16 q + cnj (twiddle16 j) * point16 f) / 2) \<le> rounding mode"
    "cmod (point16 (snd b) - (point16 q - cnj (twiddle16 j) * point16 f) / 2) \<le> rounding mode"
proof -
  define e :: real where "e = (if mode = 0 then 1 else 32769 / 65536)"
  define wr where "wr = kSinTable1024 ! (j + 256)"
  define wi where "wi = - (kSinTable1024 ! j)"
  have t: "cnj (twiddle16 j) * point16 f = Complex (real_of_int (wr * fst f - wi * snd f) / 32768) (real_of_int (wr * snd f + wi * fst f) / 32768)"
    by (simp add: twiddle16_def point16_def complex_eq_iff wr_def wi_def field_simps)
  have sq: "2 * e\<^sup>2 \<le> (rounding mode)\<^sup>2" "0 \<le> rounding mode" by (simp_all add: e_def rounding_def power2_eq_square)
  note re = part_error [of mode "fst q" "wr * fst f - wi * snd f", folded e_def]
  note im = part_error [of mode "snd q" "wr * snd f + wi * fst f", folded e_def]
  have b: "b = butterfly_ref mode 1 wr wi q f" by (simp add: b_def wr_def wi_def)
  show "cmod (point16 (fst b) - (point16 q + cnj (twiddle16 j) * point16 f) / 2) \<le> rounding mode"
    unfolding t b by (rule cmod_parts [OF _ _ sq]) (use re(1) im(1) in \<open>simp_all add: butterfly_ref_def Let_def point16_def\<close>)
  show "cmod (point16 (snd b) - (point16 q - cnj (twiddle16 j) * point16 f) / 2) \<le> rounding mode"
    unfolding t b by (rule cmod_parts [OF _ _ sq]) (use re(2) im(2) in \<open>simp_all add: butterfly_ref_def Let_def point16_def\<close>)
qed

lemma point16_fits:
  assumes "cmod (point16 z) < 32768"
  shows "is16p z"
proof -
  have "\<bar>real_of_int (fst z)\<bar> < 32768" "\<bar>real_of_int (snd z)\<bar> < 32768"
    using abs_Re_le_cmod [of "point16 z"] abs_Im_le_cmod [of "point16 z"] assms by (simp_all add: point16_def)
  then have "real_of_int \<bar>fst z\<bar> < real_of_int 32768" "real_of_int \<bar>snd z\<bar> < real_of_int 32768" by simp_all
  then have "\<bar>fst z\<bar> < 32768" "\<bar>snd z\<bar> < 32768" by (simp_all only: of_int_less_iff)
  then show ?thesis unfolding is16_def by linarith
qed

definition root1024 :: complex where "root1024 = cis (- (pi / 512))"

lemma root1024_power: "root1024 ^ j = cnj (cis (real j * (pi / 512)))"
  by (simp add: root1024_def DeMoivre cis_cnj)

lemma root1024_half: "root1024 ^ 512 = - 1"
  by (simp add: root1024_power)

text \<open>One butterfly against the exact one: \<open>c\<close> is what the stages before have scaled by.\<close>

lemma butterfly_step:
  fixes c M E :: real and j :: nat and mode :: int and q f :: complex16 and u v :: complex
  assumes j: "j < 512" and c: "0 < c" and M: "M + rounding mode < 32768"
    and x: "cmod (point16 q) \<le> M" "cmod (point16 f) \<le> M" "cmod (point16 q - u / c) \<le> E" "cmod (point16 f - v / c) \<le> E"
  defines "b \<equiv> (if mode = 0 then fft_low 1 else fft_high 16384 1) (kSinTable1024 ! (j + 256)) (s16 (- (kSinTable1024 ! j))) q f"
  shows "cmod (point16 (fst b)) \<le> M + rounding mode \<and> cmod (point16 (fst b) - fst (exact_butterfly root1024 j u v) / (2 * c)) \<le> E + stage_error mode"
    "cmod (point16 (snd b)) \<le> M + rounding mode \<and> cmod (point16 (snd b) - snd (exact_butterfly root1024 j u v) / (2 * c)) \<le> E + stage_error mode"
proof -
  define T where "T = cnj (twiddle16 j)"
  define r where "r = butterfly_ref mode 1 (kSinTable1024 ! (j + 256)) (- (kSinTable1024 ! j)) q f"
  have rd: "0 \<le> rounding mode" "M < 32768" using M by (simp_all add: rounding_def split: if_splits)
  have T: "cmod T \<le> 1" "cmod (T - root1024 ^ j) \<le> 3 / 32768"
    using twiddle_norm [OF j] twiddle_close [OF j] unfolding T_def root1024_power by (simp_all flip: complex_cnj_diff)
  have Tf: "cmod (T * point16 f) \<le> M" using mult_mono [OF T(1) x(2)] norm_ge_zero [of "point16 f"] by (simp add: norm_mult)
  have rot: "cmod (T * point16 f - root1024 ^ j * (v / c)) \<le> 3 + E"
  proof -
    have "T * point16 f - root1024 ^ j * (v / c) = (T - root1024 ^ j) * point16 f + root1024 ^ j * (point16 f - v / c)" by (simp add: algebra_simps)
    moreover have "cmod ((T - root1024 ^ j) * point16 f) \<le> 3 / 32768 * 32768"
      unfolding norm_mult using T(2) x(2) rd by (intro mult_mono) simp_all
    moreover have "cmod (root1024 ^ j * (point16 f - v / c)) \<le> E" using x(4) by (simp add: norm_mult root1024_power)
    ultimately show ?thesis using norm_triangle_ineq [of "(T - root1024 ^ j) * point16 f" "root1024 ^ j * (point16 f - v / c)"] by simp
  qed
  note err = butterfly_error [where mode = mode and j = j and q = q and f = f, folded r_def T_def]
  have half: "cmod (z / 2) \<le> e / 2 \<longleftrightarrow> cmod z \<le> e" for z e by (simp add: norm_divide)
  have close: "cmod y \<le> M + rounding mode \<and> cmod (y - (u + s * (root1024 ^ j * v)) / (2 * c)) \<le> E + stage_error mode"
    if y: "cmod (y - (point16 q + s * (T * point16 f)) / 2) \<le> rounding mode" and s: "cmod s = 1" for y s
  proof
    have "cmod (point16 q + s * (T * point16 f)) \<le> M + M"
      using norm_triangle_ineq [of "point16 q" "s * (T * point16 f)"] x(1) Tf s by (simp add: norm_mult)
    then have "cmod ((point16 q + s * (T * point16 f)) / 2) \<le> M" by (simp add: norm_divide)
    then show "cmod y \<le> M + rounding mode"
      using norm_triangle_ineq [of "y - (point16 q + s * (T * point16 f)) / 2" "(point16 q + s * (T * point16 f)) / 2"] y by simp
    define d where "d = (point16 q - u / c) + s * (T * point16 f - root1024 ^ j * (v / c))"
    have "cmod d \<le> E + (3 + E)"
      unfolding d_def using norm_triangle_ineq [of "point16 q - u / c" "s * (T * point16 f - root1024 ^ j * (v / c))"] x(3) rot s by (simp add: norm_mult)
    then have "cmod (d / 2) \<le> E + 3 / 2" by (simp add: norm_divide)
    moreover have e: "y - (u + s * (root1024 ^ j * v)) / (2 * c) = (y - (point16 q + s * (T * point16 f)) / 2) + d / 2"
      using c by (simp add: d_def field_simps)
    ultimately show "cmod (y - (u + s * (root1024 ^ j * v)) / (2 * c)) \<le> E + stage_error mode"
      unfolding e using norm_triangle_ineq [of "y - (point16 q + s * (T * point16 f)) / 2" "d / 2"] y unfolding stage_error_def by linarith
  qed
  have up: "cmod (point16 (fst r)) \<le> M + rounding mode \<and> cmod (point16 (fst r) - fst (exact_butterfly root1024 j u v) / (2 * c)) \<le> E + stage_error mode"
    using close [of "point16 (fst r)" 1] err(1) by (simp add: exact_butterfly_def)
  have down: "cmod (point16 (snd r)) \<le> M + rounding mode \<and> cmod (point16 (snd r) - snd (exact_butterfly root1024 j u v) / (2 * c)) \<le> E + stage_error mode"
    using close [of "point16 (snd r)" "- 1"] err(2) by (simp add: exact_butterfly_def)
  have "is16p q" "is16p f" using x(1,2) rd by (intro point16_fits; linarith)+
  moreover have "fits r" unfolding fits_def using up down M by (intro conjI point16_fits [THEN conjunct1] point16_fits [THEN conjunct2]; linarith)
  moreover have "s16 (- (kSinTable1024 ! j)) = - (kSinTable1024 ! j)" using twiddle_parts(2) [OF j] by (intro s16_eqI) linarith+
  moreover have "\<bar>kSinTable1024 ! (j + 256)\<bar> + \<bar>- (kSinTable1024 ! j)\<bar> \<le> 46339" using twiddle_parts(1) [OF j] by simp
  ultimately have "b = r" using butterfly_fits [of "kSinTable1024 ! (j + 256)" "- (kSinTable1024 ! j)" q f 1 mode]
    unfolding b_def r_def by (auto split: if_splits)
  then show "cmod (point16 (fst b)) \<le> M + rounding mode \<and> cmod (point16 (fst b) - fst (exact_butterfly root1024 j u v) / (2 * c)) \<le> E + stage_error mode"
    "cmod (point16 (snd b)) \<le> M + rounding mode \<and> cmod (point16 (snd b) - snd (exact_butterfly root1024 j u v) / (2 * c)) \<le> E + stage_error mode"
    using up down by simp_all
qed

lemma fft_fold:
  fixes mode :: int
  assumes len: "length xs = 2 ^ S" "length zs = 2 ^ S" and S: "S \<le> 10"
    and M: "M + rounding mode * real S < 32768"
    and start: "\<And>i. i < 2 ^ S \<Longrightarrow> cmod (point16 (xs ! i)) \<le> M \<and> zs ! i = point16 (xs ! i)"
    and n: "n \<le> S"
  defines "bf \<equiv> \<lambda>j. (if mode = 0 then fft_low 1 else fft_high 16384 1) (kSinTable1024 ! (j + 256)) (s16 (- (kSinTable1024 ! j)))"
  defines "X \<equiv> \<lambda>n. foldl (\<lambda>xs s. fft_stage bf (2 ^ S) (2 ^ s) (9 - s) xs) xs [0..<n]"
  defines "Z \<equiv> \<lambda>n. foldl (\<lambda>xs s. fft_stage (exact_butterfly root1024) (2 ^ S) (2 ^ s) (9 - s) xs) zs [0..<n]"
  shows "length (X n) = 2 ^ S \<and> length (Z n) = 2 ^ S \<and>
    (\<forall>i<2 ^ S. cmod (point16 (X n ! i)) \<le> M + rounding mode * real n \<and>
      cmod (point16 (X n ! i) - Z n ! i / 2 ^ n) \<le> stage_error mode * real n)"
  using n
proof (induction n)
  case 0
  then show ?case using len start by (simp add: X_def Z_def)
next
  case (Suc n)
  have IH: "length (X n) = 2 ^ S" "length (Z n) = 2 ^ S"
    "\<And>i. i < 2 ^ S \<Longrightarrow> cmod (point16 (X n ! i)) \<le> M + rounding mode * real n \<and>
      cmod (point16 (X n ! i) - Z n ! i / 2 ^ n) \<le> stage_error mode * real n"
    using Suc by simp_all
  have nS: "n < S" using Suc.prems by simp
  have step: "X (Suc n) = fft_stage bf (2 ^ S) (2 ^ n) (9 - n) (X n)"
    "Z (Suc n) = fft_stage (exact_butterfly root1024) (2 ^ S) (2 ^ n) (9 - n) (Z n)"
    by (simp_all add: X_def Z_def)
  have rd: "0 \<le> rounding mode" by (simp add: rounding_def)
  have "rounding mode * real (Suc n) \<le> rounding mode * real S" using Suc.prems rd by (intro mult_left_mono) simp_all
  then have M': "M + rounding mode * real n + rounding mode < 32768" using M by (simp add: distrib_left)
  have succ: "M + rounding mode * real n + rounding mode = M + rounding mode * real (Suc n)"
    "stage_error mode * real n + stage_error mode = stage_error mode * real (Suc n)" "complex_of_real (2 * 2 ^ n) = 2 ^ Suc n"
    by (simp_all add: distrib_left)
  have "cmod (point16 (X (Suc n) ! i)) \<le> M + rounding mode * real (Suc n) \<and>
      cmod (point16 (X (Suc n) ! i) - Z (Suc n) ! i / 2 ^ Suc n) \<le> stage_error mode * real (Suc n)" if i: "i < 2 ^ S" for i
    unfolding step
  proof (rule stage_rel [where R = "\<lambda>x z. cmod (point16 x) \<le> M + rounding mode * real (Suc n) \<and>
      cmod (point16 x - z / 2 ^ Suc n) \<le> stage_error mode * real (Suc n)", OF IH(1,2) nS S _ i])
    fix j i k :: nat
    assume jik: "j < 512" "i < 2 ^ S" "k < 2 ^ S"
    have ik: "cmod (point16 (X n ! i)) \<le> M + rounding mode * real n" "cmod (point16 (X n ! k)) \<le> M + rounding mode * real n"
      "cmod (point16 (X n ! i) - Z n ! i / complex_of_real (2 ^ n)) \<le> stage_error mode * real n"
      "cmod (point16 (X n ! k) - Z n ! k / complex_of_real (2 ^ n)) \<le> stage_error mode * real n"
      using IH(3) [OF jik(2)] IH(3) [OF jik(3)] by simp_all
    show "(cmod (point16 (fst (bf j (X n ! i) (X n ! k)))) \<le> M + rounding mode * real (Suc n) \<and>
        cmod (point16 (fst (bf j (X n ! i) (X n ! k))) - fst (exact_butterfly root1024 j (Z n ! i) (Z n ! k)) / 2 ^ Suc n) \<le> stage_error mode * real (Suc n)) \<and>
      cmod (point16 (snd (bf j (X n ! i) (X n ! k)))) \<le> M + rounding mode * real (Suc n) \<and>
        cmod (point16 (snd (bf j (X n ! i) (X n ! k))) - snd (exact_butterfly root1024 j (Z n ! i) (Z n ! k)) / 2 ^ Suc n) \<le> stage_error mode * real (Suc n)"
      using butterfly_step [OF jik(1) _ M' ik] unfolding bf_def succ by simp
  qed
  then show ?case unfolding step by (simp add: stage_length IH(1,2) nS)
qed

lemma ComplexFFT_dft:
  fixes mode :: int
  assumes len: "length xs = 2 ^ S" and S: "S \<le> 10" and small: "\<forall>z\<in>set xs. cmod (point16 z) \<le> 32752" and k: "k < 2 ^ S"
  defines "r \<equiv> WebRtcSpl_ComplexFFT (WebRtcSpl_ComplexBitReverse xs S) S mode"
  shows "snd r = 0" "length (fst r) = 2 ^ S"
    "cmod (point16 (fst r ! k) - (\<Sum>i<2 ^ S. point16 (xs ! i) * cis (- (2 * pi * real i * real k / 2 ^ S))) / 2 ^ S) \<le> stage_error mode * real S"
proof -
  have "(2 :: nat) ^ S \<le> 2 ^ 10" using S by (rule power_increasing) simp
  then have r: "r = (fft_stages (\<lambda>j. (if mode = 0 then fft_low 1 else fft_high 16384 1) (kSinTable1024 ! (j + 256)) (s16 (- (kSinTable1024 ! j))))
      S (WebRtcSpl_ComplexBitReverse xs S), 0)"
    by (simp add: r_def WebRtcSpl_ComplexFFT_def)
  define zs where "zs = map point16 xs"
  have zs: "length zs = 2 ^ S" by (simp add: zs_def len)
  have rev: "WebRtcSpl_ComplexBitReverse xs S = reversed S xs" "WebRtcSpl_ComplexBitReverse zs S = reversed S zs"
    by (rule ComplexBitReverse_reversed [OF len], rule ComplexBitReverse_reversed [OF zs])
  have lr: "length (reversed S xs) = 2 ^ S" "length (reversed S zs) = 2 ^ S" by (simp_all add: reversed_def)
  have "rounding mode * real S \<le> 3 / 2 * 10" using S by (intro mult_mono) (simp_all add: rounding_def)
  then have M: "32752 + rounding mode * real S < 32768" by simp
  have start: "cmod (point16 (reversed S xs ! i)) \<le> 32752 \<and> reversed S zs ! i = point16 (reversed S xs ! i)" if "i < 2 ^ S" for i
    using small that bitrev_less [of S i] len by (simp add: reversed_def zs_def)
  note f = fft_fold [OF lr S M start order.refl, folded fft_stages_def rev r]
  show "snd r = 0" by (simp add: r)
  show "length (fst r) = 2 ^ S" using f by (simp add: r)
  have angle: "root1024 ^ (i * k * 2 ^ (10 - S)) = cis (- (2 * pi * real i * real k / 2 ^ S))" for i
  proof -
    have "(2 :: real) ^ (10 - S) * 2 ^ S = 1024" using S by (simp flip: power_add)
    then have "real (i * k * 2 ^ (10 - S)) * (pi / 512) = 2 * pi * real i * real k / 2 ^ S" by (simp add: field_simps)
    then show ?thesis unfolding root1024_power cis_cnj by (simp only:)
  qed
  have "fft_stages (exact_butterfly root1024) S (reversed S zs) ! k = (\<Sum>i<2 ^ S. point16 (xs ! i) * cis (- (2 * pi * real i * real k / 2 ^ S)))"
    using fft_network_dft [OF root1024_half S zs k] unfolding rev(2) angle by (simp add: zs_def len)
  moreover have "cmod (point16 (fst r ! k) - fft_stages (exact_butterfly root1024) S (reversed S zs) ! k / 2 ^ S) \<le> stage_error mode * real S"
    using f k by (simp add: r rev split del: if_split)
  ultimately show "cmod (point16 (fst r ! k) - (\<Sum>i<2 ^ S. point16 (xs ! i) * cis (- (2 * pi * real i * real k / 2 ^ S))) / 2 ^ S) \<le> stage_error mode * real S"
    by (simp only:)
qed

end
