(* ===== verification/SplFftTheorems.thy ===== *)
theory SplFftTheorems imports SplFftBounds begin

text \<open>
  What the fixed-point Fourier transforms compute: the bit reversal, the real forward transform against
  the discrete Fourier transform, and the inverse transform without wrap-around. An example shows that
  the forward transform does wrap for complex input of full scale.
\<close>

text \<open>C11: The swaps of \<open>WebRtcSpl_ComplexBitReverse\<close>, whether read from the tables for 128 and 256
  elements or found by the loop that counts in reversed binary, put every element at the bit reversal of
  its index; doing it twice changes nothing.\<close>

theorem bit_reversal:
  assumes "length xs = 2 ^ stages" "i < 2 ^ stages"
  shows "length (WebRtcSpl_ComplexBitReverse xs stages) = 2 ^ stages \<and>
    WebRtcSpl_ComplexBitReverse xs stages ! i = xs ! bitrev stages i \<and>
    WebRtcSpl_ComplexBitReverse (WebRtcSpl_ComplexBitReverse xs stages) stages = xs"
proof -
  have len: "length (WebRtcSpl_ComplexBitReverse xs stages) = 2 ^ stages"
    unfolding ComplexBitReverse_reversed [OF assms(1)] by (simp add: reversed_def)
  have el: "WebRtcSpl_ComplexBitReverse ys stages ! k = ys ! bitrev stages k" if "length ys = 2 ^ stages" "k < 2 ^ stages" for ys :: "'a list" and k
    unfolding ComplexBitReverse_reversed [OF that(1)] using that(2) by (simp add: reversed_def)
  have len2: "length (WebRtcSpl_ComplexBitReverse (WebRtcSpl_ComplexBitReverse xs stages) stages) = 2 ^ stages"
    unfolding ComplexBitReverse_reversed [OF len] by (simp add: reversed_def)
  have "WebRtcSpl_ComplexBitReverse (WebRtcSpl_ComplexBitReverse xs stages) stages = xs"
    by (rule nth_equalityI) (simp_all add: len2 el [OF len] el [OF assms(1)] bitrev_less bitrev_bitrev assms(1))
  then show ?thesis using len el [OF assms] by simp
qed

theorem bit_reversal_witness:
  "WebRtcSpl_ComplexBitReverse [0 ..< 128] 7 ! 3 = (96 :: nat) \<and>
    WebRtcSpl_ComplexBitReverse (WebRtcSpl_ComplexBitReverse [0 ..< 128] 7) 7 = [0 ..< (128 :: nat)]"
proof -
  have "bitrev 7 3 = 96" by code_simp
  then show ?thesis using bit_reversal [of "[0 ..< 128]" 7 3] by simp
qed

text \<open>C9: For up to 1024 real samples of magnitude at most 32752 the forward transform never overflows
  its 16-bit elements: it returns 0 and the lower half of the spectrum, each bin within
  \<open>9 / 4\<close> units per stage of the discrete Fourier transform (with the negative exponent) divided by the
  number of samples.\<close>

theorem real_forward_fft_is_dft:
  assumes "length real_data_in = 2 ^ order" "order \<le> 10" "\<forall>x\<in>set real_data_in. \<bar>x\<bar> \<le> 32752" "k \<le> 2 ^ order div 2"
  shows "snd (WebRtcSpl_RealForwardFFT order real_data_in) = 0 \<and>
    length (fst (WebRtcSpl_RealForwardFFT order real_data_in)) = 2 ^ order div 2 + 1 \<and>
    cmod (point16 (fst (WebRtcSpl_RealForwardFFT order real_data_in) ! k) -
      (\<Sum>i<2 ^ order. of_int (real_data_in ! i) * cis (- (2 * pi * real i * real k / 2 ^ order))) / 2 ^ order) \<le> 9 / 4 * real order"
proof -
  define xs :: "complex16 list" where "xs = map (\<lambda>x. (x, 0)) real_data_in"
  define r where "r = WebRtcSpl_ComplexFFT (WebRtcSpl_ComplexBitReverse xs order) order 1"
  have len: "length xs = 2 ^ order" by (simp add: xs_def assms(1))
  have "real_of_int \<bar>x\<bar> \<le> real_of_int 32752" if "x \<in> set real_data_in" for x using assms(3) that by (simp only: of_int_le_iff)
  then have small: "\<forall>z\<in>set xs. cmod (point16 z) \<le> 32752" by (auto simp: xs_def point16_def cmod_def)
  have "(2 :: nat) ^ order div 2 < 2 ^ order" by (cases order) simp_all
  then have k: "k < 2 ^ order" using assms(4) by (rule le_less_trans [rotated])
  have half: "(2 :: nat) ^ order div 2 + 1 \<le> 2 ^ order" by (cases order) simp_all
  have e: "stage_error 1 = 9 / 4" by (simp add: stage_error_def rounding_def)
  note dft = ComplexFFT_dft [OF len assms(2) small k, of 1, folded r_def, unfolded e]
  have f: "WebRtcSpl_RealForwardFFT order real_data_in = (take (2 ^ order div 2 + 1) (fst r), snd r)"
    by (simp add: WebRtcSpl_RealForwardFFT_def r_def xs_def assms(1) Let_def split_beta)
  have x: "point16 (xs ! i) = of_int (real_data_in ! i)" if "i < 2 ^ order" for i
    using that by (simp add: xs_def point16_def assms(1) complex_eq_iff)
  have "(\<Sum>i<2 ^ order. point16 (xs ! i) * cis (- (2 * pi * real i * real k / 2 ^ order))) =
      (\<Sum>i<2 ^ order. of_int (real_data_in ! i) * cis (- (2 * pi * real i * real k / 2 ^ order)))"
    by (rule sum.cong) (simp_all only: x lessThan_iff)
  moreover have "take (2 ^ order div 2 + 1) (fst r) ! k = fst r ! k" using assms(4) by simp
  ultimately show ?thesis using dft half unfolding f by simp
qed

theorem real_forward_fft_is_dft_witness:
  "snd (WebRtcSpl_RealForwardFFT 2 [32752, 100, - 32752, 7]) = 0 \<and>
    length (fst (WebRtcSpl_RealForwardFFT 2 [32752, 100, - 32752, 7])) = 3 \<and>
    cmod (point16 (fst (WebRtcSpl_RealForwardFFT 2 [32752, 100, - 32752, 7]) ! 1) -
      (\<Sum>i<4. of_int ([32752, 100, - 32752, 7] ! i) * cis (- (2 * pi * real i / 4))) / 4) \<le> 9 / 2"
  using real_forward_fft_is_dft [of "[32752, 100, - 32752, 7]" 2 1] by simp

text \<open>C10: On any 16-bit input, and with the high accuracy arithmetic, the inverse transform computes what it
  would without any wrap-around: the shift each stage takes from the largest component keeps all
  intermediate values in 32 bits and all elements in 16.\<close>

theorem inverse_fft_never_wraps:
  assumes "length frfi = 2 ^ stages" "stages \<le> 10" "\<forall>z\<in>set frfi. is16 (fst z) \<and> is16 (snd z)" "mode \<noteq> 0"
  shows "WebRtcSpl_ComplexIFFT frfi stages mode = ifft_ref frfi stages \<and>
    length (fst (WebRtcSpl_ComplexIFFT frfi stages mode)) = 2 ^ stages \<and>
    (\<forall>z\<in>set (fst (WebRtcSpl_ComplexIFFT frfi stages mode)). is16 (fst z) \<and> is16 (snd z))"
  using ComplexIFFT_ref [OF assms] by simp

theorem inverse_fft_never_wraps_witness:
  "WebRtcSpl_ComplexIFFT [(- 32768, 32767), (32767, - 32768)] 1 1 = ifft_ref [(- 32768, 32767), (32767, - 32768)] 1"
  using inverse_fft_never_wraps [of "[(- 32768, 32767), (32767, - 32768)]" 1 1] by (simp add: is16_def)

text \<open>
  The fixed scaling of the forward transform by 2 does not prevent overflow for complex input of full
  scale: the butterfly with the factor of 45 degrees takes these elements to 39552, which wraps.
\<close>

lemma fft_wraps:
  "kSinTable1024 ! 384 = 23169 \<and> kSinTable1024 ! 128 = 23169 \<and>
    fst (fst (fft_high 16384 1 23169 (- 23169) (32767, 0) (32767, 32767))) = 39552 - 65536"
proof -
  have "fst (fst (fft_high 16384 1 23169 (- 23169) (32767, 0) (32767, 32767))) = 39552 - 65536" by code_simp
  moreover have "kSinTable1024 ! 384 = 23169 \<and> kSinTable1024 ! 128 = 23169" by (simp add: kSinTable1024_def kSinTable1024_rows_def)
  ultimately show ?thesis by simp
qed

end
