(* ===== verification/Spec2Isabelle.thy ===== *)
theory Spec2Isabelle imports SplResample RingBuffer WebRtcVad DelayEstimatorWrapper CodecTheorems AgcTheorems AnalogTheorems SplFftTheorems begin

text \<open>
  \<^bold>\<open>A verification library for the C core of the audio processing SDK.\<close>

  The repository wraps the WebRTC audio processing modules for Android. All paths below are relative to
  \<open>src/app/src/main/cpp/hwapm/webrtc/\<close>. The library models the parts in plain C that carry the state
  and the fixed-point arithmetic: the signal processing routines every module shares, the ring buffer,
  the voice activity detector, the automatic gain control, the delay estimator of the echo cancellers, and
  the speech codecs that are pure arithmetic.

  \<^bold>\<open>Conventions.\<close> \<open>int16_t\<close> and \<open>int32_t\<close> values are \<open>int\<close>, with \<open>s16\<close>, \<open>s32\<close>, \<open>u32\<close> of theory Prelude
  written wherever the code converts or may overflow; \<open>sar\<close> is the arithmetic right shift, \<open>shl32\<close> and
  \<open>shlu32\<close> the left shifts, \<open>sdiv\<close> the truncating division. An array is a list, written with list updates
  and \<open>overwrite\<close> (\<open>memcpy\<close>); a null pointer is \<open>None\<close>; a function returns its new state with its result;
  whether \<open>malloc\<close> succeeds, and the contents of the memory it returns, are arguments. Two code patterns
  recur as combinators: \<open>scan\<close> is a loop over samples with a filter state, and \<open>foldl\<close> over \<open>[a..<b]\<close> is
  a counted loop. All loops but one are bounded by an array, so their definitions are structural or folds
  and total. The limiter loop of the gain control has no such bound: it is a \<open>partial_function\<close> into
  \<open>option\<close>, where \<open>None\<close> is not returning, and \<open>limiter_terminates\<close> shows that it returns: for every gain up to 127.9 at
  any level, and above for the gains and levels its statement names. Assertions of the code are not modelled;
  where one guards a value the definitions give what a release build computes, or \<open>None\<close>.

  \<^bold>\<open>Theories and the code they model.\<close>
  Prelude: machine integers, lists, \<open>scan\<close>, and the two interfaces \<open>stream_filter\<close> (a sample-by-sample
  filter with a state invariant) and \<open>event_machine\<close> (a state kept valid by every enabled call).
  SplInl: \<open>signal_processing/include/spl_inl.h\<close>, \<open>division_operations.c\<close>, \<open>spl_sqrt_floor.c\<close>.
  SplVector: the vector operations, correlations, filters, energy and random numbers of
  \<open>signal_processing/\<close>.
  SplResample: \<open>resample_by_2_internal.c\<close>, \<open>resample_by_2.c\<close>, \<open>resample_fractional.c\<close>,
  \<open>resample_48khz.c\<close>; the frame resamplers work in overlapping regions of one scratch array, and their
  specifications \<open>spec48to16\<close> and the like are pipelines on separate buffers.
  SplFft: \<open>complex_bit_reverse.c\<close>, \<open>complex_fft.c\<close> with its table, \<open>real_fft.c\<close>. The loops of butterflies take
  the butterfly as an argument, so that they can be run with exact ones, and then are the discrete Fourier
  transform. SplFftTwiddle bounds the distance of the sine table from the sine, SplFftBounds that of the
  fixed-point butterflies from the exact ones and shows where nothing overflows; SplFftTheorems holds the
  properties. Transform lengths run from 2 to 1024 (of a single element the code copies three numbers, the
  model two).
  RingBuffer: \<open>common_audio/ring_buffer.c\<close> byte by byte, with the interface \<open>bounded_fifo\<close> and its
  interpretation.
  VadInst, VadGmm, VadSp, VadFilterbank, VadCore, WebRtcVad: \<open>common_audio/vad/\<close>, file by file; VadInv
  holds the invariant \<open>vad_ok\<close> and its preservation by every step of \<open>vad_core.c\<close>. WebRtcVad interprets
  \<open>event_machine\<close> for the calls of the public interface.
  SplSqrt: \<open>signal_processing/spl_sqrt.c\<close>.
  AgcVad, AgcGain, DigitalAgc: \<open>modules/audio_processing/agc/legacy/digital_agc.c\<close>: the level statistics,
  the gain table, and the envelopes, gate, limiter and application of the gain. AgcGainBounds bounds the
  tables of configurations up to 18 dB; AgcSession interprets \<open>event_machine\<close> for near-end and far-end
  frames; AgcTheorems holds the properties.
  AnalogAgc: \<open>agc/legacy/analog_agc.c\<close>, the control of the recording level around it, with the virtual
  microphone, configuration and initialisation; \<open>WebRtcAgc_ProcessAnalog\<close> is cut into the steps its
  comments name. AnalogInv holds the invariant \<open>level_inv\<close> of a frame, AnalogSession the invariant
  \<open>legacy_ok\<close> of an instance, every call's preservation of it, and the interpretation of \<open>event_machine\<close>;
  AnalogTheorems holds the properties.
  G711: \<open>modules/audio_coding/codecs/g711/\<close> and \<open>pcm16b/pcm16b.c\<close>, with the interfaces \<open>speech_codec\<close>
  and \<open>exact_codec\<close>, interpreted for mu-law and A-law; CodecTheorems holds the properties.
  Popcount: digit lists, the arithmetic behind the parallel bit count.
  DelayEstimator, DelayEstimatorWrapper: \<open>modules/audio_processing/utility/delay_estimator.c\<close> and
  \<open>delay_estimator_wrapper.c\<close>. Single-precision arithmetic is a parameter (record \<open>float_ops\<close>, any
  operations on any type): the properties hold for every such arithmetic, as they concern the integer
  state and the sizes of the arrays. The invariant of a pair of handles is \<open>pair_inv\<close>.

  \<^bold>\<open>How the parts interact.\<close> The detector calls the resampler of SplResample for 48 kHz, its own decimator
  for 16 and 32 kHz, and the normalisation, energy and division routines of SplInl and SplVector; the
  delay estimator is self-contained and driven by the echo cancellers through its wrapper.

  The gain control shares the halving filter of SplResample and the square root of SplSqrt; the level control
  runs the digital gain control on every frame and hands it gain tables on every configuration.

  \<^bold>\<open>What the theorems show.\<close> Detector: the invariant over any session, decisions and rejections, exactness
  of the fixed-point Gaussian and the minimum tracker, limits of the adapted models, the hangover armed by
  speech and counting down, and places where
  the code departs from its intent. Resamplers: in-place computation equals the pipeline, filters can be
  fed in pieces. Ring buffer: a bounded queue. Signal processing: square roots, division, normalisation,
  energy; the forward Fourier transform is within 9/4 units per stage of the exact one, the inverse one never
  overflows. Delay estimator: the invariant over any session, meaning of the binary spectra and bit counts,
  the candidate search, unchecked arguments. Gain control: the gain table is bounded up to 18 dB, its
  interpolation exact for tables whose neighbours differ by at most 8.0, the limiter ends, a frame is the input times a piecewise linear gain that overflows nowhere in
  the limited band, and any session keeps the state valid; the recommended level stays in its range, does not
  rise under echo beyond the adjustment a frame starts with, no call leaves a table or hangs, every
  configuration has its outcome, and where the detectors of saturation and silence
  overflow. Codecs: quantisation error, order, sign and
  round trips. The statements numbered \<open>C1\<close>, \<open>C2\<close>, \<dots> are the main ones; the other theorems complete
  them, and the proofs apply the lemmas of the component theories.

  \<^bold>\<open>Not modelled.\<close> The C++ parts (modules \<open>neteq\<close>, \<open>rtp_rtcp\<close>, \<open>audio_device\<close>, \<open>video_*\<close>, \<open>base\<close>,
  \<open>system_wrappers\<close>, the orchestration in \<open>audio_processing_impl.cc\<close>) and the JNI glue: threads, devices
  and calls. The float echo canceller and float noise suppressor, and third-party transforms and
  codecs: their behaviour is that of real-valued arithmetic. The platform variants (mips, neon, sse) of
  functions modelled from their C version. The remaining fixed-point routines of \<open>signal_processing/\<close>,
  the fixed-point noise suppressor and the mobile echo canceller are left for extension.
\<close>

section \<open>Concrete instances for the witnesses\<close>

text \<open>An instance of the detector in memory that \<open>malloc\<close> happened to return zeroed, after \<open>Init\<close>.\<close>

definition zero_instance :: VadInstT where
  "zero_instance =
     \<lparr>vad = 0, downsampling_filter_states = replicate 4 0,
      state_48_to_8 = WebRtcSpl_ResetResample48khzTo8khz,
      noise_means = replicate 12 0, speech_means = replicate 12 0, noise_stds = replicate 12 0,
      speech_stds = replicate 12 0, frame_counter = 0, over_hang = 0, num_of_speech = 0,
      index_vector = replicate 96 0, low_value_vector = replicate 96 0, mean_value = replicate 6 0,
      upper_state = replicate 5 0, lower_state = replicate 5 0, hp_filter_state = replicate 4 0,
      over_hang_max_1 = replicate 3 0, over_hang_max_2 = replicate 3 0, individual = replicate 3 0,
      total = replicate 3 0, init_flag = 0\<rparr>"

definition sample_vad :: VadInstT where
  "sample_vad = the (fst (WebRtcVad_Init (WebRtcVad_Create zero_instance)))"

lemma sample_vad_ok: "vad_ok sample_vad"
proof -
  obtain v where "WebRtcVad_Init (WebRtcVad_Create zero_instance) = (Some v, 0)" "vad_ok v"
    using InitCore_ok by (metis WebRtcVad_Init_def WebRtcVad_Create_def)
  then show ?thesis by (simp add: sample_vad_def)
qed

definition quiet_frame :: "int list" where
  "quiet_frame = replicate 80 0"

lemma quiet_frame_ok: "length quiet_frame = 80" "\<forall>x\<in>set quiet_frame. is16 x"
  by (simp_all add: quiet_frame_def is16_def)

lemma quiet_valid: "valid_frame 8000 80"
  by (simp add: valid_frame_def)

section \<open>The voice activity detector\<close>

text \<open>C1: Whatever memory \<open>WebRtcVad_Create\<close> received, after \<open>WebRtcVad_Init\<close> and any sequence of
  calls (re-initialisation, mode changes with any argument, frames of any rate and length, valid or not),
  provided a frame comes with as many 16-bit samples as announced, the handle is an initialised instance
  that satisfies the invariant \<open>vad_ok\<close>: array sizes, sample ranges, standard deviations bounded away
  from zero, sorted minimum slots, hangover counters between \<open>0\<close> and \<open>14\<close>.\<close>

theorem vad_session:
  assumes "\<forall>call\<in>set calls. call_ok call"
  shows "\<exists>v. foldl vad_step (fst (WebRtcVad_Init (WebRtcVad_Create mem))) calls = Some v \<and>
    init_flag v = kInitCheck \<and> vad_ok v"
proof -
  have "live_handle (fst (WebRtcVad_Init (WebRtcVad_Create mem)))"
    using InitCore_ok [of "mem\<lparr>init_flag := 0\<rparr>"] by (auto simp: WebRtcVad_Init_def WebRtcVad_Create_def live_handle_def)
  from vad_live.run_keeps [OF this assms] show ?thesis
    by (auto simp: live_handle_def vad_ok_def split: option.splits)
qed

theorem vad_session_witness:
  "\<exists>v. foldl vad_step (fst (WebRtcVad_Init (WebRtcVad_Create zero_instance)))
      [ESetMode 3, EProcess 8000 (Some quiet_frame) 80, ESetMode 7, EProcess 44100 None 80] = Some v \<and>
    init_flag v = kInitCheck \<and> vad_ok v"
  by (rule vad_session) (simp add: call_ok_def frame_given_def quiet_frame_ok)

text \<open>C2: On an initialised instance a frame of an accepted rate and length is decided: the result is
  \<open>0\<close> or \<open>1\<close> and the invariant is kept; any other rate or length gives \<open>-1\<close> and changes nothing. The code accepts
  frames of 10, 20 and 30 ms at 8, 16, 32 and 48 kHz, the last against its header, which lists the first three.\<close>

theorem vad_decides:
  assumes "vad_ok v" "n \<le> length xs" "\<forall>x\<in>set xs. is16 x"
  shows "if valid_frame fs n
    then \<exists>v' r. WebRtcVad_Process (Some v) fs (Some xs) n = (Some v', r) \<and> vad_ok v' \<and> (r = 0 \<or> r = 1)
    else WebRtcVad_Process (Some v) fs (Some xs) n = (Some v, - 1)"
proof -
  have "init_flag v = kInitCheck" using assms(1) by (simp add: vad_ok_def)
  then show ?thesis using Process_valid [OF assms(1) _ assms(2,3)] Process_invalid [of "Some v" "Some xs" fs n] by simp
qed

theorem vad_decides_witness:
  "\<exists>v' r. WebRtcVad_Process (Some sample_vad) 8000 (Some quiet_frame) 80 = (Some v', r) \<and> vad_ok v' \<and> (r = 0 \<or> r = 1)"
  using vad_decides [OF sample_vad_ok, of 80 quiet_frame 8000] quiet_frame_ok quiet_valid by simp

text \<open>C35: A null handle, an instance that was not initialised, a null frame, or an unsupported rate or
  length: \<open>WebRtcVad_Process\<close> returns \<open>-1\<close> and leaves the handle as it was.\<close>

theorem vad_rejects:
  assumes "handle = None \<or> init_flag (the handle) \<noteq> kInitCheck \<or> frame = None \<or> \<not> valid_frame fs n"
  shows "WebRtcVad_Process handle fs frame n = (handle, - 1)"
  by (rule Process_invalid [OF assms])

theorem vad_rejects_witness:
  "WebRtcVad_Process (WebRtcVad_Create zero_instance) 8000 (Some quiet_frame) 80 = (WebRtcVad_Create zero_instance, - 1)"
  by (rule vad_rejects) (simp add: WebRtcVad_Create_def kInitCheck_def)

text \<open>The accepted combinations are exactly 8, 16, 32 or 48 kHz with 10, 20 or 30 ms.\<close>

theorem vad_valid_lengths:
  "WebRtcVad_ValidRateAndFrameLength fs n = (if valid_frame fs n then 0 else - 1)"
  using ValidRateAndFrameLength_iff [of fs n] ValidRateAndFrameLength_cases [of fs n] by auto

text \<open>\<open>WebRtcVad_set_mode\<close> accepts the modes \<open>0\<close> to \<open>3\<close> and keeps the invariant; another mode
  returns \<open>-1\<close> without touching the instance, as does any mode on a null or uninitialised handle.\<close>

theorem vad_modes:
  "WebRtcVad_set_mode handle mode =
     (if handle \<noteq> None \<and> init_flag (the handle) = kInitCheck \<and> mode \<in> {0, 1, 2, 3}
      then (Some (fst (WebRtcVad_set_mode_core (the handle) mode)), 0) else (handle, - 1)) \<and>
   (handle_ok handle \<longrightarrow> handle_ok (fst (WebRtcVad_set_mode handle mode)))"
proof -
  have e: "WebRtcVad_set_mode handle mode =
     (if handle \<noteq> None \<and> init_flag (the handle) = kInitCheck \<and> mode \<in> {0, 1, 2, 3}
      then (Some (fst (WebRtcVad_set_mode_core (the handle) mode)), 0) else (handle, - 1))"
    by (auto simp: WebRtcVad_set_mode_def WebRtcVad_set_mode_core_def split: option.splits)
  have "handle_ok (vad_step handle (ESetMode mode))" if "handle_ok handle"
    using vad_api.keeps [OF that, of "ESetMode mode"] by (simp add: call_ok_def)
  then show ?thesis using e by (simp add: vad_step_def)
qed

theorem vad_modes_witness:
  "handle_ok (fst (WebRtcVad_set_mode (Some sample_vad) 2))"
  by (rule vad_modes [THEN conjunct2, THEN mp]) (simp add: handle_ok_def sample_vad_ok)

section \<open>Inside the detector\<close>

text \<open>C12: One step of the minimum tracker of a channel: after ageing, the sixteen slots hold the sixteen
  smallest of the old values and the new feature, in order; the other channels are untouched; the
  result is the smoothed median taken from these slots.\<close>

theorem minimum_tracker:
  assumes "vad_ok v" "c < 6" "0 \<le> f" "f \<le> 10000"
  shows "let slots = take 16 (insort f (snd (age_loop 16 0 (block c (index_vector v)) (block c (low_value_vector v)))));
             (v', median) = WebRtcVad_FindMinimum v f c
         in block c (low_value_vector v') = slots \<and> slots_ok slots \<and>
            median = smooth_median (frame_counter v) slots (mean_value v ! c) \<and>
            (\<forall>c' < 6. c' \<noteq> c \<longrightarrow> block c' (low_value_vector v') = block c' (low_value_vector v))"
  using FindMinimum_slots [OF vad_okD(5) [OF assms(1)] assms(2-4)] by (simp add: Let_def split_beta)

theorem minimum_tracker_witness:
  "let slots = take 16 (insort 700 (snd (age_loop 16 0 (block 2 (index_vector sample_vad)) (block 2 (low_value_vector sample_vad)))));
       (v', median) = WebRtcVad_FindMinimum sample_vad 700 2
   in block 2 (low_value_vector v') = slots \<and> slots_ok slots \<and>
      median = smooth_median (frame_counter sample_vad) slots (mean_value sample_vad ! 2) \<and>
      (\<forall>c' < 6. c' \<noteq> 2 \<longrightarrow> block c' (low_value_vector v') = block c' (low_value_vector sample_vad))"
  by (rule minimum_tracker [OF sample_vad_ok]) simp_all

text \<open>C37: The hand-written decision tree of \<open>WebRtcVad_FindMinimum\<close> finds the insertion point that a
  linear scan finds: the number of leading slots that are not larger than the feature.\<close>

theorem decision_tree:
  assumes "sorted vs" "length vs = 16"
  shows "find_position x vs = (if x < vs ! 15 then Some (length (takeWhile (\<lambda>v. v \<le> x) vs)) else None)"
  using find_position_linear [OF assms, of x] by (simp add: not_less)

theorem decision_tree_witness:
  "find_position 7 (map int [0..<16]) = (if 7 < map int [0..<16] ! 15 then Some (length (takeWhile (\<lambda>v. v \<le> 7) (map int [0..<16]))) else None)"
  by (rule decision_tree) (simp_all add: sorted_map)

text \<open>The smoothed median moves from its old value towards the current median and never past it.\<close>

theorem median_smoothing:
  assumes "slots_ok vs" "0 \<le> mean" "mean \<le> 10000"
  shows "let median = (if n > 2 then vs ! 2 else if n > 0 then vs ! 0 else 1600)
    in min mean median \<le> smooth_median n vs mean \<and> smooth_median n vs mean \<le> max mean median"
  using smooth_median_between [OF assms, of n] by (simp add: Let_def)

theorem median_smoothing_witness:
  "let median = (if (5 :: int) > 2 then replicate 16 300 ! 2 else if (5 :: int) > 0 then replicate 16 300 ! 0 else 1600)
    in min 900 median \<le> smooth_median 5 (replicate 16 300) 900 \<and> smooth_median 5 (replicate 16 300) 900 \<le> max 900 median"
  by (rule median_smoothing) (simp_all add: slots_ok_def sorted_replicate)

text \<open>C14: \<open>WebRtcVad_GaussianProbability\<close> in fixed point, with all its shifts, 16-bit casts and the bit
  trick for the exponential, computes the formula of its comment: the scaled inverse deviation times
  \<open>2\<close> to the negative exponent (zero when that exponent is too large), and a \<open>delta\<close> with the sign of
  the distance to the mean; the probability lies between \<open>0\<close> and \<open>355328\<close>.\<close>

theorem gaussian_probability:
  assumes "378 \<le> std" "std \<le> 32767" "\<bar>input\<bar> \<le> 4095" "\<bar>8 * input - mean\<bar> \<le> 18000"
  shows "WebRtcVad_GaussianProbability input mean std = (gauss_spec input mean std, gauss_delta input mean std) \<and>
    0 \<le> gauss_spec input mean std \<and> gauss_spec input mean std \<le> 355328 \<and>
    0 \<le> gauss_delta input mean std * (8 * input - mean)"
  using GaussianProbability_spec [OF assms] gauss_spec_range [OF assms(1,2)] gauss_delta_sign [OF assms(1,2)] by simp

theorem gaussian_probability_witness:
  "WebRtcVad_GaussianProbability 1000 6738 500 = (gauss_spec 1000 6738 500, gauss_delta 1000 6738 500) \<and>
    0 \<le> gauss_spec 1000 6738 500 \<and> gauss_spec 1000 6738 500 \<le> 355328 \<and>
    0 \<le> gauss_delta 1000 6738 500 * (8 * 1000 - 6738)"
  by (rule gaussian_probability) simp_all

text \<open>C34: From a frame of at most 240 samples the filter bank computes six features, each between \<open>176\<close>
  and \<open>2245\<close> (Q4 log energies), and keeps the invariant.\<close>

theorem feature_range:
  assumes "vad_ok v" "length xs \<le> 240" "\<forall>x\<in>set xs. is16 x"
  shows "let (v', energy, features) = WebRtcVad_CalculateFeatures v xs
    in vad_ok v' \<and> length features = 6 \<and> (\<forall>f\<in>set features. 176 \<le> f \<and> f \<le> 2245)"
proof -
  obtain v' te fs where r: "WebRtcVad_CalculateFeatures v xs = (v', te, fs)" by (rule prod_cases3)
  from CalculateFeatures_ok [OF assms r] r show ?thesis by (simp add: features_ok_def)
qed

theorem feature_range_witness:
  "let (v', energy, features) = WebRtcVad_CalculateFeatures sample_vad quiet_frame
    in vad_ok v' \<and> length features = 6 \<and> (\<forall>f\<in>set features. 176 \<le> f \<and> f \<le> 2245)"
  by (rule feature_range [OF sample_vad_ok]) (simp_all add: quiet_frame_ok)

text \<open>C19: The hangover is armed by speech and counts down. A burst of \<open>m + 1\<close> speech frames is reported as
  \<open>1\<close> throughout and arms the long hangover if the burst, with the speech frames counted before it, is longer
  than six frames, the short one otherwise; with \<open>h\<close> the armed hangover, the noise frames that follow are still
  reported as speech \<open>h\<close> times, with the values \<open>h + 2, \<dots>, 3\<close>, and as noise from then on. The hangovers of all
  modes lie between \<open>0\<close> and \<open>14\<close>, so the values go up to \<open>16\<close>.\<close>

theorem hangover_countdown:
  assumes "0 \<le> num_of_speech v" "num_of_speech v \<le> 6" "0 \<le> short_hang" "short_hang \<le> 14" "0 \<le> long_hang" "long_hang \<le> 14"
    and "h = nat (if 6 < num_of_speech v + int (Suc m) then long_hang else short_hang)"
  shows "snd (hangover_run short_hang long_hang v (replicate (Suc m) 1 @ replicate (h + n) 0)) =
    replicate (Suc m) 1 @ map (\<lambda>i. int i + 2) (rev [1..<Suc h]) @ replicate n 0"
  by (rule burst_counts [OF assms])

theorem hangover_countdown_witness:
  "snd (hangover_run 6 9 sample_vad (replicate (Suc 7) 1 @ replicate (9 + 2) 0)) =
    replicate (Suc 7) 1 @ map (\<lambda>i. int i + 2) (rev [1..<Suc 9]) @ replicate 2 0"
proof (rule hangover_countdown)
  show "0 \<le> num_of_speech sample_vad" "num_of_speech sample_vad \<le> 6"
    using sample_vad_ok by (simp_all add: vad_ok_def)
  then show "9 = nat (if 6 < num_of_speech sample_vad + int (Suc 7) then 9 else 6)" by simp
qed simp_all

text \<open>A frame classified as speech is reported as \<open>1\<close> and arms the counter with the short hangover
  for the first six frames of a burst, with the long one from the seventh on.\<close>

theorem hangover_arming:
  assumes "0 \<le> num_of_speech v" "num_of_speech v \<le> 6"
  shows "hangover v 1 short_hang long_hang =
    (if num_of_speech v = 6 then (v\<lparr>num_of_speech := 6, over_hang := long_hang\<rparr>, 1)
     else (v\<lparr>num_of_speech := num_of_speech v + 1, over_hang := short_hang\<rparr>, 1))"
  by (rule hangover_speech [OF assms])

theorem hangover_arming_witness:
  "hangover (sample_vad\<lparr>num_of_speech := 6\<rparr>) 1 8 14 =
    (if num_of_speech (sample_vad\<lparr>num_of_speech := 6\<rparr>) = 6
     then (sample_vad\<lparr>num_of_speech := 6, num_of_speech := 6, over_hang := 14\<rparr>, 1)
     else (sample_vad\<lparr>num_of_speech := 6, num_of_speech := num_of_speech (sample_vad\<lparr>num_of_speech := 6\<rparr>) + 1, over_hang := 8\<rparr>, 1))"
  by (rule hangover_arming) simp_all



text \<open>The divisor \<open>ssk * 10\<close> of the speech deviation is passed as an \<open>int16_t\<close>. It is never zero for
  the deviations the invariant allows, but it is the intended product only up to \<open>3276\<close>; beyond, it wraps
  to a negative number and the update goes the wrong way: the same observation widens a deviation of
  \<open>3276\<close> and narrows one of \<open>3277\<close>.\<close>

theorem speech_deviation_divisor:
  assumes "378 \<le> ssk" "ssk \<le> 32767"
  shows "s16 (ssk * 10) \<noteq> 0 \<and> (s16 (ssk * 10) = ssk * 10 \<longleftrightarrow> ssk \<le> 3276) \<and>
    speech_std_update 2000 8000 3276 16384 195 = 3277 \<and> speech_std_update 2000 8000 3277 16384 195 = 3276"
proof -
  have "speech_std_update 2000 8000 3276 16384 195 = 3277" "speech_std_update 2000 8000 3277 16384 195 = 3276"
    by code_simp+
  then show ?thesis using speech_divisor [OF assms] by simp
qed

theorem speech_deviation_divisor_witness:
  "s16 (4000 * 10) \<noteq> 0 \<and> (s16 (4000 * 10) = 4000 * 10 \<longleftrightarrow> (4000 :: int) \<le> 3276) \<and>
    speech_std_update 2000 8000 3276 16384 195 = 3277 \<and> speech_std_update 2000 8000 3277 16384 195 = 3276"
  by (rule speech_deviation_divisor) simp_all

text \<open>At 48 kHz the loop over the 10 ms blocks of a frame passes the same pointer every time: the
  decision for a 20 or 30 ms frame depends on its first 480 samples only.\<close>

theorem calc48_first_block_only:
  assumes "take 480 xs = take 480 ys"
  shows "WebRtcVad_CalcVad48khz v xs n = WebRtcVad_CalcVad48khz v ys n"
  unfolding WebRtcVad_CalcVad48khz_def resample_blocks_first [OF assms] ..

theorem calc48_first_block_only_witness:
  "WebRtcVad_CalcVad48khz sample_vad (replicate 480 0 @ replicate 480 30000) 960 =
    WebRtcVad_CalcVad48khz sample_vad (replicate 960 0) 960"
  by (rule calc48_first_block_only) simp

text \<open>When two neighbouring slots reach the age limit in the same frame, the removal of the first moves
  the second down into the slot just left, and the loop goes on behind it: it survives with its old age.
  The freed last slot gets \<open>10000\<close>, and age \<open>102\<close>, one more than the age \<open>101\<close> just written.\<close>

theorem ageing_skips_a_slot:
  "age_loop 16 0 ([100, 100] @ replicate 14 0) (map int [1..<17]) =
    ([100] @ replicate 14 1 @ [102], map int [2..<17] @ [10000])"
  by (rule age_loop_skips)

section \<open>The resamplers\<close>

text \<open>C21: The 48 to 16 kHz resampler, which keeps its intermediate signals and delay lines in one scratch
  array with overlapping regions, computes the pipeline low pass, 3:2 interpolation, decimation on
  separate buffers (\<open>spec48to16\<close>), and keeps the last eight samples as delay line.\<close>

theorem resample_48_16:
  assumes "480 \<le> length ins" "length (S_48_32 state) = 8" "496 \<le> length tmpmem"
  shows "\<exists>mem. length mem = length tmpmem \<and> WebRtcSpl_Resample48khzTo16khz ins state tmpmem =
    (fst (spec48to16 ins state), snd (spec48to16 ins state), mem)"
  by (rule Resample48khzTo16khz_spec [OF assms])

theorem resample_48_16_witness:
  "\<exists>mem. length mem = length (replicate 496 0 :: int list) \<and>
    WebRtcSpl_Resample48khzTo16khz (replicate 480 1000) WebRtcSpl_ResetResample48khzTo16khz (replicate 496 0) =
    (fst (spec48to16 (replicate 480 1000) WebRtcSpl_ResetResample48khzTo16khz),
     snd (spec48to16 (replicate 480 1000) WebRtcSpl_ResetResample48khzTo16khz), mem)"
  by (rule resample_48_16) (simp_all add: WebRtcSpl_ResetResample48khzTo16khz_def)

text \<open>The same for 48 to 8 kHz, the resampler of the detector.\<close>

theorem resample_48_8:
  assumes "480 \<le> length ins" "length (S_24_16 state) = 8" "496 \<le> length tmpmem"
  shows "\<exists>mem. length mem = length tmpmem \<and> WebRtcSpl_Resample48khzTo8khz ins state tmpmem =
    (fst (spec48to8 ins state), snd (spec48to8 ins state), mem)"
  by (rule Resample48khzTo8khz_spec [OF assms])

theorem resample_48_8_witness:
  "\<exists>mem. length mem = length (replicate 736 0 :: int list) \<and>
    WebRtcSpl_Resample48khzTo8khz (replicate 480 1000) WebRtcSpl_ResetResample48khzTo8khz (replicate 736 0) =
    (fst (spec48to8 (replicate 480 1000) WebRtcSpl_ResetResample48khzTo8khz),
     snd (spec48to8 (replicate 480 1000) WebRtcSpl_ResetResample48khzTo8khz), mem)"
  by (rule resample_48_8) (simp_all add: WebRtcSpl_ResetResample48khzTo8khz_def)

text \<open>The same for the two interpolators, 16 to 48 and 8 to 48 kHz.\<close>

theorem resample_up_48:
  assumes "160 \<le> length ins" "length (S_32_24 state) = 8" "336 \<le> length tmpmem"
    and "80 \<le> length ins'" "length (S_16_12 state') = 8" "424 \<le> length tmpmem'"
  shows "(\<exists>mem. length mem = length tmpmem \<and> WebRtcSpl_Resample16khzTo48khz ins state tmpmem =
      (fst (spec16to48 ins state), snd (spec16to48 ins state), mem)) \<and>
    (\<exists>mem. length mem = length tmpmem' \<and> WebRtcSpl_Resample8khzTo48khz ins' state' tmpmem' =
      (fst (spec8to48 ins' state'), snd (spec8to48 ins' state'), mem))"
  using Resample16khzTo48khz_spec [OF assms(1-3)] Resample8khzTo48khz_spec [OF assms(4-6)] ..

theorem resample_up_48_witness:
  "(\<exists>mem. length mem = length (replicate 336 0 :: int list) \<and>
      WebRtcSpl_Resample16khzTo48khz (replicate 160 9) WebRtcSpl_ResetResample16khzTo48khz (replicate 336 0) =
      (fst (spec16to48 (replicate 160 9) WebRtcSpl_ResetResample16khzTo48khz),
       snd (spec16to48 (replicate 160 9) WebRtcSpl_ResetResample16khzTo48khz), mem)) \<and>
    (\<exists>mem. length mem = length (replicate 424 0 :: int list) \<and>
      WebRtcSpl_Resample8khzTo48khz (replicate 80 9) WebRtcSpl_ResetResample8khzTo48khz (replicate 424 0) =
      (fst (spec8to48 (replicate 80 9) WebRtcSpl_ResetResample8khzTo48khz),
       snd (spec8to48 (replicate 80 9) WebRtcSpl_ResetResample8khzTo48khz), mem))"
  by (rule resample_up_48)
    (simp_all add: WebRtcSpl_ResetResample16khzTo48khz_def WebRtcSpl_ResetResample8khzTo48khz_def)

text \<open>The fractional resamplers work in place: as long as the output starts at or before the input,
  writing into the array being read gives the filter of the unmodified input, for both rates.\<close>

theorem fractional_in_place:
  assumes "p \<le> i"
  shows "(p + 2 * K \<le> length mem \<longrightarrow>
      WebRtcSpl_Resample48khzTo32khz mem i p K = overwrite mem p (fir48to32 (drop i mem) K)) \<and>
    (p + 3 * K \<le> length mem \<longrightarrow>
      WebRtcSpl_Resample32khzTo24khz mem i p K = overwrite mem p (fir32to24 (drop i mem) K))"
  using Resample48khzTo32khz_in_place [OF assms] Resample32khzTo24khz_in_place [OF assms] by blast

theorem fractional_in_place_witness:
  "WebRtcSpl_Resample48khzTo32khz (map int [0..<40]) 2 0 8 = overwrite (map int [0..<40]) 0 (fir48to32 (drop 2 (map int [0..<40])) 8) \<and>
   WebRtcSpl_Resample32khzTo24khz (map int [0..<40]) 2 0 8 = overwrite (map int [0..<40]) 0 (fir32to24 (drop 2 (map int [0..<40])) 8)"
  using fractional_in_place [of 0 2 8 "map int [0..<40]"] by simp

text \<open>The detector's decimator \<open>WebRtcVad_Downsampling\<close> can be fed in pieces; its states stay in range and its
  output samples are 16-bit values.\<close>

theorem decimator_streaming:
  assumes "even (length xs)" "\<forall>x\<in>set (xs @ ys). is16 x" "down_state_ok (st ! 0, st ! 1)"
  shows "WebRtcVad_Downsampling (xs @ ys) st (length xs + length ys) =
      (let (us, st1) = WebRtcVad_Downsampling xs st (length xs);
           (vs, st2) = WebRtcVad_Downsampling ys st1 (length ys)
       in (us @ vs, st2)) \<and>
    (\<forall>y\<in>set (fst (WebRtcVad_Downsampling (xs @ ys) st n)). is16 y)"
  using Downsampling_append [OF assms(1)] Downsampling_ok(1) [OF assms(2,3)] by blast

theorem decimator_streaming_witness:
  "WebRtcVad_Downsampling ([1, 2, 3, 4] @ [5, 6]) [0, 0] (length [1 :: int, 2, 3, 4] + length [5 :: int, 6]) =
      (let (us, st1) = WebRtcVad_Downsampling [1, 2, 3, 4] [0, 0] (length [1 :: int, 2, 3, 4]);
           (vs, st2) = WebRtcVad_Downsampling [5, 6] st1 (length [5 :: int, 6])
       in (us @ vs, st2))"
  by (rule decimator_streaming [THEN conjunct1]) (simp_all add: is16_def down_state_ok_def)

section \<open>The ring buffer\<close>

text \<open>C7: Through any sequence of reads and writes the ring buffer is a bounded queue of bytes: what was in
  it followed by what it accepted is what was read followed by what it still holds; nothing is lost,
  duplicated or reordered, and free space plus available data is the capacity throughout.\<close>

theorem ring_buffer_fifo:
  assumes "rb_ok b" "\<forall>op\<in>set ops. supplied (element_size b) op"
    "fifo_run rb_put rb_get element_size b ops = (accepted, got, b')"
  shows "contents b @ accepted = got @ contents b' \<and> rb_ok b' \<and> element_size b' = element_size b \<and>
    rb_room b' + available_read b' = rb_room b + available_read b"
  using ring.run_conserves [OF assms] by simp

definition sample_ring :: RingBuffer where
  "sample_ring = the (WebRtc_CreateBuffer True True 3 2)"

lemma sample_ring_ok: "rb_ok sample_ring" "element_size sample_ring = 2" "element_count sample_ring = 3"
  using CreateBuffer_ok [of 3 2] by (auto simp: sample_ring_def)

theorem ring_buffer_fifo_witness:
  "case fifo_run rb_put rb_get element_size sample_ring [Put [1, 2, 3, 4] 2, Get 1, Put [5, 6, 7, 8] 2, Get 2] of
     (accepted, got, b') \<Rightarrow> contents sample_ring @ accepted = got @ contents b' \<and> rb_ok b' \<and>
       element_size b' = element_size sample_ring \<and>
       rb_room b' + available_read b' = rb_room sample_ring + available_read sample_ring"
proof (cases "fifo_run rb_put rb_get element_size sample_ring [Put [1, 2, 3, 4] 2, Get 1, Put [5, 6, 7, 8] 2, Get 2]")
  case (fields accepted got b')
  have "\<forall>op\<in>set [Put [1, 2, 3, 4] 2, Get 1, Put [5, 6, 7, 8] 2, Get 2]. supplied (element_size sample_ring) op"
    by (simp add: supplied_def sample_ring_ok)
  from ring_buffer_fifo [OF sample_ring_ok(1) this fields] show ?thesis unfolding fields by simp
qed

text \<open>C38: A write appends as many elements as fit and reports their number; a read of an intact buffer
  delivers the oldest elements in order, whether it copies them out or hands out a pointer, and removes
  exactly these.\<close>

theorem ring_buffer_write_read:
  assumes "rb_ok b" "n * element_size b \<le> length src"
  shows "(\<exists>b'. WebRtc_WriteBuffer (Some b) (Some src) n = (min n (rb_room b), Some b') \<and> rb_ok b' \<and>
      contents b' = contents b @ take (min n (rb_room b) * element_size b) src) \<and>
    (let k = min n (available_read b) in
      WebRtc_ReadBuffer (Some b) False (Some out) n =
        (k, Some (overwrite out 0 (take (k * element_size b) (contents b))), None, Some (advance b k)) \<and>
      (\<exists>out' loc. WebRtc_ReadBuffer (Some b) True (Some out) n = (k, Some out', Some loc, Some (advance b k)) \<and>
        deref b out' loc (k * element_size b) = take (k * element_size b) (contents b)) \<and>
      contents (advance b k) = drop (k * element_size b) (contents b))"
proof -
  have room: "rb_room b = element_count b - available_read b"
    by (simp add: rb_room_def WebRtc_available_write_def WebRtc_available_read_def)
  show ?thesis
    using WriteBuffer_appends [OF assms] ReadBuffer_copy [OF assms(1), of out n] ReadBuffer_ptr [OF assms(1), of out n]
      contents_advance [OF assms(1), of "min n (available_read b)"]
    by (auto simp: room Let_def)
qed

theorem ring_buffer_write_read_witness:
  "\<exists>b'. WebRtc_WriteBuffer (Some sample_ring) (Some [1, 2, 3, 4]) 2 = (min 2 (rb_room sample_ring), Some b') \<and> rb_ok b' \<and>
    contents b' = contents sample_ring @ take (min 2 (rb_room sample_ring) * element_size sample_ring) [1, 2, 3, 4]"
  using ring_buffer_write_read [OF sample_ring_ok(1), of 2 "[1, 2, 3, 4]"] by (simp add: sample_ring_ok)

text \<open>\<open>WebRtc_MoveReadPtr\<close> clamps the requested move to the available data (forward) or the free
  space (backward), returns the move it made, keeps the buffer intact, and drops exactly the skipped
  elements or brings old ones back in front.\<close>

theorem ring_buffer_move:
  assumes "rb_ok b"
  shows "\<exists>k b'. WebRtc_MoveReadPtr (Some b) c = (k, Some b') \<and> rb_ok b' \<and>
    k = max (- int (rb_room b)) (min c (int (available_read b))) \<and>
    (if 0 \<le> c then contents b' = drop (nat k * element_size b) (contents b)
     else drop (nat (- k) * element_size b) (contents b') = contents b)"
proof -
  have room: "rb_room b = element_count b - available_read b"
    by (simp add: rb_room_def WebRtc_available_write_def WebRtc_available_read_def)
  show ?thesis
  proof (cases "0 \<le> c")
    case True
    let ?k = "min (nat c) (available_read b)"
    have e: "max (- int (rb_room b)) (min c (int (available_read b))) = int ?k" using True by simp
    show ?thesis unfolding e
      using MoveReadPtr_forward [OF assms True] advance_ok [OF assms, of ?k] contents_advance [OF assms, of ?k] True by simp
  next
    case False
    let ?k = "min (nat (- c)) (element_count b - available_read b)"
    have e: "max (- int (rb_room b)) (min c (int (available_read b))) = - int ?k"
      using False unfolding room by linarith
    show ?thesis unfolding e
      using MoveReadPtr_backward [OF assms, of c] retreat_ok [OF assms, of ?k] contents_retreat [OF assms, of ?k] False
      by simp
  qed
qed

theorem ring_buffer_move_witness:
  "\<exists>k b'. WebRtc_MoveReadPtr (Some sample_ring) (- 1) = (k, Some b') \<and> rb_ok b' \<and>
    k = max (- int (rb_room sample_ring)) (min (- 1) (int (available_read sample_ring))) \<and>
    (if (0 :: int) \<le> - 1 then contents b' = drop (nat k * element_size sample_ring) (contents sample_ring)
     else drop (nat (- k) * element_size sample_ring) (contents b') = contents sample_ring)"
  by (rule ring_buffer_move [OF sample_ring_ok(1)])

section \<open>Signal processing primitives\<close>

text \<open>\<open>WebRtcSpl_Energy\<close> of samples other than \<open>-32768\<close> is the exact sum of the scaled squares: the
  scaling it chooses keeps the accumulator below \<open>2 ^ 31\<close> for any length a 32-bit count allows.\<close>

theorem energy_exact:
  assumes "\<forall>x\<in>set xs. is16 x \<and> x \<noteq> - 32768" "length xs < 2 ^ 32"
  shows "let k = WebRtcSpl_GetScalingSquare xs (length xs); s = (\<Sum>x\<leftarrow>xs. sar (x * x) k)
    in WebRtcSpl_Energy xs = (s, k) \<and> 0 \<le> s \<and> s < 2 ^ 31"
  using Energy_sum [OF assms] by (simp add: Let_def)

theorem energy_exact_witness:
  "let k = WebRtcSpl_GetScalingSquare [30000, - 32767, 5] (length [30000 :: int, - 32767, 5]); s = (\<Sum>x\<leftarrow>[30000, - 32767, 5]. sar (x * x) k)
    in WebRtcSpl_Energy [30000, - 32767, 5] = (s, k) \<and> 0 \<le> s \<and> s < 2 ^ 31"
  by (rule energy_exact) (simp_all add: is16_def)

text \<open>With \<open>-32768\<close> the maximum is computed as \<open>-(-32768)\<close> in an \<open>int16_t\<close>, which is negative; no
  scaling is chosen and the sum wraps to a negative energy.\<close>

theorem energy_wraps: "WebRtcSpl_Energy [- 32768, - 32768] = (- 2147483648, 0)"
  by (rule Energy_wraps)

text \<open>C39: \<open>WebRtcSpl_SqrtFloor\<close> returns the integer square root of any non-negative 32-bit value.\<close>

theorem sqrt_floor:
  assumes "0 \<le> v" "v < 2 ^ 31"
  shows "0 \<le> WebRtcSpl_SqrtFloor v \<and> (WebRtcSpl_SqrtFloor v)\<^sup>2 \<le> v \<and> v < (WebRtcSpl_SqrtFloor v + 1)\<^sup>2"
  using SqrtFloor_floor [OF assms] by (simp add: power2_eq_square)

theorem sqrt_floor_witness:
  "0 \<le> WebRtcSpl_SqrtFloor 1000000 \<and> (WebRtcSpl_SqrtFloor 1000000)\<^sup>2 \<le> 1000000 \<and> 1000000 < (WebRtcSpl_SqrtFloor 1000000 + 1)\<^sup>2"
  by (rule sqrt_floor) simp_all

text \<open>\<open>WebRtcSpl_Sqrt\<close>, a Taylor polynomial on a normalised argument, returns for every positive
  32-bit value a number whose square is at most a 64th above the argument, and whose successor's square
  is at most a 64th below it, so that the root is exact to within a 128th and one unit. It is not the integer
  root its header promises. It never exceeds \<open>46340\<close>.\<close>

theorem spl_sqrt:
  assumes "0 < v" "v < 2 ^ 31"
  shows "0 \<le> WebRtcSpl_Sqrt v \<and> WebRtcSpl_Sqrt v \<le> 46340 \<and>
    64 * (WebRtcSpl_Sqrt v)\<^sup>2 \<le> 65 * v \<and> 63 * v \<le> 64 * (WebRtcSpl_Sqrt v + 1)\<^sup>2"
  using Sqrt_close [of v] Sqrt_range(1,2) [of v] assms by (simp add: is32_def)

theorem spl_sqrt_witness:
  "0 \<le> WebRtcSpl_Sqrt 1000000 \<and> WebRtcSpl_Sqrt 1000000 \<le> 46340 \<and>
    64 * (WebRtcSpl_Sqrt 1000000)\<^sup>2 \<le> 65 * 1000000 \<and> 63 * 1000000 \<le> 64 * (WebRtcSpl_Sqrt 1000000 + 1)\<^sup>2"
  by (rule spl_sqrt) simp_all

text \<open>\<open>WebRtcSpl_GetSizeInBits\<close> is the least number of bits that holds a 32-bit value, and
  \<open>WebRtcSpl_NormW32\<close> and \<open>WebRtcSpl_NormU32\<close> are the shifts that bring the leading bit of a positive value to
  the top without overflow.\<close>

theorem normalisation_shifts:
  assumes "0 < a" "a < 4294967296"
  shows "a < 2 ^ WebRtcSpl_GetSizeInBits a \<and> 2 ^ (WebRtcSpl_GetSizeInBits a - 1) \<le> a \<and>
    2 ^ 31 \<le> a * 2 ^ WebRtcSpl_NormU32 a \<and> a * 2 ^ WebRtcSpl_NormU32 a < 2 ^ 32 \<and>
    (a < 2147483648 \<longrightarrow> 2 ^ 30 \<le> a * 2 ^ WebRtcSpl_NormW32 a \<and> a * 2 ^ WebRtcSpl_NormW32 a < 2 ^ 31)"
proof -
  have "isu32 a" using assms by (simp add: isu32_def)
  note s = GetSizeInBits_least [OF this]
  have "WebRtcSpl_GetSizeInBits a \<noteq> 0"
  proof
    assume "WebRtcSpl_GetSizeInBits a = 0"
    then have "a < 1" using s(1) by simp
    then show False using assms(1) by simp
  qed
  then show ?thesis using s NormU32_top [OF assms] NormW32_pos [OF assms(1)] by simp
qed

theorem normalisation_shifts_witness:
  "5000 < (2 :: int) ^ WebRtcSpl_GetSizeInBits 5000 \<and> 2 ^ (WebRtcSpl_GetSizeInBits 5000 - 1) \<le> (5000 :: int) \<and>
    2 ^ 31 \<le> (5000 :: int) * 2 ^ WebRtcSpl_NormU32 5000 \<and> (5000 :: int) * 2 ^ WebRtcSpl_NormU32 5000 < 2 ^ 32 \<and>
    2 ^ 30 \<le> (5000 :: int) * 2 ^ WebRtcSpl_NormW32 5000 \<and> (5000 :: int) * 2 ^ WebRtcSpl_NormW32 5000 < 2 ^ 31"
  using normalisation_shifts [of 5000] by simp

text \<open>C40: The bit-by-bit division \<open>WebRtcSpl_DivResultInQ31\<close> is the truncated quotient in Q31, for
  denominators up to \<open>2 ^ 30\<close>.\<close>

theorem division_q31:
  assumes "\<bar>num\<bar> < \<bar>den\<bar>" "\<bar>den\<bar> \<le> 2 ^ 30"
  shows "WebRtcSpl_DivResultInQ31 num den = (num * 2 ^ 31) sdiv den"
  by (rule DivResultInQ31_quot [OF assms])

theorem division_q31_witness: "WebRtcSpl_DivResultInQ31 (- 3) 7 = (- 3 * 2 ^ 31) sdiv 7"
  by (rule division_q31) simp_all

text \<open>The saturating additions and subtractions return the exact result clamped to the type.\<close>

theorem saturating_arithmetic:
  assumes "is32 a" "is32 b"
  shows "WebRtcSpl_AddSatW32 a b = clamp (- 2147483648) 2147483647 (a + b) \<and>
    WebRtcSpl_SubSatW32 a b = clamp (- 2147483648) 2147483647 (a - b) \<and>
    WebRtcSpl_SatW32ToW16 a = clamp (- 32768) 32767 a"
  using AddSatW32_clamp [OF assms] SubSatW32_clamp [OF assms] SatW32ToW16_clamp by simp

theorem saturating_arithmetic_witness:
  "WebRtcSpl_AddSatW32 2147483647 1 = clamp (- 2147483648) 2147483647 (2147483647 + 1) \<and>
    WebRtcSpl_SubSatW32 2147483647 1 = clamp (- 2147483648) 2147483647 (2147483647 - 1) \<and>
    WebRtcSpl_SatW32ToW16 2147483647 = clamp (- 32768) 32767 2147483647"
  by (rule saturating_arithmetic) (simp_all add: is32_def)

text \<open>The random generator's step is a permutation of its 31-bit seeds, and its uniform samples are non-negative 16-bit values; but the normal samples are only ever
  taken from the first half of the table of 512 entries.\<close>

theorem random_generator:
  "inj_on IncreaseSeed {0..<2147483648} \<and> IncreaseSeed ` {0..<2147483648} \<subseteq> {0..<2147483648} \<and>
   0 \<le> fst (WebRtcSpl_RandU seed) \<and> fst (WebRtcSpl_RandU seed) \<le> 32767 \<and>
   nat (sar (IncreaseSeed seed) 23) < 256"
  using IncreaseSeed_inj IncreaseSeed_range RandU_range RandN_lower_half
  by (auto simp: inj_on_def)

section \<open>The delay estimator\<close>

text \<open>Integers stand in for floats, and a history of four frames.\<close>

definition sample_float :: "int float_ops" where
  "sample_float =
     \<lparr>f_int = (\<lambda>i. i), f_lit = (\<lambda>n d. n div d), f_add = (+), f_sub = (-), f_mul = (*), f_div = (div),
      f_less = (<), f_bits = (\<lambda>x. x), f_of_bits = (\<lambda>x. x)\<rparr>"

definition raw_far :: DelayEstimatorFarend where
  "raw_far = \<lparr>mean_far_spectrum = [], far_spectrum_initialized = 7, far_spectrum_size = 0,
     binary_farend = \<lparr>far_bit_counts = [], binary_far_history = [], far_history_size = 0\<rparr>\<rparr>"

definition raw_near :: "int DelayEstimator" where
  "raw_near = \<lparr>mean_near_spectrum = [], near_spectrum_initialized = 7, near_spectrum_size = 0,
     binary_handle =
       \<lparr>mean_bit_counts = [], bit_counts = [], binary_near_history = [9, 9, 9], near_history_size = 0,
        history_size = 0, minimum_probability = 0, last_delay_probability = 0, last_delay = 0,
        robust_validation_enabled = 0, allowed_offset = 0, last_candidate_delay = 0, compare_delay = 0,
        candidate_hits = 0, histogram = [], last_delay_histogram = 0, lookahead = 0\<rparr>\<rparr>"

definition new_far :: DelayEstimatorFarend where
  "new_far = the (WebRtc_CreateDelayEstimatorFarend True True True True raw_far (\<lambda>n. replicate n 5) 65 4)"

definition new_near :: "int DelayEstimator" where
  "new_near = the (WebRtc_CreateDelayEstimator sample_float True True True True True raw_near (\<lambda>n. replicate n 5) (Some new_far) 2)"

lemma samples_created:
  "WebRtc_CreateDelayEstimatorFarend True True True True raw_far (\<lambda>n. replicate n 5) 65 4 = Some new_far"
  "WebRtc_CreateDelayEstimator sample_float True True True True True raw_near (\<lambda>n. replicate n 5) (Some new_far) 2 = Some new_near"
  by (simp_all add: new_near_def new_far_def WebRtc_CreateDelayEstimatorFarend_def WebRtc_CreateDelayEstimator_def
      WebRtc_CreateBinaryDelayEstimatorFarend_def WebRtc_CreateBinaryDelayEstimator_def kBandLast_def
      WebRtc_AllocateFarendBufferMemory_def WebRtc_AllocateHistoryBufferMemory_def Let_def)



lemma sample_pair: "pair_inv (de_step sample_float (new_far, new_near) EInit)"
  using Create_pair_ok(1) [OF samples_created(1) _ samples_created(2)] by (simp add: raw_near_def sized_pair_def)

text \<open>C22: One near-end frame: with matching arguments the result is the new \<open>last_delay\<close>, either still
  \<open>-2\<close> or an index of the history, never \<open>-1\<close>; otherwise the result is \<open>-1\<close> and the handle is unchanged.\<close>

theorem delay_process:
  assumes "pair_inv (f, s)"
  shows "\<exists>s' r. WebRtc_DelayEstimatorProcessFix F f (Some s) spectrum n q = (Some s', r) \<and> pair_inv (f, s') \<and>
    (if spectrum = None \<or> n \<noteq> near_spectrum_size s \<or> q > 15 then s' = s \<and> r = - 1
     else r = WebRtc_last_delay (Some s') \<and> (r = - 2 \<or> 0 \<le> r \<and> r < WebRtc_history_size f (Some s)))"
proof -
  have h: "WebRtc_history_size f (Some s) = int (history_size (binary_handle s))"
    using assms by (simp add: pair_inv_def WebRtc_history_size_def)
  show ?thesis unfolding h using ProcessFix_ok [OF assms, of F spectrum n q] by (auto split: if_splits)
qed

theorem delay_process_witness:
  "case de_step sample_float (new_far, new_near) EInit of (f, s) \<Rightarrow>
    \<exists>s' r. WebRtc_DelayEstimatorProcessFix sample_float f (Some s) (Some (replicate 65 1000)) 65 15 = (Some s', r) \<and> pair_inv (f, s') \<and>
      (if Some (replicate 65 (1000 :: int)) = None \<or> 65 \<noteq> near_spectrum_size s \<or> (15 :: int) > 15 then s' = s \<and> r = - 1
       else r = WebRtc_last_delay (Some s') \<and> (r = - 2 \<or> 0 \<le> r \<and> r < WebRtc_history_size f (Some s)))"
proof (cases "de_step sample_float (new_far, new_near) EInit")
  case (Pair f s)
  have "pair_inv (f, s)" using sample_pair unfolding Pair .
  from delay_process [OF this, of sample_float "Some (replicate 65 1000)" 65 15] show ?thesis unfolding Pair by simp
qed

text \<open>C28: A binary spectrum is a 32-bit word whose bit \<open>k\<close> tells whether bin \<open>12 + k\<close>, scaled to Q15,
  exceeds its threshold, and the threshold is the old one moved by a 64th of the distance; before the
  first signal it starts from half the bin. The other bins are not touched.\<close>

theorem binary_spectrum:
  assumes "44 \<le> length thresholds" "BinarySpectrumFix spectrum thresholds q init = (out, thresholds', init')"
  shows "0 \<le> out \<and> out < 4294967296 \<and> length thresholds' = length thresholds \<and>
    (\<forall>k. bit out k \<longleftrightarrow> k < 32 \<and> to_q15_bin spectrum q (12 + k) > thresholds' ! (12 + k)) \<and>
    (\<forall>i. thresholds' ! i =
       (if 12 \<le> i \<and> i < 44 then WebRtc_MeanEstimatorFix (to_q15_bin spectrum q i) 6 (start_threshold spectrum q thresholds init i)
        else thresholds ! i))"
  using BinarySpectrumFix_spec [OF assms] by auto

theorem binary_spectrum_witness:
  "case BinarySpectrumFix (map int [0..<65]) (replicate 65 0) 10 0 of (out, thresholds', init') \<Rightarrow>
    0 \<le> out \<and> out < 4294967296 \<and> length thresholds' = length (replicate 65 (0 :: int)) \<and>
    (\<forall>k. bit out k \<longleftrightarrow> k < 32 \<and> to_q15_bin (map int [0..<65]) 10 (12 + k) > thresholds' ! (12 + k)) \<and>
    (\<forall>i. thresholds' ! i =
       (if 12 \<le> i \<and> i < 44 then WebRtc_MeanEstimatorFix (to_q15_bin (map int [0..<65]) 10 i) 6 (start_threshold (map int [0..<65]) 10 (replicate 65 0) 0 i)
        else replicate 65 0 ! i))"
proof (cases "BinarySpectrumFix (map int [0..<65]) (replicate 65 0) 10 0")
  case (fields out thresholds' init')
  have "44 \<le> length (replicate 65 (0 :: int))" by simp
  from binary_spectrum [OF this fields] show ?thesis unfolding fields prod.case .
qed

text \<open>C26: The branch-free \<open>BitCount\<close> is the number of one bits of a 32-bit word.\<close>

theorem bit_count:
  assumes "0 \<le> u" "u < 4294967296"
  shows "BitCount u = (\<Sum>i<32. of_bool (bit u i))"
  by (rule BitCount_bits [OF assms])

theorem bit_count_witness: "BitCount 3735928559 = (\<Sum>i<32. of_bool (bit (3735928559 :: int) i))"
  by (rule bit_count) simp_all

text \<open>C25: After a frame the estimator's \<open>bit_counts\<close> hold, for every delay of the history, the number of
  bands on which the near-end spectrum of \<open>lookahead\<close> frames ago and the far-end spectrum of that delay
  differ; the invariant is kept and the sizes of both histories stay as they are.\<close>

theorem delay_matching:
  assumes "de_inv self" "far_inv far" "far_history_size far = history_size self" "0 \<le> u" "u < 4294967296"
    and "WebRtc_ProcessBinarySpectrum F far self u = (self', d)"
  shows "de_inv self' \<and> d = last_delay self' \<and> history_size self' = history_size self \<and>
    (\<forall>i < history_size self. bit_counts self' ! i =
       BitCount ((u # butlast (binary_near_history self)) ! nat (lookahead self) XOR binary_far_history far ! i))"
proof -
  have "length (binary_far_history far) = history_size self" using assms(2,3) by (simp add: far_inv_def)
  then show ?thesis using Process_ok [OF assms] Process_sizes(1) [of F far self u] assms(6) by simp
qed

theorem delay_matching_witness:
  "case de_step sample_float (new_far, new_near) EInit of (f, s) \<Rightarrow>
     (case WebRtc_ProcessBinarySpectrum sample_float (binary_farend f) (binary_handle s) 77 of (self', d) \<Rightarrow>
        de_inv self' \<and> d = last_delay self' \<and> history_size self' = history_size (binary_handle s) \<and>
        (\<forall>i < history_size (binary_handle s). bit_counts self' ! i =
           BitCount ((77 # butlast (binary_near_history (binary_handle s))) ! nat (lookahead (binary_handle s))
             XOR binary_far_history (binary_farend f) ! i)))"
proof (cases "de_step sample_float (new_far, new_near) EInit")
  case (Pair f s)
  have "pair_inv (f, s)" using sample_pair unfolding Pair .
  then have i: "de_inv (binary_handle s)" "far_inv (binary_farend f)"
    "far_history_size (binary_farend f) = history_size (binary_handle s)"
    by (simp_all add: pair_inv_def nearend_inv_def farend_inv_def)
  obtain self' d where p: "WebRtc_ProcessBinarySpectrum sample_float (binary_farend f) (binary_handle s) 77 = (self', d)"
    by (rule prod.exhaust)
  from delay_matching [OF i _ _ p] show ?thesis unfolding Pair p prod.case by simp
qed

text \<open>C27: The candidate delay is the first index with the smallest smoothed count; the smoothed counts
  lie in \<open>[0, 16384)\<close>, so there always is one, and all of them lie between the best and the worst value.\<close>

theorem candidate_delay:
  assumes "\<forall>c\<in>set fc. 0 \<le> c \<and> c \<le> 32" "\<forall>b\<in>set bc. 0 \<le> b \<and> b \<le> 32" "\<forall>m\<in>set ms. 0 \<le> m \<and> m < kMaxBitCountsQ9"
    and "ms \<noteq> []" "length fc = length ms" "length bc = length ms"
    and "find_candidate (smooth_counts fc bc ms) = (c, best, worst)"
  shows "0 \<le> c \<and> c < int (length ms) \<and> best = smooth_counts fc bc ms ! nat c \<and>
    (\<forall>i<nat c. best < smooth_counts fc bc ms ! i) \<and>
    (\<forall>m\<in>set (smooth_counts fc bc ms). best \<le> m \<and> m \<le> worst \<and> 0 \<le> m \<and> m < kMaxBitCountsQ9)"
proof -
  have r: "\<forall>m\<in>set (smooth_counts fc bc ms). 0 \<le> m \<and> m < 16384"
    using assms(3) by (intro smooth_counts_range [OF assms(1,2)]) (simp add: kMaxBitCountsQ9_def)
  have l: "length (smooth_counts fc bc ms) = length ms" using assms(5,6) by simp
  then have "smooth_counts fc bc ms \<noteq> []" using assms(4) by (metis length_0_conv)
  from find_candidate_spec [OF r this assms(7)] show ?thesis using r unfolding l kMaxBitCountsQ9_def by fast
qed

theorem candidate_delay_witness:
  "case find_candidate (smooth_counts [16, 0, 32] [20, 3, 5] [10240, 9000, 10240]) of (c, best, worst) \<Rightarrow>
    0 \<le> c \<and> c < int (length [10240 :: int, 9000, 10240]) \<and> best = smooth_counts [16, 0, 32] [20, 3, 5] [10240, 9000, 10240] ! nat c \<and>
    (\<forall>i<nat c. best < smooth_counts [16, 0, 32] [20, 3, 5] [10240, 9000, 10240] ! i) \<and>
    (\<forall>m\<in>set (smooth_counts [16, 0, 32] [20, 3, 5] [10240, 9000, 10240]). best \<le> m \<and> m \<le> worst \<and> 0 \<le> m \<and> m < kMaxBitCountsQ9)"
proof (cases "find_candidate (smooth_counts [16, 0, 32] [20, 3, 5] [10240, 9000, 10240])")
  case (fields c best worst)
  show ?thesis unfolding fields prod.case
    by (rule candidate_delay [OF _ _ _ _ _ _ fields]) (simp_all add: kMaxBitCountsQ9_def)
qed

text \<open>\<open>WebRtc_set_history_size\<close> with a smaller size shortens the histogram but keeps
  \<open>compare_delay\<close> and \<open>last_delay\<close>, so the index into the histogram that the next frame reads may lie
  behind its end.\<close>

theorem history_size_shrink:
  assumes "nearend_inv s" "1 < k" "k < compare_delay (binary_handle s)"
    and "WebRtc_set_history_size F True True jm jh f (Some s) k = (f', Some s', r)"
  shows "r = k \<and> length (histogram (binary_handle s')) \<le> nat (compare_delay (binary_handle s')) \<and>
    last_delay (binary_handle s') = last_delay (binary_handle s)"
proof -
  have "compare_delay (binary_handle s) \<le> int (history_size (binary_handle s))"
    using assms(1) by (simp add: nearend_inv_def de_inv_def)
  then have "nat k \<le> history_size (binary_handle s)" using assms(3) by linarith
  from set_history_size_shrinks [OF assms(1,2) this assms(4)] show ?thesis using assms(2,3) by simp
qed

theorem history_size_shrink_witness:
  "case de_step sample_float (new_far, new_near) EInit of (f, s) \<Rightarrow>
    \<exists>f' s' r. WebRtc_set_history_size sample_float True True 0 0 f (Some s) 2 = (f', Some s', r) \<and>
      r = 2 \<and> length (histogram (binary_handle s')) \<le> nat (compare_delay (binary_handle s')) \<and>
      last_delay (binary_handle s') = last_delay (binary_handle s)"
proof (cases "de_step sample_float (new_far, new_near) EInit")
  case (Pair f s)
  have i: "nearend_inv s" using sample_pair unfolding Pair by (simp add: pair_inv_def)
  have c: "2 < compare_delay (binary_handle s)"
    using Pair by (auto simp: de_step_def WebRtc_InitDelayEstimator_def WebRtc_InitBinaryDelayEstimator_def
        new_near_def new_far_def WebRtc_CreateDelayEstimatorFarend_def WebRtc_CreateDelayEstimator_def
        WebRtc_CreateBinaryDelayEstimatorFarend_def WebRtc_CreateBinaryDelayEstimator_def kBandLast_def
        WebRtc_AllocateFarendBufferMemory_def WebRtc_AllocateHistoryBufferMemory_def Let_def)
  obtain f' s' r where w: "WebRtc_set_history_size sample_float True True 0 0 f (Some s) 2 = (f', Some s', r)"
    by (auto simp: WebRtc_set_history_size_def split_beta Let_def)
  from history_size_shrink [OF i _ c w] show ?thesis unfolding Pair prod.case using w by simp
qed

text \<open>\<open>WebRtc_CreateDelayEstimatorFarend\<close> accepts spectra of 43 bins, one less than the code reads:
  bin \<open>kBandLast\<close> is outside the array it allocates.\<close>

theorem create_accepts_43:
  assumes "1 < hsize" "\<And>n. length (raw_spectrum n) = n"
  shows "\<exists>f. WebRtc_CreateDelayEstimatorFarend True True True True raw raw_spectrum 43 hsize = Some f \<and>
    length (mean_far_spectrum f) \<le> kBandLast"
  using assms by (simp add: WebRtc_CreateDelayEstimatorFarend_def WebRtc_CreateBinaryDelayEstimatorFarend_def
      WebRtc_AllocateFarendBufferMemory_def kBandLast_def)

theorem create_accepts_43_witness:
  "\<exists>f. WebRtc_CreateDelayEstimatorFarend True True True True raw_far (\<lambda>n. replicate n 5) 43 4 = Some f \<and>
    length (mean_far_spectrum f) \<le> kBandLast"
  by (rule create_accepts_43) simp_all

end
